(* ===== verification/Prelude.thy ===== *)
theory Prelude
  imports
    Complex_Main
    "HOL-Library.List_Lexorder"
    "HOL-Library.Product_Lexorder"
    "HOL-Library.Char_ord"
    "HOL-Library.Sublist"
    "HOL-Library.Multiset"
begin

text \<open>
  What every component shares: Python strings, dictionaries, loosely typed values, exceptions,
  decimal rounding and stable sorting, with the lemmas the component proofs rest on.

  Conventions. A Python string is a list of characters, one character per code point; code
  points are those below 256. A \<open>dict\<close> is an association list in insertion order whose keys
  are distinct. A Python \<open>float\<close> is an exact rational: comparisons and the clamping done by the
  code are modelled exactly, binary rounding and NaN are not. An exception is a class with the
  text \<open>str(exc)\<close>, and a fallible operation returns \<open>exn + 'a\<close>.
\<close>

named_theorems dict_simps \<open>how lookups and key lists behave under dictionary updates\<close>
named_theorems text_simps \<open>facts on Python string operations\<close>

section \<open>Strings\<close>

type_synonym str = string

definition is_space :: "char \<Rightarrow> bool" where
  "is_space c \<longleftrightarrow> (let n = (of_char c :: nat) in
     (9 \<le> n \<and> n \<le> 13) \<or> (28 \<le> n \<and> n \<le> 32) \<or> n = 133 \<or> n = 160)"

definition is_digit :: "char \<Rightarrow> bool" where
  "is_digit c \<longleftrightarrow> (let n = (of_char c :: nat) in 48 \<le> n \<and> n \<le> 57)"

definition is_lower_az :: "char \<Rightarrow> bool" where
  "is_lower_az c \<longleftrightarrow> (let n = (of_char c :: nat) in 97 \<le> n \<and> n \<le> 122)"

definition is_upper_az :: "char \<Rightarrow> bool" where
  "is_upper_az c \<longleftrightarrow> (let n = (of_char c :: nat) in 65 \<le> n \<and> n \<le> 90)"

definition lower_char :: "char \<Rightarrow> char" where
  "lower_char c = (let n = (of_char c :: nat) in
     if (65 \<le> n \<and> n \<le> 90) \<or> (192 \<le> n \<and> n \<le> 222 \<and> n \<noteq> 215) then char_of (n + 32) else c)"

text \<open>The same on the bits of a character, for evaluation.\<close>

lemma is_digit_code [code]: "is_digit (Char b0 b1 b2 b3 b4 b5 b6 b7) \<longleftrightarrow> \<not> b7 \<and> \<not> b6 \<and> b5 \<and> b4 \<and> \<not> (b3 \<and> (b2 \<or> b1))"
  by (cases b0; cases b1; cases b2; cases b3; cases b4; cases b5; cases b6; cases b7) (simp_all add: is_digit_def)

lemma is_lower_az_code [code]: "is_lower_az (Char b0 b1 b2 b3 b4 b5 b6 b7) \<longleftrightarrow>
    \<not> b7 \<and> b6 \<and> b5 \<and> (b4 \<or> b3 \<or> b2 \<or> b1 \<or> b0) \<and> \<not> (b4 \<and> b3 \<and> (b2 \<or> b1 \<and> b0))"
  by (cases b0; cases b1; cases b2; cases b3; cases b4; cases b5; cases b6; cases b7) (simp_all add: is_lower_az_def)

lemma is_upper_az_code [code]: "is_upper_az (Char b0 b1 b2 b3 b4 b5 b6 b7) \<longleftrightarrow>
    \<not> b7 \<and> b6 \<and> \<not> b5 \<and> (b4 \<or> b3 \<or> b2 \<or> b1 \<or> b0) \<and> \<not> (b4 \<and> b3 \<and> (b2 \<or> b1 \<and> b0))"
  by (cases b0; cases b1; cases b2; cases b3; cases b4; cases b5; cases b6; cases b7) (simp_all add: is_upper_az_def)

lemma is_space_code [code]: "is_space (Char b0 b1 b2 b3 b4 b5 b6 b7) \<longleftrightarrow> \<not> b6 \<and>
    (\<not> b7 \<and> \<not> b5 \<and> (\<not> b4 \<and> b3 \<and> (b2 \<or> b1 \<or> b0) \<and> \<not> (b2 \<and> b1) \<or> b4 \<and> b3 \<and> b2) \<or>
     b5 \<and> \<not> b4 \<and> \<not> b3 \<and> \<not> b2 \<and> \<not> b1 \<and> \<not> b0 \<or> b7 \<and> \<not> b5 \<and> \<not> b4 \<and> \<not> b3 \<and> b2 \<and> \<not> b1 \<and> b0)"
  by (cases b0; cases b1; cases b2; cases b3; cases b4; cases b5; cases b6; cases b7) (simp_all add: is_space_def)

lemma lower_char_code [code]: "lower_char (Char b0 b1 b2 b3 b4 b5 b6 b7) = (if b6 \<and> \<not> b5 \<and>
    (if b7 then \<not> (b4 \<and> b2 \<and> b1 \<and> b0) else (b4 \<or> b3 \<or> b2 \<or> b1 \<or> b0) \<and> \<not> (b4 \<and> b3 \<and> (b2 \<or> b1 \<and> b0)))
    then Char b0 b1 b2 b3 b4 True b6 b7 else Char b0 b1 b2 b3 b4 b5 b6 b7)"
  by (cases b0; cases b1; cases b2; cases b3; cases b4; cases b5; cases b6; cases b7) (simp_all add: lower_char_def char_of_def bit_0)

definition lower :: "str \<Rightarrow> str" where
  "lower s = map lower_char s"

definition lstrip_by :: "(char \<Rightarrow> bool) \<Rightarrow> str \<Rightarrow> str" where
  "lstrip_by p s = dropWhile p s"

definition rstrip_by :: "(char \<Rightarrow> bool) \<Rightarrow> str \<Rightarrow> str" where
  "rstrip_by p s = rev (dropWhile p (rev s))"

definition strip_by :: "(char \<Rightarrow> bool) \<Rightarrow> str \<Rightarrow> str" where
  "strip_by p s = rstrip_by p (lstrip_by p s)"

definition rstrip :: "str \<Rightarrow> str" where
  "rstrip s = rstrip_by is_space s"

definition strip :: "str \<Rightarrow> str" where
  "strip s = strip_by is_space s"

text \<open>\<open>sub in s\<close>.\<close>

fun contains :: "str \<Rightarrow> str \<Rightarrow> bool" where
  "contains p [] = (p = [])"
| "contains p (c # s) = (prefix p (c # s) \<or> contains p s)"

fun join :: "str \<Rightarrow> str list \<Rightarrow> str" where
  "join sep [] = []"
| "join sep [x] = x"
| "join sep (x # y # ys) = x @ sep @ join sep (y # ys)"

text \<open>\<open>s.split()\<close>: maximal runs of non-space characters.\<close>

fun split_ws_aux :: "str \<Rightarrow> str \<Rightarrow> str list" where
  "split_ws_aux [] acc = (if acc = [] then [] else [rev acc])"
| "split_ws_aux (c # s) acc =
     (if is_space c then (if acc = [] then split_ws_aux s [] else rev acc # split_ws_aux s [])
      else split_ws_aux s (c # acc))"

definition split_ws :: "str \<Rightarrow> str list" where
  "split_ws s = split_ws_aux s []"

text \<open>\<open>s.split(c)\<close> for a one-character separator.\<close>

fun split_on :: "char \<Rightarrow> str \<Rightarrow> str list" where
  "split_on d [] = [[]]"
| "split_on d (c # s) =
     (if c = d then [] # split_on d s
      else (case split_on d s of [] \<Rightarrow> [[c]] | w # ws \<Rightarrow> (c # w) # ws))"

fun nat_text :: "nat \<Rightarrow> str" where
  "nat_text n = (if n < 10 then [char_of (48 + n)] else nat_text (n div 10) @ [char_of (48 + n mod 10)])"

declare nat_text.simps [simp del]

definition int_text :: "int \<Rightarrow> str" where
  "int_text i = (if i < 0 then CHR ''-'' # nat_text (nat (- i)) else nat_text (nat i))"

text \<open>\<open>int(s)\<close> on a string: surrounding space, a sign, digits with single underscores between
  them; anything else raises \<open>ValueError\<close> (here \<open>None\<close>).\<close>

definition digit_val :: "char \<Rightarrow> nat" where
  "digit_val c = (of_char c :: nat) - 48"

fun parse_digits :: "nat \<Rightarrow> bool \<Rightarrow> str \<Rightarrow> nat option" where
  "parse_digits acc after_digit [] = (if after_digit then Some acc else None)"
| "parse_digits acc after_digit (c # s) =
     (if is_digit c then parse_digits (10 * acc + digit_val c) True s
      else if c = CHR ''_'' \<and> after_digit \<and> s \<noteq> [] then parse_digits acc False s
      else None)"

definition parse_int :: "str \<Rightarrow> int option" where
  "parse_int s = (case strip s of [] \<Rightarrow> None
     | c # r \<Rightarrow> if c = CHR ''-'' then map_option (\<lambda>n. - int n) (parse_digits 0 False r)
               else if c = CHR ''+'' then map_option int (parse_digits 0 False r)
               else map_option int (parse_digits 0 False (c # r)))"

text \<open>\<open>json.dumps\<close> of a string, with the default \<open>ensure_ascii\<close>.\<close>

definition hex_digit :: "nat \<Rightarrow> char" where
  "hex_digit n = (if n < 10 then char_of (48 + n) else char_of (87 + n))"

fun hex_text :: "nat \<Rightarrow> str" where
  "hex_text n = (if n < 16 then [hex_digit n] else hex_text (n div 16) @ [hex_digit (n mod 16)])"

declare hex_text.simps [simp del]

text \<open>\<open>f"{n:0wx}"\<close> and \<open>bytes.hex()\<close>.\<close>

definition hex_padded :: "nat \<Rightarrow> nat \<Rightarrow> str" where
  "hex_padded w n = replicate (w - length (hex_text n)) (CHR ''0'') @ hex_text n"

definition bytes_hex :: "str \<Rightarrow> str" where
  "bytes_hex s = concat (map (\<lambda>c. let n = (of_char c :: nat) in [hex_digit (n div 16), hex_digit (n mod 16)]) s)"

definition hex_digit_val :: "char \<Rightarrow> nat" where
  "hex_digit_val c = (let n = (of_char c :: nat) in if n < 58 then n - 48 else n - 87)"

definition hex_value :: "str \<Rightarrow> nat" where
  "hex_value s = foldl (\<lambda>n c. 16 * n + hex_digit_val c) 0 s"

lemma hex_digit_val [simp]: "n < 16 \<Longrightarrow> hex_digit_val (hex_digit n) = n"
  by (auto simp: hex_digit_val_def hex_digit_def Let_def)

lemma hex_value_text: "hex_value (hex_text n) = n"
proof (induction n rule: hex_text.induct)
  case (1 n)
  then show ?case by (subst hex_text.simps) (auto simp: hex_value_def)
qed

lemma hex_value_padded [simp]: "hex_value (hex_padded w n) = n"
proof -
  have "foldl (\<lambda>n c. 16 * n + hex_digit_val c) 0 (replicate k (CHR ''0'')) = (0 :: nat)" for k
    by (induction k) (simp_all add: hex_digit_val_def)
  then show ?thesis using hex_value_text[of n] by (simp add: hex_value_def hex_padded_def)
qed

lemma hex_text_not_Nil [simp]: "hex_text n \<noteq> []"
  by (subst hex_text.simps) simp

lemma hex_padded_not_Nil [simp]: "hex_padded w n \<noteq> []"
  by (simp add: hex_padded_def)

lemma hex_padded_inject [simp]: "hex_padded w m = hex_padded w n \<longleftrightarrow> m = n"
  by (metis hex_value_padded)

definition ends_with :: "str \<Rightarrow> str \<Rightarrow> bool" where
  "ends_with e s \<longleftrightarrow> suffix e s"

text \<open>The decimal literals of \<open>float(s)\<close>: a sign, digits with an optional fraction, an optional
  exponent. Infinities and NaN have no value here.\<close>

definition digits_value :: "str \<Rightarrow> nat" where
  "digits_value s = foldl (\<lambda>n c. 10 * n + digit_val c) 0 s"

lemma digit_val_char [simp]: "n < 10 \<Longrightarrow> digit_val (char_of (48 + n)) = n"
  by (simp add: digit_val_def)

lemma digits_value_nat_text [simp]: "digits_value (nat_text n) = n"
proof (induction n rule: nat_text.induct)
  case (1 n)
  then show ?case by (subst nat_text.simps) (auto simp: digits_value_def)
qed

lemma nat_text_inject [simp]: "nat_text m = nat_text n \<longleftrightarrow> m = n"
  by (metis digits_value_nat_text)

definition parse_unsigned_float :: "str \<Rightarrow> rat option" where
  "parse_unsigned_float s =
     (let whole = takeWhile is_digit s; r = dropWhile is_digit s;
          (frac, r2) = (case r of [] \<Rightarrow> ([], [])
             | c # t \<Rightarrow> if c = CHR ''.'' then (takeWhile is_digit t, dropWhile is_digit t) else ([], r));
          base = (of_nat (digits_value (whole @ frac)) / 10 ^ length frac :: rat)
      in if whole = [] \<and> frac = [] then None
         else case r2 of [] \<Rightarrow> Some base
           | c # t \<Rightarrow>
               if c = CHR ''e'' \<or> c = CHR ''E''
               then (case t of [] \<Rightarrow> None
                 | d # u \<Rightarrow>
                   (let digs = (if d = CHR ''-'' \<or> d = CHR ''+'' then u else t)
                    in if digs = [] \<or> \<not> list_all is_digit digs then None
                       else if d = CHR ''-'' then Some (base / 10 ^ digits_value digs)
                       else Some (base * 10 ^ digits_value digs)))
               else None)"

definition parse_float :: "str \<Rightarrow> rat option" where
  "parse_float s = (case strip s of [] \<Rightarrow> None
     | c # r \<Rightarrow> if c = CHR ''-'' then map_option uminus (parse_unsigned_float r)
               else if c = CHR ''+'' then parse_unsigned_float r
               else parse_unsigned_float (c # r))"

definition json_char :: "char \<Rightarrow> str" where
  "json_char c = (let n = (of_char c :: nat) in
     if n = 34 then [char_of (92 :: nat), char_of (34 :: nat)]
     else if n = 92 then [char_of (92 :: nat), char_of (92 :: nat)]
     else if n = 8 then char_of (92 :: nat) # ''b''
     else if n = 9 then char_of (92 :: nat) # ''t''
     else if n = 10 then char_of (92 :: nat) # ''n''
     else if n = 12 then char_of (92 :: nat) # ''f''
     else if n = 13 then char_of (92 :: nat) # ''r''
     else if n < 32 \<or> 126 < n then char_of (92 :: nat) # ''u00'' @ [hex_digit (n div 16), hex_digit (n mod 16)]
     else [c])"

definition json_text :: "str \<Rightarrow> str" where
  "json_text s = char_of (34 :: nat) # concat (map json_char s) @ [char_of (34 :: nat)]"

fun json_opt_text :: "str option \<Rightarrow> str" where
  "json_opt_text None = ''null''"
| "json_opt_text (Some s) = json_text s"

lemma lstrip_by_empty [text_simps]: "lstrip_by p [] = []"
  by (simp add: lstrip_by_def)

lemma rstrip_by_empty [text_simps]: "rstrip_by p [] = []"
  by (simp add: rstrip_by_def)

lemma rstrip_by_eq_Nil: "rstrip_by p s = [] \<longleftrightarrow> (\<forall>c \<in> set s. p c)"
  by (simp add: rstrip_by_def dropWhile_eq_Nil_conv)

lemma all_dropWhile: "(\<forall>c \<in> set (dropWhile p s). p c) \<longleftrightarrow> (\<forall>c \<in> set s. p c)"
  by (induction s) simp_all

lemma strip_by_eq_Nil: "strip_by p s = [] \<longleftrightarrow> (\<forall>c \<in> set s. p c)"
  unfolding strip_by_def rstrip_by_eq_Nil lstrip_by_def by (rule all_dropWhile)

lemma strip_eq_Nil [text_simps]: "strip s = [] \<longleftrightarrow> (\<forall>c \<in> set s. is_space c)"
  by (simp add: strip_def strip_by_eq_Nil)

lemma strip_empty [text_simps]: "strip [] = []"
  by (simp add: strip_eq_Nil)

lemma set_rstrip_by: "set (rstrip_by p s) \<subseteq> set s"
  using set_dropWhileD by (fastforce simp: rstrip_by_def)

lemma set_strip_by: "set (strip_by p s) \<subseteq> set s"
  using set_rstrip_by[of p "lstrip_by p s"] set_dropWhileD
  unfolding strip_by_def lstrip_by_def by fast

lemma last_rstrip_by: "rstrip_by p s \<noteq> [] \<Longrightarrow> \<not> p (last (rstrip_by p s))"
  by (simp add: rstrip_by_def last_rev hd_dropWhile)

lemma hd_strip_by: "strip_by p s \<noteq> [] \<Longrightarrow> \<not> p (hd (strip_by p s))"
proof -
  assume ne: "strip_by p s \<noteq> []"
  let ?d = "dropWhile p s"
  have "\<exists>zs. ?d = rstrip_by p ?d @ zs"
    unfolding rstrip_by_def
    by (metis rev_append rev_rev_ident takeWhile_dropWhile_id)
  then obtain zs where zs: "?d = rstrip_by p ?d @ zs" by blast
  from ne have ne': "rstrip_by p ?d \<noteq> []" unfolding strip_by_def lstrip_by_def .
  then have "hd (rstrip_by p ?d) = hd ?d" using zs by (metis hd_append2)
  moreover from ne' have "?d \<noteq> []" by (metis rstrip_by_empty)
  ultimately show ?thesis unfolding strip_by_def lstrip_by_def using hd_dropWhile by metis
qed

lemma rstrip_by_id: "s \<noteq> [] \<Longrightarrow> \<not> p (last s) \<Longrightarrow> rstrip_by p s = s"
  by (cases s rule: rev_cases) (auto simp: rstrip_by_def)

lemma strip_by_id: "s \<noteq> [] \<Longrightarrow> \<not> p (hd s) \<Longrightarrow> \<not> p (last s) \<Longrightarrow> strip_by p s = s"
  by (cases s) (auto simp: strip_by_def lstrip_by_def rstrip_by_id)

lemma strip_by_idem [simp]: "strip_by p (strip_by p s) = strip_by p s"
proof (cases "strip_by p s = []")
  case True
  then show ?thesis by (simp only: True) (simp add: strip_by_eq_Nil)
next
  case False
  moreover have "\<not> p (last (strip_by p s))"
    using False last_rstrip_by[of p "lstrip_by p s"] by (simp add: strip_by_def)
  ultimately show ?thesis using hd_strip_by by (intro strip_by_id) auto
qed

lemma strip_idem [simp]: "strip (strip s) = strip s"
  by (simp add: strip_def)

lemma contains_iff: "contains p s \<longleftrightarrow> (\<exists>a b. s = a @ p @ b)"
proof (induction s)
  case Nil
  then show ?case by auto
next
  case (Cons c s)
  have "(\<exists>a b. c # s = a @ p @ b) \<longleftrightarrow> (\<exists>b. c # s = p @ b) \<or> (\<exists>a b. s = a @ p @ b)"
  proof
    assume "\<exists>a b. c # s = a @ p @ b"
    then obtain a b where "c # s = a @ p @ b" by blast
    then show "(\<exists>b. c # s = p @ b) \<or> (\<exists>a b. s = a @ p @ b)"
      by (cases a) auto
  next
    assume "(\<exists>b. c # s = p @ b) \<or> (\<exists>a b. s = a @ p @ b)"
    then show "\<exists>a b. c # s = a @ p @ b"
      by (metis append_Cons append_Nil)
  qed
  with Cons.IH show ?case by (simp add: prefix_def)
qed

lemma split_ws_aux_no_space: "\<forall>c \<in> set acc. \<not> is_space c \<Longrightarrow>
    w \<in> set (split_ws_aux s acc) \<Longrightarrow> w \<noteq> [] \<and> (\<forall>c \<in> set w. \<not> is_space c)"
proof (induction s acc arbitrary: w rule: split_ws_aux.induct)
  case (1 acc)
  then show ?case by (simp split: if_splits)
next
  case (2 c s acc)
  show ?case
  proof (cases "is_space c")
    case False
    with "2.prems" have "\<forall>d \<in> set (c # acc). \<not> is_space d" "w \<in> set (split_ws_aux s (c # acc))"
      by simp_all
    then show ?thesis by (rule "2.IH"(3) [OF False])
  next
    case True
    have nil: "\<forall>d \<in> set []. \<not> is_space d" by simp
    from True "2.prems"(2) have "acc \<noteq> [] \<and> w = rev acc \<or> w \<in> set (split_ws_aux s [])"
      by (simp split: if_splits)
    then show ?thesis
    proof
      assume "acc \<noteq> [] \<and> w = rev acc"
      with "2.prems"(1) show ?thesis by simp
    next
      assume w: "w \<in> set (split_ws_aux s [])"
      show ?thesis
        by (cases "acc = []") (use "2.IH"(1,2) [OF True _ nil w] in blast)+
    qed
  qed
qed

lemma split_ws_word: "w \<in> set (split_ws s) \<Longrightarrow> w \<noteq> [] \<and> (\<forall>c \<in> set w. \<not> is_space c)"
  using split_ws_aux_no_space[of "[]" w s] by (simp add: split_ws_def)

section \<open>Exceptions and results\<close>

datatype exn_class =
    TimeoutError | ConnectionError | OSError
  | HttpxTransportError | HttpStatusError int
  | OpenAITransientError
  | ValueError | TypeError | KeyError | RuntimeError | ValidationError
  | UnsafeSQLError
  | OtherException str

type_synonym exn = "exn_class \<times> str"
type_synonym 'a result = "exn + 'a"

abbreviation exn_message :: "exn \<Rightarrow> str" where
  "exn_message e \<equiv> snd e"

fun exn_type_name :: "exn_class \<Rightarrow> str" where
  "exn_type_name TimeoutError = ''TimeoutError''"
| "exn_type_name ConnectionError = ''ConnectionError''"
| "exn_type_name OSError = ''OSError''"
| "exn_type_name HttpxTransportError = ''TransportError''"
| "exn_type_name (HttpStatusError _) = ''HTTPStatusError''"
| "exn_type_name OpenAITransientError = ''APIConnectionError''"
| "exn_type_name ValueError = ''ValueError''"
| "exn_type_name TypeError = ''TypeError''"
| "exn_type_name KeyError = ''KeyError''"
| "exn_type_name RuntimeError = ''RuntimeError''"
| "exn_type_name ValidationError = ''ValidationError''"
| "exn_type_name UnsafeSQLError = ''UnsafeSQLError''"
| "exn_type_name (OtherException n) = n"

definition rbind :: "'e + 'a \<Rightarrow> ('a \<Rightarrow> 'e + 'b) \<Rightarrow> 'e + 'b" where
  "rbind r f = (case r of Inl e \<Rightarrow> Inl e | Inr x \<Rightarrow> f x)"

lemma rbind_simps [simp]: "rbind (Inl e) f = Inl e" "rbind (Inr x) f = f x"
  by (simp_all add: rbind_def)

lemma rbind_eq_Inr: "rbind r f = Inr y \<longleftrightarrow> (\<exists>x. r = Inr x \<and> f x = Inr y)"
  by (cases r) auto

lemma rbind_eq_Inl: "rbind r f = Inl e \<longleftrightarrow> r = Inl e \<or> (\<exists>x. r = Inr x \<and> f x = Inl e)"
  by (cases r) auto

lemma map_sum_eq_Inr: "map_sum f g r = Inr y \<longleftrightarrow> (\<exists>x. r = Inr x \<and> y = g x)"
  by (cases r) auto

section \<open>Dictionaries\<close>

type_synonym 'v dict = "(str \<times> 'v) list"

fun dict_set :: "'k \<Rightarrow> 'v \<Rightarrow> ('k \<times> 'v) list \<Rightarrow> ('k \<times> 'v) list" where
  "dict_set k v [] = [(k, v)]"
| "dict_set k v ((k', v') # d) = (if k' = k then (k, v) # d else (k', v') # dict_set k v d)"

definition dict_setdefault :: "'k \<Rightarrow> 'v \<Rightarrow> ('k \<times> 'v) list \<Rightarrow> ('k \<times> 'v) list" where
  "dict_setdefault k v d = (if k \<in> fst ` set d then d else d @ [(k, v)])"

definition dict_pop :: "'k \<Rightarrow> ('k \<times> 'v) list \<Rightarrow> ('k \<times> 'v) list" where
  "dict_pop k d = filter (\<lambda>p. fst p \<noteq> k) d"

definition dict_update :: "('k \<times> 'v) list \<Rightarrow> ('k \<times> 'v) list \<Rightarrow> ('k \<times> 'v) list" where
  "dict_update d e = fold (\<lambda>(k, v). dict_set k v) e d"

abbreviation dict_keys :: "('k \<times> 'v) list \<Rightarrow> 'k list" where
  "dict_keys d \<equiv> map fst d"

lemma map_of_dict_set [dict_simps, simp]: "map_of (dict_set k v d) = (map_of d)(k \<mapsto> v)"
  by (induction k v d rule: dict_set.induct) (auto simp: fun_eq_iff)

lemma set_keys_dict_set [dict_simps, simp]: "fst ` set (dict_set k v d) = insert k (fst ` set d)"
  by (induction k v d rule: dict_set.induct) auto

lemma keys_dict_set:
  "dict_keys (dict_set k v d) = (if k \<in> fst ` set d then dict_keys d else dict_keys d @ [k])"
  by (induction k v d rule: dict_set.induct) auto

lemma distinct_dict_set [simp]: "distinct (dict_keys d) \<Longrightarrow> distinct (dict_keys (dict_set k v d))"
  by (simp add: keys_dict_set)

lemma map_of_dict_setdefault [dict_simps]:
  "map_of (dict_setdefault k v d) = (if k \<in> fst ` set d then map_of d else (map_of d)(k \<mapsto> v))"
  by (simp add: dict_setdefault_def fun_eq_iff map_add_def map_of_eq_None_iff
      split: option.splits) (metis map_of_eq_None_iff option.distinct(1))

lemma distinct_dict_setdefault [simp]:
  "distinct (dict_keys d) \<Longrightarrow> distinct (dict_keys (dict_setdefault k v d))"
  by (simp add: dict_setdefault_def)

lemma map_of_dict_pop [dict_simps]: "map_of (dict_pop k d) = (map_of d)(k := None)"
  by (induction d) (auto simp: dict_pop_def fun_eq_iff)

lemma distinct_dict_pop [simp]: "distinct (dict_keys d) \<Longrightarrow> distinct (dict_keys (dict_pop k d))"
  by (induction d) (auto simp: dict_pop_def)

lemma distinct_dict_update: "distinct (dict_keys d) \<Longrightarrow> distinct (dict_keys (dict_update d e))"
  by (induction e arbitrary: d) (auto simp: dict_update_def)

lemma map_of_dict_update [dict_simps]: "map_of (dict_update d e) = map_of d ++ map_of (rev e)"
proof (induction e arbitrary: d)
  case Nil
  then show ?case by (simp add: dict_update_def)
next
  case (Cons p e)
  obtain k v where p: "p = (k, v)" by fastforce
  have "map_of (dict_update d (p # e)) = map_of (dict_update (dict_set k v d) e)"
    by (simp add: dict_update_def p)
  then show ?case by (simp add: Cons.IH p map_add_def fun_eq_iff split: option.splits)
qed

text \<open>Items grouped by a key, as a \<open>defaultdict(list)\<close> collects them: keys in the order in which they are first seen.\<close>

definition dict_group :: "('a \<Rightarrow> 'k) \<Rightarrow> 'a list \<Rightarrow> ('k \<times> 'a list) list" where
  "dict_group f xs = fold (\<lambda>x d. dict_set (f x) ((case map_of d (f x) of None \<Rightarrow> [] | Some ys \<Rightarrow> ys) @ [x]) d) xs []"

lemma map_of_dict_group: "map_of (dict_group f xs) k = (if k \<in> f ` set xs then Some (filter (\<lambda>x. f x = k) xs) else None)"
proof -
  have "map_of (fold (\<lambda>x d. dict_set (f x) ((case map_of d (f x) of None \<Rightarrow> [] | Some ys \<Rightarrow> ys) @ [x]) d) xs d) k =
      (if k \<in> f ` set xs then Some ((case map_of d k of None \<Rightarrow> [] | Some ys \<Rightarrow> ys) @ filter (\<lambda>x. f x = k) xs) else map_of d k)" for d
    by (induction xs arbitrary: d) (auto simp: empty_filter_conv filter_empty_conv image_iff)
  from this [of "[]"] show ?thesis by (simp add: dict_group_def)
qed

lemma distinct_dict_group: "distinct (dict_keys (dict_group f xs))"
proof -
  have "distinct (dict_keys d) \<Longrightarrow>
    distinct (dict_keys (fold (\<lambda>x d. dict_set (f x) ((case map_of d (f x) of None \<Rightarrow> [] | Some ys \<Rightarrow> ys) @ [x]) d) xs d))" for d
    by (induction xs arbitrary: d) auto
  from this [of "[]"] show ?thesis by (simp add: dict_group_def)
qed

lemma set_dict_group: "(k, ys) \<in> set (dict_group f xs) \<longleftrightarrow> k \<in> f ` set xs \<and> ys = filter (\<lambda>x. f x = k) xs"
  using map_of_dict_group [of f xs k] map_of_eq_Some_iff [OF distinct_dict_group, of f xs k ys] by (auto split: if_splits)

lemma keys_dict_group: "set (dict_keys (dict_group f xs)) = f ` set xs"
  using set_dict_group [of _ _ f xs] by (auto simp: image_iff) (metis fst_conv)+

section \<open>Loosely typed values\<close>

datatype pyval =
    PNone | PBool bool | PInt int | PFloat rat | PStr str | PBytes str
  | PSeq "pyval list" | PDict "(str \<times> pyval) list"

fun truthy :: "pyval \<Rightarrow> bool" where
  "truthy PNone = False"
| "truthy (PBool b) = b"
| "truthy (PInt i) = (i \<noteq> 0)"
| "truthy (PFloat x) = (x \<noteq> 0)"
| "truthy (PStr s) = (s \<noteq> [])"
| "truthy (PBytes s) = (s \<noteq> [])"
| "truthy (PSeq xs) = (xs \<noteq> [])"
| "truthy (PDict d) = (d \<noteq> [])"

definition get_or_none :: "pyval dict \<Rightarrow> str \<Rightarrow> pyval" where
  "get_or_none d k = (case map_of d k of None \<Rightarrow> PNone | Some v \<Rightarrow> v)"

text \<open>\<open>float(v)\<close>, \<open>None\<close> where it raises \<open>TypeError\<close> or \<open>ValueError\<close>.\<close>

fun py_float :: "pyval \<Rightarrow> rat option" where
  "py_float (PBool b) = Some (if b then 1 else 0)"
| "py_float (PInt i) = Some (of_int i)"
| "py_float (PFloat x) = Some x"
| "py_float (PStr s) = parse_float s"
| "py_float (PBytes s) = parse_float s"
| "py_float _ = None"

text \<open>Strings, numbers and booleans.\<close>

fun is_scalar :: "pyval \<Rightarrow> bool" where
  "is_scalar (PBool _) = True"
| "is_scalar (PInt _) = True"
| "is_scalar (PFloat _) = True"
| "is_scalar (PStr _) = True"
| "is_scalar _ = False"

section \<open>Decimal rounding\<close>

text \<open>\<open>round(x, n)\<close>: to the nearest multiple of \<open>10 ** -n\<close>, ties to the even one.\<close>

definition round_half_even :: "rat \<Rightarrow> int" where
  "round_half_even x = (let f = \<lfloor>x\<rfloor>; d = x - of_int f in
     if d < 1 / 2 then f else if 1 / 2 < d then f + 1 else if even f then f else f + 1)"

definition py_round :: "rat \<Rightarrow> nat \<Rightarrow> rat" where
  "py_round x n = of_int (round_half_even (x * 10 ^ n)) / 10 ^ n"

lemma round_half_even_of_int [simp]: "round_half_even (of_int i) = i"
  by (simp add: round_half_even_def)

lemma round_half_even_error: "\<bar>of_int (round_half_even x) - x\<bar> \<le> 1 / 2"
  unfolding round_half_even_def Let_def by (auto simp: abs_if) linarith+

lemma round_half_even_mono_int: "of_int i \<le> x \<Longrightarrow> i \<le> round_half_even x"
proof -
  assume "of_int i \<le> x"
  then have "i \<le> \<lfloor>x\<rfloor>" by (simp add: le_floor_iff)
  moreover have "\<lfloor>x\<rfloor> \<le> round_half_even x" by (simp add: round_half_even_def Let_def)
  ultimately show ?thesis by simp
qed

lemma round_half_even_le_int:
  assumes "x \<le> of_int i" shows "round_half_even x \<le> i"
proof (cases "\<lfloor>x\<rfloor> = i")
  case True
  with assms have "x = of_int i" by (metis eq_iff of_int_floor_le)
  then show ?thesis by simp
next
  case False
  with assms have "\<lfloor>x\<rfloor> + 1 \<le> i"
    by (metis dual_order.order_iff_strict floor_le_iff floor_mono floor_of_int zless_imp_add1_zle)
  moreover have "round_half_even x \<le> \<lfloor>x\<rfloor> + 1" by (simp add: round_half_even_def Let_def)
  ultimately show ?thesis by linarith
qed

lemma py_round_nonneg: "0 \<le> x \<Longrightarrow> 0 \<le> py_round x n"
  using round_half_even_mono_int[of 0 "x * 10 ^ n"] by (simp add: py_round_def)

lemma py_round_le_1:
  assumes "x \<le> 1" shows "py_round x n \<le> 1"
proof -
  from assms have "x * 10 ^ n \<le> of_int (10 ^ n)" by simp
  then have "round_half_even (x * 10 ^ n) \<le> 10 ^ n" by (rule round_half_even_le_int)
  then have "(of_int (round_half_even (x * 10 ^ n)) :: rat) \<le> of_int (10 ^ n)"
    by (simp only: of_int_le_iff)
  then show ?thesis by (simp add: py_round_def)
qed

lemma py_round_error: "\<bar>py_round x n - x\<bar> \<le> 1 / (2 * 10 ^ n)"
proof -
  have "py_round x n - x = (of_int (round_half_even (x * 10 ^ n)) - x * 10 ^ n) / 10 ^ n"
    by (simp add: py_round_def diff_divide_distrib)
  then have "\<bar>py_round x n - x\<bar> = \<bar>of_int (round_half_even (x * 10 ^ n)) - x * 10 ^ n\<bar> / 10 ^ n"
    by simp
  also have "\<dots> \<le> (1 / 2) / 10 ^ n"
    by (intro divide_right_mono round_half_even_error) simp
  finally show ?thesis by simp
qed

section \<open>Stable sorting\<close>

text \<open>\<open>sorted(xs, key=f)\<close> is the stable \<open>sort_key\<close>; with \<open>reverse=True\<close> Python keeps the
  original order of items with equal keys.\<close>

definition sorted_desc :: "('a \<Rightarrow> 'k::linorder) \<Rightarrow> 'a list \<Rightarrow> 'a list" where
  "sorted_desc f xs = rev (sort_key f (rev xs))"

lemma mset_sorted_desc [simp]: "mset (sorted_desc f xs) = mset xs"
  by (simp add: sorted_desc_def)

lemma set_sorted_desc [simp]: "set (sorted_desc f xs) = set xs"
  by (simp add: sorted_desc_def)

lemma length_sorted_desc [simp]: "length (sorted_desc f xs) = length xs"
  by (simp add: sorted_desc_def)

lemma sorted_desc_sorted: "sorted_wrt (\<lambda>x y. f y \<le> f x) (sorted_desc f xs)"
proof -
  have "sorted (map f (sort_key f (rev xs)))" by simp
  then have "sorted_wrt (\<lambda>x y. f x \<le> f y) (sort_key f (rev xs))"
    by (simp add: sorted_map)
  then show ?thesis by (simp add: sorted_desc_def sorted_wrt_rev)
qed

lemma sorted_desc_stable:
  "filter (\<lambda>x. f x = k) (sorted_desc f xs) = filter (\<lambda>x. f x = k) xs"
proof -
  have "filter (\<lambda>x. f x = k) (sort_key f (rev xs)) = filter (\<lambda>x. f x = k) (rev xs)"
    by (simp add: sort_key_stable)
  then show ?thesis by (simp add: sorted_desc_def rev_filter [symmetric])
qed

lemma hd_sorted_desc:
  assumes "xs \<noteq> []" "x \<in> set xs" shows "f x \<le> f (hd (sorted_desc f xs))"
proof -
  have ne: "sorted_desc f xs \<noteq> []" using assms(1) by (metis length_0_conv length_sorted_desc)
  then obtain y ys where y: "sorted_desc f xs = y # ys" by (cases "sorted_desc f xs") auto
  with sorted_desc_sorted[of f xs] assms(2) set_sorted_desc[of f xs] show ?thesis
    by (auto simp: y)
qed

lemma hd_sort_key:
  assumes "xs \<noteq> []"
  shows "hd (sort_key f xs) \<in> set xs" "\<forall>y \<in> set xs. f (hd (sort_key f xs)) \<le> f y"
proof -
  have "sort_key f xs \<noteq> []" using assms by (metis length_0_conv length_sort)
  then obtain z zs where z: "sort_key f xs = z # zs" by (cases "sort_key f xs") auto
  have "set (z # zs) = set xs" using set_sort[of f xs] by (simp add: z)
  moreover have "sorted (map f (z # zs))" using sorted_sort_key[of f xs] by (simp add: z)
  ultimately show "hd (sort_key f xs) \<in> set xs" "\<forall>y \<in> set xs. f (hd (sort_key f xs)) \<le> f y"
    unfolding z by auto
qed

lemma those_eq_Some: "those xs = Some ys \<longleftrightarrow> xs = map Some ys"
proof (induction xs arbitrary: ys)
  case (Cons x xs)
  then show ?case by (cases x) (auto simp: map_option_eq_Some)
qed auto

section \<open>Effects\<close>

text \<open>A call that may change the world \<open>'w\<close> and may raise. The world after a raise is kept.\<close>

type_synonym ('w, 'a) io = "'w \<Rightarrow> 'a result \<times> 'w"

definition io_return :: "'a \<Rightarrow> ('w, 'a) io" where
  "io_return x w = (Inr x, w)"

definition io_raise :: "exn \<Rightarrow> ('w, 'a) io" where
  "io_raise e w = (Inl e, w)"

definition io_lift :: "'a result \<Rightarrow> ('w, 'a) io" where
  "io_lift r w = (r, w)"

definition io_bind :: "('w, 'a) io \<Rightarrow> ('a \<Rightarrow> ('w, 'b) io) \<Rightarrow> ('w, 'b) io" where
  "io_bind m f w = (case m w of (Inl e, w') \<Rightarrow> (Inl e, w') | (Inr x, w') \<Rightarrow> f x w')"

abbreviation io_then :: "('w, unit) io \<Rightarrow> ('w, 'b) io \<Rightarrow> ('w, 'b) io" where
  "io_then m k \<equiv> io_bind m (\<lambda>_. k)"

text \<open>\<open>try m except Exception as e: h e\<close>.\<close>

definition io_catch :: "('w, 'a) io \<Rightarrow> (exn \<Rightarrow> ('w, 'a) io) \<Rightarrow> ('w, 'a) io" where
  "io_catch m h w = (case m w of (Inl e, w') \<Rightarrow> h e w' | (Inr x, w') \<Rightarrow> (Inr x, w'))"

lemma io_simps [simp]:
  "io_return x w = (Inr x, w)" "io_raise e w = (Inl e, w)" "io_lift r w = (r, w)"
  by (simp_all add: io_return_def io_raise_def io_lift_def)

lemma io_bind_eq_Inr: "io_bind m f w = (Inr y, w'') \<longleftrightarrow> (\<exists>x w'. m w = (Inr x, w') \<and> f x w' = (Inr y, w''))"
  by (auto simp: io_bind_def split: prod.splits sum.splits)

lemma io_bind_eq_Inl: "io_bind m f w = (Inl e, w'') \<longleftrightarrow>
    m w = (Inl e, w'') \<or> (\<exists>x w'. m w = (Inr x, w') \<and> f x w' = (Inl e, w''))"
  by (auto simp: io_bind_def split: prod.splits sum.splits)

text \<open>A call that never raises.\<close>

definition io_total :: "('w, 'a) io \<Rightarrow> bool" where
  "io_total m \<longleftrightarrow> (\<forall>w. \<exists>x w'. m w = (Inr x, w'))"

lemma io_totalD: "io_total m \<Longrightarrow> \<exists>x w'. m w = (Inr x, w')"
  by (simp add: io_total_def)

lemma io_total_return [simp, intro]: "io_total (io_return x)"
  by (simp add: io_total_def)

lemma io_total_bind [intro]:
  assumes "io_total m" "\<And>x. io_total (f x)" shows "io_total (io_bind m f)"
proof (unfold io_total_def, rule allI)
  fix w
  obtain x w1 where m: "m w = (Inr x, w1)" using io_totalD [OF assms(1), of w] by blast
  obtain y w2 where "f x w1 = (Inr y, w2)" using io_totalD [OF assms(2), of x w1] by blast
  with m show "\<exists>y w'. io_bind m f w = (Inr y, w')" by (simp add: io_bind_def)
qed

lemma io_total_catch [intro]:
  assumes "\<And>e. io_total (h e)" shows "io_total (io_catch m h)"
proof (unfold io_total_def, rule allI)
  fix w
  obtain r w1 where m: "m w = (r, w1)" by fastforce
  show "\<exists>x w'. io_catch m h w = (Inr x, w')"
  proof (cases r)
    case (Inl e)
    with m io_totalD [OF assms, of e w1] show ?thesis by (simp add: io_catch_def)
  next
    case (Inr x)
    with m show ?thesis by (simp add: io_catch_def)
  qed
qed

section \<open>Slices\<close>

text \<open>\<open>xs[:limit]\<close>.\<close>

definition py_prefix :: "int \<Rightarrow> 'a list \<Rightarrow> 'a list" where
  "py_prefix limit xs = take (nat (if limit < 0 then int (length xs) + limit else limit)) xs"

lemma set_py_prefix: "set (py_prefix limit xs) \<subseteq> set xs"
  by (simp add: py_prefix_def set_take_subset)

section \<open>Search\<close>

lemma find_Some_set: "find P xs = Some x \<Longrightarrow> x \<in> set xs \<and> P x"
  by (induction xs) (auto split: if_splits)

lemma find_None_set: "find P xs = None \<longleftrightarrow> (\<forall>x \<in> set xs. \<not> P x)"
  by (induction xs) auto

end
