(* ===== verification/Consensus.thy ===== *)
theory Consensus
  imports Prelude
begin

text \<open>
  The arbitration gate of \<open>services-runtime/src/arbitration/consensus.py\<close>: critics assess an
  outgoing response in parallel, an adjudicator resolves conflicts, and the verdict says what is
  delivered. A critic or adjudicator client is a function of the attempt number, since each retry
  is a fresh provider call; the timeout of the fan-out is an input of the environment. The
  verdict's random id and creation time are left out.
\<close>

section \<open>Data\<close>

datatype dimension = Factual | Logic | Completeness

fun dimension_text :: "dimension \<Rightarrow> str" where
  "dimension_text Factual = ''factual''"
| "dimension_text Logic = ''logic''"
| "dimension_text Completeness = ''completeness''"

definition parse_dimension :: "str \<Rightarrow> dimension option" where
  "parse_dimension s = (if s = ''factual'' then Some Factual else if s = ''logic'' then Some Logic
     else if s = ''completeness'' then Some Completeness else None)"

datatype adjudication_action = ReleaseOriginal | Remediate | Block | ManualReviewAction

datatype consensus_status = Passed | PassedDegraded | Remediated | Blocked | ManualReview

fun status_text :: "consensus_status \<Rightarrow> str" where
  "status_text Passed = ''passed''"
| "status_text PassedDegraded = ''passed_degraded''"
| "status_text Remediated = ''remediated''"
| "status_text Blocked = ''blocked''"
| "status_text ManualReview = ''manual_review''"

definition BLOCKED_RESPONSE :: str where
  "BLOCKED_RESPONSE = ''I could not safely deliver that response because the arbitration layer flagged it for review.''"

record critic_assessment =
  ca_dimension :: dimension
  ca_score :: int
  ca_anomalies :: "str list"
  ca_confidence :: rat

text \<open>What a provider returns before Pydantic has validated it.\<close>

record raw_assessment =
  raw_dimension :: str
  raw_score :: int
  raw_anomalies :: pyval
  raw_confidence :: rat

record arb_payload =
  ap_output_text :: str
  ap_original_prompt :: "str option"
  ap_user_id :: "str option"
  ap_feature_scope :: "str option"
  ap_session_id :: "str option"
  ap_metadata :: "pyval dict"

record critic_failure =
  cf_dimension :: str
  cf_provider :: str
  cf_error :: str

record adjudication =
  adj_action :: adjudication_action
  adj_quality :: int
  adj_confidence :: rat
  adj_confirmed :: "str list"
  adj_dismissed :: "str list"
  adj_remediated :: "str option"
  adj_rationale :: str

record verdict =
  v_payload_id :: str
  v_status :: consensus_status
  v_allowed :: bool
  v_delivered :: str
  v_adjudication_required :: bool
  v_assessments :: "critic_assessment list"
  v_failures :: "critic_failure list"
  v_triggered_by :: "str list"
  v_adjudication :: "adjudication option"
  v_confidence :: rat

record critic_client =
  c_dimension :: str
  c_provider :: str
  c_assess :: "arb_payload \<Rightarrow> nat \<Rightarrow> raw_assessment result"

record adjudicator_client =
  a_provider :: str
  a_adjudicate :: "arb_payload \<Rightarrow> critic_assessment list \<Rightarrow> critic_failure list \<Rightarrow> str list
    \<Rightarrow> nat \<Rightarrow> adjudication result"

record arbitrator =
  arb_critics :: "critic_client list"
  arb_adjudicator :: adjudicator_client
  arb_score_threshold :: int
  arb_retry_attempts :: int

text \<open>The environment of one call: whether the fan-out overran its deadline, how the deadline
  prints, and the library's \<open>uuid5\<close>.\<close>

record arb_env =
  env_timed_out :: bool
  env_timeout_text :: str
  env_uuid5 :: "str \<Rightarrow> str"

section \<open>Validation\<close>

definition normalize_anomalies :: "pyval \<Rightarrow> str list result" where
  "normalize_anomalies v = (case v of
     PNone \<Rightarrow> Inr []
   | PStr s \<Rightarrow> Inr (if strip s \<noteq> [] then [s] else [])
   | PSeq xs \<Rightarrow> (if list_all (\<lambda>x. case x of PStr _ \<Rightarrow> True | _ \<Rightarrow> False) xs
                then Inr (map (\<lambda>x. case x of PStr s \<Rightarrow> s | _ \<Rightarrow> []) xs)
                else Inl (ValidationError, ''flagged_anomalies''))
   | _ \<Rightarrow> Inl (ValidationError, ''flagged_anomalies''))"

definition validate_assessment :: "raw_assessment \<Rightarrow> critic_assessment result" where
  "validate_assessment r = (case parse_dimension (raw_dimension r) of
     None \<Rightarrow> Inl (ValidationError, ''evaluation_dimension'')
   | Some d \<Rightarrow>
       if \<not> (1 \<le> raw_score r \<and> raw_score r \<le> 5) then Inl (ValidationError, ''assigned_score'')
       else rbind (normalize_anomalies (raw_anomalies r)) (\<lambda>an.
         if \<not> (0 \<le> raw_confidence r \<and> raw_confidence r \<le> 1)
         then Inl (ValidationError, ''confidence_coefficient'')
         else Inr \<lparr>ca_dimension = d, ca_score = raw_score r, ca_anomalies = an,
                   ca_confidence = raw_confidence r\<rparr>))"

definition valid_assessment :: "critic_assessment \<Rightarrow> bool" where
  "valid_assessment a \<longleftrightarrow> 1 \<le> ca_score a \<and> ca_score a \<le> 5 \<and> 0 \<le> ca_confidence a \<and> ca_confidence a \<le> 1"

definition valid_adjudication :: "adjudication \<Rightarrow> bool" where
  "valid_adjudication j \<longleftrightarrow> 1 \<le> adj_quality j \<and> adj_quality j \<le> 10 \<and>
     0 \<le> adj_confidence j \<and> adj_confidence j \<le> 1"

definition validate_payload :: "arb_payload \<Rightarrow> arb_payload result" where
  "validate_payload p =
     (if ap_output_text p = [] then Inl (ValidationError, ''output_text'') else Inr p)"

text \<open>Constructing a verdict runs the field constraint on its confidence.\<close>

definition build_verdict :: "verdict \<Rightarrow> verdict result" where
  "build_verdict v = (if 0 \<le> v_confidence v \<and> v_confidence v \<le> 1 then Inr v
     else Inl (ValidationError, ''confidence_coefficient''))"

section \<open>Identity and confidence\<close>

definition payload_seed :: "arb_payload \<Rightarrow> str" where
  "payload_seed p = CHR ''{'' # json_text ''original_prompt'' @ '': '' @ json_opt_text (ap_original_prompt p)
     @ '', '' @ json_text ''output_text'' @ '': '' @ json_text (ap_output_text p)
     @ '', '' @ json_text ''session_id'' @ '': '' @ json_opt_text (ap_session_id p) @ ''}''"

definition payload_id :: "arb_env \<Rightarrow> arb_payload \<Rightarrow> str" where
  "payload_id env p = env_uuid5 env (''coremesh:arbitration:'' @ payload_seed p)"

definition combined_confidence :: "critic_assessment list \<Rightarrow> critic_failure list \<Rightarrow> rat" where
  "combined_confidence as fs =
     (if as = [] then 0
      else let base = sum_list (map ca_confidence as) / of_nat (length as);
               penalty = (3 / 20) * of_nat (length fs)
           in max 0 (py_round (base - penalty) 4))"

definition pass_verdict ::
    "arb_env \<Rightarrow> arb_payload \<Rightarrow> critic_assessment list \<Rightarrow> critic_failure list \<Rightarrow> verdict result" where
  "pass_verdict env p as fs = build_verdict
     \<lparr>v_payload_id = payload_id env p,
      v_status = (if fs \<noteq> [] then PassedDegraded else Passed),
      v_allowed = True,
      v_delivered = ap_output_text p,
      v_adjudication_required = False,
      v_assessments = as,
      v_failures = fs,
      v_triggered_by = (if fs \<noteq> [] then [''critic_failure_degraded''] else []),
      v_adjudication = None,
      v_confidence = combined_confidence as fs\<rparr>"

definition blocked_verdict ::
    "arb_env \<Rightarrow> arb_payload \<Rightarrow> consensus_status \<Rightarrow> critic_assessment list \<Rightarrow> critic_failure list
     \<Rightarrow> str list \<Rightarrow> adjudication option \<Rightarrow> verdict result" where
  "blocked_verdict env p st as fs trig adj = build_verdict
     \<lparr>v_payload_id = payload_id env p,
      v_status = st,
      v_allowed = False,
      v_delivered = BLOCKED_RESPONSE,
      v_adjudication_required = True,
      v_assessments = as,
      v_failures = fs,
      v_triggered_by = trig,
      v_adjudication = adj,
      v_confidence = combined_confidence as fs\<rparr>"

section \<open>Retries\<close>

fun is_transient_exception :: "exn_class \<Rightarrow> bool" where
  "is_transient_exception TimeoutError = True"
| "is_transient_exception ConnectionError = True"
| "is_transient_exception OSError = True"
| "is_transient_exception HttpxTransportError = True"
| "is_transient_exception (HttpStatusError code) = (code \<in> {429, 500, 502, 503, 504})"
| "is_transient_exception OpenAITransientError = True"
| "is_transient_exception _ = False"

text \<open>The loop over attempts: \<open>r\<close> attempts remain after this one, \<open>i\<close> is the attempt number. The
  second component counts the calls.\<close>

fun retry_loop :: "(nat \<Rightarrow> 'a result) \<Rightarrow> nat \<Rightarrow> nat \<Rightarrow> 'a result \<times> nat" where
  "retry_loop op 0 i = (op i, 1)"
| "retry_loop op (Suc r) i =
     (case op i of
        Inr x \<Rightarrow> (Inr x, 1)
      | Inl e \<Rightarrow>
          if is_transient_exception (fst e)
          then (let (res, n) = retry_loop op r (Suc i) in (res, Suc n))
          else (Inl e, 1))"

definition with_retries :: "(nat \<Rightarrow> 'a result) \<Rightarrow> int \<Rightarrow> 'a result" where
  "with_retries op attempts = fst (retry_loop op (nat (max 1 attempts) - 1) 1)"

definition retry_calls :: "(nat \<Rightarrow> 'a result) \<Rightarrow> int \<Rightarrow> nat" where
  "retry_calls op attempts = snd (retry_loop op (nat (max 1 attempts) - 1) 1)"

section \<open>The arbitrator\<close>

definition run_critic ::
    "int \<Rightarrow> critic_client \<Rightarrow> arb_payload \<Rightarrow> critic_assessment option \<times> critic_failure option" where
  "run_critic retries c p =
     (case rbind (with_retries (c_assess c p) retries) (\<lambda>raw.
             rbind (validate_assessment raw) (\<lambda>a.
               if dimension_text (ca_dimension a) \<noteq> c_dimension c
               then Inl (ValueError, ''critic returned dimension '' @ dimension_text (ca_dimension a)
                           @ '', expected '' @ c_dimension c)
               else Inr a)) of
        Inr a \<Rightarrow> (Some a, None)
      | Inl e \<Rightarrow> (None, Some \<lparr>cf_dimension = c_dimension c, cf_provider = c_provider c,
                              cf_error = exn_message e\<rparr>))"

fun find_triggers :: "int \<Rightarrow> critic_assessment list \<Rightarrow> str list" where
  "find_triggers threshold [] = []"
| "find_triggers threshold (a # as) =
     (if ca_score a < threshold
      then [dimension_text (ca_dimension a) @ ''_score_below_'' @ int_text threshold] else [])
     @ (if ca_anomalies a \<noteq> [] then [dimension_text (ca_dimension a) @ ''_flagged_anomalies''] else [])
     @ find_triggers threshold as"

definition verdict_from_adjudication ::
    "arb_env \<Rightarrow> arb_payload \<Rightarrow> critic_assessment list \<Rightarrow> critic_failure list \<Rightarrow> str list
     \<Rightarrow> adjudication \<Rightarrow> verdict result" where
  "verdict_from_adjudication env p as fs trig j =
     (if adj_action j = ReleaseOriginal then build_verdict
        \<lparr>v_payload_id = payload_id env p,
         v_status = (if fs \<noteq> [] then PassedDegraded else Passed),
         v_allowed = True, v_delivered = ap_output_text p, v_adjudication_required = True,
         v_assessments = as, v_failures = fs, v_triggered_by = trig, v_adjudication = Some j,
         v_confidence = adj_confidence j\<rparr>
      else if adj_action j = Remediate \<and> adj_remediated j \<noteq> None \<and> adj_remediated j \<noteq> Some []
      then build_verdict
        \<lparr>v_payload_id = payload_id env p,
         v_status = Remediated,
         v_allowed = True, v_delivered = the (adj_remediated j), v_adjudication_required = True,
         v_assessments = as, v_failures = fs, v_triggered_by = trig, v_adjudication = Some j,
         v_confidence = adj_confidence j\<rparr>
      else blocked_verdict env p (if adj_action j = Block then Blocked else ManualReview)
             as fs trig (Some j))"

definition arbitrate :: "arb_env \<Rightarrow> arbitrator \<Rightarrow> arb_payload \<Rightarrow> verdict result" where
  "arbitrate env arb payload = rbind (validate_payload payload) (\<lambda>p.
     if env_timed_out env
     then blocked_verdict env p ManualReview []
            [\<lparr>cf_dimension = ''arbitration'', cf_provider = ''runtime'',
              cf_error = ''arbitration timed out after '' @ env_timeout_text env @ ''s''\<rparr>]
            [''arbitration_timeout''] None
     else
       let results = map (\<lambda>c. run_critic (arb_retry_attempts arb) c p) (arb_critics arb);
           as = List.map_filter fst results;
           fs = List.map_filter snd results
       in if length as < 2
          then blocked_verdict env p ManualReview as fs [''insufficient_critic_quorum''] None
          else
            let trig = find_triggers (arb_score_threshold arb) as
                       @ map (\<lambda>f. ''critic_failure_'' @ cf_dimension f) fs
            in if trig = [] then pass_verdict env p as []
               else (case with_retries (a_adjudicate (arb_adjudicator arb) p as fs trig)
                            (arb_retry_attempts arb) of
                       Inl e \<Rightarrow> blocked_verdict env p ManualReview as
                         (fs @ [\<lparr>cf_dimension = ''adjudication'',
                                 cf_provider = a_provider (arb_adjudicator arb),
                                 cf_error = exn_message e\<rparr>])
                         (trig @ [''adjudicator_failure'']) None
                     | Inr j \<Rightarrow> verdict_from_adjudication env p as fs trig j))"

section \<open>Deterministic clients\<close>

definition metadata_nonnegative_int :: "pyval dict \<Rightarrow> str \<Rightarrow> int" where
  "metadata_nonnegative_int m name =
     (case (case map_of m name of None \<Rightarrow> PInt 0 | Some v \<Rightarrow> v) of
        PBool _ \<Rightarrow> 0
      | PInt i \<Rightarrow> max 0 i
      | PFloat x \<Rightarrow> max 0 (if 0 \<le> x then \<lfloor>x\<rfloor> else \<lceil>x\<rceil>)
      | PStr s \<Rightarrow> (case parse_int s of None \<Rightarrow> 0 | Some i \<Rightarrow> max 0 i)
      | PBytes s \<Rightarrow> (case parse_int s of None \<Rightarrow> 0 | Some i \<Rightarrow> max 0 i)
      | _ \<Rightarrow> 0)"

definition deterministic_assess :: "dimension \<Rightarrow> arb_payload \<Rightarrow> nat \<Rightarrow> raw_assessment result" where
  "deterministic_assess d p attempt =
     (let failed_count = metadata_nonnegative_int (ap_metadata p) ''failed_observation_count'';
          skipped_count = metadata_nonnegative_int (ap_metadata p) ''skipped_observation_count'';
          degraded = failed_count > 0 \<or> skipped_count > 0;
          low_completeness = degraded \<and> d = Completeness
      in Inr \<lparr>raw_dimension = dimension_text d,
              raw_score = (if low_completeness then 2 else 5),
              raw_anomalies = PSeq (if low_completeness then [PStr ''incomplete_specialist_output''] else []),
              raw_confidence = 1\<rparr>)"

definition deterministic_critic :: "dimension \<Rightarrow> critic_client" where
  "deterministic_critic d = \<lparr>c_dimension = dimension_text d, c_provider = ''deterministic'',
     c_assess = deterministic_assess d\<rparr>"

definition deterministic_adjudicate ::
    "arb_payload \<Rightarrow> critic_assessment list \<Rightarrow> critic_failure list \<Rightarrow> str list \<Rightarrow> nat \<Rightarrow> adjudication result" where
  "deterministic_adjudicate p as fs trig attempt =
     (let minimum_score = (case as of [] \<Rightarrow> 1 | _ \<Rightarrow> Min (set (map ca_score as)))
      in Inr \<lparr>adj_action = Block, adj_quality = max 1 (min 10 minimum_score), adj_confidence = 1,
              adj_confirmed = trig, adj_dismissed = [], adj_remediated = None,
              adj_rationale = ''Deterministic integration policy blocks workflows with failed or skipped specialist output.''\<rparr>)"

definition deterministic_adjudicator :: adjudicator_client where
  "deterministic_adjudicator = \<lparr>a_provider = ''deterministic_adjudicator'',
     a_adjudicate = deterministic_adjudicate\<rparr>"

datatype arbitration_mode = External | Deterministic

record arb_settings =
  set_mode :: arbitration_mode
  set_score_threshold :: int
  set_retry_attempts :: int

text \<open>\<open>x or default\<close> for the two integer options of the constructor; \<open>critics or defaults\<close>.\<close>

definition make_arbitrator ::
    "arb_settings \<Rightarrow> critic_client list \<Rightarrow> adjudicator_client \<Rightarrow> critic_client list
     \<Rightarrow> adjudicator_client option \<Rightarrow> int option \<Rightarrow> int option \<Rightarrow> arbitrator" where
  "make_arbitrator cfg default_critics default_adjudicator critics adj threshold retries =
     \<lparr>arb_critics = (if critics = [] then default_critics else critics),
      arb_adjudicator = (case adj of None \<Rightarrow> default_adjudicator | Some a \<Rightarrow> a),
      arb_score_threshold = (case threshold of None \<Rightarrow> set_score_threshold cfg
         | Some t \<Rightarrow> if t = 0 then set_score_threshold cfg else t),
      arb_retry_attempts = (case retries of None \<Rightarrow> set_retry_attempts cfg
         | Some r \<Rightarrow> if r = 0 then set_retry_attempts cfg else r)\<rparr>"

definition configured_arbitrator ::
    "arb_settings \<Rightarrow> critic_client list \<Rightarrow> adjudicator_client \<Rightarrow> arbitrator" where
  "configured_arbitrator cfg default_critics default_adjudicator =
     (if set_mode cfg = Deterministic
      then make_arbitrator cfg default_critics default_adjudicator
             (map deterministic_critic [Factual, Logic, Completeness])
             (Some deterministic_adjudicator) None (Some 1)
      else make_arbitrator cfg default_critics default_adjudicator [] None None None)"

section \<open>Reading provider replies\<close>

definition extract_anthropic_text :: "pyval list \<Rightarrow> str result" where
  "extract_anthropic_text blocks =
     (let parts = List.map_filter (\<lambda>b. case b of
            PDict d \<Rightarrow> (case (map_of d ''type'', map_of d ''text'') of
                         (Some (PStr t), Some (PStr s)) \<Rightarrow> (if t = ''text'' then Some s else None)
                       | _ \<Rightarrow> None)
          | _ \<Rightarrow> None) blocks
      in if parts = [] then Inl (ValueError, ''anthropic response did not contain a text content block'')
         else Inr (join (char_of (10 :: nat) # []) parts))"

text \<open>The greedy search for \<open>\{.*\}\<close>: from the first opening brace to the last closing one.\<close>

definition brace_span :: "str \<Rightarrow> str option" where
  "brace_span s = (let r = dropWhile (\<lambda>c. c \<noteq> CHR ''{'') s;
                       t = rev (dropWhile (\<lambda>c. c \<noteq> CHR ''}'') (rev r))
                   in if t = [] then None else Some t)"

text \<open>\<open>loads\<close> is the library's JSON decoder, \<open>None\<close> where it raises \<open>JSONDecodeError\<close>.\<close>

definition extract_json_object :: "(str \<Rightarrow> pyval option) \<Rightarrow> str \<Rightarrow> pyval dict result" where
  "extract_json_object loads s =
     rbind (case loads s of
              Some v \<Rightarrow> Inr v
            | None \<Rightarrow> (case brace_span s of
                         None \<Rightarrow> Inl (ValueError, ''JSONDecodeError'')
                       | Some t \<Rightarrow> (case loads t of
                                     None \<Rightarrow> Inl (ValueError, ''JSONDecodeError'') | Some v \<Rightarrow> Inr v)))
       (\<lambda>v. case v of PDict d \<Rightarrow> Inr d
              | _ \<Rightarrow> Inl (ValueError, ''model response did not contain a JSON object''))"

section \<open>Retries: bounded, and definitive outcomes win\<close>

lemma retry_loop_calls: "1 \<le> snd (retry_loop op r i) \<and> snd (retry_loop op r i) \<le> Suc r"
  by (induction op r i rule: retry_loop.induct) (auto split: sum.splits prod.splits)

lemma retry_loop_calls_pos [simp]: "Suc 0 \<le> snd (retry_loop op r i)"
  using retry_loop_calls[of op r i] by simp

lemma retry_loop_result: "fst (retry_loop op r i) = op (i + snd (retry_loop op r i) - 1)"
proof (induction op r i rule: retry_loop.induct)
  case (2 op r i)
  have "snd (retry_loop op r (Suc i)) \<ge> Suc 0" by simp
  with 2 show ?case by (auto split: sum.splits prod.splits)
qed simp

lemma retry_loop_prefix:
  "k + 1 < snd (retry_loop op r i) \<Longrightarrow> \<exists>e. op (i + k) = Inl e \<and> is_transient_exception (fst e)"
proof (induction op r i arbitrary: k rule: retry_loop.induct)
  case (2 op r i)
  show ?case
  proof (cases "op i")
    case (Inr x)
    with 2 show ?thesis by simp
  next
    case (Inl e)
    show ?thesis
    proof (cases k)
      case 0
      with Inl 2(2) show ?thesis by (auto split: if_splits)
    next
      case (Suc m)
      with Inl 2(2) have t: "is_transient_exception (fst e)"
        and "m + 1 < snd (retry_loop op r (Suc i))"
        by (auto split: if_splits prod.splits)
      with 2(1)[OF Inl t, of m] Suc show ?thesis by simp
    qed
  qed
qed simp

lemma retry_loop_stop: "snd (retry_loop op r i) \<le> r \<Longrightarrow>
    (\<exists>x. fst (retry_loop op r i) = Inr x) \<or>
    (\<exists>e. fst (retry_loop op r i) = Inl e \<and> \<not> is_transient_exception (fst e))"
  by (induction op r i rule: retry_loop.induct) (auto split: sum.splits prod.splits if_splits)

lemma retry_loop_success: "(\<And>k. \<exists>x. op k = Inr x) \<Longrightarrow> retry_loop op r i = (op i, 1)"
  by (cases r) (auto split: sum.splits, metis Inl_Inr_False)

lemma with_retries_success: "(\<And>k. op k = Inr x) \<Longrightarrow> with_retries op n = Inr x"
  by (simp add: with_retries_def retry_loop_success)

lemma with_retries_from: "\<exists>k \<ge> 1. with_retries op n = op k"
proof -
  let ?r = "nat (max 1 n) - 1"
  have "Suc 0 \<le> snd (retry_loop op ?r 1)" by simp
  then show ?thesis unfolding with_retries_def
    by (subst retry_loop_result) (rule exI[of _ "1 + snd (retry_loop op ?r 1) - 1"], simp)
qed

section \<open>Critics\<close>

lemma normalize_anomalies_valid: "validate_assessment r = Inr a \<Longrightarrow> valid_assessment a"
  by (auto simp: validate_assessment_def valid_assessment_def rbind_eq_Inr
      split: option.splits if_splits)

lemma run_critic_cases:
  obtains (ok) a where "run_critic n c p = (Some a, None)" "valid_assessment a"
    "dimension_text (ca_dimension a) = c_dimension c"
  | (failed) f where "run_critic n c p = (None, Some f)" "cf_dimension f = c_dimension c"
proof (cases "run_critic n c p")
  case (Pair x y)
  then show ?thesis
    using that normalize_anomalies_valid
    by (auto simp: run_critic_def rbind_eq_Inr rbind_eq_Inl split: sum.splits if_splits)
qed

lemma map_filter_Cons: "List.map_filter f (x # xs) =
    (case f x of None \<Rightarrow> List.map_filter f xs | Some y \<Rightarrow> y # List.map_filter f xs)"
  by (simp add: List.map_filter_simps)

abbreviation critic_results :: "arbitrator \<Rightarrow> arb_payload \<Rightarrow> (critic_assessment option \<times> critic_failure option) list" where
  "critic_results arb p \<equiv> map (\<lambda>c. run_critic (arb_retry_attempts arb) c p) (arb_critics arb)"

definition gathered_assessments :: "arbitrator \<Rightarrow> arb_payload \<Rightarrow> critic_assessment list" where
  "gathered_assessments arb p = List.map_filter fst (critic_results arb p)"

definition gathered_failures :: "arbitrator \<Rightarrow> arb_payload \<Rightarrow> critic_failure list" where
  "gathered_failures arb p = List.map_filter snd (critic_results arb p)"

lemma gathered_count:
  "length (gathered_assessments arb p) + length (gathered_failures arb p) = length (arb_critics arb)"
proof -
  have "length (List.map_filter fst (map (\<lambda>c. run_critic n c p) cs))
      + length (List.map_filter snd (map (\<lambda>c. run_critic n c p) cs)) = length cs" for n cs
  proof (induction cs)
    case (Cons c cs)
    then show ?case by (cases rule: run_critic_cases [of n c p]) (simp_all add: map_filter_Cons)
  qed (simp add: List.map_filter_simps)
  then show ?thesis by (simp add: gathered_assessments_def gathered_failures_def)
qed

lemma gathered_valid: "a \<in> set (gathered_assessments arb p) \<Longrightarrow> valid_assessment a"
proof -
  have "a \<in> set (List.map_filter fst (map (\<lambda>c. run_critic n c p) cs)) \<Longrightarrow> valid_assessment a" for n cs
  proof (induction cs)
    case (Cons c cs)
    then show ?case by (cases rule: run_critic_cases [of n c p]) (auto simp: map_filter_Cons)
  qed (simp add: List.map_filter_simps)
  then show "a \<in> set (gathered_assessments arb p) \<Longrightarrow> valid_assessment a"
    by (simp add: gathered_assessments_def)
qed

lemma find_triggers_Nil:
  "find_triggers t as = [] \<longleftrightarrow> (\<forall>a \<in> set as. t \<le> ca_score a \<and> ca_anomalies a = [])"
  by (induction as) auto

section \<open>Confidence\<close>

lemma combined_confidence_nonneg: "0 \<le> combined_confidence as fs"
  by (simp add: combined_confidence_def Let_def)

lemma combined_confidence_le_1:
  assumes "\<forall>a \<in> set as. valid_assessment a" shows "combined_confidence as fs \<le> 1"
proof (cases "as = []")
  case False
  have "sum_list (map ca_confidence as) \<le> sum_list (map (\<lambda>_. 1) as)"
    using assms by (intro sum_list_mono) (auto simp: valid_assessment_def)
  then have "sum_list (map ca_confidence as) \<le> of_nat (length as)" by (simp add: sum_list_triv)
  with False have "sum_list (map ca_confidence as) / of_nat (length as) \<le> 1"
    by (simp add: divide_le_eq)
  moreover have "0 \<le> 3 / 20 * (of_nat (length fs) :: rat)" by simp
  ultimately have "sum_list (map ca_confidence as) / of_nat (length as) - 3 / 20 * of_nat (length fs) \<le> 1"
    by linarith
  then show ?thesis using False by (simp add: combined_confidence_def Let_def py_round_le_1)
qed (simp add: combined_confidence_def)

lemma blocked_verdict_ok:
  "\<forall>a \<in> set as. valid_assessment a \<Longrightarrow> \<exists>v. blocked_verdict env p st as fs trig adj = Inr v"
  by (simp add: blocked_verdict_def build_verdict_def combined_confidence_nonneg combined_confidence_le_1)

lemma pass_verdict_ok: "\<forall>a \<in> set as. valid_assessment a \<Longrightarrow> \<exists>v. pass_verdict env p as fs = Inr v"
  by (simp add: pass_verdict_def build_verdict_def combined_confidence_nonneg combined_confidence_le_1)

lemma build_verdict_Inr: "build_verdict v = Inr w \<longleftrightarrow> w = v \<and> 0 \<le> v_confidence v \<and> v_confidence v \<le> 1"
  by (auto simp: build_verdict_def)

section \<open>The delivery contract\<close>

text \<open>
  What a caller of the gate may rely on: a verdict that does not allow delivery carries the fixed
  replacement text, one that does carries the original or a remediated non-empty output, and the
  status says which.
\<close>

definition delivery_consistent :: "arb_payload \<Rightarrow> verdict \<Rightarrow> bool" where
  "delivery_consistent p v \<longleftrightarrow>
     (if v_allowed v
      then (v_status v \<in> {Passed, PassedDegraded} \<and> v_delivered v = ap_output_text p) \<or>
           (v_status v = Remediated \<and> v_delivered v \<noteq> [])
      else v_status v \<in> {Blocked, ManualReview} \<and> v_delivered v = BLOCKED_RESPONSE)"

locale delivery_gate =
  fixes gate :: "arb_payload \<Rightarrow> verdict result"
  assumes gate_consistent: "gate p = Inr v \<Longrightarrow> delivery_consistent p v"
    and gate_confidence: "gate p = Inr v \<Longrightarrow> 0 \<le> v_confidence v \<and> v_confidence v \<le> 1"
    and gate_payload: "gate p = Inr v \<Longrightarrow> ap_output_text p \<noteq> []"
begin

lemma withheld_iff: "gate p = Inr v \<Longrightarrow> v_allowed v \<longleftrightarrow> v_status v \<notin> {Blocked, ManualReview}"
  by (drule gate_consistent) (auto simp: delivery_consistent_def split: if_splits)

lemma withheld_text: "gate p = Inr v \<Longrightarrow> \<not> v_allowed v \<Longrightarrow> v_delivered v = BLOCKED_RESPONSE"
  by (drule gate_consistent) (simp add: delivery_consistent_def)

lemma delivered_nonempty: "gate p = Inr v \<Longrightarrow> v_delivered v \<noteq> []"
  using gate_payload[of p v] gate_consistent[of p v]
  by (auto simp: delivery_consistent_def BLOCKED_RESPONSE_def split: if_splits)

lemma altered_only_if: "gate p = Inr v \<Longrightarrow> v_delivered v \<noteq> ap_output_text p \<Longrightarrow>
    v_status v = Remediated \<or> \<not> v_allowed v"
  by (drule gate_consistent) (auto simp: delivery_consistent_def split: if_splits)

end

lemma blocked_verdict_Inr: "blocked_verdict env p st as fs trig adj = Inr v \<Longrightarrow>
    st \<in> {Blocked, ManualReview} \<Longrightarrow>
    delivery_consistent p v \<and> \<not> v_allowed v \<and> v_adjudication_required v \<and>
    v_status v = st \<and> v_failures v = fs \<and> v_triggered_by v = trig \<and>
    0 \<le> v_confidence v \<and> v_confidence v \<le> 1"
  by (auto simp: blocked_verdict_def build_verdict_Inr delivery_consistent_def)

lemma pass_verdict_Inr: "pass_verdict env p as [] = Inr v \<Longrightarrow>
    delivery_consistent p v \<and> v_allowed v \<and> \<not> v_adjudication_required v \<and> v_status v = Passed \<and>
    v_delivered v = ap_output_text p \<and> v_failures v = [] \<and> v_triggered_by v = [] \<and>
    v_assessments v = as \<and> 0 \<le> v_confidence v \<and> v_confidence v \<le> 1"
  by (auto simp: pass_verdict_def build_verdict_Inr delivery_consistent_def)

lemma verdict_from_adjudication_Inr: "verdict_from_adjudication env p as fs trig j = Inr v \<Longrightarrow>
    delivery_consistent p v \<and> v_adjudication_required v \<and> v_adjudication v = Some j \<and>
    v_assessments v = as \<and> v_failures v = fs \<and> v_triggered_by v = trig \<and>
    (v_allowed v \<longleftrightarrow> adj_action j = ReleaseOriginal \<or>
       (adj_action j = Remediate \<and> adj_remediated j \<noteq> None \<and> adj_remediated j \<noteq> Some [])) \<and>
    0 \<le> v_confidence v \<and> v_confidence v \<le> 1"
  unfolding verdict_from_adjudication_def blocked_verdict_def
  by (auto simp: build_verdict_Inr delivery_consistent_def split: if_splits)

definition arbitration_triggers :: "arbitrator \<Rightarrow> arb_payload \<Rightarrow> str list" where
  "arbitration_triggers arb p = find_triggers (arb_score_threshold arb) (gathered_assessments arb p)
     @ map (\<lambda>f. ''critic_failure_'' @ cf_dimension f) (gathered_failures arb p)"

definition adjudicate_call :: "arbitrator \<Rightarrow> arb_payload \<Rightarrow> adjudication result" where
  "adjudicate_call arb p = with_retries
     (a_adjudicate (arb_adjudicator arb) p (gathered_assessments arb p) (gathered_failures arb p)
        (arbitration_triggers arb p)) (arb_retry_attempts arb)"

text \<open>The five ways out of \<open>arbitrate\<close>, in the order the code takes them.\<close>

lemma arbitrate_unfold:
  "arbitrate env arb p =
     (if ap_output_text p = [] then Inl (ValidationError, ''output_text'')
      else if env_timed_out env then blocked_verdict env p ManualReview []
            [\<lparr>cf_dimension = ''arbitration'', cf_provider = ''runtime'',
              cf_error = ''arbitration timed out after '' @ env_timeout_text env @ ''s''\<rparr>]
            [''arbitration_timeout''] None
      else if length (gathered_assessments arb p) < 2
      then blocked_verdict env p ManualReview (gathered_assessments arb p) (gathered_failures arb p)
             [''insufficient_critic_quorum''] None
      else if arbitration_triggers arb p = [] then pass_verdict env p (gathered_assessments arb p) []
      else (case adjudicate_call arb p of
              Inl e \<Rightarrow> blocked_verdict env p ManualReview (gathered_assessments arb p)
                (gathered_failures arb p @ [\<lparr>cf_dimension = ''adjudication'',
                    cf_provider = a_provider (arb_adjudicator arb), cf_error = exn_message e\<rparr>])
                (arbitration_triggers arb p @ [''adjudicator_failure'']) None
            | Inr j \<Rightarrow> verdict_from_adjudication env p (gathered_assessments arb p)
                (gathered_failures arb p) (arbitration_triggers arb p) j))"
  unfolding arbitrate_def validate_payload_def Let_def gathered_assessments_def [symmetric]
    gathered_failures_def [symmetric] arbitration_triggers_def [symmetric]
    adjudicate_call_def [symmetric]
  by (cases "ap_output_text p = []") simp_all

lemma arbitrate_cases:
  assumes "arbitrate env arb p = Inr v"
  obtains (withheld) "\<not> v_allowed v" "v_adjudication_required v" "delivery_consistent p v"
      "0 \<le> v_confidence v" "v_confidence v \<le> 1"
  | (passed) "\<not> env_timed_out env" "2 \<le> length (gathered_assessments arb p)"
      "arbitration_triggers arb p = []" "v_allowed v" "\<not> v_adjudication_required v"
      "v_status v = Passed" "v_delivered v = ap_output_text p" "delivery_consistent p v"
      "v_assessments v = gathered_assessments arb p" "0 \<le> v_confidence v" "v_confidence v \<le> 1"
  | (adjudicated) j where "\<not> env_timed_out env" "2 \<le> length (gathered_assessments arb p)"
      "arbitration_triggers arb p \<noteq> []" "adjudicate_call arb p = Inr j" "v_allowed v"
      "v_adjudication_required v" "v_adjudication v = Some j" "delivery_consistent p v"
      "v_assessments v = gathered_assessments arb p"
      "adj_action j \<in> {ReleaseOriginal, Remediate}" "0 \<le> v_confidence v" "v_confidence v \<le> 1"
proof -
  have st: "ManualReview \<in> {Blocked, ManualReview}" by simp
  show thesis
    using assms
    by (auto simp: arbitrate_unfold not_less split: if_splits sum.splits
        dest!: blocked_verdict_Inr[OF _ st] pass_verdict_Inr verdict_from_adjudication_Inr
        intro: withheld passed adjudicated)
qed

interpretation arbiter: delivery_gate "arbitrate env arb" for env arb
proof
  fix p v
  assume r: "arbitrate env arb p = Inr v"
  then show "delivery_consistent p v" by (cases rule: arbitrate_cases)
  from r show "0 \<le> v_confidence v \<and> v_confidence v \<le> 1" by (cases rule: arbitrate_cases) auto
  from r show "ap_output_text p \<noteq> []" by (auto simp: arbitrate_unfold split: if_splits)
qed

section \<open>The hermetic critics\<close>

definition workflow_degraded :: "pyval dict \<Rightarrow> bool" where
  "workflow_degraded m \<longleftrightarrow> 0 < metadata_nonnegative_int m ''failed_observation_count'' \<or>
     0 < metadata_nonnegative_int m ''skipped_observation_count''"

definition deterministic_assessment :: "arb_payload \<Rightarrow> dimension \<Rightarrow> critic_assessment" where
  "deterministic_assessment p d =
     \<lparr>ca_dimension = d,
      ca_score = (if workflow_degraded (ap_metadata p) \<and> d = Completeness then 2 else 5),
      ca_anomalies = (if workflow_degraded (ap_metadata p) \<and> d = Completeness
                      then [''incomplete_specialist_output''] else []),
      ca_confidence = 1\<rparr>"

lemma parse_dimension_text [simp]: "parse_dimension (dimension_text d) = Some d"
  by (cases d) (simp_all add: parse_dimension_def)

lemma deterministic_run_critic:
  "run_critic n (deterministic_critic d) p = (Some (deterministic_assessment p d), None)"
proof -
  let ?op = "deterministic_assess d p"
  let ?low = "workflow_degraded (ap_metadata p) \<and> d = Completeness"
  let ?raw = "\<lparr>raw_dimension = dimension_text d, raw_score = (if ?low then 2 else 5),
      raw_anomalies = PSeq (if ?low then [PStr ''incomplete_specialist_output''] else []),
      raw_confidence = 1\<rparr>"
  have "with_retries ?op n = Inr ?raw"
    by (rule with_retries_success)
      (simp only: deterministic_assess_def Let_def workflow_degraded_def)
  moreover have "validate_assessment ?raw = Inr (deterministic_assessment p d)"
    by (simp add: validate_assessment_def normalize_anomalies_def deterministic_assessment_def)
  ultimately show ?thesis
    by (simp add: run_critic_def deterministic_critic_def deterministic_assessment_def)
qed

lemma deterministic_arbitrator_fields:
  assumes "set_mode cfg = Deterministic"
  shows "arb_critics (configured_arbitrator cfg dc da) = map deterministic_critic [Factual, Logic, Completeness]"
    and "arb_adjudicator (configured_arbitrator cfg dc da) = deterministic_adjudicator"
    and "arb_score_threshold (configured_arbitrator cfg dc da) = set_score_threshold cfg"
  using assms by (simp_all add: configured_arbitrator_def make_arbitrator_def)

lemma deterministic_gathered:
  assumes "set_mode cfg = Deterministic"
  shows "gathered_assessments (configured_arbitrator cfg dc da) p =
      map (deterministic_assessment p) [Factual, Logic, Completeness]"
    and "gathered_failures (configured_arbitrator cfg dc da) p = []"
  using assms
  by (simp_all add: gathered_assessments_def gathered_failures_def deterministic_arbitrator_fields
      deterministic_run_critic map_filter_Cons List.map_filter_simps)

section \<open>Properties\<close>

text \<open>C6. The gate fails closed: a verdict allows delivery only when the fan-out met its deadline and
  at least two critics returned valid assessments, and then it delivers the original output or the
  adjudicator's non-empty remediation; every other verdict delivers the fixed replacement text with a
  blocked or manual-review status.\<close>
theorem arbitrate_fail_closed:
  assumes "arbitrate env arb p = Inr v"
  shows "if v_allowed v
    then \<not> env_timed_out env \<and> 2 \<le> length (v_assessments v) \<and>
      list_all valid_assessment (v_assessments v) \<and>
      (if v_status v = Remediated
       then map_option adj_remediated (v_adjudication v) = Some (Some (v_delivered v)) \<and> v_delivered v \<noteq> []
       else v_status v \<in> {Passed, PassedDegraded} \<and> v_delivered v = ap_output_text p)
    else v_status v \<in> {Blocked, ManualReview} \<and> v_delivered v = BLOCKED_RESPONSE"
  using assms
proof (cases rule: arbitrate_cases)
  case withheld
  then show ?thesis by (simp add: delivery_consistent_def)
next
  case passed
  then show ?thesis by (simp add: list_all_iff gathered_valid)
next
  case (adjudicated j)
  from assms adjudicated(1-5) have "verdict_from_adjudication env p (gathered_assessments arb p)
      (gathered_failures arb p) (arbitration_triggers arb p) j = Inr v"
    by (auto simp: arbitrate_unfold not_less split: if_splits)
  then have "if v_status v = Remediated
       then map_option adj_remediated (v_adjudication v) = Some (Some (v_delivered v)) \<and> v_delivered v \<noteq> []
       else v_status v \<in> {Passed, PassedDegraded} \<and> v_delivered v = ap_output_text p"
    using adjudicated(5)
    by (auto simp: verdict_from_adjudication_def blocked_verdict_def build_verdict_Inr split: if_splits)
  with adjudicated show ?thesis by (simp add: list_all_iff gathered_valid)
qed

text \<open>A verdict released without adjudication is a clean pass: every configured critic succeeded,
  every score reaches the threshold, no critic flagged anything, and the original text is delivered.
  The degraded pass that \<open>pass_verdict\<close> can build never leaves \<open>arbitrate\<close>.\<close>
theorem arbitrate_clean_release:
  assumes "arbitrate env arb p = Inr v" and "\<not> v_adjudication_required v"
  shows "v_status v = Passed \<and> v_delivered v = ap_output_text p \<and>
    length (v_assessments v) = length (arb_critics arb) \<and>
    list_all (\<lambda>a. arb_score_threshold arb \<le> ca_score a \<and> ca_anomalies a = []) (v_assessments v)"
  using assms(1)
proof (cases rule: arbitrate_cases)
  case passed
  then have "gathered_failures arb p = []"
    and "\<forall>a \<in> set (gathered_assessments arb p). arb_score_threshold arb \<le> ca_score a \<and> ca_anomalies a = []"
    by (simp_all add: arbitration_triggers_def find_triggers_Nil)
  with passed gathered_count[of arb p] show ?thesis by (simp add: list_all_iff)
qed (use assms(2) in simp_all)

text \<open>The gate always answers: for a non-empty output and an adjudicator that keeps to its schema,
  arbitration returns a verdict, whatever the critics do, with a confidence between 0 and 1.\<close>
theorem arbitrate_total:
  assumes "ap_output_text p \<noteq> []"
    and "\<And>as fs trig k j. a_adjudicate (arb_adjudicator arb) p as fs trig k = Inr j \<Longrightarrow> valid_adjudication j"
  shows "\<exists>v. arbitrate env arb p = Inr v \<and> 0 \<le> v_confidence v \<and> v_confidence v \<le> 1"
proof -
  have val: "\<forall>a \<in> set (gathered_assessments arb p). valid_assessment a" by (simp add: gathered_valid)
  have adj: "valid_adjudication j" if "adjudicate_call arb p = Inr j" for j
    using that assms(2) with_retries_from unfolding adjudicate_call_def by metis
  have "\<exists>v. verdict_from_adjudication env p (gathered_assessments arb p) fs trig j = Inr v"
    if "valid_adjudication j" for fs trig j
    using that blocked_verdict_ok[OF val]
    by (simp add: verdict_from_adjudication_def build_verdict_def valid_adjudication_def)
  then have "\<exists>v. arbitrate env arb p = Inr v"
    using assms(1) adj blocked_verdict_ok[OF val] pass_verdict_ok[OF val] blocked_verdict_ok[of "[]"]
    by (auto simp: arbitrate_unfold split: sum.split)
  then show ?thesis using arbiter.gate_confidence by blast
qed

lemma deterministic_gate:
  assumes "set_mode cfg = Deterministic" and "2 < set_score_threshold cfg" and "set_score_threshold cfg \<le> 5"
    and "\<not> env_timed_out env" and "ap_output_text p \<noteq> []"
  shows "map_sum id (\<lambda>v. (v_status v, v_delivered v)) (arbitrate env (configured_arbitrator cfg dc da) p) =
    Inr (if workflow_degraded (ap_metadata p) then (Blocked, BLOCKED_RESPONSE) else (Passed, ap_output_text p))"
proof -
  let ?arb = "configured_arbitrator cfg dc da"
  note g = deterministic_gathered[OF assms(1), of dc da p]
  note f = deterministic_arbitrator_fields[OF assms(1), of dc da]
  have val: "\<forall>a \<in> set (gathered_assessments ?arb p). valid_assessment a" by (simp add: gathered_valid)
  show ?thesis
  proof (cases "workflow_degraded (ap_metadata p)")
    case False
    then have "arbitration_triggers ?arb p = []"
      using assms(3) by (simp add: arbitration_triggers_def g f find_triggers_Nil deterministic_assessment_def)
    then have "arbitrate env ?arb p = pass_verdict env p (gathered_assessments ?arb p) []"
      using assms(4,5) by (simp add: arbitrate_unfold g)
    with pass_verdict_ok[OF val, of env p "[]"] False show ?thesis
      by (auto dest: pass_verdict_Inr)
  next
    case True
    then have t: "arbitration_triggers ?arb p \<noteq> []"
      using assms(2) by (simp add: arbitration_triggers_def g f deterministic_assessment_def)
    have "\<exists>j. adjudicate_call ?arb p = Inr j \<and> adj_action j = Block"
      unfolding adjudicate_call_def f deterministic_adjudicator_def
      by (simp add: deterministic_adjudicate_def with_retries_success)
    then obtain j where j: "adjudicate_call ?arb p = Inr j" "adj_action j = Block" by blast
    have b: "Blocked \<in> {Blocked, ManualReview}" by simp
    from t j have "arbitrate env ?arb p = blocked_verdict env p Blocked (gathered_assessments ?arb p)
        (gathered_failures ?arb p) (arbitration_triggers ?arb p) (Some j)"
      using assms(4,5) by (simp add: arbitrate_unfold g verdict_from_adjudication_def)
    moreover obtain v where v: "blocked_verdict env p Blocked (gathered_assessments ?arb p)
        (gathered_failures ?arb p) (arbitration_triggers ?arb p) (Some j) = Inr v"
      using blocked_verdict_ok[OF val] by blast
    moreover from blocked_verdict_Inr[OF v b]
    have "v_status v = Blocked" "v_delivered v = BLOCKED_RESPONSE"
      by (simp_all add: delivery_consistent_def)
    ultimately show ?thesis using True by simp
  qed
qed

text \<open>In deterministic mode, with a score threshold that a perfect score meets and a degraded one
  does not, an in-time arbitration releases exactly the workflows whose metadata reports no failed and
  no skipped observation; every other workflow is blocked.\<close>
theorem deterministic_gate_exact:
  assumes "set_mode cfg = Deterministic" and "2 < set_score_threshold cfg" and "set_score_threshold cfg \<le> 5"
    and "\<not> env_timed_out env" and "ap_output_text p \<noteq> []"
  shows "map_sum id (\<lambda>v. (v_status v, v_delivered v)) (arbitrate env (configured_arbitrator cfg dc da) p) =
    Inr (if workflow_degraded (ap_metadata p) then (Blocked, BLOCKED_RESPONSE) else (Passed, ap_output_text p))"
  using assms by (rule deterministic_gate)

text \<open>A retried provider call returns the outcome of its last attempt: it makes at least one and at
  most \<open>max(1, attempts)\<close> calls, every earlier call failed with a transient error, and it stops early
  only on a success or a non-transient error.\<close>
theorem with_retries_bounded:
  "let n = retry_calls op attempts in
    with_retries op attempts = op n \<and> 1 \<le> n \<and> n \<le> nat (max 1 attempts) \<and>
    (\<forall>k \<in> {1..<n}. \<exists>e. op k = Inl e \<and> is_transient_exception (fst e)) \<and>
    (n = nat (max 1 attempts) \<or> (case op n of Inr _ \<Rightarrow> True | Inl e \<Rightarrow> \<not> is_transient_exception (fst e)))"
proof -
  let ?r = "nat (max 1 attempts) - 1"
  define n where "n = retry_calls op attempts"
  have r: "Suc ?r = nat (max 1 attempts)" by simp
  have n: "n = snd (retry_loop op ?r 1)" by (simp add: n_def retry_calls_def)
  have res: "with_retries op attempts = op n"
    unfolding with_retries_def n by (subst retry_loop_result) simp
  have le: "n \<le> nat (max 1 attempts)" "1 \<le> n"
    using retry_loop_calls[of op ?r 1] r unfolding n by simp_all
  have pre: "\<forall>k \<in> {1..<n}. \<exists>e. op k = Inl e \<and> is_transient_exception (fst e)"
  proof
    fix k assume "k \<in> {1..<n}"
    then have "(k - 1) + 1 < snd (retry_loop op ?r 1)" "1 + (k - 1) = k" using n by auto
    then show "\<exists>e. op k = Inl e \<and> is_transient_exception (fst e)"
      using retry_loop_prefix[of "k - 1" op ?r 1] by metis
  qed
  have "n \<noteq> nat (max 1 attempts) \<Longrightarrow> (case op n of Inr _ \<Rightarrow> True | Inl e \<Rightarrow> \<not> is_transient_exception (fst e))"
  proof -
    assume "n \<noteq> nat (max 1 attempts)"
    then have "snd (retry_loop op ?r 1) \<le> ?r" using le(1) r n by linarith
    from retry_loop_stop[OF this] show ?thesis
      using res unfolding with_retries_def by (auto split: sum.split)
  qed
  with res le pre show ?thesis unfolding n_def Let_def by blast
qed

section \<open>Concrete runs\<close>

definition ex_env :: arb_env where
  "ex_env = \<lparr>env_timed_out = False, env_timeout_text = ''30.0'', env_uuid5 = (\<lambda>s. take 20 s)\<rparr>"

definition ex_settings :: arb_settings where
  "ex_settings = \<lparr>set_mode = Deterministic, set_score_threshold = 4, set_retry_attempts = 2\<rparr>"

definition ex_arbitrator :: arbitrator where
  "ex_arbitrator = configured_arbitrator ex_settings [] deterministic_adjudicator"

definition ex_payload :: "int \<Rightarrow> arb_payload" where
  "ex_payload failed = \<lparr>ap_output_text = ''answer'', ap_original_prompt = Some ''question'',
     ap_user_id = None, ap_feature_scope = None, ap_session_id = None,
     ap_metadata = [(''failed_observation_count'', PInt failed)]\<rparr>"

lemma ex_run_passes:
  "map_sum id (\<lambda>v. (v_allowed v, v_adjudication_required v)) (arbitrate ex_env ex_arbitrator (ex_payload 0))
     = Inr (True, False)"
  by code_simp

lemma ex_run_blocks:
  "map_sum id v_allowed (arbitrate ex_env ex_arbitrator (ex_payload 1)) = Inr False"
  by code_simp

theorem arbitrate_fail_closed_witness:
  "\<exists>v. arbitrate ex_env ex_arbitrator (ex_payload 1) = Inr v \<and>
     v_status v \<in> {Blocked, ManualReview} \<and> v_delivered v = BLOCKED_RESPONSE"
proof -
  from ex_run_blocks obtain v where v: "arbitrate ex_env ex_arbitrator (ex_payload 1) = Inr v"
    and "\<not> v_allowed v" by (auto simp: map_sum_def split: sum.splits)
  with arbitrate_fail_closed[OF v] show ?thesis by auto
qed

theorem arbitrate_clean_release_witness:
  "\<exists>v. arbitrate ex_env ex_arbitrator (ex_payload 0) = Inr v \<and>
     v_status v = Passed \<and> v_delivered v = ''answer'' \<and> length (v_assessments v) = 3"
proof -
  from ex_run_passes obtain v where v: "arbitrate ex_env ex_arbitrator (ex_payload 0) = Inr v"
    and n: "\<not> v_adjudication_required v" by (auto simp: map_sum_def split: sum.splits)
  have "length (arb_critics ex_arbitrator) = 3" by code_simp
  with arbitrate_clean_release[OF v n] v show ?thesis by (auto simp: ex_payload_def)
qed

theorem arbitrate_total_witness:
  "\<exists>v. arbitrate ex_env ex_arbitrator (ex_payload 7) = Inr v \<and> 0 \<le> v_confidence v \<and> v_confidence v \<le> 1"
proof (rule arbitrate_total)
  show "ap_output_text (ex_payload 7) \<noteq> []" by (simp add: ex_payload_def)
next
  fix as fs trig k j
  assume "a_adjudicate (arb_adjudicator ex_arbitrator) (ex_payload 7) as fs trig k = Inr j"
  then show "valid_adjudication j"
    by (auto simp: ex_arbitrator_def ex_settings_def deterministic_arbitrator_fields
        deterministic_adjudicator_def deterministic_adjudicate_def valid_adjudication_def)
qed

theorem deterministic_gate_exact_witness:
  "map_sum id (\<lambda>v. (v_status v, v_delivered v)) (arbitrate ex_env ex_arbitrator (ex_payload 1)) =
     Inr (Blocked, BLOCKED_RESPONSE)"
proof -
  have "workflow_degraded (ap_metadata (ex_payload 1))" by code_simp
  then show ?thesis
    using deterministic_gate_exact[of ex_settings ex_env "ex_payload 1" "[]" deterministic_adjudicator]
    by (simp add: ex_settings_def ex_env_def ex_payload_def ex_arbitrator_def)
qed

theorem with_retries_bounded_witness:
  "let op = (\<lambda>k::nat. if k < 3 then Inl (TimeoutError, ''slow'') else Inr k) in
     retry_calls op 5 = 3 \<and> with_retries op 5 = op 3 \<and> (\<forall>k \<in> {1..<3}. \<exists>e. op k = Inl e)"
proof -
  let ?op = "\<lambda>k::nat. if k < 3 then Inl (TimeoutError, ''slow'') else (Inr k :: nat result)"
  have "retry_calls ?op 5 = 3" by code_simp
  with with_retries_bounded[of ?op 5] show ?thesis by (auto simp: Let_def)
qed

end
