(* ===== verification/ProdLogs.thy ===== *)
theory ProdLogs
  imports Prelude
begin

text \<open>
  The production interaction log of \<open>services-runtime/src/tracing/production_logs.py\<close>: building one
  redacted record, and the PostgreSQL sink that upserts records and flags feedback. The table is a
  dictionary from trace id to row; a statement that violates a constraint of \<open>init.sql\<close> raises and
  leaves the table unchanged. The redaction patterns, Unicode NFKC normalisation and SHA-256 are
  parameters.
\<close>

section \<open>Records\<close>

record interaction =
  il_trace_id :: str
  il_feature_scope :: str
  il_redacted_prompt :: str
  il_fingerprint :: str
  il_scores :: "int dict"
  il_min_score :: "int option"
  il_status :: str

record log_library =
  ll_redact :: "str \<Rightarrow> str"
  ll_nfkc :: "str \<Rightarrow> str"
  ll_sha256 :: "str \<Rightarrow> str"

text \<open>\<open>" ".join(s.split())\<close>.\<close>

definition squeeze :: "str \<Rightarrow> str" where
  "squeeze s = join '' '' (split_ws s)"

definition build_production_interaction ::
    "log_library \<Rightarrow> str \<Rightarrow> str \<Rightarrow> str \<Rightarrow> int dict option \<Rightarrow> str \<Rightarrow> interaction result" where
  "build_production_interaction lib trace_id feature_scope prompt scores_opt status =
     (let tid = strip trace_id;
          scope = strip feature_scope;
          redacted = ll_redact lib prompt;
          normalized = squeeze (ll_nfkc lib redacted);
          scores = (case scores_opt of None \<Rightarrow> [] | Some d \<Rightarrow> d)
      in if tid = [] \<or> scope = [] \<or> normalized = []
         then Inl (ValueError, ''trace_id, feature_scope, and redacted prompt are required'')
         else if list_ex (\<lambda>v. v < 1 \<or> v > 5) (map snd scores)
         then Inl (ValueError, ''arbitration scores must be between 1 and 5'')
         else Inr \<lparr>il_trace_id = tid, il_feature_scope = scope, il_redacted_prompt = redacted,
                   il_fingerprint = ll_sha256 lib normalized, il_scores = scores,
                   il_min_score = (if scores = [] then None else Some (Min (set (map snd scores)))),
                   il_status = status\<rparr>)"

section \<open>The PostgreSQL sink\<close>

record log_row =
  lr_feature_scope :: str
  lr_redacted_prompt :: str
  lr_fingerprint :: str
  lr_scores :: "int dict"
  lr_min_score :: "int option"
  lr_status :: "str option"
  lr_negative_feedback :: bool

type_synonym log_table = "log_row dict"

definition btrim :: "str \<Rightarrow> str" where
  "btrim s = strip_by (\<lambda>c. c = CHR '' '') s"

definition row_constraints :: "interaction \<Rightarrow> bool" where
  "row_constraints r \<longleftrightarrow> length (il_trace_id r) \<le> 64 \<and> length (il_feature_scope r) \<le> 64 \<and>
     length (il_fingerprint r) \<le> 64 \<and> length (il_status r) \<le> 32 \<and>
     btrim (il_feature_scope r) \<noteq> [] \<and> btrim (il_redacted_prompt r) \<noteq> [] \<and>
     (case il_min_score r of None \<Rightarrow> True | Some m \<Rightarrow> 1 \<le> m \<and> m \<le> 5)"

definition new_row :: "interaction \<Rightarrow> log_row" where
  "new_row r = \<lparr>lr_feature_scope = il_feature_scope r, lr_redacted_prompt = il_redacted_prompt r,
     lr_fingerprint = il_fingerprint r, lr_scores = il_scores r, lr_min_score = il_min_score r,
     lr_status = Some (il_status r), lr_negative_feedback = False\<rparr>"

text \<open>The \<open>DO UPDATE SET\<close> clause: a pending record does not overwrite a finished arbitration.\<close>

definition keeps_final :: "interaction \<Rightarrow> log_row \<Rightarrow> bool" where
  "keeps_final r old \<longleftrightarrow> il_status r = ''pending'' \<and> lr_status old \<noteq> None \<and>
     lr_status old \<noteq> Some ''pending''"

definition merge_row :: "interaction \<Rightarrow> log_row \<Rightarrow> log_row" where
  "merge_row r old = old\<lparr>lr_feature_scope := il_feature_scope r,
     lr_redacted_prompt := il_redacted_prompt r, lr_fingerprint := il_fingerprint r,
     lr_scores := (if keeps_final r old then lr_scores old else il_scores r),
     lr_min_score := (if keeps_final r old then lr_min_score old else il_min_score r),
     lr_status := (if keeps_final r old then lr_status old else Some (il_status r))\<rparr>"

definition record_interaction :: "interaction \<Rightarrow> log_table \<Rightarrow> unit result \<times> log_table" where
  "record_interaction r t =
     (if \<not> row_constraints r then (Inl (OtherException ''IntegrityError'', ''constraint''), t)
      else (Inr (), dict_set (il_trace_id r)
             (case map_of t (il_trace_id r) of None \<Rightarrow> new_row r | Some old \<Rightarrow> merge_row r old) t))"

definition flag_row :: "log_row \<Rightarrow> log_row" where
  "flag_row row = row\<lparr>lr_negative_feedback := True\<rparr>"

definition flag_feedback :: "str \<Rightarrow> log_table \<Rightarrow> unit result \<times> log_table" where
  "flag_feedback tid t =
     (Inr (), map (\<lambda>(k, row). (k, if k = tid then flag_row row else row)) t)"

record sink_config =
  sc_dsn :: str
  sc_connect_timeout :: int
  sc_statement_timeout :: int

datatype sink = NoOpSink | PostgresSink sink_config

definition make_postgres_sink :: "str \<Rightarrow> int \<Rightarrow> int \<Rightarrow> sink result" where
  "make_postgres_sink dsn connect_timeout statement_timeout =
     (if connect_timeout < 1 then Inl (ValueError, ''connect_timeout_seconds must be at least 1'')
      else if statement_timeout < 1 then Inl (ValueError, ''statement_timeout_ms must be at least 1'')
      else Inr (PostgresSink \<lparr>sc_dsn = dsn, sc_connect_timeout = connect_timeout,
                              sc_statement_timeout = statement_timeout\<rparr>))"

definition configured_sink :: "bool \<Rightarrow> str \<Rightarrow> int \<Rightarrow> int \<Rightarrow> sink result" where
  "configured_sink enabled dsn connect_timeout statement_timeout =
     (if \<not> enabled then Inr NoOpSink else make_postgres_sink dsn connect_timeout statement_timeout)"

text \<open>Sink calls, in the order they reach the database.\<close>

datatype log_op = Record interaction | Flag str

fun sink_step :: "sink \<Rightarrow> log_op \<Rightarrow> log_table \<Rightarrow> unit result \<times> log_table" where
  "sink_step NoOpSink _ t = (Inr (), t)"
| "sink_step (PostgresSink _) (Record r) t = record_interaction r t"
| "sink_step (PostgresSink _) (Flag tid) t = flag_feedback tid t"

fun run_log :: "sink \<Rightarrow> log_op list \<Rightarrow> log_table \<Rightarrow> log_table" where
  "run_log s [] t = t"
| "run_log s (op # ops) t = run_log s ops (snd (sink_step s op t))"

section \<open>Building a record\<close>

lemma scores_in_range:
  "list_ex (\<lambda>v. v < 1 \<or> v > 5) (map snd d) \<longleftrightarrow> \<not> (\<forall>v \<in> set (map snd d). 1 \<le> v \<and> v \<le> (5 :: int))"
  by (auto simp: list_ex_iff not_le)

lemma build_interaction_Inr:
  "build_production_interaction lib tid scope prompt scores_opt status = Inr r \<longleftrightarrow>
     strip tid \<noteq> [] \<and> strip scope \<noteq> [] \<and> squeeze (ll_nfkc lib (ll_redact lib prompt)) \<noteq> [] \<and>
     (\<forall>v \<in> set (map snd (case scores_opt of None \<Rightarrow> [] | Some d \<Rightarrow> d)). 1 \<le> v \<and> v \<le> 5) \<and>
     r = \<lparr>il_trace_id = strip tid, il_feature_scope = strip scope,
          il_redacted_prompt = ll_redact lib prompt,
          il_fingerprint = ll_sha256 lib (squeeze (ll_nfkc lib (ll_redact lib prompt))),
          il_scores = (case scores_opt of None \<Rightarrow> [] | Some d \<Rightarrow> d),
          il_min_score = (case scores_opt of None \<Rightarrow> None
             | Some d \<Rightarrow> if d = [] then None else Some (Min (set (map snd d)))),
          il_status = status\<rparr>"
  unfolding build_production_interaction_def Let_def scores_in_range
  by (auto split: option.splits if_splits)

lemma build_interaction_Inl:
  assumes "build_production_interaction lib tid scope prompt scores_opt status = Inl e"
  shows "fst e = ValueError"
    and "strip tid = [] \<or> strip scope = [] \<or> squeeze (ll_nfkc lib (ll_redact lib prompt)) = [] \<or>
      (\<exists>d. scores_opt = Some d \<and> \<not> (\<forall>v \<in> set (map snd d). 1 \<le> v \<and> v \<le> 5))"
  using assms unfolding build_production_interaction_def Let_def scores_in_range
  by (cases scores_opt; auto split: if_splits)+

text \<open>A production record is built exactly when the trimmed trace id, the trimmed scope and the
  whitespace-squeezed redacted prompt are non-empty and every score is between 1 and 5; it then stores
  the redacted prompt and nothing else of it, its ids carry no outer whitespace, and its minimum score
  is a score of the record that no score undercuts.\<close>
theorem build_interaction_contract:
  "case build_production_interaction lib tid scope prompt scores_opt status of
     Inl e \<Rightarrow> fst e = ValueError \<and>
       (strip tid = [] \<or> strip scope = [] \<or> squeeze (ll_nfkc lib (ll_redact lib prompt)) = [] \<or>
        (\<exists>d. scores_opt = Some d \<and> (\<exists>v \<in> set (map snd d). v < 1 \<or> 5 < v)))
   | Inr r \<Rightarrow> il_redacted_prompt r = ll_redact lib prompt \<and> il_trace_id r \<noteq> [] \<and>
       strip (il_trace_id r) = il_trace_id r \<and> strip (il_feature_scope r) = il_feature_scope r \<and>
       (case il_min_score r of None \<Rightarrow> il_scores r = []
        | Some m \<Rightarrow> m \<in> set (map snd (il_scores r)) \<and> 1 \<le> m \<and> m \<le> 5 \<and>
            \<not> (\<exists>v \<in> set (map snd (il_scores r)). v < m))"
proof (cases "build_production_interaction lib tid scope prompt scores_opt status")
  case (Inl e)
  then show ?thesis
    using build_interaction_Inl [OF Inl] by (simp add: not_le)
next
  case (Inr r)
  define d where "d = (case scores_opt of None \<Rightarrow> [] | Some d \<Rightarrow> d)"
  let ?vs = "set (map snd d)"
  from build_interaction_Inr [THEN iffD1, OF Inr]
  have r: "il_redacted_prompt r = ll_redact lib prompt" "il_trace_id r = strip tid" "strip tid \<noteq> []"
      "il_feature_scope r = strip scope" "il_scores r = d" "\<forall>v \<in> ?vs. 1 \<le> v \<and> v \<le> 5"
      "il_min_score r = (if d = [] then None else Some (Min ?vs))"
    by (auto simp: d_def split: option.splits)
  have "d \<noteq> [] \<Longrightarrow> Min ?vs \<in> ?vs" by (intro Min_in) auto
  moreover have "\<forall>v \<in> ?vs. \<not> v < Min ?vs" by (simp add: not_less)
  ultimately show ?thesis unfolding Inr using r by (auto simp del: set_map)
qed

section \<open>What the sink promises\<close>

locale interaction_log =
  fixes put :: "interaction \<Rightarrow> 't \<Rightarrow> 't"
    and flag :: "str \<Rightarrow> 't \<Rightarrow> 't"
    and lookup :: "'t \<Rightarrow> str \<Rightarrow> log_row option"
  assumes put_lookup: "lookup (put r t) k =
      (if k = il_trace_id r \<and> row_constraints r
       then Some (case lookup t k of None \<Rightarrow> new_row r | Some old \<Rightarrow> merge_row r old)
       else lookup t k)"
    and flag_lookup: "lookup (flag tid t) k =
      (if k = tid then map_option flag_row (lookup t k) else lookup t k)"
begin

fun apply_ops :: "log_op list \<Rightarrow> 't \<Rightarrow> 't" where
  "apply_ops [] t = t"
| "apply_ops (Record r # ops) t = apply_ops ops (put r t)"
| "apply_ops (Flag k # ops) t = apply_ops ops (flag k t)"

lemma apply_ops_append: "apply_ops (xs @ ys) t = apply_ops ys (apply_ops xs t)"
  by (induction xs t rule: apply_ops.induct) simp_all

lemma feedback_permanent:
  "lookup t k = Some row \<Longrightarrow> lr_negative_feedback row \<Longrightarrow>
   \<exists>row'. lookup (apply_ops ops t) k = Some row' \<and> lr_negative_feedback row'"
proof (induction ops t arbitrary: row rule: apply_ops.induct)
  case (2 r ops t)
  have "\<exists>row'. lookup (put r t) k = Some row' \<and> lr_negative_feedback row'"
    using "2.prems" by (auto simp: put_lookup merge_row_def)
  with "2.IH" show ?case by auto
next
  case (3 tid ops t)
  have "\<exists>row'. lookup (flag tid t) k = Some row' \<and> lr_negative_feedback row'"
    using "3.prems" by (cases "k = tid") (simp_all add: flag_lookup flag_row_def)
  with "3.IH" show ?case by auto
qed simp

end

lemma map_of_map_row: "map_of (map (\<lambda>(k, row). (k, if k = tid then f row else row)) t) k =
    (if k = tid then map_option f (map_of t k) else map_of t k)"
  by (induction t) auto

interpretation pg: interaction_log "\<lambda>r t. snd (record_interaction r t)"
  "\<lambda>tid t. snd (flag_feedback tid t)" map_of
  by unfold_locales (auto simp: record_interaction_def flag_feedback_def map_of_map_row)

lemma run_log_postgres: "run_log (PostgresSink c) ops t = pg.apply_ops ops t"
proof (induction ops arbitrary: t)
  case (Cons op ops)
  then show ?case by (cases op) simp_all
qed simp

lemma run_log_distinct: "distinct (dict_keys t) \<Longrightarrow> distinct (dict_keys (run_log s ops t))"
proof (induction ops arbitrary: t)
  case (Cons op ops)
  have "distinct (dict_keys (snd (sink_step s op t)))"
    by (cases s; cases op) (use Cons.prems in \<open>auto simp: record_interaction_def flag_feedback_def
        comp_def case_prod_unfold\<close>)
  with Cons.IH show ?case by simp
qed simp

section \<open>The row as a function of the history\<close>

text \<open>The records of a trace that the table accepts, in order.\<close>

fun accepted :: "str \<Rightarrow> log_op list \<Rightarrow> interaction list" where
  "accepted k [] = []"
| "accepted k (Record r # ops) =
     (if il_trace_id r = k \<and> row_constraints r then r # accepted k ops else accepted k ops)"
| "accepted k (Flag _ # ops) = accepted k ops"

text \<open>Feedback counts when it arrives after a first accepted record.\<close>

fun flagged :: "str \<Rightarrow> bool \<Rightarrow> log_op list \<Rightarrow> bool" where
  "flagged k seen [] = False"
| "flagged k seen (Record r # ops) = flagged k (seen \<or> il_trace_id r = k \<and> row_constraints r) ops"
| "flagged k seen (Flag tid # ops) = (tid = k \<and> seen \<or> flagged k seen ops)"

text \<open>The record that decides the arbitration columns: the last finished one, else the last.\<close>

definition deciding :: "interaction list \<Rightarrow> interaction" where
  "deciding rs = (let finals = filter (\<lambda>r. il_status r \<noteq> ''pending'') rs
                  in if finals = [] then last rs else last finals)"

lemma accepted_append: "accepted k (xs @ ys) = accepted k xs @ accepted k ys"
  by (induction k xs rule: accepted.induct) simp_all

lemma flagged_snoc: "flagged k seen (ops @ [op]) \<longleftrightarrow>
    flagged k seen ops \<or> op = Flag k \<and> (seen \<or> accepted k ops \<noteq> [])"
  by (induction k seen ops rule: flagged.induct) (cases op; auto)+

lemma flagged_accepted: "flagged k False ops \<Longrightarrow> accepted k ops \<noteq> []"
  by (induction ops rule: rev_induct) (auto simp: flagged_snoc accepted_append)

lemma deciding_snoc: "rs \<noteq> [] \<Longrightarrow> deciding (rs @ [r]) =
    (if il_status r = ''pending'' \<and> il_status (deciding rs) \<noteq> ''pending'' then deciding rs else r)"
proof -
  have "filter (\<lambda>r. il_status r \<noteq> ''pending'') rs \<noteq> [] \<Longrightarrow>
    il_status (last (filter (\<lambda>r. il_status r \<noteq> ''pending'') rs)) \<noteq> ''pending''"
    using last_in_set by fastforce
  moreover assume "rs \<noteq> []"
  moreover have "filter (\<lambda>r. il_status r \<noteq> ''pending'') rs = [] \<Longrightarrow> il_status (last rs) = ''pending''"
    using \<open>rs \<noteq> []\<close> by (simp add: filter_empty_conv)
  ultimately show ?thesis by (auto simp: deciding_def Let_def)
qed

definition history_row :: "interaction list \<Rightarrow> bool \<Rightarrow> log_row option" where
  "history_row rs fb = (if rs = [] then None else Some
     \<lparr>lr_feature_scope = il_feature_scope (last rs), lr_redacted_prompt = il_redacted_prompt (last rs),
      lr_fingerprint = il_fingerprint (last rs), lr_scores = il_scores (deciding rs),
      lr_min_score = il_min_score (deciding rs), lr_status = Some (il_status (deciding rs)),
      lr_negative_feedback = fb\<rparr>)"

lemma history_row_record:
  "history_row (rs @ [r]) fb = Some (case history_row rs fb of None \<Rightarrow> (new_row r)\<lparr>lr_negative_feedback := fb\<rparr>
     | Some old \<Rightarrow> merge_row r old)"
proof (cases "rs = []")
  case True
  then show ?thesis by (simp add: history_row_def new_row_def deciding_def)
next
  case False
  then show ?thesis by (auto simp: history_row_def merge_row_def keeps_final_def deciding_snoc)
qed

text \<open>C36. The stored row is a function of the history: after any sequence of writes and feedback flags
  from an empty table, a trace has a row exactly if a record of it was accepted; its text columns are
  those of the last record, its arbitration columns those of the last finished record (a late pending
  write never overwrites a verdict), and it is flagged exactly if feedback came after the first record.\<close>
theorem postgres_sink_history:
  "map_of (run_log (PostgresSink c) ops []) k = history_row (accepted k ops) (flagged k False ops)"
proof (induction ops rule: rev_induct)
  case Nil
  show ?case by (simp add: history_row_def)
next
  case (snoc op ops)
  show ?case
  proof (cases op)
    case (Record r)
    have fb: "flagged k False (ops @ [op]) = flagged k False ops" by (simp add: flagged_snoc Record)
    show ?thesis
      using snoc.IH unfolding fb
      by (auto simp: run_log_postgres pg.apply_ops_append Record pg.put_lookup accepted_append
          history_row_record split: option.split) (auto simp: history_row_def new_row_def dest: flagged_accepted split: if_splits)
  next
    case (Flag tid)
    then show ?thesis using snoc.IH
      by (auto simp: run_log_postgres pg.apply_ops_append pg.flag_lookup accepted_append flagged_snoc
          history_row_def flag_row_def)
  qed
qed

end
