(* ===== verification/Forensics.thy ===== *)
theory Forensics
  imports ProdLogs
begin

text \<open>
  Tracing and failure forensics of \<open>services-runtime/src/tracing/forensics.py\<close>: the privacy filter on
  span attributes, the collecting exporter, the root-cause analyzer, the trace artifact with its span
  tree, the JSON and SQLite persistence, and the feedback path. SHA-256, JSON text, time formatting
  and \<open>str\<close> of non-strings are parameters. The loops along parent links are partial functions, so
  that a parent cycle is the value \<open>None\<close>.
\<close>

section \<open>Data\<close>

datatype span_category = Workflow | Agent | Tool | Database | Model | Analysis

fun span_category_text :: "span_category \<Rightarrow> str" where
  "span_category_text Workflow = ''workflow''"
| "span_category_text Agent = ''agent''"
| "span_category_text Tool = ''tool''"
| "span_category_text Database = ''database''"
| "span_category_text Model = ''model''"
| "span_category_text Analysis = ''analysis''"

datatype failure_trigger = ExecutionErrorTrigger | ArbitrationFailureTrigger | NegativeFeedbackTrigger

fun trigger_text :: "failure_trigger \<Rightarrow> str" where
  "trigger_text ExecutionErrorTrigger = ''execution_error''"
| "trigger_text ArbitrationFailureTrigger = ''arbitration_failure''"
| "trigger_text NegativeFeedbackTrigger = ''negative_feedback''"

datatype failure_category = ExecutionFailure | ExtractionDegradation | LowConfidence
  | PropagationError | PromptFailure | ContextLoss | ArbitrationFailure | UnknownFailure

fun failure_category_text :: "failure_category \<Rightarrow> str" where
  "failure_category_text ExecutionFailure = ''execution_error''"
| "failure_category_text ExtractionDegradation = ''extraction_degradation''"
| "failure_category_text LowConfidence = ''low_confidence''"
| "failure_category_text PropagationError = ''propagation_error''"
| "failure_category_text PromptFailure = ''prompt_failure''"
| "failure_category_text ContextLoss = ''context_loss''"
| "failure_category_text ArbitrationFailure = ''arbitration_failure''"
| "failure_category_text UnknownFailure = ''unknown''"

definition parse_trigger :: "str \<Rightarrow> failure_trigger option" where
  "parse_trigger s = find (\<lambda>t. trigger_text t = s)
     [ExecutionErrorTrigger, ArbitrationFailureTrigger, NegativeFeedbackTrigger]"

definition parse_failure_category :: "str \<Rightarrow> failure_category option" where
  "parse_failure_category s = find (\<lambda>c. failure_category_text c = s)
     [ExecutionFailure, ExtractionDegradation, LowConfidence, PropagationError, PromptFailure,
      ContextLoss, ArbitrationFailure, UnknownFailure]"

record evidence =
  ev_signal :: str
  ev_observed :: pyval
  ev_threshold :: pyval

record diagnosis =
  dg_trace_id :: str
  dg_span_id :: str
  dg_span_name :: str
  dg_step_id :: "str option"
  dg_category :: failure_category
  dg_explanation :: str
  dg_confidence :: rat
  dg_evidence :: "evidence list"
  dg_analyzer :: str

record span_event =
  se_name :: str
  se_timestamp :: str
  se_attributes :: "pyval dict"

record span =
  sp_trace_id :: str
  sp_span_id :: str
  sp_parent :: "str option"
  sp_name :: str
  sp_kind :: str
  sp_status :: str
  sp_start :: str
  sp_end :: str
  sp_duration :: rat
  sp_attrs :: "pyval dict"
  sp_events :: "span_event list"

record span_tree =
  tr_children :: "(str \<times> str list) list"
  tr_roots :: "str list"

record artifact =
  at_trace_id :: str
  at_status :: str
  at_trigger :: "failure_trigger option"
  at_reasons :: "str list"
  at_started :: str
  at_ended :: str
  at_duration :: rat
  at_confidence :: "rat option"
  at_span_count :: nat
  at_error_count :: nat
  at_degraded_count :: nat
  at_diagnosis :: "diagnosis option"
  at_spans :: "span list"
  at_tree :: span_tree
  at_feedback :: "pyval dict option"

record trace_summary =
  ts_trace_id :: str
  ts_created_at :: str
  ts_status :: str
  ts_confidence :: "rat option"
  ts_trigger :: "failure_trigger option"
  ts_root_span :: "str option"
  ts_root_step :: "str option"
  ts_category :: "failure_category option"

record trace_lib =
  tl_sha256 :: "str \<Rightarrow> str"
  tl_json :: "pyval \<Rightarrow> str"
  tl_str :: "pyval \<Rightarrow> str"
  tl_iso :: "int \<Rightarrow> str"
  tl_now :: int

section \<open>The privacy filter\<close>

definition sensitive_leaf_segments :: "str list" where
  "sensitive_leaf_segments =
     [''authorization'', ''body'', ''content'', ''document'', ''input'', ''message'', ''output'',
      ''password'', ''prompt'', ''query'', ''response'', ''secret'', ''sql'', ''stacktrace'',
      ''text'', ''token'', ''user_id'']"

definition sensitive_key_suffixes :: "str list" where
  "sensitive_key_suffixes = [''exception.message'', ''exception.stacktrace'', ''query.text'', ''redis.key'']"

definition preserved_key_suffixes :: "str list" where
  "preserved_key_suffixes = [''.sha256'', ''.length'', ''.token_count'', ''.input_tokens'', ''.output_tokens'']"

definition stable_text :: "trace_lib \<Rightarrow> pyval \<Rightarrow> str" where
  "stable_text lib v = (case v of PBytes s \<Rightarrow> bytes_hex s | PStr s \<Rightarrow> s | _ \<Rightarrow> tl_json lib v)"

definition content_metadata :: "trace_lib \<Rightarrow> str \<Rightarrow> pyval \<Rightarrow> pyval dict" where
  "content_metadata lib p v = (let s = stable_text lib v in
     [(p @ ''.sha256'', PStr (tl_sha256 lib s)), (p @ ''.length'', PInt (int (length s)))])"

text \<open>\<open>key.rsplit(".", 1)[-1]\<close>.\<close>

definition leaf_segment :: "str \<Rightarrow> str" where
  "leaf_segment s = rev (takeWhile (\<lambda>c. c \<noteq> CHR ''.'') (rev s))"

definition is_sensitive_attribute_key :: "str \<Rightarrow> bool" where
  "is_sensitive_attribute_key k =
     (if list_ex (\<lambda>e. ends_with e k) preserved_key_suffixes
         \<or> k \<in> {''input_tokens'', ''output_tokens'', ''token_count''} then False
      else if list_ex (\<lambda>e. k = e \<or> ends_with (CHR ''.'' # e) k) sensitive_key_suffixes then True
      else leaf_segment k \<in> set sensitive_leaf_segments)"

fun otel_value :: "trace_lib \<Rightarrow> nat \<Rightarrow> pyval \<Rightarrow> pyval" where
  "otel_value lib n PNone = PNone"
| "otel_value lib n (PBool b) = PBool b"
| "otel_value lib n (PInt i) = PInt i"
| "otel_value lib n (PFloat x) = PFloat x"
| "otel_value lib n (PStr s) = PStr (take n s)"
| "otel_value lib n (PSeq xs) = PSeq (filter is_scalar (map (otel_value lib n) xs))"
| "otel_value lib n (PBytes s) = PStr (take n (stable_text lib (PBytes s)))"
| "otel_value lib n (PDict d) = PStr (take n (stable_text lib (PDict d)))"

definition safe_attribute_step :: "trace_lib \<Rightarrow> nat \<Rightarrow> str \<times> pyval \<Rightarrow> pyval dict \<Rightarrow> pyval dict" where
  "safe_attribute_step lib n kv safe = (case kv of (k, raw) \<Rightarrow>
     if is_sensitive_attribute_key (lower k) then dict_update safe (content_metadata lib k raw)
     else if otel_value lib n raw \<noteq> PNone then dict_set k (otel_value lib n raw) safe
     else safe)"

definition safe_attributes :: "trace_lib \<Rightarrow> nat \<Rightarrow> pyval dict \<Rightarrow> pyval dict" where
  "safe_attributes lib n attrs = fold (safe_attribute_step lib n) attrs []"

section \<open>The exporter\<close>

record otel_event =
  oe_name :: str
  oe_timestamp :: "int option"
  oe_attributes :: "pyval dict"

text \<open>A span of the OpenTelemetry SDK, as far as it is read.\<close>

record otel_span =
  os_trace_id :: "nat option"
  os_span_id :: "nat option"
  os_parent :: "nat option"
  os_name :: str
  os_kind :: str
  os_status :: str
  os_start :: "int option"
  os_end :: "int option"
  os_attrs :: "pyval dict"
  os_events :: "otel_event list"

definition or_now :: "trace_lib \<Rightarrow> int option \<Rightarrow> int" where
  "or_now lib t = (case t of None \<Rightarrow> tl_now lib | Some n \<Rightarrow> if n = 0 then tl_now lib else n)"

definition iso_time :: "trace_lib \<Rightarrow> int option \<Rightarrow> str" where
  "iso_time lib t = tl_iso lib (or_now lib t)"

definition format_span_id :: "nat option \<Rightarrow> str option" where
  "format_span_id i = (case i of None \<Rightarrow> None | Some n \<Rightarrow> if n = 0 then None else Some (hex_padded 16 n))"

definition format_trace_id :: "nat option \<Rightarrow> str" where
  "format_trace_id i = hex_padded 32 (case i of None \<Rightarrow> 0 | Some n \<Rightarrow> n)"

definition serialize :: "trace_lib \<Rightarrow> nat \<Rightarrow> otel_span \<Rightarrow> span" where
  "serialize lib n s =
     (let start_ns = or_now lib (os_start s);
          end_ns = (case os_end s of None \<Rightarrow> start_ns | Some e \<Rightarrow> if e = 0 then start_ns else e)
      in \<lparr>sp_trace_id = format_trace_id (os_trace_id s),
          sp_span_id = (case format_span_id (os_span_id s) of None \<Rightarrow> ''0000000000000000'' | Some i \<Rightarrow> i),
          sp_parent = format_span_id (os_parent s),
          sp_name = os_name s, sp_kind = os_kind s, sp_status = os_status s,
          sp_start = iso_time lib (Some start_ns), sp_end = iso_time lib (Some end_ns),
          sp_duration = py_round (of_int (end_ns - start_ns) / 1000000) 3,
          sp_attrs = safe_attributes lib n (os_attrs s),
          sp_events = map (\<lambda>e. \<lparr>se_name = oe_name e, se_timestamp = iso_time lib (oe_timestamp e),
                                se_attributes = safe_attributes lib n (oe_attributes e)\<rparr>) (os_events s)\<rparr>)"

record exporter =
  ex_active :: "str list"
  ex_spans :: "span list dict"

definition empty_exporter :: exporter where
  "empty_exporter = \<lparr>ex_active = [], ex_spans = []\<rparr>"

definition activate :: "str \<Rightarrow> exporter \<Rightarrow> exporter" where
  "activate tid ex = ex\<lparr>ex_active := List.insert tid (ex_active ex),
     ex_spans := dict_setdefault tid [] (ex_spans ex)\<rparr>"

definition export_one :: "trace_lib \<Rightarrow> nat \<Rightarrow> otel_span \<Rightarrow> exporter \<Rightarrow> exporter" where
  "export_one lib n s ex =
     (let tid = format_trace_id (os_trace_id s)
      in if tid \<notin> set (ex_active ex) then ex
         else ex\<lparr>ex_spans := (let d = dict_setdefault tid [] (ex_spans ex)
                in dict_set tid (the (map_of d tid) @ [serialize lib n s]) d)\<rparr>)"

definition export_spans :: "trace_lib \<Rightarrow> nat \<Rightarrow> otel_span list \<Rightarrow> exporter \<Rightarrow> exporter" where
  "export_spans lib n ss ex = fold (export_one lib n) ss ex"

definition pop_trace :: "str \<Rightarrow> exporter \<Rightarrow> span list \<times> exporter" where
  "pop_trace tid ex =
     ((case map_of (ex_spans ex) tid of None \<Rightarrow> [] | Some ss \<Rightarrow> ss),
      ex\<lparr>ex_active := removeAll tid (ex_active ex), ex_spans := dict_pop tid (ex_spans ex)\<rparr>)"

section \<open>The root-cause analyzer\<close>

type_synonym judge_fun = "span list \<Rightarrow> failure_trigger \<Rightarrow> diagnosis option result"

record analyzer =
  an_confidence_threshold :: rat
  an_drop_threshold :: rat
  an_judge :: "judge_fun option"

fun category_precedence :: "failure_category \<Rightarrow> nat" where
  "category_precedence ExecutionFailure = 0"
| "category_precedence ExtractionDegradation = 1"
| "category_precedence LowConfidence = 2"
| "category_precedence ArbitrationFailure = 3"
| "category_precedence PropagationError = 4"
| "category_precedence PromptFailure = 4"
| "category_precedence ContextLoss = 4"
| "category_precedence UnknownFailure = 99"

definition prefer_category :: "failure_category \<Rightarrow> failure_category \<Rightarrow> failure_category" where
  "prefer_category current candidate =
     (if current = UnknownFailure then candidate
      else if category_precedence candidate < category_precedence current then candidate else current)"

definition string_attribute :: "trace_lib \<Rightarrow> span \<Rightarrow> str \<Rightarrow> str option" where
  "string_attribute lib s k = (case get_or_none (sp_attrs s) k of
     PNone \<Rightarrow> None | PStr t \<Rightarrow> Some t | v \<Rightarrow> Some (tl_str lib v))"

definition float_attribute :: "span \<Rightarrow> str \<Rightarrow> rat option" where
  "float_attribute s k = py_float (get_or_none (sp_attrs s) k)"

text \<open>\<open>_sequence\<close>, with \<open>float("inf")\<close> as the greatest key \<open>(True, 0)\<close>.\<close>

definition sequence_key :: "span \<Rightarrow> bool \<times> rat" where
  "sequence_key s = (case float_attribute s ''coremesh.step.index'' of
     Some x \<Rightarrow> (False, x) | None \<Rightarrow> (True, 0))"

text \<open>The fields of \<open>TraceEvidence\<close> accept scalars and \<open>None\<close>.\<close>

definition make_evidence :: "str \<Rightarrow> pyval \<Rightarrow> pyval \<Rightarrow> evidence result" where
  "make_evidence signal observed threshold =
     (if (is_scalar observed \<or> observed = PNone) \<and> (is_scalar threshold \<or> threshold = PNone)
      then Inr \<lparr>ev_signal = signal, ev_observed = observed, ev_threshold = threshold\<rparr>
      else Inl (ValidationError, ''TraceEvidence''))"

text \<open>One signal of a span: whether it fires, its evidence, and the category it argues for.\<close>

type_synonym findings = "evidence list \<times> failure_category"

definition note_signal :: "bool \<Rightarrow> evidence \<Rightarrow> failure_category \<Rightarrow> findings \<Rightarrow> findings" where
  "note_signal fires ev cat fs =
     (if fires then (fst fs @ [ev], prefer_category (snd fs) cat) else fs)"

definition status_signal :: "span \<Rightarrow> findings \<Rightarrow> findings" where
  "status_signal s = note_signal (sp_status s = ''ERROR'')
     \<lparr>ev_signal = ''span_status'', ev_observed = PStr ''ERROR'', ev_threshold = PNone\<rparr> ExecutionFailure"

definition validation_signal :: "span \<Rightarrow> findings \<Rightarrow> findings result" where
  "validation_signal s fs =
     (if get_or_none (sp_attrs s) ''coremesh.quality.validation_passed'' = PBool False
      then rbind (make_evidence ''extraction_validation''
                    (get_or_none (sp_attrs s) ''coremesh.quality.validation_delta'')
                    (get_or_none (sp_attrs s) ''coremesh.quality.validation_tolerance''))
             (\<lambda>ev. Inr (note_signal True ev ExtractionDegradation fs))
      else Inr fs)"

definition ocr_signal :: "span \<Rightarrow> findings \<Rightarrow> findings" where
  "ocr_signal s fs =
     (case (float_attribute s ''coremesh.quality.ocr_variance'',
            float_attribute s ''coremesh.quality.ocr_threshold'') of
        (Some variance, Some limit) \<Rightarrow>
          note_signal (limit < variance \<and>
              get_or_none (sp_attrs s) ''coremesh.quality.vision_recovered'' \<noteq> PBool True)
            \<lparr>ev_signal = ''ocr_variance'', ev_observed = PFloat variance, ev_threshold = PFloat limit\<rparr>
            ExtractionDegradation fs
      | _ \<Rightarrow> fs)"

definition confidence_signal :: "analyzer \<Rightarrow> rat option \<Rightarrow> rat \<Rightarrow> findings \<Rightarrow> findings" where
  "confidence_signal an prev c fs =
     (let low = note_signal (c < an_confidence_threshold an)
            \<lparr>ev_signal = ''low_confidence'', ev_observed = PFloat c,
             ev_threshold = PFloat (an_confidence_threshold an)\<rparr> LowConfidence fs
      in case prev of None \<Rightarrow> low
         | Some p \<Rightarrow> note_signal (p - c \<ge> an_drop_threshold an)
             \<lparr>ev_signal = ''confidence_drop'', ev_observed = PFloat (py_round (p - c) 4),
              ev_threshold = PFloat (an_drop_threshold an)\<rparr> LowConfidence low)"

definition degraded_signal :: "span \<Rightarrow> findings \<Rightarrow> findings" where
  "degraded_signal s fs =
     (if get_or_none (sp_attrs s) ''coremesh.degraded'' = PBool True \<and> fst fs = []
      then ([\<lparr>ev_signal = ''degraded_flag'', ev_observed = PBool True, ev_threshold = PNone\<rparr>], snd fs)
      else fs)"

definition arbitration_signal :: "span \<Rightarrow> findings \<Rightarrow> findings" where
  "arbitration_signal s =
     note_signal (get_or_none (sp_attrs s) ''coremesh.arbitration.failed'' = PBool True)
       \<lparr>ev_signal = ''arbitration_failure'', ev_observed = PBool True, ev_threshold = PNone\<rparr>
       ArbitrationFailure"

definition span_findings :: "analyzer \<Rightarrow> rat option \<Rightarrow> span \<Rightarrow> findings result" where
  "span_findings an prev s =
     rbind (validation_signal s (status_signal s ([], UnknownFailure))) (\<lambda>fs.
       let fs1 = ocr_signal s fs;
           fs2 = (case float_attribute s ''coremesh.quality.confidence'' of
                    None \<Rightarrow> fs1 | Some c \<Rightarrow> confidence_signal an prev c fs1)
       in Inr (arbitration_signal s (degraded_signal s fs2)))"

type_synonym candidate = "span \<times> evidence list \<times> failure_category"

fun candidates_from :: "analyzer \<Rightarrow> rat option \<Rightarrow> span list \<Rightarrow> candidate list result" where
  "candidates_from an prev [] = Inr []"
| "candidates_from an prev (s # ss) =
     rbind (span_findings an prev s) (\<lambda>(ev, cat).
       rbind (candidates_from an (case float_attribute s ''coremesh.quality.confidence'' of
                                    None \<Rightarrow> prev | Some c \<Rightarrow> Some c) ss)
         (\<lambda>rest. Inr (if ev \<noteq> [] then (s, ev, cat) # rest else rest)))"

definition find_candidates :: "analyzer \<Rightarrow> span list \<Rightarrow> candidate list result" where
  "find_candidates an ss = candidates_from an None ss"

text \<open>\<open>{span.span_id: span.parent_span_id for span in spans}\<close>, and \<open>parents.get(k)\<close>.\<close>

definition parent_map :: "span list \<Rightarrow> str \<Rightarrow> str option" where
  "parent_map ss k = (case map_of (rev (map (\<lambda>s. (sp_span_id s, sp_parent s)) ss)) k of
     None \<Rightarrow> None | Some p \<Rightarrow> p)"

partial_function (option) wrapper_loop ::
    "(str \<Rightarrow> str option) \<Rightarrow> str list \<Rightarrow> str option \<Rightarrow> str list \<Rightarrow> str list option" where
  "wrapper_loop parents ids p acc =
     (case p of None \<Rightarrow> Some acc
      | Some q \<Rightarrow> if q = [] then Some acc
                  else wrapper_loop parents ids (parents q)
                         (if q \<in> set ids then List.insert q acc else acc))"

partial_function (option) depth_loop :: "(str \<Rightarrow> str option) \<Rightarrow> str option \<Rightarrow> int \<Rightarrow> int option" where
  "depth_loop parents p d =
     (case p of None \<Rightarrow> Some d
      | Some q \<Rightarrow> if q = [] then Some d else depth_loop parents (parents q) (d + 1))"

declare wrapper_loop.simps [code] depth_loop.simps [code]

definition span_depth :: "span \<Rightarrow> span list \<Rightarrow> int option" where
  "span_depth s ss = depth_loop (parent_map ss) (sp_parent s) 0"

fun wrappers_of :: "(str \<Rightarrow> str option) \<Rightarrow> str list \<Rightarrow> str list \<Rightarrow> str list \<Rightarrow> str list option" where
  "wrappers_of parents ids [] acc = Some acc"
| "wrappers_of parents ids (i # rest) acc =
     Option.bind (wrapper_loop parents ids (parents i) acc) (wrappers_of parents ids rest)"

definition remove_wrapper_duplicates :: "candidate list \<Rightarrow> span list \<Rightarrow> candidate list option" where
  "remove_wrapper_duplicates cs ss =
     (let ids = remdups (map (\<lambda>c. sp_span_id (fst c)) cs)
      in map_option (\<lambda>wrappers. filter (\<lambda>c. sp_span_id (fst c) \<notin> set wrappers) cs)
           (wrappers_of (parent_map ss) ids ids []))"

definition missing_span :: "trace_lib \<Rightarrow> span" where
  "missing_span lib = \<lparr>sp_trace_id = replicate 32 (CHR ''0''), sp_span_id = replicate 16 (CHR ''0''),
     sp_parent = None, sp_name = ''coremesh.forensics.missing_trace'', sp_kind = ''INTERNAL'',
     sp_status = ''UNSET'', sp_start = tl_iso lib (tl_now lib), sp_end = tl_iso lib (tl_now lib),
     sp_duration = 0, sp_attrs = [], sp_events = []\<rparr>"

definition fallback_span :: "trace_lib \<Rightarrow> span list \<Rightarrow> failure_trigger \<Rightarrow> span" where
  "fallback_span lib ss trigger =
     (if ss = [] then missing_span lib
      else let arbitration = filter (\<lambda>s. contains ''arbitration'' (sp_name s)) ss;
               errors = filter (\<lambda>s. sp_status s = ''ERROR'') ss
           in if trigger = ArbitrationFailureTrigger \<and> arbitration \<noteq> [] then last arbitration
              else if errors \<noteq> [] then last errors else last ss)"

definition explanation :: "trace_lib \<Rightarrow> span \<Rightarrow> failure_category \<Rightarrow> str" where
  "explanation lib s cat =
     (let target = (case string_attribute lib s ''coremesh.step.id'' of
            None \<Rightarrow> ''span '' @ sp_name s
          | Some i \<Rightarrow> if i = [] then ''span '' @ sp_name s else ''step '' @ i)
      in ''The earliest specific degradation signal occurred at '' @ target @ '' (''
         @ failure_category_text cat @ '').'')"

definition chronological :: "span list \<Rightarrow> span list" where
  "chronological ss = sort_key (\<lambda>s. (sp_start s, sp_span_id s)) ss"

definition candidate_diagnosis :: "trace_lib \<Rightarrow> str \<Rightarrow> candidate \<Rightarrow> diagnosis" where
  "candidate_diagnosis lib tid c = (case c of (s, ev, cat) \<Rightarrow>
     \<lparr>dg_trace_id = tid, dg_span_id = sp_span_id s, dg_span_name = sp_name s,
      dg_step_id = string_attribute lib s ''coremesh.step.id'', dg_category = cat,
      dg_explanation = explanation lib s cat,
      dg_confidence = (if sp_status s = ''ERROR'' then 98 / 100 else 85 / 100),
      dg_evidence = ev, dg_analyzer = ''deterministic''\<rparr>)"

definition fallback_diagnosis :: "trace_lib \<Rightarrow> str \<Rightarrow> span list \<Rightarrow> failure_trigger \<Rightarrow> diagnosis" where
  "fallback_diagnosis lib tid ss trigger = (let f = fallback_span lib ss trigger in
     \<lparr>dg_trace_id = tid, dg_span_id = sp_span_id f, dg_span_name = sp_name f,
      dg_step_id = string_attribute lib f ''coremesh.step.id'',
      dg_category = (if trigger = ArbitrationFailureTrigger then ArbitrationFailure else UnknownFailure),
      dg_explanation = ''No earlier deterministic degradation signal was available; the terminal trigger is the best suspect.'',
      dg_confidence = 35 / 100,
      dg_evidence = [\<lparr>ev_signal = ''terminal_trigger'', ev_observed = PStr (trigger_text trigger),
                      ev_threshold = PNone\<rparr>],
      dg_analyzer = ''deterministic''\<rparr>)"

text \<open>The optional judge: its failures and out-of-range answers are logged and skipped.\<close>

definition judge_diagnosis :: "analyzer \<Rightarrow> span list \<Rightarrow> failure_trigger \<Rightarrow> diagnosis option" where
  "judge_diagnosis an ss trigger = (case an_judge an of None \<Rightarrow> None
     | Some judge \<Rightarrow> (case judge ss trigger of
         Inl e \<Rightarrow> None
       | Inr None \<Rightarrow> None
       | Inr (Some d) \<Rightarrow> if 0 \<le> dg_confidence d \<and> dg_confidence d \<le> 1
                         then Some (d\<lparr>dg_analyzer := ''optional_judge''\<rparr>) else None))"

definition candidate_key :: "candidate \<times> int \<Rightarrow> (bool \<times> rat) \<times> str \<times> int" where
  "candidate_key cd = (sequence_key (fst (fst cd)), sp_start (fst (fst cd)), - snd cd)"

definition analyze ::
    "trace_lib \<Rightarrow> analyzer \<Rightarrow> str \<Rightarrow> span list \<Rightarrow> failure_trigger \<Rightarrow> diagnosis result option" where
  "analyze lib an tid ss trigger =
     (let ordered = chronological ss
      in case find_candidates an ordered of
           Inl e \<Rightarrow> Some (Inl e)
         | Inr cs \<Rightarrow> Option.bind (remove_wrapper_duplicates cs ordered) (\<lambda>leaves.
             if leaves \<noteq> []
             then map_option (\<lambda>ds. Inr (candidate_diagnosis lib tid
                                        (fst (hd (sort_key candidate_key (zip leaves ds))))))
                    (those (map (\<lambda>c. span_depth (fst c) ordered) leaves))
             else Some (Inr (case judge_diagnosis an ordered trigger of
                               Some d \<Rightarrow> d
                             | None \<Rightarrow> fallback_diagnosis lib tid ordered trigger))))"

section \<open>Artifacts\<close>

text \<open>\<open>_build_tree\<close>: the nodes are shared objects, so a node is named by its id and its children list
  holds ids.\<close>

definition tree_step :: "span \<Rightarrow> span_tree \<Rightarrow> span_tree" where
  "tree_step s t = (case sp_parent s of
     Some q \<Rightarrow> (if q \<noteq> [] \<and> q \<in> fst ` set (tr_children t)
               then t\<lparr>tr_children := dict_set q (the (map_of (tr_children t) q) @ [sp_span_id s]) (tr_children t)\<rparr>
               else t\<lparr>tr_roots := tr_roots t @ [sp_span_id s]\<rparr>)
   | None \<Rightarrow> t\<lparr>tr_roots := tr_roots t @ [sp_span_id s]\<rparr>)"

definition build_tree :: "span list \<Rightarrow> span_tree" where
  "build_tree ss = fold tree_step ss
     \<lparr>tr_children = dict_update [] (map (\<lambda>s. (sp_span_id s, [])) ss), tr_roots = []\<rparr>"

definition build_artifact ::
    "str \<Rightarrow> span list \<Rightarrow> str \<Rightarrow> failure_trigger option \<Rightarrow> str list \<Rightarrow> rat option \<Rightarrow> diagnosis option
     \<Rightarrow> artifact" where
  "build_artifact tid ss status trigger reasons conf diag =
     (let ordered = chronological ss;
          roots = filter (\<lambda>s. sp_name s = ''coremesh.agent.workflow'') ordered
      in \<lparr>at_trace_id = tid, at_status = status, at_trigger = trigger, at_reasons = reasons,
          at_started = Min (set (map sp_start ordered)),
          at_ended = Max (set (map sp_end ordered)),
          at_duration = py_round (if roots \<noteq> [] then Max (set (map sp_duration roots))
                                  else sum_list (map sp_duration ordered)) 3,
          at_confidence = conf,
          at_span_count = length ordered,
          at_error_count = length (filter (\<lambda>s. sp_status s = ''ERROR'') ordered),
          at_degraded_count =
            length (filter (\<lambda>s. get_or_none (sp_attrs s) ''coremesh.degraded'' = PBool True) ordered),
          at_diagnosis = diag, at_spans = ordered, at_tree = build_tree ordered,
          at_feedback = None\<rparr>)"

section \<open>Persistence\<close>

record registry_row =
  rr_trace_id :: str
  rr_session_hash :: pyval
  rr_created_at :: str
  rr_status :: str
  rr_confidence :: "rat option"
  rr_trigger :: "str option"
  rr_root_span :: "str option"
  rr_root_step :: "str option"
  rr_category :: "str option"
  rr_path :: str

record store =
  st_files :: "artifact dict"
  st_registry :: "registry_row list"

text \<open>Where an I/O failure strikes: before the file is replaced, or in the registry.\<close>

datatype storage_fault = WriteFault | RegistryFault

definition registry_values :: "artifact \<Rightarrow> str \<Rightarrow> registry_row" where
  "registry_values a path =
     (let root = (case find (\<lambda>s. sp_name s = ''coremesh.agent.workflow'') (at_spans a) of
                    Some r \<Rightarrow> Some r
                  | None \<Rightarrow> if at_spans a = [] then None else Some (last (at_spans a)))
      in \<lparr>rr_trace_id = at_trace_id a,
          rr_session_hash = (case root of None \<Rightarrow> PNone
             | Some r \<Rightarrow> get_or_none (sp_attrs r) ''coremesh.session.id.sha256''),
          rr_created_at = at_started a, rr_status = at_status a, rr_confidence = at_confidence a,
          rr_trigger = map_option trigger_text (at_trigger a),
          rr_root_span = map_option dg_span_id (at_diagnosis a),
          rr_root_step = Option.bind (at_diagnosis a) dg_step_id,
          rr_category = map_option (\<lambda>d. failure_category_text (dg_category d)) (at_diagnosis a),
          rr_path = path\<rparr>)"

text \<open>The \<open>ON CONFLICT\<close> clause keeps the session hash and the creation time.\<close>

fun upsert_row :: "registry_row \<Rightarrow> registry_row list \<Rightarrow> registry_row list" where
  "upsert_row r [] = [r]"
| "upsert_row r (old # rows) =
     (if rr_trace_id old = rr_trace_id r
      then r\<lparr>rr_session_hash := rr_session_hash old, rr_created_at := rr_created_at old\<rparr> # rows
      else old # upsert_row r rows)"

definition persist :: "storage_fault option \<Rightarrow> str \<Rightarrow> artifact \<Rightarrow> (store, unit) io" where
  "persist fault dir a st =
     (let path = dir @ ''/'' @ at_trace_id a @ ''.json'';
          st1 = st\<lparr>st_files := dict_set (at_trace_id a) a (st_files st)\<rparr>;
          st2 = st1\<lparr>st_registry := upsert_row (registry_values a path) (st_registry st1)\<rparr>
      in case fault of Some WriteFault \<Rightarrow> (Inl (OSError, ''write''), st)
         | Some RegistryFault \<Rightarrow> (Inl (OtherException ''OperationalError'', ''registry''), st1)
         | None \<Rightarrow> (Inr (), st2))"

section \<open>The tracer\<close>

record handle =
  th_trace_id :: "str option"
  th_trigger :: "failure_trigger option"
  th_reasons :: "str list"
  th_status :: str
  th_confidence :: "rat option"
  th_artifact :: "artifact option"
  th_diagnosis :: "diagnosis option"

definition new_handle :: handle where
  "new_handle = \<lparr>th_trace_id = None, th_trigger = None, th_reasons = [], th_status = ''completed'',
     th_confidence = None, th_artifact = None, th_diagnosis = None\<rparr>"

definition set_outcome ::
    "str \<Rightarrow> failure_trigger option \<Rightarrow> str list \<Rightarrow> rat option \<Rightarrow> handle \<Rightarrow> handle" where
  "set_outcome status trigger reasons conf h =
     h\<lparr>th_status := status, th_trigger := trigger, th_reasons := reasons, th_confidence := conf\<rparr>"

record tracer =
  tc_enabled :: bool
  tc_dir :: str
  tc_max_length :: nat
  tc_analyzer :: analyzer
  tc_lib :: trace_lib

record tracer_state =
  tx_exporter :: exporter
  tx_store :: store

definition make_tracer ::
    "trace_lib \<Rightarrow> str \<Rightarrow> bool \<Rightarrow> rat \<Rightarrow> rat \<Rightarrow> int \<Rightarrow> judge_fun option \<Rightarrow> tracer" where
  "make_tracer lib dir enabled confidence_threshold drop_threshold max_length judge =
     \<lparr>tc_enabled = enabled, tc_dir = dir, tc_max_length = nat (max 32 max_length),
      tc_analyzer = \<lparr>an_confidence_threshold = confidence_threshold,
                     an_drop_threshold = drop_threshold, an_judge = judge\<rparr>,
      tc_lib = lib\<rparr>"

definition mark_error :: "trace_lib \<Rightarrow> exn \<Rightarrow> otel_span \<Rightarrow> otel_span" where
  "mark_error lib e s =
     (let meta = content_metadata lib ''exception.message'' (PStr (exn_message e));
          kind = (''exception.type'', PStr (exn_type_name (fst e)))
      in s\<lparr>os_status := ''ERROR'',
           os_attrs := dict_update (dict_set (fst kind) (snd kind) (os_attrs s)) meta,
           os_events := os_events s @ [\<lparr>oe_name = ''exception'', oe_timestamp = None,
             oe_attributes = kind # meta\<rparr>]\<rparr>)"

text \<open>The attributes a nested span and the root span start with.\<close>

definition span_start_attributes :: "tracer \<Rightarrow> span_category \<Rightarrow> pyval dict \<Rightarrow> pyval dict" where
  "span_start_attributes tc cat attrs =
     dict_set ''coremesh.span.category'' (PStr (span_category_text cat))
       (safe_attributes (tc_lib tc) (tc_max_length tc) attrs)"

definition root_start_attributes :: "tracer \<Rightarrow> pyval dict \<Rightarrow> pyval dict" where
  "root_start_attributes tc attrs =
     dict_update [(''coremesh.span.category'', PStr (span_category_text Workflow))]
       (safe_attributes (tc_lib tc) (tc_max_length tc) attrs)"

text \<open>Leaving the root span: an exception overrides the outcome, and the outcome becomes
  attributes.\<close>

definition close_root :: "trace_lib \<Rightarrow> exn option \<Rightarrow> handle \<Rightarrow> otel_span \<Rightarrow> handle \<times> otel_span" where
  "close_root lib exc h s =
     (let h1 = (case exc of None \<Rightarrow> h
           | Some e \<Rightarrow> set_outcome ''failed'' (Some ExecutionErrorTrigger) [exn_type_name (fst e)] None h);
          s1 = (case exc of None \<Rightarrow> s | Some e \<Rightarrow> mark_error lib e s);
          a1 = dict_set ''coremesh.execution.status'' (PStr (th_status h1)) (os_attrs s1);
          a2 = (case th_trigger h1 of None \<Rightarrow> a1
                | Some t \<Rightarrow> dict_set ''coremesh.failure.trigger'' (PStr (trigger_text t)) a1);
          a3 = (case th_confidence h1 of None \<Rightarrow> a2
                | Some c \<Rightarrow> dict_set ''coremesh.quality.confidence'' (PFloat c) a2)
      in (h1, s1\<lparr>os_attrs := a3\<rparr>))"

definition effective_trigger :: "handle \<Rightarrow> span list \<Rightarrow> failure_trigger option" where
  "effective_trigger h ss = (case th_trigger h of Some t \<Rightarrow> Some t
     | None \<Rightarrow> if list_ex (\<lambda>s. sp_status s = ''ERROR'') ss then Some ExecutionErrorTrigger else None)"

text \<open>\<open>_finalize_handle\<close>; \<open>None\<close> when the analysis does not return.\<close>

definition finalize_handle ::
    "tracer \<Rightarrow> storage_fault option \<Rightarrow> handle \<Rightarrow> tracer_state \<Rightarrow> (handle \<times> tracer_state) option" where
  "finalize_handle tc fault h tx =
     (case th_trace_id h of None \<Rightarrow> Some (h, tx) | Some tid \<Rightarrow>
        if tid = [] then Some (h, tx)
        else let (ss, ex) = pop_trace tid (tx_exporter tx); tx1 = tx\<lparr>tx_exporter := ex\<rparr>
             in if ss = [] then Some (h, tx1)
                else let trigger = effective_trigger h ss
                     in map_option (\<lambda>diag. case diag of
                            Inl e \<Rightarrow> (h, tx1)
                          | Inr d \<Rightarrow>
                              (let a = build_artifact tid ss (th_status h) trigger (th_reasons h)
                                         (th_confidence h) d;
                                   (res, st) = persist fault (tc_dir tc) a (tx_store tx1);
                                   tx2 = tx1\<lparr>tx_store := st\<rparr>
                               in case res of Inl e \<Rightarrow> (h, tx2)
                                  | Inr _ \<Rightarrow> (h\<lparr>th_artifact := Some a, th_diagnosis := d\<rparr>, tx2)))
                          (case trigger of None \<Rightarrow> Some (Inr None)
                           | Some t \<Rightarrow> map_option (\<lambda>r. rbind r (\<lambda>d. Inr (Some d)))
                                        (analyze (tc_lib tc) (tc_analyzer tc) tid ss t)))"

definition get_trace :: "str \<Rightarrow> store \<Rightarrow> artifact result" where
  "get_trace tid st = (case map_of (st_files st) tid of
     None \<Rightarrow> Inl (OtherException ''FileNotFoundError'', tid) | Some a \<Rightarrow> Inr a)"

definition feedback_artifact :: "trace_lib \<Rightarrow> str option \<Rightarrow> diagnosis \<Rightarrow> artifact \<Rightarrow> artifact" where
  "feedback_artifact lib reason d a =
     (let base = [(''flagged'', PBool True), (''created_at'', PStr (tl_iso lib (tl_now lib)))];
          fb = (case reason of None \<Rightarrow> base
                | Some t \<Rightarrow> if t = [] then base else dict_update base (content_metadata lib ''reason'' (PStr t)))
      in a\<lparr>at_trigger := Some NegativeFeedbackTrigger, at_reasons := [''user_negative_feedback''],
           at_diagnosis := Some d, at_feedback := Some fb\<rparr>)"

text \<open>\<open>flag_negative_feedback\<close>: the production log first (its failure is ignored), then the
  artifact.\<close>

definition flag_negative_feedback ::
    "tracer \<Rightarrow> sink \<Rightarrow> storage_fault option \<Rightarrow> str \<Rightarrow> str option \<Rightarrow> log_table \<times> store
     \<Rightarrow> (diagnosis option result \<times> (log_table \<times> store)) option" where
  "flag_negative_feedback tc sk fault tid reason w =
     (let tbl = snd (sink_step sk (Flag tid) (fst w)); st = snd w
      in if \<not> tc_enabled tc then Some (Inr None, (tbl, st))
         else (case get_trace tid st of Inl e \<Rightarrow> Some (Inr None, (tbl, st))
         | Inr a \<Rightarrow> map_option (\<lambda>r. case r of
               Inl e \<Rightarrow> (Inl e, (tbl, st))
             | Inr d \<Rightarrow>
                 (let a' = feedback_artifact (tc_lib tc) reason d a;
                      (res, st') = persist fault (tc_dir tc) a' st
                  in (map_sum id (\<lambda>_. Some d) res, (tbl, st'))))
             (analyze (tc_lib tc) (tc_analyzer tc) tid (at_spans a) NegativeFeedbackTrigger)))"

section \<open>The registry listing\<close>

definition row_matches ::
    "str option \<Rightarrow> failure_trigger option \<Rightarrow> failure_category option \<Rightarrow> registry_row \<Rightarrow> bool" where
  "row_matches status trigger cat r \<longleftrightarrow>
     (case status of None \<Rightarrow> True | Some s \<Rightarrow> s = [] \<or> rr_status r = s) \<and>
     (case trigger of None \<Rightarrow> True | Some t \<Rightarrow> rr_trigger r = Some (trigger_text t)) \<and>
     (case cat of None \<Rightarrow> True | Some c \<Rightarrow> rr_category r = Some (failure_category_text c))"

definition parse_optional :: "(str \<Rightarrow> 'a option) \<Rightarrow> str option \<Rightarrow> 'a option result" where
  "parse_optional parse t = (case t of None \<Rightarrow> Inr None
     | Some s \<Rightarrow> if s = [] then Inr None
                 else (case parse s of None \<Rightarrow> Inl (ValueError, s) | Some x \<Rightarrow> Inr (Some x)))"

definition summary_of :: "registry_row \<Rightarrow> trace_summary result" where
  "summary_of r =
     rbind (parse_optional parse_trigger (rr_trigger r)) (\<lambda>t.
       rbind (parse_optional parse_failure_category (rr_category r)) (\<lambda>c.
         Inr \<lparr>ts_trace_id = rr_trace_id r, ts_created_at = rr_created_at r, ts_status = rr_status r,
              ts_confidence = rr_confidence r, ts_trigger = t, ts_root_span = rr_root_span r,
              ts_root_step = rr_root_step r, ts_category = c\<rparr>))"

fun collect :: "('a \<Rightarrow> 'b result) \<Rightarrow> 'a list \<Rightarrow> 'b list result" where
  "collect f [] = Inr []"
| "collect f (x # xs) = rbind (f x) (\<lambda>y. rbind (collect f xs) (\<lambda>ys. Inr (y # ys)))"

text \<open>\<open>LIMIT ? OFFSET ?\<close> in SQLite: a negative limit is none, a negative offset is 0.\<close>

definition sql_page :: "int \<Rightarrow> int \<Rightarrow> 'a list \<Rightarrow> 'a list" where
  "sql_page limit offset xs = (let ys = drop (nat offset) xs in if limit < 0 then ys else take (nat limit) ys)"

definition newest_first :: "registry_row list \<Rightarrow> registry_row list" where
  "newest_first rows = sorted_desc (\<lambda>r. (rr_created_at r, rr_trace_id r)) rows"

text \<open>The registry is \<open>None\<close> when its file or its table is missing.\<close>

definition list_traces ::
    "registry_row list option \<Rightarrow> int \<Rightarrow> int \<Rightarrow> str option \<Rightarrow> failure_trigger option
     \<Rightarrow> failure_category option \<Rightarrow> (trace_summary list \<times> int) result" where
  "list_traces registry limit offset status trigger cat =
     (case registry of None \<Rightarrow> Inr ([], 0)
      | Some rows \<Rightarrow>
          (let hits = filter (row_matches status trigger cat) rows
           in rbind (collect summary_of (sql_page limit offset (newest_first hits)))
                (\<lambda>items. Inr (items, int (length hits)))))"

section \<open>Privacy\<close>

text \<open>Two attribute dictionaries that differ only in the contents behind sensitive keys, and there only
  in ways a fingerprint and a length do not show.\<close>

definition same_public :: "trace_lib \<Rightarrow> pyval dict \<Rightarrow> pyval dict \<Rightarrow> bool" where
  "same_public lib = list_all2 (\<lambda>(k, v) (k', v'). k = k' \<and>
     (if is_sensitive_attribute_key (lower k)
      then tl_sha256 lib (stable_text lib v) = tl_sha256 lib (stable_text lib v') \<and>
           length (stable_text lib v) = length (stable_text lib v')
      else v = v'))"

definition same_public_span :: "trace_lib \<Rightarrow> otel_span \<Rightarrow> otel_span \<Rightarrow> bool" where
  "same_public_span lib s s' \<longleftrightarrow> same_public lib (os_attrs s) (os_attrs s') \<and>
     list_all2 (\<lambda>e e'. oe_name e = oe_name e' \<and> oe_timestamp e = oe_timestamp e' \<and>
        same_public lib (oe_attributes e) (oe_attributes e')) (os_events s) (os_events s') \<and>
     s'\<lparr>os_attrs := os_attrs s, os_events := os_events s\<rparr> = s"

lemma safe_attribute_step_public:
  "same_public lib [kv] [kv'] \<Longrightarrow> safe_attribute_step lib n kv = safe_attribute_step lib n kv'"
  by (auto simp: same_public_def safe_attribute_step_def content_metadata_def Let_def fun_eq_iff
      split: if_splits prod.splits)

lemma safe_attributes_public:
  assumes "same_public lib a b" shows "safe_attributes lib n a = safe_attributes lib n b"
proof -
  have "fold (safe_attribute_step lib n) a acc = fold (safe_attribute_step lib n) b acc" for acc
    using assms unfolding same_public_def
  proof (induction arbitrary: acc rule: list_all2_induct)
    case (Cons kv a kv' b)
    then have "safe_attribute_step lib n kv = safe_attribute_step lib n kv'"
      by (intro safe_attribute_step_public) (simp add: same_public_def)
    with Cons.IH show ?case by simp
  qed simp
  then show ?thesis by (simp add: safe_attributes_def)
qed

lemma lower_append: "lower (a @ b) = lower a @ lower b"
  by (simp add: lower_def)

lemma metadata_key_public:
  "\<not> is_sensitive_attribute_key (lower (k @ ''.sha256''))"
  "\<not> is_sensitive_attribute_key (lower (k @ ''.length''))"
proof -
  have "lower ''.sha256'' = ''.sha256''" "lower ''.length'' = ''.length''" by code_simp+
  moreover have "suffix t (lower k @ t)" for t by (simp add: suffix_def)
  ultimately show "\<not> is_sensitive_attribute_key (lower (k @ ''.sha256''))"
    "\<not> is_sensitive_attribute_key (lower (k @ ''.length''))"
    by (simp_all add: is_sensitive_attribute_key_def preserved_key_suffixes_def ends_with_def lower_append)
qed

lemma safe_attribute_step_keys:
  assumes "\<forall>k \<in> fst ` set acc. \<not> is_sensitive_attribute_key (lower k)"
  shows "\<forall>k \<in> fst ` set (safe_attribute_step lib n kv acc). \<not> is_sensitive_attribute_key (lower k)"
proof -
  obtain k v where "kv = (k, v)" by fastforce
  then show ?thesis
    using assms metadata_key_public
    by (cases "is_sensitive_attribute_key (lower k)"; cases "otel_value lib n v = PNone")
      (simp_all add: safe_attribute_step_def content_metadata_def dict_update_def Let_def)
qed

lemma safe_attributes_keys:
  "k \<in> fst ` set (safe_attributes lib n attrs) \<Longrightarrow> \<not> is_sensitive_attribute_key (lower k)"
proof -
  have "\<forall>k \<in> fst ` set (fold (safe_attribute_step lib n) attrs acc). \<not> is_sensitive_attribute_key (lower k)"
    if "\<forall>k \<in> fst ` set acc. \<not> is_sensitive_attribute_key (lower k)" for acc
    using that
  proof (induction attrs arbitrary: acc)
    case (Cons kv attrs)
    show ?case unfolding fold.simps comp_def
      by (rule Cons.IH, rule safe_attribute_step_keys, rule Cons.prems)
  qed simp
  from this[of "[]"] show "k \<in> fst ` set (safe_attributes lib n attrs) \<Longrightarrow> \<not> is_sensitive_attribute_key (lower k)"
    by (auto simp: safe_attributes_def)
qed

text \<open>C26. What is exported of a span does not depend on sensitive contents: two SDK spans that differ
  only behind sensitive attribute keys (in the span or in its events), with the same fingerprint and
  length there, are serialised identically; and no serialised attribute key is sensitive, so a body is
  present only as its fingerprint and its length.\<close>
theorem serialize_private:
  assumes "same_public_span lib s s'"
  shows "serialize lib n s' = serialize lib n s \<and>
    (\<forall>k \<in> set (dict_keys (sp_attrs (serialize lib n s))). \<not> is_sensitive_attribute_key (lower k)) \<and>
    (\<forall>e \<in> set (sp_events (serialize lib n s)). \<forall>k \<in> set (dict_keys (se_attributes e)).
       \<not> is_sensitive_attribute_key (lower k))"
proof -
  from assms have attrs: "safe_attributes lib n (os_attrs s') = safe_attributes lib n (os_attrs s)"
    unfolding same_public_span_def by (metis safe_attributes_public)
  let ?ev = "\<lambda>e. \<lparr>se_name = oe_name e, se_timestamp = iso_time lib (oe_timestamp e),
       se_attributes = safe_attributes lib n (oe_attributes e)\<rparr>"
  from assms have "list_all2 (\<lambda>e e'. ?ev e = ?ev e') (os_events s) (os_events s')"
    unfolding same_public_span_def by (auto elim!: list_all2_mono simp: safe_attributes_public)
  then have "map ?ev (os_events s') = map ?ev (os_events s)"
    by (induction rule: list_all2_induct) auto
  moreover obtain av ev where "s' = s\<lparr>os_attrs := av, os_events := ev\<rparr>"
  proof -
    from assms have "s'\<lparr>os_attrs := os_attrs s, os_events := os_events s\<rparr> = s"
      by (simp add: same_public_span_def)
    then have "s' = s\<lparr>os_attrs := os_attrs s', os_events := os_events s'\<rparr>"
      by (cases s; cases s') simp
    then show thesis by (rule that)
  qed
  ultimately have eq: "serialize lib n s' = serialize lib n s"
    using attrs by (simp add: serialize_def Let_def)
  have keys: "\<forall>k \<in> set (dict_keys (safe_attributes lib n a)). \<not> is_sensitive_attribute_key (lower k)" for a
    using safe_attributes_keys [of _ lib n a] by simp
  have a: "sp_attrs (serialize lib n s) = safe_attributes lib n (os_attrs s)"
    and e: "sp_events (serialize lib n s) = map ?ev (os_events s)"
    by (simp_all add: serialize_def Let_def)
  have "\<forall>e \<in> set (map ?ev (os_events s)). \<forall>k \<in> set (dict_keys (se_attributes e)).
       \<not> is_sensitive_attribute_key (lower k)"
    using keys by (simp only: set_map ball_simps(9) span_event.simps) blast
  with eq keys show ?thesis unfolding a e by blast
qed

section \<open>Parent chains\<close>

text \<open>The spans the loops visit, starting from a parent link.\<close>

inductive chain :: "(str \<Rightarrow> str option) \<Rightarrow> str option \<Rightarrow> str list \<Rightarrow> bool" for m where
  chain_none: "chain m None []"
| chain_blank: "chain m (Some []) []"
| chain_link: "q \<noteq> [] \<Longrightarrow> chain m (m q) as \<Longrightarrow> chain m (Some q) (q # as)"

inductive_simps chain_simps: "chain m None as" "chain m (Some []) as" "chain m (Some (c # q)) as"

lemma chain_unique: "chain m p as \<Longrightarrow> chain m p bs \<Longrightarrow> as = bs"
proof (induction arbitrary: bs rule: chain.induct)
  case (chain_link q as)
  from chain_link.prems chain_link.hyps(1) obtain cs where "bs = q # cs" "chain m (m q) cs"
    by (cases rule: chain.cases) auto
  with chain_link.IH show ?case by simp
qed (auto simp: chain_simps)

lemma chain_ranked:
  fixes rank :: "str \<Rightarrow> nat"
  assumes "\<And>k q. m k = Some q \<Longrightarrow> q \<noteq> [] \<Longrightarrow> rank q < rank k"
  shows "\<exists>as. chain m p as"
proof (cases p)
  case (Some q)
  have "\<exists>as. chain m (Some q) as" for q
  proof (induction "rank q" arbitrary: q rule: less_induct)
    case less
    show ?case
    proof (cases "q = []")
      case False
      have "\<exists>as. chain m (m q) as"
      proof (cases "m q")
        case (Some r)
        then show ?thesis using less.hyps[of r] assms[of q r] chain_blank by (cases "r = []") auto
      qed (auto intro: chain_none)
      with False show ?thesis by (auto intro: chain_link)
    qed (auto intro: chain_blank)
  qed
  with Some show ?thesis by blast
qed (auto intro: chain_none)

lemma chain_shorter: "chain m p as \<Longrightarrow> a \<in> set as \<Longrightarrow> \<exists>bs. chain m (m a) bs \<and> length bs < length as"
  by (induction rule: chain.induct) (auto intro: less_SucI)

lemma chain_depth: "chain m p as \<Longrightarrow> depth_loop m p d = Some (d + int (length as))"
  by (induction arbitrary: d rule: chain.induct) (subst depth_loop.simps; simp)+

lemma wrapper_loop_chain:
  "wrapper_loop m ids p acc = Some r \<Longrightarrow> \<exists>as. chain m p as \<and> set r = set acc \<union> (set as \<inter> set ids)"
proof (erule wrapper_loop.raw_induct [where
      P = "\<lambda>m ids p acc r. \<exists>as. chain m p as \<and> set r = set acc \<union> (set as \<inter> set ids)", rotated])
  fix loop :: "(str \<Rightarrow> str option) \<Rightarrow> str list \<Rightarrow> str option \<Rightarrow> str list \<Rightarrow> str list option"
    and m ids p acc r
  assume ih: "\<And>m ids p acc r. loop m ids p acc = Some r \<Longrightarrow>
      \<exists>as. chain m p as \<and> set r = set acc \<union> (set as \<inter> set ids)"
    and body: "(case p of None \<Rightarrow> Some acc
      | Some q \<Rightarrow> if q = [] then Some acc
          else loop m ids (m q) (if q \<in> set ids then List.insert q acc else acc)) = Some r"
  show "\<exists>as. chain m p as \<and> set r = set acc \<union> (set as \<inter> set ids)"
  proof (cases p)
    case None
    with body show ?thesis using chain_none by fastforce
  next
    case (Some q)
    show ?thesis
    proof (cases "q = []")
      case True
      with Some body show ?thesis using chain_blank by fastforce
    next
      case False
      let ?acc = "if q \<in> set ids then List.insert q acc else acc"
      from Some False body have "loop m ids (m q) ?acc = Some r" by simp
      from ih[OF this] obtain as where "chain m (m q) as" "set r = set ?acc \<union> (set as \<inter> set ids)"
        by blast
      with Some False show ?thesis
        by (intro exI[of _ "q # as"]) (auto intro: chain_link split: if_splits)
    qed
  qed
qed

lemma chain_wrapper_loop: "chain m p as \<Longrightarrow> \<exists>r. wrapper_loop m ids p acc = Some r"
  by (induction arbitrary: acc rule: chain.induct) (subst wrapper_loop.simps; simp)+

lemma wrappers_of_chain:
  "wrappers_of m ids is acc = Some r \<Longrightarrow>
     (\<forall>i \<in> set is. \<exists>as. chain m (m i) as) \<and>
     set r = set acc \<union> {a \<in> set ids. \<exists>i \<in> set is. \<exists>as. chain m (m i) as \<and> a \<in> set as}"
proof (induction "is" arbitrary: acc)
  case (Cons i rest)
  from Cons.prems obtain acc1 where w: "wrapper_loop m ids (m i) acc = Some acc1"
    and r: "wrappers_of m ids rest acc1 = Some r"
    by (cases "wrapper_loop m ids (m i) acc") auto
  from wrapper_loop_chain[OF w] obtain as where as: "chain m (m i) as"
    "set acc1 = set acc \<union> (set as \<inter> set ids)" by blast
  have iff: "(\<exists>bs. chain m (m i) bs \<and> a \<in> set bs) \<longleftrightarrow> a \<in> set as" for a
    using as(1) chain_unique by metis
  from as Cons.IH[OF r] show ?case by (simp add: iff) blast
qed simp

lemma wrappers_of_returns:
  "\<forall>i \<in> set is. \<exists>as. chain m (m i) as \<Longrightarrow> \<exists>r. wrappers_of m ids is acc = Some r"
proof (induction "is" arbitrary: acc)
  case (Cons i rest)
  then obtain as where "chain m (m i) as" by auto
  then obtain acc1 where "wrapper_loop m ids (m i) acc = Some acc1" using chain_wrapper_loop by blast
  with Cons show ?case by simp
qed simp

text \<open>A candidate wraps another one when it lies on the other's parent chain.\<close>

definition is_wrapper :: "span list \<Rightarrow> candidate list \<Rightarrow> candidate \<Rightarrow> bool" where
  "is_wrapper ss cs c \<longleftrightarrow> (\<exists>c' \<in> set cs. \<exists>as.
     chain (parent_map ss) (parent_map ss (sp_span_id (fst c'))) as \<and> sp_span_id (fst c) \<in> set as)"

lemma remove_wrappers_spec:
  assumes "remove_wrapper_duplicates cs ss = Some leaves"
  shows "leaves = filter (\<lambda>c. \<not> is_wrapper ss cs c) cs"
    and "\<forall>c \<in> set cs. \<exists>as. chain (parent_map ss) (parent_map ss (sp_span_id (fst c))) as"
proof -
  let ?m = "parent_map ss" and ?ids = "remdups (map (\<lambda>c. sp_span_id (fst c)) cs)"
  from assms obtain w where w: "wrappers_of ?m ?ids ?ids [] = Some w"
    and l: "leaves = filter (\<lambda>c. sp_span_id (fst c) \<notin> set w) cs"
    by (auto simp: remove_wrapper_duplicates_def Let_def)
  from wrappers_of_chain[OF w] have set: "set w = {a \<in> set ?ids. \<exists>i \<in> set ?ids. \<exists>as. chain ?m (?m i) as \<and> a \<in> set as}"
    and ex: "\<forall>i \<in> set ?ids. \<exists>as. chain ?m (?m i) as" by auto
  show "leaves = filter (\<lambda>c. \<not> is_wrapper ss cs c) cs"
    unfolding l by (rule filter_cong) (auto simp: set is_wrapper_def)
  from ex show "\<forall>c \<in> set cs. \<exists>as. chain ?m (?m (sp_span_id (fst c))) as" by auto
qed

lemma leaf_exists:
  assumes "cs \<noteq> []" and "\<forall>c \<in> set cs. \<exists>as. chain (parent_map ss) (parent_map ss (sp_span_id (fst c))) as"
  shows "\<exists>c \<in> set cs. \<not> is_wrapper ss cs c"
proof -
  let ?m = "parent_map ss"
  define len where "len c = length (SOME as. chain ?m (?m (sp_span_id (fst c))) as)" for c :: candidate
  have len: "len c = length as" if "chain ?m (?m (sp_span_id (fst c))) as" for c as
    using that chain_unique someI[of "\<lambda>as. chain ?m (?m (sp_span_id (fst c))) as" as]
    unfolding len_def by metis
  obtain c where c: "c \<in> set cs" "\<forall>c' \<in> set cs. len c' \<le> len c"
  proof -
    have "Max (len ` set cs) \<in> len ` set cs" using assms(1) by (intro Max_in) auto
    then obtain c where "c \<in> set cs" "len c = Max (len ` set cs)" by auto
    then show thesis by (intro that[of c]) auto
  qed
  have "\<not> is_wrapper ss cs c"
  proof
    assume "is_wrapper ss cs c"
    then obtain c' as where c': "c' \<in> set cs" "chain ?m (?m (sp_span_id (fst c'))) as"
      "sp_span_id (fst c) \<in> set as" by (auto simp: is_wrapper_def)
    from chain_shorter[OF c'(2,3)] obtain bs
      where "chain ?m (?m (sp_span_id (fst c))) bs" "length bs < length as" by blast
    with len[of c bs] len[OF c'(2)] c(2) c'(1) show False by auto
  qed
  with c show ?thesis by blast
qed

section \<open>The diagnosis\<close>

text \<open>Evidence, once noted, stays.\<close>

lemma note_signal_keeps: "e \<in> set (fst fs) \<Longrightarrow> e \<in> set (fst (note_signal b ev cat fs))"
  by (simp add: note_signal_def)

lemma confidence_signal_keeps: "e \<in> set (fst fs) \<Longrightarrow> e \<in> set (fst (confidence_signal an prev c fs))"
  by (simp add: confidence_signal_def Let_def note_signal_keeps split: option.splits)

lemma ocr_signal_keeps: "e \<in> set (fst fs) \<Longrightarrow> e \<in> set (fst (ocr_signal s fs))"
  by (simp add: ocr_signal_def note_signal_keeps split: option.splits)

lemma validation_signal_keeps:
  "e \<in> set (fst fs) \<Longrightarrow> validation_signal s fs = Inr fs' \<Longrightarrow> e \<in> set (fst fs')"
  by (auto simp: validation_signal_def rbind_eq_Inr note_signal_keeps split: if_splits)

lemma span_findings_status:
  assumes "span_findings an prev s = Inr fs" "sp_status s = ''ERROR''"
  shows "fst fs \<noteq> []"
proof -
  let ?e = "\<lparr>ev_signal = ''span_status'', ev_observed = PStr ''ERROR'', ev_threshold = PNone\<rparr>"
  let ?conf = "\<lambda>fs. case float_attribute s ''coremesh.quality.confidence'' of
      None \<Rightarrow> fs | Some c \<Rightarrow> confidence_signal an prev c fs"
  have "?e \<in> set (fst (status_signal s ([], UnknownFailure)))"
    using assms(2) by (simp add: status_signal_def note_signal_def)
  moreover from assms(1) obtain fs0
    where v: "validation_signal s (status_signal s ([], UnknownFailure)) = Inr fs0"
      and fs: "fs = arbitration_signal s (degraded_signal s (?conf (ocr_signal s fs0)))"
    by (auto simp: span_findings_def Let_def rbind_eq_Inr)
  ultimately have "?e \<in> set (fst fs0)" using validation_signal_keeps by blast
  then have "?e \<in> set (fst (?conf (ocr_signal s fs0)))"
    by (simp add: ocr_signal_keeps confidence_signal_keeps split: option.split)
  then have "?e \<in> set (fst fs)"
    unfolding fs arbitration_signal_def by (intro note_signal_keeps) (auto simp: degraded_signal_def)
  then show ?thesis by auto
qed

lemma candidates_from_spans:
  assumes "candidates_from an prev ss = Inr cs"
  shows "c \<in> set cs \<Longrightarrow> fst c \<in> set ss \<and> fst (snd c) \<noteq> []"
    and "s \<in> set ss \<Longrightarrow> sp_status s = ''ERROR'' \<Longrightarrow> \<exists>c \<in> set cs. fst c = s"
  using assms
proof (induction ss arbitrary: prev cs)
  case (Cons t ss)
  case 1
  with Cons.IH(1) show ?case by (fastforce simp: rbind_eq_Inr split: if_splits)
next
  case (Cons t ss)
  case 2
  with Cons.IH(2) span_findings_status show ?case by (fastforce simp: rbind_eq_Inr split: if_splits)
qed simp_all

lemma set_chronological [simp]: "set (chronological ss) = set ss"
  by (simp add: chronological_def)

lemma candidate_key_le:
  "candidate_key (c, d) \<le> candidate_key (c', d') \<Longrightarrow>
   (sequence_key (fst c), sp_start (fst c)) \<le> (sequence_key (fst c'), sp_start (fst c'))"
  by (auto simp: candidate_key_def less_eq_prod_def)


lemma analyze_returns:
  fixes rank :: "str \<Rightarrow> nat"
  assumes "\<And>k q. parent_map (chronological ss) k = Some q \<Longrightarrow> q \<noteq> [] \<Longrightarrow> rank q < rank k"
  shows "\<exists>r. analyze lib an tid ss trigger = Some r"
proof (cases "find_candidates an (chronological ss)")
  case (Inr cs)
  let ?o = "chronological ss" and ?m = "parent_map (chronological ss)"
  have ch: "\<exists>as. chain ?m p as" for p using assms chain_ranked [of ?m rank p] by blast
  have "\<exists>r. wrappers_of ?m ids is acc = Some r" for ids "is" acc
    by (rule wrappers_of_returns) (use ch in blast)
  then obtain leaves where l: "remove_wrapper_duplicates cs ?o = Some leaves"
    unfolding remove_wrapper_duplicates_def Let_def by (metis option.simps(9))
  have "\<exists>x. span_depth s ?o = Some x" for s
    using ch [of "sp_parent s"] chain_depth unfolding span_depth_def by blast
  then have "map (\<lambda>c. span_depth (fst c) ?o) leaves = map Some (map (\<lambda>c. the (span_depth (fst c) ?o)) leaves)"
    by (simp add: option.expand)
  then obtain ds where "those (map (\<lambda>c. span_depth (fst c) ?o) leaves) = Some ds"
    using those_eq_Some by blast
  with Inr l show ?thesis by (simp add: analyze_def Let_def)
qed (simp add: analyze_def Let_def)

section \<open>Traces as the tracer collects them\<close>

text \<open>
  The OpenTelemetry SDK as the tracer drives it: a started span gets a fresh non-zero id and may have
  a span that was already started as its parent; an ended span is exported with the id and parent it
  was started with. Nothing else is assumed, in particular not that children end before parents.
\<close>

record sdk =
  sd_started :: "(nat \<times> nat option) list"
  sd_exporter :: exporter

definition initial_sdk :: sdk where
  "initial_sdk = \<lparr>sd_started = [], sd_exporter = empty_exporter\<rparr>"

inductive sdk_step :: "trace_lib \<Rightarrow> nat \<Rightarrow> sdk \<Rightarrow> sdk \<Rightarrow> bool" for lib n where
  sdk_start: "0 < i \<Longrightarrow> i \<notin> fst ` set (sd_started sd) \<Longrightarrow>
    (case p of None \<Rightarrow> True | Some q \<Rightarrow> q \<in> fst ` set (sd_started sd)) \<Longrightarrow>
    sdk_step lib n sd (sd\<lparr>sd_started := sd_started sd @ [(i, p)]\<rparr>)"
| sdk_end: "os_span_id s = Some i \<Longrightarrow> (i, os_parent s) \<in> set (sd_started sd) \<Longrightarrow>
    sdk_step lib n sd (sd\<lparr>sd_exporter := export_one lib n s (sd_exporter sd)\<rparr>)"
| sdk_activate: "sdk_step lib n sd (sd\<lparr>sd_exporter := activate tid (sd_exporter sd)\<rparr>)"
| sdk_pop: "sdk_step lib n sd (sd\<lparr>sd_exporter := snd (pop_trace tid (sd_exporter sd))\<rparr>)"

inductive sdk_reachable :: "trace_lib \<Rightarrow> nat \<Rightarrow> sdk \<Rightarrow> bool" for lib n where
  reach_init: "sdk_reachable lib n initial_sdk"
| reach_step: "sdk_reachable lib n sd \<Longrightarrow> sdk_step lib n sd sd' \<Longrightarrow> sdk_reachable lib n sd'"

definition first_at :: "(nat \<times> nat option) list \<Rightarrow> nat \<Rightarrow> nat" where
  "first_at st i = length (takeWhile (\<lambda>x. fst x \<noteq> i) st)"

text \<open>Parents are started before their children.\<close>

definition parents_first :: "(nat \<times> nat option) list \<Rightarrow> bool" where
  "parents_first st \<longleftrightarrow> (\<forall>i p. (i, p) \<in> set st \<longrightarrow> 0 < i \<and>
     (\<forall>q. p = Some q \<longrightarrow> 0 < q \<and> first_at st q < first_at st i))"

definition span_started :: "(nat \<times> nat option) list \<Rightarrow> span \<Rightarrow> bool" where
  "span_started st s \<longleftrightarrow> (\<exists>i p. (i, p) \<in> set st \<and>
     sp_span_id s = hex_padded 16 i \<and> sp_parent s = format_span_id p)"

definition spans_started :: "(nat \<times> nat option) list \<Rightarrow> exporter \<Rightarrow> bool" where
  "spans_started st ex \<longleftrightarrow> (\<forall>tid ss s. (tid, ss) \<in> set (ex_spans ex) \<longrightarrow> s \<in> set ss \<longrightarrow> span_started st s)"

lemma first_at_append: "q \<in> fst ` set xs \<Longrightarrow> first_at (xs @ ys) q = first_at xs q"
  unfolding first_at_def by (subst takeWhile_append) auto

lemma first_at_less: "first_at xs q < length xs \<longleftrightarrow> q \<in> fst ` set xs"
  unfolding first_at_def by (induction xs) auto

lemma first_at_new: "i \<notin> fst ` set st \<Longrightarrow> first_at (st @ [(i, p)]) i = length st"
  unfolding first_at_def by (subst takeWhile_append2) auto

lemma parents_first_start:
  assumes "parents_first st" "0 < i" "i \<notin> fst ` set st"
    "case p of None \<Rightarrow> True | Some q \<Rightarrow> q \<in> fst ` set st"
  shows "parents_first (st @ [(i, p)])"
proof -
  have pos: "0 < j" if "j \<in> fst ` set st" for j
    using assms(1) that by (auto simp: parents_first_def)
  have "0 < q \<and> first_at (st @ [(i, p)]) q < first_at (st @ [(i, p)]) j"
    if jr: "(j, Some q) \<in> set st" for j q
  proof -
    from assms(1) jr have q: "0 < q" "first_at st q < first_at st j" by (auto simp: parents_first_def)
    from jr have j: "j \<in> fst ` set st" by force
    with q(2) have "first_at st q < length st" using first_at_less order.strict_trans by blast
    then have "q \<in> fst ` set st" by (simp only: first_at_less)
    with q j show ?thesis by (simp only: first_at_append)
  qed
  moreover have "0 < q \<and> first_at (st @ [(i, p)]) q < first_at (st @ [(i, p)]) i" if "p = Some q" for q
  proof -
    from that assms(4) have q: "q \<in> fst ` set st" by simp
    with pos first_at_less show ?thesis by (simp only: first_at_append first_at_new [OF assms(3)])
  qed
  ultimately show ?thesis
    using assms(1,2) unfolding parents_first_def by auto
qed

lemma in_dict_set: "(k, v) \<in> set (dict_set a b e) \<Longrightarrow> (k, v) \<in> set e \<or> v = b"
  by (induction a b e rule: dict_set.induct) (auto split: if_splits)

lemma spans_started_export:
  assumes "spans_started st ex" "os_span_id s = Some i" "(i, os_parent s) \<in> set st" "0 < i"
  shows "spans_started st (export_one lib n s ex)"
proof -
  let ?t = "format_trace_id (os_trace_id s)"
  let ?d = "dict_setdefault ?t [] (ex_spans ex)"
  have d: "span_started st x" if "(tid, ss) \<in> set ?d" "x \<in> set ss" for tid ss x
    using assms(1) that by (auto simp: spans_started_def dict_setdefault_def split: if_splits)
  have "?t \<in> fst ` set ?d" by (auto simp: dict_setdefault_def)
  then obtain old where old: "map_of ?d ?t = Some old" by (metis map_of_eq_None_iff option.exhaust)
  have new: "span_started st (serialize lib n s)"
    using assms(2-4) unfolding span_started_def
    by (intro exI[of _ i] exI[of _ "os_parent s"]) (simp add: serialize_def Let_def format_span_id_def)
  have "span_started st x" if "(tid, ss) \<in> set (dict_set ?t (old @ [serialize lib n s]) ?d)" "x \<in> set ss"
    for tid ss x
    using in_dict_set[OF that(1)] that(2) d map_of_SomeD[OF old] new by auto
  with assms(1) old show ?thesis
    unfolding spans_started_def export_one_def Let_def by auto
qed

lemma spans_started_snoc: "spans_started st ex \<Longrightarrow> spans_started (st @ [x]) ex"
proof -
  have "span_started st s \<Longrightarrow> span_started (st @ [x]) s" for s
    by (fastforce simp: span_started_def)
  then show "spans_started st ex \<Longrightarrow> spans_started (st @ [x]) ex"
    unfolding spans_started_def by blast
qed

lemma sdk_invariant: "sdk_reachable lib n sd \<Longrightarrow>
    parents_first (sd_started sd) \<and> spans_started (sd_started sd) (sd_exporter sd)"
proof (induction rule: sdk_reachable.induct)
  case reach_init
  show ?case by (simp add: initial_sdk_def empty_exporter_def parents_first_def spans_started_def)
next
  case (reach_step sd sd')
  from reach_step.hyps(2) reach_step.IH show ?case
  proof (cases rule: sdk_step.cases)
    case (sdk_start i p)
    moreover have "spans_started (sd_started sd @ [(i, p)]) (sd_exporter sd)"
      using reach_step.IH by (meson spans_started_snoc)
    ultimately show ?thesis using reach_step.IH parents_first_start by auto
  next
    case (sdk_end s i)
    moreover from sdk_end(3) reach_step.IH have "0 < i" by (auto simp: parents_first_def)
    ultimately show ?thesis using reach_step.IH spans_started_export by auto
  next
    case (sdk_activate tid)
    with reach_step.IH show ?thesis by (auto simp: spans_started_def activate_def dict_setdefault_def)
  next
    case (sdk_pop tid)
    with reach_step.IH show ?thesis by (auto simp: spans_started_def pop_trace_def dict_pop_def)
  qed
qed

lemma parent_map_Some:
  "parent_map ss k = Some q \<Longrightarrow> \<exists>s \<in> set ss. sp_span_id s = k \<and> sp_parent s = Some q"
proof -
  assume "parent_map ss k = Some q"
  then have "map_of (rev (map (\<lambda>s. (sp_span_id s, sp_parent s)) ss)) k = Some (Some q)"
    by (auto simp: parent_map_def split: option.splits)
  from map_of_SomeD[OF this] show ?thesis by auto
qed

text \<open>C34. The root-cause analysis of a collected trace always returns: whatever the order in which the
  SDK starts and ends spans, the loops that follow parent links in \<open>analyze\<close> terminate on the spans the
  exporter hands over.\<close>
theorem collected_trace_analysis_returns:
  assumes "sdk_reachable lib n sd" and "pop_trace tid (sd_exporter sd) = (ss, ex)"
  shows "\<exists>r. analyze lib2 an tid ss trigger = Some r"
proof (rule analyze_returns [where rank = "\<lambda>k. first_at (sd_started sd) (hex_value k)"])
  fix k q
  assume "parent_map (chronological ss) k = Some q" "q \<noteq> []"
  then obtain s where s: "s \<in> set ss" "sp_span_id s = k" "sp_parent s = Some q"
    using parent_map_Some by fastforce
  from assms(2) s(1) have "\<exists>t. (t, ss) \<in> set (ex_spans (sd_exporter sd))"
    by (auto simp: pop_trace_def split: option.splits dest: map_of_SomeD)
  with sdk_invariant[OF assms(1)] s(1) have "span_started (sd_started sd) s"
    unfolding spans_started_def by blast
  with s obtain i p where ip: "(i, p) \<in> set (sd_started sd)" "k = hex_padded 16 i"
    "format_span_id p = Some q" by (auto simp: span_started_def)
  then obtain j where j: "p = Some j" "q = hex_padded 16 j"
    by (auto simp: format_span_id_def split: option.splits if_splits)
  with sdk_invariant[OF assms(1)] ip
  show "first_at (sd_started sd) (hex_value q) < first_at (sd_started sd) (hex_value k)"
    by (auto simp: parents_first_def)
qed

section \<open>The span tree\<close>

definition span_ids :: "span list \<Rightarrow> str list" where
  "span_ids ss = map sp_span_id ss"

text \<open>A span hangs under its parent when the parent is in the trace, else it is a root.\<close>

definition hangs_under :: "str set \<Rightarrow> span \<Rightarrow> str option" where
  "hangs_under K s = (case sp_parent s of None \<Rightarrow> None
     | Some q \<Rightarrow> if q \<noteq> [] \<and> q \<in> K then Some q else None)"

lemma tree_step_alt:
  "tree_step s t = (case hangs_under (fst ` set (tr_children t)) s of
     Some q \<Rightarrow> t\<lparr>tr_children := dict_set q (the (map_of (tr_children t) q) @ [sp_span_id s]) (tr_children t)\<rparr>
   | None \<Rightarrow> t\<lparr>tr_roots := tr_roots t @ [sp_span_id s]\<rparr>)"
  by (simp add: tree_step_def hangs_under_def split: option.split)

lemma hangs_under_in: "hangs_under K s = Some q \<Longrightarrow> q \<in> K"
  by (auto simp: hangs_under_def split: option.splits if_splits)

lemma tree_fold:
  assumes "t0 = \<lparr>tr_children = d0, tr_roots = []\<rparr>" "\<forall>(k, v) \<in> set d0. v = []"
  shows "let t = fold tree_step xs t0; K = fst ` set d0 in
    fst ` set (tr_children t) = K \<and>
    tr_roots t = span_ids (filter (\<lambda>s. hangs_under K s = None) xs) \<and>
    (\<forall>q \<in> K. map_of (tr_children t) q = Some (span_ids (filter (\<lambda>s. hangs_under K s = Some q) xs)))"
proof (induction xs rule: rev_induct)
  case Nil
  have "map_of d0 q = Some []" if "q \<in> fst ` set d0" for q
  proof -
    from that obtain v where "map_of d0 q = Some v" by (metis map_of_eq_None_iff not_None_eq)
    with assms(2) show ?thesis by (auto dest!: map_of_SomeD)
  qed
  then show ?case by (simp add: assms(1) span_ids_def Let_def)
next
  case (snoc s xs)
  define t where "t = fold tree_step xs t0"
  define K where "K = fst ` set d0"
  from snoc have ih: "fst ` set (tr_children t) = K"
    "tr_roots t = span_ids (filter (\<lambda>s. hangs_under K s = None) xs)"
    "\<forall>q \<in> K. map_of (tr_children t) q = Some (span_ids (filter (\<lambda>s. hangs_under K s = Some q) xs))"
    by (simp_all add: Let_def t_def K_def)
  have step: "fold tree_step (xs @ [s]) t0 = tree_step s t" by (simp add: t_def)
  show ?case
    unfolding step K_def [symmetric] Let_def
  proof (cases "hangs_under K s")
    case None
    with ih show "fst ` set (tr_children (tree_step s t)) = K \<and>
      tr_roots (tree_step s t) = span_ids (filter (\<lambda>s. hangs_under K s = None) (xs @ [s])) \<and>
      (\<forall>q \<in> K. map_of (tr_children (tree_step s t)) q =
         Some (span_ids (filter (\<lambda>s. hangs_under K s = Some q) (xs @ [s]))))"
      by (simp add: tree_step_alt span_ids_def)
  next
    case (Some q)
    with ih hangs_under_in [OF Some] show "fst ` set (tr_children (tree_step s t)) = K \<and>
      tr_roots (tree_step s t) = span_ids (filter (\<lambda>s. hangs_under K s = None) (xs @ [s])) \<and>
      (\<forall>q \<in> K. map_of (tr_children (tree_step s t)) q =
         Some (span_ids (filter (\<lambda>s. hangs_under K s = Some q) (xs @ [s]))))"
      by (auto simp: tree_step_alt span_ids_def)
  qed
qed

lemma empty_children:
  "fst ` set (dict_update [] (map (\<lambda>s. (sp_span_id s, [])) ss)) = set (span_ids ss)"
  "\<forall>(k, v) \<in> set (dict_update [] (map (\<lambda>s. (sp_span_id s, [])) ss)). v = []"
proof -
  have "fst ` set (dict_update d (map (\<lambda>s. (sp_span_id s, [])) ss)) = fst ` set d \<union> set (span_ids ss)" for d
    by (induction ss arbitrary: d) (auto simp: dict_update_def span_ids_def)
  from this [of "[]"] show "fst ` set (dict_update [] (map (\<lambda>s. (sp_span_id s, [])) ss)) = set (span_ids ss)"
    by simp
  have "\<forall>(k, v) \<in> set d. v = [] \<Longrightarrow> \<forall>(k, v) \<in> set (dict_update d (map (\<lambda>s. (sp_span_id s, [])) ss)). v = []" for d
  proof (induction ss arbitrary: d)
    case (Cons s ss)
    have "\<forall>(k, v) \<in> set (dict_set (sp_span_id s) [] d). v = []"
      using Cons.prems in_dict_set by fastforce
    from Cons.IH [OF this] show ?case by (simp add: dict_update_def)
  qed (simp add: dict_update_def)
  from this [of "[]"] show "\<forall>(k, v) \<in> set (dict_update [] (map (\<lambda>s. (sp_span_id s, [])) ss)). v = []"
    by simp
qed

lemma mset_concat_dict_set:
  "map_of d k = Some v \<Longrightarrow> mset (concat (map snd (dict_set k (v @ [x]) d))) = add_mset x (mset (concat (map snd d)))"
  by (induction d) (auto split: if_splits)

lemma tree_mset:
  "mset (tr_roots (fold tree_step xs t) @ concat (map snd (tr_children (fold tree_step xs t)))) =
   mset (tr_roots t @ concat (map snd (tr_children t))) + mset (span_ids xs)"
proof (induction xs arbitrary: t)
  case (Cons s xs)
  let ?K = "fst ` set (tr_children t)"
  have "mset (tr_roots (tree_step s t) @ concat (map snd (tr_children (tree_step s t)))) =
     add_mset (sp_span_id s) (mset (tr_roots t @ concat (map snd (tr_children t))))"
  proof (cases "hangs_under ?K s")
    case None
    then show ?thesis by (simp add: tree_step_alt)
  next
    case (Some q)
    then obtain v where "map_of (tr_children t) q = Some v"
      using hangs_under_in by (metis map_of_eq_None_iff not_None_eq)
    with Some show ?thesis by (simp add: tree_step_alt mset_concat_dict_set del: mset_concat)
  qed
  with Cons.IH [of "tree_step s t"] show ?case by (simp add: span_ids_def del: mset_concat)
qed (simp add: span_ids_def)

text \<open>The span tree of an artifact loses and repeats nothing: each span occurs exactly once, as a
  root or as a child; the roots are the spans without a parent in the trace, and the children of a node
  are the spans that name it as their parent, both in chronological order.\<close>
theorem build_tree_faithful:
  "let t = build_tree ss; K = set (span_ids ss) in
     mset (tr_roots t @ concat (map snd (tr_children t))) = mset (span_ids ss) \<and>
     tr_roots t = span_ids (filter (\<lambda>s. hangs_under K s = None) ss) \<and>
     (\<forall>q. map_of (tr_children t) q =
        (if q \<in> K then Some (span_ids (filter (\<lambda>s. hangs_under K s = Some q) ss)) else None))"
proof -
  define d0 where "d0 = dict_update [] (map (\<lambda>s. (sp_span_id s, [] :: str list)) ss)"
  have e: "fst ` set d0 = set (span_ids ss)" "\<forall>(k, v) \<in> set d0. v = []"
    unfolding d0_def by (rule empty_children)+
  have t: "build_tree ss = fold tree_step ss \<lparr>tr_children = d0, tr_roots = []\<rparr>"
    by (simp add: build_tree_def d0_def)
  have "concat (map snd d0) = []" using e(2) by auto
  then have m: "mset (tr_roots (build_tree ss) @ concat (map snd (tr_children (build_tree ss)))) = mset (span_ids ss)"
    using tree_mset [of ss "\<lparr>tr_children = d0, tr_roots = []\<rparr>"] by (simp only: t) simp
  have f: "fst ` set (tr_children (build_tree ss)) = set (span_ids ss) \<and>
    tr_roots (build_tree ss) = span_ids (filter (\<lambda>s. hangs_under (set (span_ids ss)) s = None) ss) \<and>
    (\<forall>q \<in> set (span_ids ss). map_of (tr_children (build_tree ss)) q =
      Some (span_ids (filter (\<lambda>s. hangs_under (set (span_ids ss)) s = Some q) ss)))"
    using tree_fold [OF refl e(2), of ss] unfolding t Let_def e(1) .
  then have "map_of (tr_children (build_tree ss)) q = None" if "q \<notin> set (span_ids ss)" for q
    using that by (metis map_of_eq_None_iff)
  with m f show ?thesis unfolding Let_def by auto
qed

section \<open>The registry\<close>

text \<open>The registry after a sequence of persisted artifacts.\<close>

definition registry_after :: "(artifact \<times> str) list \<Rightarrow> registry_row list" where
  "registry_after hist = fold (\<lambda>(a, p). upsert_row (registry_values a p)) hist []"

definition artifacts_of :: "str \<Rightarrow> (artifact \<times> str) list \<Rightarrow> artifact list" where
  "artifacts_of tid hist = filter (\<lambda>a. at_trace_id a = tid) (map fst hist)"

definition same_outcome :: "registry_row \<Rightarrow> registry_row \<Rightarrow> bool" where
  "same_outcome r r' \<longleftrightarrow> rr_trace_id r = rr_trace_id r' \<and> rr_status r = rr_status r' \<and>
     rr_confidence r = rr_confidence r' \<and> rr_trigger r = rr_trigger r' \<and>
     rr_root_span r = rr_root_span r' \<and> rr_root_step r = rr_root_step r' \<and>
     rr_category r = rr_category r'"

lemma upsert_ids: "map rr_trace_id (upsert_row r rows) =
    (if rr_trace_id r \<in> rr_trace_id ` set rows then map rr_trace_id rows else map rr_trace_id rows @ [rr_trace_id r])"
  by (induction rows) auto

lemma upsert_find: "find (\<lambda>x. rr_trace_id x = k) (upsert_row r rows) =
    (if rr_trace_id r = k
     then Some (case find (\<lambda>x. rr_trace_id x = k) rows of None \<Rightarrow> r
        | Some old \<Rightarrow> r\<lparr>rr_session_hash := rr_session_hash old, rr_created_at := rr_created_at old\<rparr>)
     else find (\<lambda>x. rr_trace_id x = k) rows)"
  by (induction rows) auto

lemma registry_after_snoc: "registry_after (hist @ [(a, p)]) = upsert_row (registry_values a p) (registry_after hist)"
  by (simp add: registry_after_def)

lemma registry_values_id [simp]: "rr_trace_id (registry_values a p) = at_trace_id a"
  by (simp add: registry_values_def Let_def)

lemma registry_values_created [simp]: "rr_created_at (registry_values a p) = at_started a"
  by (simp add: registry_values_def Let_def)

lemma registry_distinct: "distinct (map rr_trace_id (registry_after hist))"
proof (induction hist rule: rev_induct)
  case (snoc ap hist)
  then show ?case by (cases ap) (simp add: registry_after_snoc upsert_ids)
qed (simp add: registry_after_def)

lemma same_outcome_values: "same_outcome (registry_values a p) (registry_values a p')"
  by (simp add: same_outcome_def registry_values_def Let_def)

text \<open>The registry has at most one row per trace, and a row tells the history of its trace: it
  exists exactly if an artifact of the trace was persisted, its creation time is that of the first
  artifact and its outcome columns are those of the last one, so that a feedback reanalysis replaces the
  diagnosis without moving the trace in the listing.\<close>
theorem registry_history:
  "distinct (map rr_trace_id (registry_after hist)) \<and>
   (case find (\<lambda>r. rr_trace_id r = tid) (registry_after hist) of
      None \<Rightarrow> artifacts_of tid hist = []
    | Some r \<Rightarrow> artifacts_of tid hist \<noteq> [] \<and>
        rr_created_at r = at_started (hd (artifacts_of tid hist)) \<and>
        same_outcome r (registry_values (last (artifacts_of tid hist)) path))"
proof (rule conjI [OF registry_distinct], induction hist rule: rev_induct)
  case Nil
  show ?case by (simp add: registry_after_def artifacts_of_def)
next
  case (snoc ap hist)
  obtain a p where ap: "ap = (a, p)" by fastforce
  let ?new = "registry_values a p"
  have so: "same_outcome (?new\<lparr>rr_session_hash := h, rr_created_at := c\<rparr>) (registry_values a path)" for h c
    using same_outcome_values [of a p path] by (simp add: same_outcome_def)
  show ?case
  proof (cases "at_trace_id a = tid")
    case True
    then have "artifacts_of tid (hist @ [ap]) = artifacts_of tid hist @ [a]"
      by (simp add: artifacts_of_def ap)
    with True snoc same_outcome_values [of a p path] so show ?thesis
      by (auto simp: ap registry_after_snoc upsert_find split: option.splits)
  next
    case False
    then have "artifacts_of tid (hist @ [ap]) = artifacts_of tid hist"
      by (simp add: artifacts_of_def ap)
    with False snoc show ?thesis unfolding ap by (simp add: registry_after_snoc upsert_find split: option.splits)
  qed
qed

section \<open>The listing\<close>

lemma parse_trigger_text [simp]: "parse_trigger (trigger_text t) = Some t" "trigger_text t \<noteq> []"
  by (cases t; simp add: parse_trigger_def)+

lemma parse_failure_category_text [simp]:
  "parse_failure_category (failure_category_text c) = Some c" "failure_category_text c \<noteq> []"
  by (cases c; simp add: parse_failure_category_def)+

text \<open>A row whose codes are known.\<close>

definition readable_row :: "registry_row \<Rightarrow> bool" where
  "readable_row r \<longleftrightarrow> (\<exists>t c. rr_trigger r = map_option trigger_text t \<and>
     rr_category r = map_option failure_category_text c)"

lemma readable_values: "readable_row (registry_values a p)"
  unfolding readable_row_def
  by (intro exI [of _ "at_trigger a"] exI [of _ "map_option dg_category (at_diagnosis a)"])
    (simp add: registry_values_def Let_def option.map_comp comp_def)

lemma readable_row_update [simp]:
  "readable_row (r\<lparr>rr_session_hash := h, rr_created_at := c\<rparr>) = readable_row r"
  by (simp add: readable_row_def)

lemma readable_registry: "r \<in> set (registry_after hist) \<Longrightarrow> readable_row r"
proof (induction hist arbitrary: r rule: rev_induct)
  case (snoc ap hist)
  obtain a p where ap: "ap = (a, p)" by fastforce
  have "\<forall>r \<in> set rows. readable_row r \<Longrightarrow> readable_row new \<Longrightarrow> \<forall>r \<in> set (upsert_row new rows). readable_row r"
    for new rows
    by (induction rows) auto
  from this [of "registry_after hist" "registry_values a p"] snoc.IH readable_values
  have "\<forall>r \<in> set (upsert_row (registry_values a p) (registry_after hist)). readable_row r" by blast
  with snoc.prems show ?case by (simp add: ap registry_after_snoc)
qed (simp add: registry_after_def)

lemma summary_of_readable: "readable_row r \<Longrightarrow> \<exists>s. summary_of r = Inr s \<and> ts_trace_id s = rr_trace_id r \<and>
    ts_created_at s = rr_created_at r \<and> ts_status s = rr_status r"
  by (auto simp: readable_row_def summary_of_def parse_optional_def split: option.splits)
    (auto simp: map_option_case split: option.splits)

lemma collect_readable: "\<forall>r \<in> set rows. readable_row r \<Longrightarrow>
    \<exists>ss. collect summary_of rows = Inr ss \<and> map ts_trace_id ss = map rr_trace_id rows \<and>
      map (\<lambda>s. (ts_created_at s, ts_trace_id s)) ss = map (\<lambda>r. (rr_created_at r, rr_trace_id r)) rows"
proof (induction rows)
  case (Cons r rows)
  from Cons obtain ss where "collect summary_of rows = Inr ss" "map ts_trace_id ss = map rr_trace_id rows"
    "map (\<lambda>s. (ts_created_at s, ts_trace_id s)) ss = map (\<lambda>r. (rr_created_at r, rr_trace_id r)) rows" by auto
  moreover from Cons.prems summary_of_readable [of r] obtain s where "summary_of r = Inr s"
    "ts_trace_id s = rr_trace_id r" "ts_created_at s = rr_created_at r" by auto
  ultimately show ?case by simp
qed simp

lemma set_sql_page: "set (sql_page l k xs) \<subseteq> set xs"
  by (auto simp: sql_page_def Let_def dest: in_set_takeD in_set_dropD)

lemma sql_page_map: "map f (sql_page l k xs) = sql_page l k (map f xs)"
  by (simp add: sql_page_def Let_def take_map drop_map)

lemma sorted_wrt_sql_page: "sorted_wrt P xs \<Longrightarrow> sorted_wrt P (sql_page l k xs)"
  by (simp add: sql_page_def Let_def sorted_wrt_take sorted_wrt_drop)

text \<open>Listing never fails on a registry the tracer wrote: for every filter, limit and offset it
  returns the number of matching traces and, as the page, that window of the matching traces in
  newest-first order.\<close>
theorem list_traces_page:
  "let rows = registry_after hist; hits = filter (row_matches status trigger cat) rows in
   \<exists>items. list_traces (Some rows) limit offset status trigger cat = Inr (items, int (length hits)) \<and>
     map ts_trace_id items = sql_page limit offset (map rr_trace_id (newest_first hits)) \<and>
     mset (newest_first hits) = mset hits \<and>
     sorted_wrt (\<lambda>x y. (ts_created_at y, ts_trace_id y) \<le> (ts_created_at x, ts_trace_id x)) items"
proof -
  define rows where "rows = registry_after hist"
  define hits where "hits = filter (row_matches status trigger cat) rows"
  define page where "page = sql_page limit offset (newest_first hits)"
  let ?key = "\<lambda>r. (rr_created_at r, rr_trace_id r)" and ?skey = "\<lambda>s. (ts_created_at s, ts_trace_id s)"
  have "\<forall>r \<in> set page. readable_row r"
    using set_sql_page readable_registry
    unfolding page_def hits_def rows_def newest_first_def by fastforce
  from collect_readable [OF this] obtain items where items: "collect summary_of page = Inr items"
    "map ts_trace_id items = map rr_trace_id page" "map ?skey items = map ?key page" by blast
  have "sorted_wrt (\<lambda>x y. ?key y \<le> ?key x) page"
    unfolding page_def newest_first_def by (intro sorted_wrt_sql_page sorted_desc_sorted)
  then have "sorted_wrt (\<lambda>x y. y \<le> x) (map ?skey items)"
    unfolding items(3) by (simp only: sorted_wrt_map)
  then have s: "sorted_wrt (\<lambda>x y. ?skey y \<le> ?skey x) items" by (simp only: sorted_wrt_map)
  have l: "list_traces (Some rows) limit offset status trigger cat = Inr (items, int (length hits))"
    using items(1) by (simp add: list_traces_def Let_def hits_def page_def)
  have p: "map ts_trace_id items = sql_page limit offset (map rr_trace_id (newest_first hits))"
    using items(2) by (simp only: page_def sql_page_map)
  have m: "mset (newest_first hits) = mset hits" by (simp add: newest_first_def)
  show ?thesis unfolding Let_def rows_def [symmetric] hits_def [symmetric]
    by (rule exI [of _ items], rule conjI [OF l], rule conjI [OF p], rule conjI [OF m s])
qed

section \<open>Finalisation and feedback\<close>

lemma effective_trigger_None:
  "effective_trigger h ss = None \<longleftrightarrow> th_trigger h = None \<and> \<not> list_ex (\<lambda>s. sp_status s = ''ERROR'') ss"
  by (auto simp: effective_trigger_def split: option.splits)

lemma feedback_artifact_fields [simp]:
  "at_trace_id (feedback_artifact lib reason d a) = at_trace_id a"
  "at_spans (feedback_artifact lib reason d a) = at_spans a"
  "at_status (feedback_artifact lib reason d a) = at_status a"
  "at_diagnosis (feedback_artifact lib reason d a) = Some d"
  "at_trigger (feedback_artifact lib reason d a) = Some NegativeFeedbackTrigger"
  by (simp_all add: feedback_artifact_def Let_def)

lemma persist_None: "persist None dir a st = (Inr (),
    st\<lparr>st_files := dict_set (at_trace_id a) a (st_files st),
      st_registry := upsert_row (registry_values a (dir @ ''/'' @ at_trace_id a @ ''.json'')) (st_registry st)\<rparr>)"
  by (simp add: persist_def Let_def)

text \<open>What finalisation computes between popping the trace and writing it.\<close>

definition pending_diagnosis ::
    "tracer \<Rightarrow> handle \<Rightarrow> str \<Rightarrow> span list \<Rightarrow> diagnosis option result option" where
  "pending_diagnosis tc h tid ss = (case effective_trigger h ss of None \<Rightarrow> Some (Inr None)
     | Some t \<Rightarrow> map_option (\<lambda>r. rbind r (\<lambda>d. Inr (Some d))) (analyze (tc_lib tc) (tc_analyzer tc) tid ss t))"

lemma finalize_unfold:
  assumes "th_trace_id h = Some tid" "tid \<noteq> []" "pop_trace tid (tx_exporter tx) = (ss, ex)" "ss \<noteq> []"
  shows "finalize_handle tc None h tx = map_option (\<lambda>diag. case diag of
      Inl e \<Rightarrow> (h, tx\<lparr>tx_exporter := ex\<rparr>)
    | Inr d \<Rightarrow> (let a = build_artifact tid ss (th_status h) (effective_trigger h ss) (th_reasons h) (th_confidence h) d
        in (h\<lparr>th_artifact := Some a, th_diagnosis := d\<rparr>,
            tx\<lparr>tx_exporter := ex, tx_store := snd (persist None (tc_dir tc) a (tx_store tx))\<rparr>)))
      (pending_diagnosis tc h tid ss)"
  using assms
  by (auto simp: finalize_handle_def pending_diagnosis_def persist_None Let_def intro!: arg_cong2 [where f = map_option]
      split: option.splits sum.splits)

lemma build_artifact_fields:
  "at_trace_id (build_artifact tid ss status trig reasons conf diag) = tid"
  "at_spans (build_artifact tid ss status trig reasons conf diag) = chronological ss"
  "at_status (build_artifact tid ss status trig reasons conf diag) = status"
  "at_trigger (build_artifact tid ss status trig reasons conf diag) = trig"
  "at_diagnosis (build_artifact tid ss status trig reasons conf diag) = diag"
  by (simp_all add: build_artifact_def Let_def)

text \<open>Finalising a workflow takes its spans out of the exporter and, unless the analysis itself
  raised, stores one artifact that can be read back under the trace id, holds exactly the collected
  spans and the recorded status, and carries a diagnosis exactly when a failure was declared or some
  span ended in error: an error that nobody reported still triggers the analysis.\<close>
theorem finalize_artifact:
  assumes "finalize_handle tc None h tx = Some (h', tx')" and "th_trace_id h = Some tid" and "tid \<noteq> []"
    and "pop_trace tid (tx_exporter tx) = (ss, ex)" and "ss \<noteq> []" and "th_artifact h = None"
  shows "tx_exporter tx' = ex \<and>
    (case th_artifact h' of
       None \<Rightarrow> h' = h \<and> tx_store tx' = tx_store tx
     | Some a \<Rightarrow> get_trace tid (tx_store tx') = Inr a \<and> mset (at_spans a) = mset ss \<and>
         at_status a = th_status h \<and> at_trigger a = effective_trigger h ss \<and>
         th_diagnosis h' = at_diagnosis a \<and>
         (at_diagnosis a = None \<longleftrightarrow>
            th_trigger h = None \<and> \<not> list_ex (\<lambda>s. sp_status s = ''ERROR'') ss))"
proof -
  from assms(1) obtain diag where pd: "pending_diagnosis tc h tid ss = Some diag"
    unfolding finalize_unfold [OF assms(2-5)] by auto
  show ?thesis
  proof (cases diag)
    case (Inl e)
    with assms(1,6) pd show ?thesis unfolding finalize_unfold [OF assms(2-5)] by auto
  next
    case (Inr d)
    have "d = None \<longleftrightarrow> effective_trigger h ss = None"
      using pd Inr by (auto simp: pending_diagnosis_def rbind_eq_Inr split: option.splits)
    moreover have "mset (chronological ss) = mset ss" by (simp add: chronological_def)
    moreover from assms(1) pd Inr have "th_artifact h' = Some (build_artifact tid ss (th_status h)
        (effective_trigger h ss) (th_reasons h) (th_confidence h) d)" "th_diagnosis h' = d"
      "tx_exporter tx' = ex" "tx_store tx' = snd (persist None (tc_dir tc) (build_artifact tid ss (th_status h)
        (effective_trigger h ss) (th_reasons h) (th_confidence h) d) (tx_store tx))"
      unfolding finalize_unfold [OF assms(2-5)] by (auto simp: Let_def)
    ultimately show ?thesis
      by (simp add: build_artifact_fields persist_None get_trace_def effective_trigger_None)
  qed
qed

text \<open>Negative feedback always reaches the production log, also when tracing is off, the artifact
  is missing or its storage fails; when a diagnosis is returned, the stored artifact is the old one with
  the feedback trigger and that diagnosis, its spans and status unchanged, and all other artifacts are
  untouched.\<close>
theorem negative_feedback_effect:
  assumes "flag_negative_feedback tc sk fault tid reason (tbl, st) = Some (res, (tbl', st'))"
  shows "tbl' = snd (sink_step sk (Flag tid) tbl) \<and>
    (case res of
       Inr None \<Rightarrow> st' = st \<and> (\<not> tc_enabled tc \<or> map_of (st_files st) tid = None)
     | Inr (Some d) \<Rightarrow> (\<exists>a a'. map_of (st_files st) tid = Some a \<and>
         map_of (st_files st') = (map_of (st_files st))(at_trace_id a \<mapsto> a') \<and>
         at_spans a' = at_spans a \<and> at_status a' = at_status a \<and> at_diagnosis a' = Some d \<and>
         at_trigger a' = Some NegativeFeedbackTrigger)
     | Inl e \<Rightarrow> tc_enabled tc)"
proof (cases "tc_enabled tc \<and> map_of (st_files st) tid \<noteq> None")
  case False
  with assms show ?thesis
    by (cases "map_of (st_files st) tid") (auto simp: flag_negative_feedback_def get_trace_def Let_def split: if_splits)
next
  case True
  then obtain a where a: "map_of (st_files st) tid = Some a" and en: "tc_enabled tc" by auto
  from assms a en obtain r where r: "analyze (tc_lib tc) (tc_analyzer tc) tid (at_spans a) NegativeFeedbackTrigger = Some r"
    by (auto simp: flag_negative_feedback_def get_trace_def Let_def)
  show ?thesis
  proof (cases r)
    case (Inl e)
    with assms a en r show ?thesis by (auto simp: flag_negative_feedback_def get_trace_def Let_def)
  next
    case (Inr d)
    let ?a = "feedback_artifact (tc_lib tc) reason d a"
    show ?thesis
    proof (cases "fst (persist fault (tc_dir tc) ?a st)")
      case (Inl e)
      with assms a en r Inr show ?thesis
        by (auto simp: flag_negative_feedback_def get_trace_def Let_def split: prod.splits)
    next
      case (Inr u)
      then have "fault = None" by (auto simp: persist_def Let_def split: option.splits storage_fault.splits)
      with assms a en r \<open>r = Inr d\<close> have "res = Inr (Some d)" "tbl' = snd (sink_step sk (Flag tid) tbl)"
        "st_files st' = dict_set (at_trace_id a) ?a (st_files st)"
        by (auto simp: flag_negative_feedback_def get_trace_def Let_def persist_None)
      with a show ?thesis by auto
    qed
  qed
qed

section \<open>Concrete traces\<close>

definition ex_trace_lib :: trace_lib where
  "ex_trace_lib = \<lparr>tl_sha256 = (\<lambda>s. ''h''), tl_json = (\<lambda>v. ''j''), tl_str = (\<lambda>v. ''v''),
     tl_iso = (\<lambda>t. nat_text (nat t)), tl_now = 100\<rparr>"

definition ex_analyzer :: analyzer where
  "ex_analyzer = \<lparr>an_confidence_threshold = 6 / 10, an_drop_threshold = 2 / 10, an_judge = None\<rparr>"

definition ex_span :: "str \<Rightarrow> str option \<Rightarrow> str \<Rightarrow> str \<Rightarrow> str \<Rightarrow> pyval dict \<Rightarrow> span" where
  "ex_span i p name status start attrs = \<lparr>sp_trace_id = ''t'', sp_span_id = i, sp_parent = p, sp_name = name,
     sp_kind = ''INTERNAL'', sp_status = status, sp_start = start, sp_end = start, sp_duration = 1,
     sp_attrs = attrs, sp_events = []\<rparr>"

text \<open>A workflow whose SQL step failed inside the database call, and whose arbitration then failed on the
  incomplete answer.\<close>

definition ex_failed_trace :: "span list" where
  "ex_failed_trace =
     [ex_span ''4'' (Some ''3'') ''coremesh.db.sql.execute'' ''ERROR'' ''13'' [],
      ex_span ''3'' (Some ''2'') ''coremesh.tool.sql_generation'' ''ERROR'' ''12''
        [(''coremesh.step.id'', PStr ''step-sql-generation''), (''coremesh.step.index'', PInt 0)],
      ex_span ''2'' (Some ''1'') ''coremesh.agent.node.sql_generation'' ''ERROR'' ''11''
        [(''coremesh.step.id'', PStr ''step-sql-generation''), (''coremesh.step.index'', PInt 0)],
      ex_span ''5'' (Some ''1'') ''coremesh.tool.arbitration'' ''UNSET'' ''20''
        [(''coremesh.step.index'', PInt 1), (''coremesh.arbitration.failed'', PBool True),
         (''coremesh.degraded'', PBool True)],
      ex_span ''1'' None ''coremesh.agent.workflow'' ''UNSET'' ''10'' []]"

lemma ex_failed_trace_diagnosis:
  "map_option (map_sum id (\<lambda>d. (dg_span_name d, dg_category d, dg_confidence d)))
     (analyze ex_trace_lib ex_analyzer ''t'' ex_failed_trace ExecutionErrorTrigger) =
   Some (Inr (''coremesh.tool.arbitration'', ArbitrationFailure, 85 / 100))"
  by code_simp

definition ex_otel_span :: "nat \<Rightarrow> nat option \<Rightarrow> pyval dict \<Rightarrow> otel_span" where
  "ex_otel_span i p attrs = \<lparr>os_trace_id = Some 7, os_span_id = Some i, os_parent = p,
     os_name = ''coremesh.tool.rag_search'', os_kind = ''INTERNAL'', os_status = ''UNSET'',
     os_start = Some 1000, os_end = Some 2000, os_attrs = attrs, os_events = []\<rparr>"

theorem serialize_private_witness:
  "serialize ex_trace_lib 32 (ex_otel_span 2 None [(''user.prompt'', PStr ''alice''), (''n'', PInt 1)]) =
   serialize ex_trace_lib 32 (ex_otel_span 2 None [(''user.prompt'', PStr ''bobby''), (''n'', PInt 1)])"
proof -
  have "is_sensitive_attribute_key (lower ''user.prompt'')" by code_simp
  then have "same_public_span ex_trace_lib (ex_otel_span 2 None [(''user.prompt'', PStr ''bobby''), (''n'', PInt 1)])
      (ex_otel_span 2 None [(''user.prompt'', PStr ''alice''), (''n'', PInt 1)])"
    by (simp add: same_public_span_def same_public_def ex_otel_span_def ex_trace_lib_def stable_text_def)
  from serialize_private [OF this] show ?thesis by blast
qed

lemma ex_failed_trace_candidates:
  "map_sum id (map (\<lambda>c. sp_span_id (fst c))) (find_candidates ex_analyzer (chronological ex_failed_trace)) =
     Inr [''2'', ''3'', ''4'', ''5'']"
  by code_simp


theorem collected_trace_analysis_returns_witness:
  "\<exists>r. analyze ex_trace_lib ex_analyzer (format_trace_id (Some 7))
     [serialize ex_trace_lib 32 (ex_otel_span 2 (Some 1) [])] ExecutionErrorTrigger = Some r"
proof -
  let ?t = "format_trace_id (Some 7)"
  let ?s0 = "initial_sdk\<lparr>sd_exporter := activate ?t empty_exporter\<rparr>"
  let ?s1 = "?s0\<lparr>sd_started := [(1, None)]\<rparr>"
  let ?s2 = "?s1\<lparr>sd_started := [(1, None), (2, Some 1)]\<rparr>"
  let ?s3 = "?s2\<lparr>sd_exporter := export_one ex_trace_lib 32 (ex_otel_span 2 (Some 1) []) (activate ?t empty_exporter)\<rparr>"
  have "sdk_reachable ex_trace_lib 32 ?s0"
    using reach_step [OF reach_init sdk_activate [where tid = ?t]] by (simp add: initial_sdk_def)
  from reach_step [OF this sdk_start [of 1 _ None]]
  have "sdk_reachable ex_trace_lib 32 ?s1" by (simp add: initial_sdk_def)
  from reach_step [OF this sdk_start [of 2 _ "Some 1"]]
  have "sdk_reachable ex_trace_lib 32 ?s2" by (simp add: initial_sdk_def)
  from reach_step [OF this sdk_end [of "ex_otel_span 2 (Some 1) []" 2]]
  have r: "sdk_reachable ex_trace_lib 32 ?s3" by (simp add: initial_sdk_def ex_otel_span_def)
  have "pop_trace ?t (sd_exporter ?s3) =
      ([serialize ex_trace_lib 32 (ex_otel_span 2 (Some 1) [])], snd (pop_trace ?t (sd_exporter ?s3)))"
    by (simp add: pop_trace_def export_one_def activate_def empty_exporter_def ex_otel_span_def
        dict_setdefault_def Let_def)
  from collected_trace_analysis_returns [OF r this] show ?thesis by blast
qed

definition ex_tracer :: tracer where
  "ex_tracer = make_tracer ex_trace_lib ''.traces'' True (6 / 10) (2 / 10) 256 None"

definition ex_collected :: tracer_state where
  "ex_collected = \<lparr>tx_exporter = \<lparr>ex_active = [''t''], ex_spans = [(''t'', ex_failed_trace)]\<rparr>,
     tx_store = \<lparr>st_files = [], st_registry = []\<rparr>\<rparr>"

lemma ex_finalized:
  "map_option (\<lambda>(h, tx). (th_artifact h \<noteq> None, map rr_category (st_registry (tx_store tx))))
     (finalize_handle ex_tracer None (new_handle\<lparr>th_trace_id := Some ''t''\<rparr>) ex_collected) =
   Some (True, [Some ''arbitration_failure''])"
  by code_simp

theorem finalize_artifact_witness:
  "\<exists>h tx a. finalize_handle ex_tracer None (new_handle\<lparr>th_trace_id := Some ''t''\<rparr>) ex_collected = Some (h, tx) \<and>
     get_trace ''t'' (tx_store tx) = Inr a \<and> at_trigger a = Some ExecutionErrorTrigger \<and> at_diagnosis a \<noteq> None"
proof -
  from ex_finalized obtain h tx where f:
    "finalize_handle ex_tracer None (new_handle\<lparr>th_trace_id := Some ''t''\<rparr>) ex_collected = Some (h, tx)"
    and a: "th_artifact h \<noteq> None" by auto
  have pop: "pop_trace ''t'' (tx_exporter ex_collected) = (ex_failed_trace, \<lparr>ex_active = [], ex_spans = []\<rparr>)"
    by (simp add: ex_collected_def pop_trace_def dict_pop_def)
  have e: "list_ex (\<lambda>s. sp_status s = ''ERROR'') ex_failed_trace"
    by (simp add: ex_failed_trace_def ex_span_def)
  have ne: "ex_failed_trace \<noteq> []" by (simp add: ex_failed_trace_def)
  show ?thesis
    using finalize_artifact [OF f _ _ pop ne] f a e by (auto simp: new_handle_def effective_trigger_def)
qed

theorem negative_feedback_effect_witness:
  "\<exists>res tbl st. flag_negative_feedback ex_tracer NoOpSink None ''t'' None ([], \<lparr>st_files = [], st_registry = []\<rparr>)
     = Some (res, (tbl, st)) \<and> st = \<lparr>st_files = [], st_registry = []\<rparr>"
proof -
  have f: "flag_negative_feedback ex_tracer NoOpSink None ''t'' None ([], \<lparr>st_files = [], st_registry = []\<rparr>)
     = Some (Inr None, ([], \<lparr>st_files = [], st_registry = []\<rparr>))"
    by (simp add: flag_negative_feedback_def get_trace_def ex_tracer_def make_tracer_def)
  from negative_feedback_effect [OF f] f show ?thesis by auto
qed

end
