(* ===== verification/Encoding.thy ===== *)
theory Encoding
  imports Prelude
begin

text \<open>
  The byte encodings of the standard library that the runtime uses: \<open>base64.b64encode\<close>, the
  non-strict \<open>base64.b64decode\<close>, and UTF-8 of the code points a \<open>str\<close> can hold. Bytes are characters.
\<close>

section \<open>The base64 alphabet\<close>

definition b64_char :: "nat \<Rightarrow> char" where
  "b64_char n = (if n < 26 then char_of (65 + n) else if n < 52 then char_of (71 + n)
     else if n < 62 then char_of (n - 4) else if n = 62 then CHR ''+'' else CHR ''/'')"

definition b64_value :: "char \<Rightarrow> nat option" where
  "b64_value c = (let n = (of_char c :: nat) in
     if 65 \<le> n \<and> n \<le> 90 then Some (n - 65)
     else if 97 \<le> n \<and> n \<le> 122 then Some (n - 71)
     else if 48 \<le> n \<and> n \<le> 57 then Some (n + 4)
     else if n = 43 then Some 62 else if n = 47 then Some 63 else None)"

lemma b64_char_cases:
  assumes "n < 64"
  obtains (upper) "n < 26" "(of_char (b64_char n) :: nat) = 65 + n"
  | (lower) "26 \<le> n" "n < 52" "(of_char (b64_char n) :: nat) = 71 + n"
  | (digit) "52 \<le> n" "n < 62" "(of_char (b64_char n) :: nat) = n - 4"
  | (plus) "n = 62" "(of_char (b64_char n) :: nat) = 43"
  | (slash) "n = 63" "(of_char (b64_char n) :: nat) = 47"
  using assms by (cases "n < 26"; cases "n < 52"; cases "n < 62"; cases "n = 62")
    (auto simp: b64_char_def intro: that)

lemma b64_value_char [simp]: "n < 64 \<Longrightarrow> b64_value (b64_char n) = Some n"
  by (erule b64_char_cases) (auto simp: b64_value_def Let_def)

lemma b64_char_ascii [simp]: "n < 64 \<Longrightarrow> (of_char (b64_char n) :: nat) < 128"
  by (erule b64_char_cases) simp_all

lemma b64_char_not_pad [simp]: "n < 64 \<Longrightarrow> b64_char n \<noteq> CHR ''=''"
proof
  assume "n < 64" "b64_char n = CHR ''=''"
  moreover have "b64_value (CHR ''='') = None" by (simp add: b64_value_def)
  ultimately show False by (metis b64_value_char option.distinct(1))
qed

section \<open>Encoding\<close>

fun b64encode :: "str \<Rightarrow> str" where
  "b64encode [] = []"
| "b64encode [a] = (let x = (of_char a :: nat) in
     [b64_char (x div 4), b64_char (x mod 4 * 16), CHR ''='', CHR ''=''])"
| "b64encode [a, b] = (let x = (of_char a :: nat); y = (of_char b :: nat) in
     [b64_char (x div 4), b64_char (x mod 4 * 16 + y div 16), b64_char (y mod 16 * 4), CHR ''=''])"
| "b64encode (a # b # c # s) = (let x = (of_char a :: nat); y = (of_char b :: nat); z = (of_char c :: nat) in
     b64_char (x div 4) # b64_char (x mod 4 * 16 + y div 16) # b64_char (y mod 16 * 4 + z div 64)
       # b64_char (z mod 64) # b64encode s)"

section \<open>Decoding\<close>

text \<open>The state is the position in the quadruple, the bits left over and the pads seen; characters
  outside the alphabet are skipped, and a completed padding ends the input.\<close>

fun b64_loop :: "nat \<Rightarrow> nat \<Rightarrow> nat \<Rightarrow> str \<Rightarrow> str result" where
  "b64_loop q left pads [] =
     (if q = 0 then Inr [] else Inl (ValueError, ''Incorrect padding''))"
| "b64_loop q left pads (c # s) =
     (if c = CHR ''='' then
        (if 2 \<le> q \<and> 4 \<le> q + Suc pads then Inr []
         else b64_loop q left (if 2 \<le> q then Suc pads else pads) s)
      else (case b64_value c of
          None \<Rightarrow> b64_loop q left pads s
        | Some v \<Rightarrow>
            if q = 0 then b64_loop 1 v 0 s
            else if q = 1 then rbind (b64_loop 2 (v mod 16) 0 s) (\<lambda>r. Inr (char_of (left * 4 + v div 16) # r))
            else if q = 2 then rbind (b64_loop 3 (v mod 4) 0 s) (\<lambda>r. Inr (char_of (left * 16 + v div 4) # r))
            else rbind (b64_loop 0 0 0 s) (\<lambda>r. Inr (char_of (left * 64 + v) # r))))"

definition b64decode :: "str \<Rightarrow> str result" where
  "b64decode s = (if list_ex (\<lambda>c. 128 \<le> (of_char c :: nat)) s
     then Inl (ValueError, ''string argument should contain only ASCII characters'')
     else b64_loop 0 0 0 s)"

lemma byte_less [simp]: "(of_char c :: nat) < 256"
  by (rule nat_of_char_less_256)

lemma byte_div: "(of_char c :: nat) div 4 < 64" "(of_char c :: nat) div 16 < 16" "(of_char c :: nat) div 64 < 4"
  using byte_less [of c] by (simp_all only: div_less_iff_less_mult)

lemma join_parts: "t < k \<Longrightarrow> (q * k + t) div k = (q :: nat)" "t < k \<Longrightarrow> (q * k + t) mod k = (t :: nat)"
  by simp_all

lemma sextets:
  "(x :: nat) mod 4 * 16 < 64" "y < 16 \<Longrightarrow> x mod 4 * 16 + y < 64"
  "(x :: nat) mod 16 * 4 < 64" "y < 4 \<Longrightarrow> x mod 16 * 4 + y < 64"
proof -
  have "x mod 4 < 4" "x mod 16 < 16" by simp_all
  then show "x mod 4 * 16 < 64" "y < 16 \<Longrightarrow> x mod 4 * 16 + y < 64"
    "x mod 16 * 4 < 64" "y < 4 \<Longrightarrow> x mod 16 * 4 + y < 64" by linarith+
qed

lemma join_parts_0: "(q * k) div k = (q :: nat)" if "0 < k"
  using that by simp

lemma b64_loop_encode: "b64_loop 0 0 0 (b64encode s) = Inr s"
proof (induction s rule: b64encode.induct)
  case (2 a)
  then show ?case by (simp add: Let_def byte_div sextets div_mult_mod_eq)
next
  case (3 a b)
  then show ?case
    by (simp add: Let_def byte_div sextets join_parts div_mult_mod_eq del: div_mult_self3 div_mult_self4)
next
  case (4 a b c s)
  then show ?case
    by (simp add: Let_def byte_div sextets join_parts div_mult_mod_eq del: div_mult_self3 div_mult_self4)
qed simp

lemma b64encode_ascii: "c \<in> set (b64encode s) \<Longrightarrow> (of_char c :: nat) < 128"
  by (induction s rule: b64encode.induct) (auto simp: Let_def byte_div sextets)

lemma b64decode_encode: "b64decode (b64encode s) = Inr s"
  using b64encode_ascii by (auto simp: b64decode_def b64_loop_encode list_ex_iff not_le [symmetric])

lemma b64encode_Nil_iff [simp]: "b64encode s = [] \<longleftrightarrow> s = []"
  by (cases s rule: b64encode.cases) (simp_all add: Let_def)

section \<open>UTF-8\<close>

definition utf8_encode :: "str \<Rightarrow> str" where
  "utf8_encode s = concat (map (\<lambda>c. let n = (of_char c :: nat) in
     if n < 128 then [c] else [char_of (192 + n div 64), char_of (128 + n mod 64)]) s)"

end
