(* ===== verification/Orchestrator.thy ===== *)
theory Orchestrator
  imports Consensus Forensics Encoding
begin

text \<open>
  The supervisor workflow of \<open>services-runtime/src/agents/orchestrator.py\<close>: planning, the supervisor and
  specialist nodes, the sequential graph loop, synthesis, the arbitration gate, persistence around
  them, and the public entry \<open>run_orchestration\<close>. The tools, memories, arbitrator, log sink and tracer
  are the fields of a record of calls on an arbitrary world, any of which may raise. Random ids,
  clock values and log messages are left out.
\<close>

section \<open>Data\<close>

datatype specialist = RagSearch | DocumentExtraction | SqlGeneration

fun specialist_text :: "specialist \<Rightarrow> str" where
  "specialist_text RagSearch = ''rag_search''"
| "specialist_text DocumentExtraction = ''document_extraction''"
| "specialist_text SqlGeneration = ''sql_generation''"

record request =
  rq_user_id :: str
  rq_feature_scope :: str
  rq_query :: str
  rq_context :: "pyval dict option"

record plan_step =
  ps_id :: str
  ps_specialist :: specialist
  ps_objective :: str
  ps_expected :: str
  ps_depends_on :: "str list"
  ps_complexity :: str
  ps_status :: str

datatype obs_status = Success | Errored | Skipped

fun obs_status_text :: "obs_status \<Rightarrow> str" where
  "obs_status_text Success = ''success''"
| "obs_status_text Errored = ''error''"
| "obs_status_text Skipped = ''skipped''"

record observation =
  ob_step_id :: str
  ob_specialist :: specialist
  ob_status :: obs_status
  ob_input :: "pyval dict"
  ob_output :: "pyval dict"
  ob_error :: "str option"

record supervisor_state =
  ss_request :: request
  ss_session_id :: str
  ss_plan :: "plan_step list"
  ss_observations :: "observation list"
  ss_memories :: "pyval list"
  ss_index :: nat
  ss_dispatch :: "specialist option"
  ss_final :: "str option"
  ss_status :: str

record orc_result =
  or_session_id :: str
  or_user_id :: str
  or_feature_scope :: str
  or_status :: str
  or_plan :: "plan_step list"
  or_observations :: "observation list"
  or_memories :: "pyval list"
  or_final :: str
  or_arbitration :: "verdict option"
  or_trace_id :: "str option"
  or_root_cause :: "diagnosis option"

section \<open>The collaborators\<close>

text \<open>What the tracer is told: spans open and close as a stack, attributes and errors go to the
  innermost open span. The outcome is set on the execution handle.\<close>

datatype span_op = SpanStart str span_category "pyval dict" | SpanAttr str pyval | SpanError exn
  | SpanEnd "exn option"

record outcome =
  oc_status :: str
  oc_trigger :: "failure_trigger option"
  oc_reasons :: "str list"
  oc_confidence :: "rat option"

record 'w deps =
  dp_tool :: "specialist \<Rightarrow> request \<Rightarrow> plan_step \<Rightarrow> observation list \<Rightarrow> ('w, pyval) io"
  dp_save_state :: "str \<Rightarrow> supervisor_state \<Rightarrow> ('w, unit) io"
  dp_append_event :: "str \<Rightarrow> pyval dict \<Rightarrow> ('w, unit) io"
  dp_retrieve :: "str \<Rightarrow> str \<Rightarrow> int \<Rightarrow> ('w, pyval list) io"
  dp_store :: "orc_result \<Rightarrow> ('w, unit) io"
  dp_arbitrate :: "arb_payload \<Rightarrow> ('w, verdict) io"
  dp_record :: "interaction \<Rightarrow> ('w, unit) io"
  dp_log_lib :: log_library
  dp_span :: "span_op \<Rightarrow> 'w \<Rightarrow> 'w"
  dp_start_execution :: "str \<Rightarrow> pyval dict \<Rightarrow> 'w \<Rightarrow> str option \<times> 'w"
  dp_end_execution :: "outcome option \<Rightarrow> exn option \<Rightarrow> 'w \<Rightarrow> diagnosis option \<times> 'w"
  dp_uuid :: "'w \<Rightarrow> str \<times> 'w"
  dp_uuid5 :: "str \<Rightarrow> str"
  dp_time_text :: "'w \<Rightarrow> str \<times> 'w"
  dp_format :: "pyval \<Rightarrow> str"
  dp_trace_lib :: trace_lib
  dp_ocr_threshold :: rat

definition set_attr :: "'w deps \<Rightarrow> str \<Rightarrow> pyval \<Rightarrow> ('w, unit) io" where
  "set_attr d k v w = (Inr (), dp_span d (SpanAttr k v) w)"

definition with_span :: "'w deps \<Rightarrow> str \<Rightarrow> span_category \<Rightarrow> pyval dict \<Rightarrow> ('w, 'a) io \<Rightarrow> ('w, 'a) io" where
  "with_span d name cat attrs body w =
     (let (r, w1) = body (dp_span d (SpanStart name cat attrs) w)
      in (r, dp_span d (SpanEnd (case r of Inl e \<Rightarrow> Some e | Inr _ \<Rightarrow> None)) w1))"

section \<open>JSON projection\<close>

fun json_ready :: "pyval \<Rightarrow> pyval" where
  "json_ready (PSeq xs) = PSeq (map json_ready xs)"
| "json_ready (PDict d) = PDict (map (\<lambda>(k, v). (k, json_ready v)) d)"
| "json_ready (PBytes s) = PStr (''<'' @ nat_text (length s) @ '' bytes>'')"
| "json_ready v = v"

definition json_dict :: "pyval dict \<Rightarrow> pyval dict" where
  "json_dict d = map (\<lambda>(k, v). (k, json_ready v)) d"

definition step_dict :: "plan_step \<Rightarrow> pyval" where
  "step_dict s = PDict [(''step_id'', PStr (ps_id s)), (''specialist'', PStr (specialist_text (ps_specialist s))),
     (''objective'', PStr (ps_objective s)), (''expected_output'', PStr (ps_expected s)),
     (''depends_on'', PSeq (map PStr (ps_depends_on s))), (''complexity'', PStr (ps_complexity s)),
     (''status'', PStr (ps_status s))]"

text \<open>The state as it crosses between nodes: \<open>_state_to_graph_dict\<close> followed by \<open>model_validate\<close>. The
  typed fields survive; the loosely typed ones pass through the JSON projection.\<close>

definition graph_observation :: "observation \<Rightarrow> observation" where
  "graph_observation o1 = o1\<lparr>ob_input := json_dict (ob_input o1), ob_output := json_dict (ob_output o1)\<rparr>"

definition state_to_graph :: "supervisor_state \<Rightarrow> supervisor_state" where
  "state_to_graph s = s\<lparr>
     ss_request := (ss_request s)\<lparr>rq_context := map_option json_dict (rq_context (ss_request s))\<rparr>,
     ss_observations := map graph_observation (ss_observations s),
     ss_memories := map json_ready (ss_memories s)\<rparr>"

definition normalize_tool_output :: "pyval \<Rightarrow> pyval dict" where
  "normalize_tool_output v = (case json_ready v of PDict d \<Rightarrow> d | u \<Rightarrow> [(''result'', u)])"

section \<open>Planning\<close>

definition mentions :: "str list \<Rightarrow> str \<Rightarrow> bool" where
  "mentions tokens query \<longleftrightarrow> list_ex (\<lambda>t. contains t query) tokens"

definition context_of :: "request \<Rightarrow> pyval dict" where
  "context_of rq = (case rq_context rq of None \<Rightarrow> [] | Some c \<Rightarrow> c)"

definition has_context :: "request \<Rightarrow> str \<Rightarrow> bool" where
  "has_context rq k \<longleftrightarrow> truthy (get_or_none (context_of rq) k)"

definition rag_tokens :: "str list" where
  "rag_tokens = [''lookup'', ''search'', ''find'', ''policy'', ''document'', ''reference'', ''knowledge'']"

definition document_tokens :: "str list" where
  "document_tokens = [''invoice'', ''extract'', ''document'', ''receipt'']"

definition sql_tokens :: "str list" where
  "sql_tokens = [''database'', ''db'', ''sql'', ''analysis'', ''analyze'', ''revenue'', ''orders'', ''count'']"

definition needed_specialists :: "request \<Rightarrow> bool \<times> bool \<times> bool" where
  "needed_specialists rq =
     (let query = lower (rq_query rq); scope = lower (strip (rq_feature_scope rq))
      in if scope = ''rag'' then (True, False, False)
         else if scope = ''text_to_sql'' then (False, False, True)
         else (mentions rag_tokens query,
               has_context rq ''document_text'' \<or> has_context rq ''document_bytes''
                 \<or> has_context rq ''document_base64'' \<or> has_context rq ''document_path''
                 \<or> mentions document_tokens query,
               has_context rq ''sql_query'' \<or> mentions sql_tokens query))"

definition rag_step :: plan_step where
  "rag_step = \<lparr>ps_id = ''step-rag-search'', ps_specialist = RagSearch,
     ps_objective = ''Retrieve relevant document or knowledge-base context for the user request.'',
     ps_expected = ''Ranked references with source markers and supporting snippets.'',
     ps_depends_on = [], ps_complexity = ''moderate'', ps_status = ''pending''\<rparr>"

definition document_step :: "str list \<Rightarrow> plan_step" where
  "document_step deps = \<lparr>ps_id = ''step-document-extraction'', ps_specialist = DocumentExtraction,
     ps_objective = ''Extract structured data from the provided document context.'',
     ps_expected = ''Typed document extraction fields with validation metadata.'',
     ps_depends_on = deps, ps_complexity = ''moderate'', ps_status = ''pending''\<rparr>"

definition sql_step :: "str list \<Rightarrow> plan_step" where
  "sql_step deps = \<lparr>ps_id = ''step-sql-generation'', ps_specialist = SqlGeneration,
     ps_objective = ''Generate and execute a read-only SQL analysis using prior specialist findings.'',
     ps_expected = ''Sanitized SQL, result rows, and execution metadata.'',
     ps_depends_on = deps, ps_complexity = ''hard'', ps_status = ''pending''\<rparr>"

definition default_step :: plan_step where
  "default_step = \<lparr>ps_id = ''step-rag-search'', ps_specialist = RagSearch,
     ps_objective = ''Retrieve relevant context for the user request.'',
     ps_expected = ''Ranked references with source markers.'',
     ps_depends_on = [], ps_complexity = ''simple'', ps_status = ''pending''\<rparr>"

definition create_plan :: "request \<Rightarrow> pyval list \<Rightarrow> plan_step list" where
  "create_plan rq memories =
     (let (needs_rag, needs_document, needs_sql) = needed_specialists rq;
          s1 = (if needs_rag then [rag_step] else []);
          s2 = (if needs_document then s1 @ [document_step (map ps_id s1)] else s1);
          s3 = (if needs_sql then s2 @ [sql_step (map ps_id s2)] else s2);
          s4 = (if s3 = [] then [default_step] else s3)
      in if memories \<noteq> []
         then s4[0 := (s4 ! 0)\<lparr>ps_objective := ps_objective (s4 ! 0) @ '' Consider ''
                @ nat_text (length memories) @ '' similar long-term memory record(s).''\<rparr>]
         else s4)"

section \<open>Memory calls\<close>

definition retrieve_memories :: "'w deps \<Rightarrow> request \<Rightarrow> ('w, pyval list) io" where
  "retrieve_memories d rq = io_catch
     (with_span d ''coremesh.db.semantic_memory.lookup'' Database
        [(''db.system'', PStr ''semantic_memory''), (''db.operation.name'', PStr ''query'')]
        (dp_retrieve d (rq_user_id rq) (rq_query rq) 3))
     (\<lambda>e. io_return [])"

definition event_dict :: "supervisor_state \<Rightarrow> str \<Rightarrow> pyval dict" where
  "event_dict s event_type =
     [(''event_type'', PStr event_type), (''status'', PStr (ss_status s)),
      (''current_step_index'', PInt (int (ss_index s))),
      (''dispatch_next'', case ss_dispatch s of None \<Rightarrow> PNone | Some sp \<Rightarrow> PStr (specialist_text sp)),
      (''observation_count'', PInt (int (length (ss_observations s))))]"

definition persist_short_term :: "'w deps \<Rightarrow> supervisor_state \<Rightarrow> str \<Rightarrow> ('w, unit) io" where
  "persist_short_term d s event_type = io_catch
     (io_then
       (with_span d ''coremesh.db.short_term_memory.save_state'' Database
          [(''db.system'', PStr ''short_term_memory''), (''db.operation.name'', PStr ''save'')]
          (dp_save_state d (ss_session_id s) (state_to_graph s)))
       (with_span d ''coremesh.db.short_term_memory.append_event'' Database
          [(''db.system'', PStr ''short_term_memory''), (''db.operation.name'', PStr ''append'')]
          (dp_append_event d (ss_session_id s) (event_dict s event_type))))
     (\<lambda>e. io_return ())"

definition store_long_term :: "'w deps \<Rightarrow> orc_result \<Rightarrow> ('w, unit) io" where
  "store_long_term d r = io_catch
     (with_span d ''coremesh.db.semantic_memory.store'' Database
        [(''db.system'', PStr ''semantic_memory''), (''db.operation.name'', PStr ''upsert'')]
        (dp_store d r))
     (\<lambda>e. io_return ())"

section \<open>Synthesis\<close>

definition completion_status :: "observation list \<Rightarrow> str" where
  "completion_status obs =
     (if list_ex (\<lambda>o1. ob_status o1 = Errored) obs then ''completed_with_errors''
      else if list_ex (\<lambda>o1. ob_status o1 = Skipped) obs then ''completed_with_gaps''
      else ''completed'')"

text \<open>\<open>a or b\<close>, and \<open>f"{v}"\<close>.\<close>

definition py_or :: "pyval \<Rightarrow> pyval \<Rightarrow> pyval" where
  "py_or a b = (if truthy a then a else b)"

definition fmt :: "'w deps \<Rightarrow> pyval \<Rightarrow> str" where
  "fmt d v = (case v of PStr s \<Rightarrow> s | PInt i \<Rightarrow> int_text i | PNone \<Rightarrow> ''None'' | _ \<Rightarrow> dp_format d v)"

definition get_attr_error :: exn where
  "get_attr_error = (OtherException ''AttributeError'', ''get'')"

text \<open>\<open>(v or {}).get\<close> needs a mapping.\<close>

definition as_mapping :: "pyval \<Rightarrow> pyval dict result" where
  "as_mapping v = (if \<not> truthy v then Inr [] else case v of PDict m \<Rightarrow> Inr m | _ \<Rightarrow> Inl get_attr_error)"

definition reference_texts :: "'w deps \<Rightarrow> pyval \<Rightarrow> str list result" where
  "reference_texts d results =
     (if \<not> truthy results then Inr []
      else case results of
        PSeq xs \<Rightarrow> Inr (List.map_filter (\<lambda>x. case x of
            PDict m \<Rightarrow> Some (fmt d (py_or (py_or (get_or_none m ''reference_marker'') (get_or_none m ''source''))
                                 (get_or_none m ''chunk_id'')))
          | _ \<Rightarrow> None) (take 3 xs))
      | PStr s \<Rightarrow> Inr []
      | PBytes s \<Rightarrow> Inr []
      | _ \<Rightarrow> Inl (TypeError, ''slice''))"

definition success_line :: "'w deps \<Rightarrow> observation \<Rightarrow> str result" where
  "success_line d o1 = (let out = ob_output o1 in case ob_specialist o1 of
     RagSearch \<Rightarrow> rbind (reference_texts d (get_or_none out ''results'')) (\<lambda>refs.
       Inr (if refs \<noteq> [] then ''RAG search found references: '' @ join '', '' refs @ ''.''
            else ''RAG search completed with no matching references.''))
   | DocumentExtraction \<Rightarrow> rbind (as_mapping (get_or_none out ''extraction'')) (\<lambda>m.
       let vendor = get_or_none m ''vendor_name''; invoice = get_or_none m ''invoice_id'';
           total = get_or_none m ''invoice_total''
       in Inr (if truthy vendor \<or> truthy invoice
               then ''Document extraction found vendor='' @ fmt d (py_or vendor (PStr ''UNKNOWN''))
                    @ '', invoice_id='' @ fmt d (py_or invoice (PStr ''UNKNOWN''))
                    @ '', invoice_total='' @ fmt d total @ ''.''
               else ''Document extraction completed without structured invoice fields.''))
   | SqlGeneration \<Rightarrow>
       Inr (''SQL analysis executed `'' @ fmt d (get_or_none out ''sql'') @ ''` and returned ''
            @ fmt d (case map_of out ''row_count'' of None \<Rightarrow> PInt 0 | Some v \<Rightarrow> v) @ '' row(s): ''
            @ fmt d (py_or (get_or_none out ''rows'') (PSeq [])) @ ''.''))"

definition observation_line :: "'w deps \<Rightarrow> observation \<Rightarrow> str result" where
  "observation_line d o1 = (case ob_status o1 of
     Errored \<Rightarrow> Inr (specialist_text (ob_specialist o1) @ '': failed (''
       @ (case ob_error o1 of None \<Rightarrow> ''None'' | Some e \<Rightarrow> e) @ '').'')
   | Skipped \<Rightarrow> Inr (specialist_text (ob_specialist o1) @ '': skipped (''
       @ fmt d (py_or (get_or_none (ob_output o1) ''reason'') (PStr ''no applicable input was supplied'')) @ '').'')
   | Success \<Rightarrow> success_line d o1)"

definition synthesize_response :: "'w deps \<Rightarrow> supervisor_state \<Rightarrow> str result" where
  "synthesize_response d s = rbind (collect (observation_line d) (ss_observations s)) (\<lambda>lines.
     Inr (join '' '' ((''Completed '' @ nat_text (length (ss_observations s)) @ '' specialist step(s) for: ''
       @ rq_query (ss_request s)) # lines)))"

section \<open>The nodes\<close>

text \<open>The state updates of the supervisor node.\<close>

definition planned_state :: "supervisor_state \<Rightarrow> pyval list \<Rightarrow> supervisor_state" where
  "planned_state s mem = s\<lparr>ss_memories := mem, ss_plan := create_plan (ss_request s) mem,
     ss_status := ''running''\<rparr>"

definition completed_state :: "supervisor_state \<Rightarrow> str \<Rightarrow> supervisor_state" where
  "completed_state s resp = s\<lparr>ss_dispatch := None, ss_final := Some resp,
     ss_status := completion_status (ss_observations s)\<rparr>"

definition dispatched_state :: "supervisor_state \<Rightarrow> supervisor_state" where
  "dispatched_state s =
     (let current = ss_plan s ! ss_index s;
          plan = (if ps_status current = ''pending''
                  then (ss_plan s)[ss_index s := current\<lparr>ps_status := ''running''\<rparr>] else ss_plan s)
      in s\<lparr>ss_plan := plan, ss_dispatch := Some (ps_specialist (plan ! ss_index s))\<rparr>)"

definition ensure_plan :: "'w deps \<Rightarrow> supervisor_state \<Rightarrow> ('w, supervisor_state) io" where
  "ensure_plan d s =
     (if ss_plan s = [] then io_bind (retrieve_memories d (ss_request s)) (\<lambda>mem. io_return (planned_state s mem))
      else io_return s)"

definition finish_workflow :: "'w deps \<Rightarrow> supervisor_state \<Rightarrow> ('w, supervisor_state) io" where
  "finish_workflow d s = io_bind (io_lift (synthesize_response d s)) (\<lambda>resp.
     io_then (set_attr d ''coremesh.execution.status'' (PStr (completion_status (ss_observations s))))
       (io_then (persist_short_term d (completed_state s resp) ''workflow_completed'')
         (io_return (state_to_graph (completed_state s resp)))))"

definition dispatch_step :: "'w deps \<Rightarrow> supervisor_state \<Rightarrow> ('w, supervisor_state) io" where
  "dispatch_step d s =
     (let current = ss_plan s ! ss_index s in
      io_then (set_attr d ''coremesh.step.id'' (PStr (ps_id current)))
        (io_then (set_attr d ''coremesh.agent.specialist'' (PStr (specialist_text (ps_specialist current))))
          (io_then (persist_short_term d (dispatched_state s) ''workflow_dispatched'')
            (io_return (state_to_graph (dispatched_state s))))))"

definition supervisor_node :: "'w deps \<Rightarrow> supervisor_state \<Rightarrow> ('w, supervisor_state) io" where
  "supervisor_node d s0 = with_span d ''coremesh.agent.node.supervisor'' Agent
     [(''coremesh.agent.name'', PStr ''supervisor''), (''coremesh.step.index'', PInt (int (ss_index s0)))]
     (io_bind (ensure_plan d s0)
       (\<lambda>s. if ss_index s \<ge> length (ss_plan s) then finish_workflow d s else dispatch_step d s))"

text \<open>\<open>_record_tool_quality\<close>; the conversions and lengths may raise.\<close>

definition py_len :: "pyval \<Rightarrow> int result" where
  "py_len v = (case v of PStr s \<Rightarrow> Inr (int (length s)) | PBytes s \<Rightarrow> Inr (int (length s))
     | PSeq xs \<Rightarrow> Inr (int (length xs)) | PDict m \<Rightarrow> Inr (int (length m)) | _ \<Rightarrow> Inl (TypeError, ''len''))"

definition py_int :: "pyval \<Rightarrow> int result" where
  "py_int v = (case v of PBool b \<Rightarrow> Inr (if b then 1 else 0) | PInt i \<Rightarrow> Inr i
     | PFloat x \<Rightarrow> Inr (if 0 \<le> x then \<lfloor>x\<rfloor> else \<lceil>x\<rceil>)
     | PStr s \<Rightarrow> (case parse_int s of None \<Rightarrow> Inl (ValueError, s) | Some i \<Rightarrow> Inr i)
     | PBytes s \<Rightarrow> (case parse_int s of None \<Rightarrow> Inl (ValueError, s) | Some i \<Rightarrow> Inr i)
     | _ \<Rightarrow> Inl (TypeError, ''int''))"

text \<open>\<open>isinstance(v, int | float)\<close>, with the value as a float.\<close>

definition number_of :: "pyval \<Rightarrow> rat option" where
  "number_of v = (case v of PBool b \<Rightarrow> Some (if b then 1 else 0) | PInt i \<Rightarrow> Some (of_int i)
     | PFloat x \<Rightarrow> Some x | _ \<Rightarrow> None)"

definition set_number :: "'w deps \<Rightarrow> str \<Rightarrow> pyval \<Rightarrow> ('w, unit) io" where
  "set_number d k v = (case number_of v of None \<Rightarrow> io_return () | Some x \<Rightarrow> set_attr d k (PFloat x))"

definition record_tool_quality :: "'w deps \<Rightarrow> specialist \<Rightarrow> pyval \<Rightarrow> ('w, unit) io" where
  "record_tool_quality d sp output = (let n = normalize_tool_output output in
     case sp of
       RagSearch \<Rightarrow> io_bind (io_lift (py_len (py_or (get_or_none n ''results'') (PSeq []))))
         (\<lambda>c. set_attr d ''coremesh.result.count'' (PInt c))
     | SqlGeneration \<Rightarrow> io_bind (io_lift (py_int (py_or (get_or_none n ''row_count'') (PInt 0))))
         (\<lambda>c. io_then (set_attr d ''coremesh.result.row_count'' (PInt c))
            (set_attr d ''coremesh.sql.limit_applied'' (PBool (truthy (get_or_none n ''limit_applied'')))))
     | DocumentExtraction \<Rightarrow>
        io_then
         (case py_or (get_or_none n ''validation'') (PDict []) of
            PDict m \<Rightarrow> io_then
              (case get_or_none m ''passed'' of
                 PBool b \<Rightarrow> io_then (set_attr d ''coremesh.quality.validation_passed'' (PBool b))
                              (set_attr d ''coremesh.degraded'' (PBool (\<not> b)))
               | _ \<Rightarrow> io_return ())
              (io_then (set_number d ''coremesh.quality.validation_delta'' (get_or_none m ''delta''))
                 (set_number d ''coremesh.quality.validation_tolerance'' (get_or_none m ''tolerance'')))
          | _ \<Rightarrow> io_return ())
         (case number_of (get_or_none n ''ocr_variance'') of
            None \<Rightarrow> io_return ()
          | Some x \<Rightarrow> io_then (set_attr d ''coremesh.quality.ocr_variance'' (PFloat x))
              (io_then (set_attr d ''coremesh.quality.ocr_threshold'' (PFloat (dp_ocr_threshold d)))
                (set_attr d ''coremesh.quality.vision_recovered''
                   (PBool (truthy (get_or_none n ''vision_fallback_used'')))))))"

fun plan_status_of :: "obs_status \<Rightarrow> str" where
  "plan_status_of Success = ''completed''"
| "plan_status_of Skipped = ''skipped''"
| "plan_status_of Errored = ''failed''"

definition step_attributes :: "specialist \<Rightarrow> plan_step \<Rightarrow> nat \<Rightarrow> pyval dict" where
  "step_attributes sp step i =
     [(''coremesh.agent.specialist'', PStr (specialist_text sp)), (''coremesh.step.id'', PStr (ps_id step)),
      (''coremesh.step.index'', PInt (int i)), (''coremesh.step.depends_on'', PSeq (map PStr (ps_depends_on step)))]"

text \<open>The guarded tool call: status, output and error of the observation.\<close>

definition run_tool ::
    "'w deps \<Rightarrow> specialist \<Rightarrow> supervisor_state \<Rightarrow> plan_step
     \<Rightarrow> ('w, obs_status \<times> pyval dict \<times> str option) io" where
  "run_tool d sp s step = io_catch
     (io_bind
       (with_span d (''coremesh.tool.'' @ specialist_text sp) Tool (step_attributes sp step (ss_index s))
         (io_bind (dp_tool d sp (ss_request s) step (ss_observations s)) (\<lambda>output.
            io_then (record_tool_quality d sp output) (io_return output))))
       (\<lambda>output. let n = normalize_tool_output output in
          io_return (if get_or_none n ''status'' = PStr ''skipped'' then Skipped else Success, n, None)))
     (\<lambda>e w. (Inr (Errored, [], Some (exn_message e)), dp_span d (SpanError e) w))"

definition observed_state ::
    "supervisor_state \<Rightarrow> specialist \<Rightarrow> obs_status \<Rightarrow> pyval dict \<Rightarrow> str option \<Rightarrow> supervisor_state" where
  "observed_state s sp status outp err =
     (let step = ss_plan s ! ss_index s;
          obs = \<lparr>ob_step_id = ps_id step, ob_specialist = sp, ob_status = status,
                 ob_input = [(''query'', PStr (rq_query (ss_request s))), (''step'', step_dict step),
                   (''prior_observation_count'', PInt (int (length (ss_observations s))))],
                 ob_output = outp, ob_error = err\<rparr>
      in s\<lparr>ss_observations := ss_observations s @ [obs],
           ss_plan := (ss_plan s)[ss_index s := step\<lparr>ps_status := plan_status_of status\<rparr>],
           ss_index := ss_index s + 1, ss_dispatch := None\<rparr>)"

definition specialist_node :: "'w deps \<Rightarrow> specialist \<Rightarrow> supervisor_state \<Rightarrow> ('w, supervisor_state) io" where
  "specialist_node d sp s =
     (if ss_index s \<ge> length (ss_plan s) then io_raise (OtherException ''IndexError'', ''list index out of range'')
      else let step = ss_plan s ! ss_index s in
        with_span d (''coremesh.agent.node.'' @ specialist_text sp) Agent (step_attributes sp step (ss_index s))
          (io_bind (run_tool d sp s step) (\<lambda>(status, outp, err).
             let s1 = observed_state s sp status outp err
             in io_then (persist_short_term d s1 (specialist_text sp @ ''_completed''))
                  (io_return (state_to_graph s1)))))"

text \<open>\<open>_route_next_node\<close>: \<open>None\<close> is \<open>END\<close>.\<close>

definition route_next_node :: "supervisor_state \<Rightarrow> specialist option" where
  "route_next_node s = ss_dispatch s"

section \<open>What the nodes return\<close>

lemma with_span_Inr: "with_span d n c a body w = (Inr x, w') \<Longrightarrow> \<exists>w1 w2. body w1 = (Inr x, w2)"
  by (auto simp: with_span_def split: prod.splits)

lemma with_span_Inl: "with_span d n c a body w = (Inl e, w') \<Longrightarrow> \<exists>w1 w2. body w1 = (Inl e, w2)"
  by (auto simp: with_span_def split: prod.splits)

lemma with_span_total [intro]: "io_total body \<Longrightarrow> io_total (with_span d n c a body)"
  unfolding io_total_def with_span_def by (auto split: prod.splits) (metis prod.inject)

lemma set_attr_total [simp, intro]: "io_total (set_attr d k v)"
  by (simp add: io_total_def set_attr_def)

lemma persist_short_term_total [simp, intro]: "io_total (persist_short_term d s e)"
  unfolding persist_short_term_def by (intro io_total_catch io_total_return)

lemma retrieve_memories_total [simp, intro]: "io_total (retrieve_memories d rq)"
  unfolding retrieve_memories_def by (intro io_total_catch io_total_return)

lemma store_long_term_total [simp, intro]: "io_total (store_long_term d r)"
  unfolding store_long_term_def by (intro io_total_catch io_total_return)

lemma run_tool_total [simp, intro]: "io_total (run_tool d sp s step)"
  unfolding run_tool_def by (rule io_total_catch) (simp add: io_total_def)

lemma ensure_plan_Inr:
  "ensure_plan d s w = (Inr s', w') \<Longrightarrow>
     (if ss_plan s = [] then (\<exists>mem. s' = planned_state s mem) else s' = s)"
  by (auto simp: ensure_plan_def io_bind_eq_Inr split: if_splits)

lemma finish_workflow_Inr:
  "finish_workflow d s w = (Inr s', w') \<Longrightarrow>
     \<exists>resp. synthesize_response d s = Inr resp \<and> s' = state_to_graph (completed_state s resp)"
  by (auto simp: finish_workflow_def io_bind_eq_Inr)

lemma dispatch_step_Inr: "dispatch_step d s w = (Inr s', w') \<Longrightarrow> s' = state_to_graph (dispatched_state s)"
  by (auto simp: dispatch_step_def Let_def io_bind_eq_Inr)

lemma supervisor_cases:
  assumes "supervisor_node d s w = (Inr s', w')"
  obtains (finished) p resp where "p = s \<and> ss_plan s \<noteq> [] \<or> ss_plan s = [] \<and> (\<exists>mem. p = planned_state s mem)"
      "ss_index p \<ge> length (ss_plan p)"
      "synthesize_response d p = Inr resp" "s' = state_to_graph (completed_state p resp)"
  | (dispatched) p where "p = s \<and> ss_plan s \<noteq> [] \<or> ss_plan s = [] \<and> (\<exists>mem. p = planned_state s mem)"
      "ss_index p < length (ss_plan p)" "s' = state_to_graph (dispatched_state p)"
proof -
  from with_span_Inr [OF assms [unfolded supervisor_node_def]]
  obtain w1 p w2 w3 where e: "ensure_plan d s w1 = (Inr p, w2)"
    and b: "(if ss_index p \<ge> length (ss_plan p) then finish_workflow d p else dispatch_step d p) w2 = (Inr s', w3)"
    by (auto simp: io_bind_eq_Inr)
  have p: "p = s \<and> ss_plan s \<noteq> [] \<or> ss_plan s = [] \<and> (\<exists>mem. p = planned_state s mem)"
    using ensure_plan_Inr [OF e] by (auto split: if_splits)
  show thesis
  proof (cases "ss_index p \<ge> length (ss_plan p)")
    case True
    with b obtain resp where "synthesize_response d p = Inr resp" "s' = state_to_graph (completed_state p resp)"
      using finish_workflow_Inr by fastforce
    with p True show thesis by (rule finished)
  next
    case False
    with b have "s' = state_to_graph (dispatched_state p)" using dispatch_step_Inr by fastforce
    with p False show thesis by (intro dispatched) auto
  qed
qed

lemma specialist_node_Inr:
  assumes "specialist_node d sp s w = (Inr s', w')"
  obtains status outp err where "ss_index s < length (ss_plan s)"
    "s' = state_to_graph (observed_state s sp status outp err)"
proof -
  from assms have lt: "ss_index s < length (ss_plan s)"
    by (auto simp: specialist_node_def split: if_splits)
  with assms have "with_span d (''coremesh.agent.node.'' @ specialist_text sp) Agent
      (step_attributes sp (ss_plan s ! ss_index s) (ss_index s))
      (io_bind (run_tool d sp s (ss_plan s ! ss_index s)) (\<lambda>(status, outp, err).
         let s1 = observed_state s sp status outp err
         in io_then (persist_short_term d s1 (specialist_text sp @ ''_completed''))
              (io_return (state_to_graph s1)))) w = (Inr s', w')"
    by (simp add: specialist_node_def Let_def)
  from with_span_Inr [OF this] lt that show thesis
    by (fastforce simp: io_bind_eq_Inr Let_def split: prod.splits)
qed

lemma state_to_graph_fields [simp]:
  "ss_plan (state_to_graph s) = ss_plan s" "ss_index (state_to_graph s) = ss_index s"
  "ss_dispatch (state_to_graph s) = ss_dispatch s" "ss_final (state_to_graph s) = ss_final s"
  "ss_status (state_to_graph s) = ss_status s" "ss_session_id (state_to_graph s) = ss_session_id s"
  "length (ss_observations (state_to_graph s)) = length (ss_observations s)"
  by (simp_all add: state_to_graph_def)

lemma create_plan_length: "create_plan rq mem \<noteq> []" "length (create_plan rq mem) \<le> 3"
  by (auto simp: create_plan_def Let_def split: prod.split)

text \<open>The rounds the graph may still take.\<close>

definition rounds_left :: "supervisor_state \<Rightarrow> nat" where
  "rounds_left s = (if ss_plan s = [] then 4 else length (ss_plan s) - ss_index s)"

lemma round_decreases:
  assumes "supervisor_node d s w = (Inr s1, w1)" "route_next_node s1 = Some sp"
    and "specialist_node d sp s1 w1 = (Inr s2, w2)"
  shows "rounds_left s2 < rounds_left s"
proof -
  from assms(3) obtain status outp err where lt: "ss_index s1 < length (ss_plan s1)"
    and s2: "s2 = state_to_graph (observed_state s1 sp status outp err)" by (rule specialist_node_Inr)
  from s2 lt have r2: "rounds_left s2 = length (ss_plan s1) - (ss_index s1 + 1)"
    by (auto simp: rounds_left_def observed_state_def Let_def)
  from assms(1) show ?thesis
  proof (cases rule: supervisor_cases)
    case (finished p resp)
    with assms(2) show ?thesis by (simp add: route_next_node_def completed_state_def)
  next
    case (dispatched p)
    then have "length (ss_plan s1) = length (ss_plan p)" "ss_index s1 = ss_index p"
      by (simp_all add: dispatched_state_def Let_def)
    moreover have "ss_plan s = [] \<Longrightarrow> length (ss_plan p) \<le> 3"
      using dispatched(1) create_plan_length(2) by (auto simp: planned_state_def)
    ultimately show ?thesis using r2 lt dispatched(1) by (auto simp: rounds_left_def)
  qed
qed

section \<open>The graph loop\<close>

function invoke_graph :: "'w deps \<Rightarrow> supervisor_state \<Rightarrow> ('w, supervisor_state) io" where
  "invoke_graph d s w =
     (case supervisor_node d s w of
        (Inl e, w1) \<Rightarrow> (Inl e, w1)
      | (Inr s1, w1) \<Rightarrow>
          (case route_next_node s1 of
             None \<Rightarrow> (Inr s1, w1)
           | Some sp \<Rightarrow>
               (case specialist_node d sp s1 w1 of
                  (Inl e, w2) \<Rightarrow> (Inl e, w2)
                | (Inr s2, w2) \<Rightarrow> invoke_graph d s2 w2)))"
  by pat_completeness auto

termination
  by (relation "measure (\<lambda>(d, s, w). rounds_left s)") (auto dest: round_decreases [OF sym _ sym])

declare invoke_graph.simps [simp del]

section \<open>The delivery gate\<close>

definition count_status :: "obs_status \<Rightarrow> orc_result \<Rightarrow> nat" where
  "count_status st r = length (filter (\<lambda>o1. ob_status o1 = st) (or_observations r))"

definition arbitration_metadata :: "orc_result \<Rightarrow> pyval dict" where
  "arbitration_metadata r =
     [(''workflow_status'', PStr (or_status r)),
      (''observation_count'', PInt (int (length (or_observations r)))),
      (''failed_observation_count'', PInt (int (count_status Errored r))),
      (''skipped_observation_count'', PInt (int (count_status Skipped r)))]"

definition arbitration_payload :: "orc_result \<Rightarrow> request \<Rightarrow> str \<Rightarrow> arb_payload" where
  "arbitration_payload r rq txt =
     \<lparr>ap_output_text = txt, ap_original_prompt = Some (rq_query rq), ap_user_id = Some (or_user_id r),
      ap_feature_scope = Some (or_feature_scope r), ap_session_id = Some (or_session_id r),
      ap_metadata = arbitration_metadata r\<rparr>"

definition deps_env :: "'w deps \<Rightarrow> arb_env" where
  "deps_env d = \<lparr>env_timed_out = False, env_timeout_text = [], env_uuid5 = dp_uuid5 d\<rparr>"

text \<open>\<open>_invoke_arbitrator\<close>: a mapping returned by the arbitrator is validated into a verdict.\<close>

definition invoke_arbitrator :: "'w deps \<Rightarrow> arb_payload \<Rightarrow> ('w, verdict) io" where
  "invoke_arbitrator d p = io_bind (dp_arbitrate d p) (\<lambda>v. io_lift (build_verdict v))"

definition apply_verdict :: "orc_result \<Rightarrow> verdict \<Rightarrow> orc_result" where
  "apply_verdict r v = r\<lparr>or_arbitration := Some v, or_final := v_delivered v,
     or_status := (if v_status v = Remediated then ''remediated_by_arbitration''
                   else if \<not> v_allowed v then ''blocked_by_arbitration'' else or_status r)\<rparr>"

definition apply_arbitration :: "'w deps \<Rightarrow> orc_result \<Rightarrow> request \<Rightarrow> ('w, orc_result) io" where
  "apply_arbitration d r rq =
     (if strip (or_final r) = []
      then io_bind (io_lift (blocked_verdict (deps_env d) (arbitration_payload r rq ''[empty agent response]'')
                      ManualReview [] [] [''empty_final_response''] None))
             (\<lambda>v. io_return (r\<lparr>or_arbitration := Some v, or_final := v_delivered v,
                               or_status := ''blocked_by_arbitration''\<rparr>))
      else let p = arbitration_payload r rq (or_final r) in
        io_bind (io_catch (invoke_arbitrator d p)
                  (\<lambda>e. io_lift (blocked_verdict (deps_env d) p ManualReview []
                     [\<lparr>cf_dimension = ''arbitration'', cf_provider = ''runtime'', cf_error = exn_message e\<rparr>]
                     [''arbitrator_runtime_failure''] None)))
          (\<lambda>v. io_return (apply_verdict r v)))"

definition verdict_failed :: "verdict \<Rightarrow> bool" where
  "verdict_failed v \<longleftrightarrow> v_triggered_by v \<noteq> [] \<or> v_status v \<noteq> Passed"

definition record_arbitration_quality :: "'w deps \<Rightarrow> verdict option \<Rightarrow> ('w, unit) io" where
  "record_arbitration_quality d ov = (case ov of
     None \<Rightarrow> io_then (set_attr d ''coremesh.arbitration.failed'' (PBool True))
               (set_attr d ''coremesh.degraded'' (PBool True))
   | Some v \<Rightarrow>
       io_then (set_attr d ''coremesh.arbitration.status'' (PStr (status_text (v_status v))))
         (io_then (set_attr d ''coremesh.quality.confidence'' (PFloat (v_confidence v)))
           (io_then (set_attr d ''coremesh.arbitration.trigger_count'' (PInt (int (length (v_triggered_by v)))))
             (io_then (set_attr d ''coremesh.arbitration.failed'' (PBool (verdict_failed v)))
               (set_attr d ''coremesh.degraded'' (PBool (verdict_failed v)))))))"

section \<open>The production log\<close>

definition publish_interaction :: "'w deps \<Rightarrow> request \<Rightarrow> str \<Rightarrow> int dict \<Rightarrow> str \<Rightarrow> ('w, unit) io" where
  "publish_interaction d rq trace_id scores status = io_catch
     (io_bind (io_lift (build_production_interaction (dp_log_lib d) trace_id (rq_feature_scope rq)
        (rq_query rq) (Some scores) status)) (dp_record d))
     (\<lambda>e. io_return ())"

definition verdict_scores :: "verdict option \<Rightarrow> int dict" where
  "verdict_scores ov = (case ov of None \<Rightarrow> []
     | Some v \<Rightarrow> fold (\<lambda>a. dict_set (dimension_text (ca_dimension a)) (ca_score a)) (v_assessments v) [])"

definition publish_from_result :: "'w deps \<Rightarrow> orc_result \<Rightarrow> request \<Rightarrow> ('w, unit) io" where
  "publish_from_result d r rq w =
     (let (tid, w1) = (case or_trace_id r of None \<Rightarrow> dp_uuid d w
            | Some t \<Rightarrow> if t = [] then dp_uuid d w else (t, w))
      in publish_interaction d rq tid (verdict_scores (or_arbitration r))
           (case or_arbitration r of None \<Rightarrow> ''unavailable'' | Some v \<Rightarrow> status_text (v_status v)) w1)"

section \<open>The entry point\<close>

definition session_id :: "'w deps \<Rightarrow> request \<Rightarrow> 'w \<Rightarrow> str \<times> 'w" where
  "session_id d rq w = (case get_or_none (context_of rq) ''session_id'' of
     PStr s \<Rightarrow> if strip s \<noteq> [] then (s, w)
               else (let (t, w1) = dp_time_text d w in
                 (dp_uuid5 d (rq_user_id rq @ '':'' @ rq_feature_scope rq @ '':'' @ rq_query rq @ '':'' @ t), w1))
   | _ \<Rightarrow> (let (t, w1) = dp_time_text d w in
                 (dp_uuid5 d (rq_user_id rq @ '':'' @ rq_feature_scope rq @ '':'' @ rq_query rq @ '':'' @ t), w1)))"

definition normalize_session_context :: "pyval dict option \<Rightarrow> pyval dict option" where
  "normalize_session_context ctx = (case ctx of None \<Rightarrow> None
     | Some c \<Rightarrow> (case get_or_none c ''document_bytes'' of
         PBytes raw \<Rightarrow>
           (let n = dict_pop ''document_bytes'' c
            in Some (if \<not> truthy (get_or_none n ''document_base64'')
                     then dict_set ''document_base64'' (PStr (b64encode raw)) n else n))
       | _ \<Rightarrow> Some c))"

definition normalize_request :: "request \<Rightarrow> request" where
  "normalize_request rq = rq\<lparr>rq_context := normalize_session_context (rq_context rq)\<rparr>"

definition initial_state :: "request \<Rightarrow> str \<Rightarrow> supervisor_state" where
  "initial_state rq sid = \<lparr>ss_request = rq, ss_session_id = sid, ss_plan = [], ss_observations = [],
     ss_memories = [], ss_index = 0, ss_dispatch = None, ss_final = None, ss_status = ''planning''\<rparr>"

definition result_of_state :: "supervisor_state \<Rightarrow> str \<Rightarrow> orc_result" where
  "result_of_state s tid =
     \<lparr>or_session_id = ss_session_id s, or_user_id = rq_user_id (ss_request s),
      or_feature_scope = rq_feature_scope (ss_request s), or_status = ss_status s,
      or_plan = ss_plan s, or_observations = ss_observations s, or_memories = ss_memories s,
      or_final = (case ss_final s of None \<Rightarrow> [] | Some t \<Rightarrow> t), or_arbitration = None,
      or_trace_id = Some tid, or_root_cause = None\<rparr>"

definition workflow_outcome :: "orc_result \<Rightarrow> outcome" where
  "workflow_outcome r =
     (let errors = filter (\<lambda>o1. ob_status o1 = Errored) (or_observations r);
          reasons = (case or_arbitration r of None \<Rightarrow> [] | Some v \<Rightarrow> v_triggered_by v);
          not_passed = (case or_arbitration r of None \<Rightarrow> False | Some v \<Rightarrow> v_status v \<noteq> Passed)
      in \<lparr>oc_status = or_status r,
          oc_trigger = (if errors \<noteq> [] then Some ExecutionErrorTrigger
                        else if reasons \<noteq> [] \<or> not_passed then Some ArbitrationFailureTrigger else None),
          oc_reasons = (if errors \<noteq> [] then map (\<lambda>o1. specialist_text (ob_specialist o1) @ ''_failed'') errors
                        else if reasons \<noteq> [] then reasons
                        else if not_passed then [status_text (v_status (the (or_arbitration r)))] else []),
          oc_confidence = map_option v_confidence (or_arbitration r)\<rparr>)"

text \<open>The body of the execution block.\<close>

definition orchestrate :: "'w deps \<Rightarrow> request \<Rightarrow> str \<Rightarrow> str \<Rightarrow> ('w, orc_result) io" where
  "orchestrate d rq sid tid =
     io_then (publish_interaction d rq tid [] ''pending'')
      (io_bind (invoke_graph d (state_to_graph (initial_state rq sid))) (\<lambda>s.
         let r0 = result_of_state s tid in
         io_bind (with_span d ''coremesh.tool.arbitration'' Tool
                    [(''coremesh.step.index'', PInt (int (length (or_plan r0))))]
                    (io_bind (apply_arbitration d r0 rq) (\<lambda>r.
                       io_then (record_arbitration_quality d (or_arbitration r)) (io_return r))))
           (\<lambda>r. io_then (publish_from_result d r rq)
              (io_then (store_long_term d r) (io_return r)))))"

definition run_orchestration :: "'w deps \<Rightarrow> request \<Rightarrow> ('w, orc_result) io" where
  "run_orchestration d rq0 w0 =
     (let rq = normalize_request rq0;
          (sid, w1) = session_id d rq w0;
          attrs = (''coremesh.feature_scope'', PStr (rq_feature_scope rq))
            # content_metadata (dp_trace_lib d) ''coremesh.session.id'' (PStr sid)
            @ content_metadata (dp_trace_lib d) ''coremesh.request.query'' (PStr (rq_query rq))
            @ content_metadata (dp_trace_lib d) ''coremesh.request.user_id'' (PStr (rq_user_id rq));
          (started, w2) = dp_start_execution d ''coremesh.agent.workflow'' attrs w1;
          (tid, w3) = (case started of None \<Rightarrow> dp_uuid d w2
             | Some t \<Rightarrow> if t = [] then dp_uuid d w2 else (t, w2));
          (res, w4) = orchestrate d rq sid tid w3
      in case res of
           Inl e \<Rightarrow> (Inl e, snd (dp_end_execution d None (Some e) w4))
         | Inr r \<Rightarrow>
             (let (diag, w5) = dp_end_execution d (Some (workflow_outcome r)) None w4
              in (Inr (case diag of None \<Rightarrow> r | Some dg \<Rightarrow> r\<lparr>or_root_cause := Some dg\<rparr>), w5)))"

section \<open>The JSON projection is stable\<close>

fun json_safe :: "pyval \<Rightarrow> bool" where
  "json_safe (PBytes _) = False"
| "json_safe (PSeq xs) = list_all json_safe xs"
| "json_safe (PDict d) = list_all (\<lambda>p. json_safe (snd p)) d"
| "json_safe _ = True"

lemma json_ready_safe: "json_safe (json_ready v)"
  by (induction v rule: json_ready.induct) (auto simp: list_all_iff)

lemma json_ready_id: "json_safe v \<Longrightarrow> json_ready v = v"
proof (induction v rule: json_ready.induct)
  case (1 xs)
  then show ?case by (auto simp: list_all_iff intro: map_idI)
next
  case (2 d)
  then show ?case by (fastforce simp: list_all_iff intro: map_idI)
qed simp_all

lemma json_ready_idem [simp]: "json_ready (json_ready v) = json_ready v"
  by (rule json_ready_id [OF json_ready_safe])

lemma json_dict_idem [simp]: "json_dict (json_dict m) = json_dict m"
  by (simp add: json_dict_def comp_def case_prod_unfold)

lemma graph_observation_idem [simp]: "graph_observation (graph_observation o1) = graph_observation o1"
  by (simp add: graph_observation_def)

lemma graph_observation_fields [simp]:
  "ob_step_id (graph_observation o1) = ob_step_id o1" "ob_specialist (graph_observation o1) = ob_specialist o1"
  "ob_status (graph_observation o1) = ob_status o1" "ob_error (graph_observation o1) = ob_error o1"
  by (simp_all add: graph_observation_def)

lemma state_to_graph_idem [simp]: "state_to_graph (state_to_graph s) = state_to_graph s"
  by (simp add: state_to_graph_def comp_def option.map_comp)

section \<open>The plan\<close>

definition unstatus :: "plan_step \<Rightarrow> plan_step" where
  "unstatus p = p\<lparr>ps_status := []\<rparr>"

text \<open>C30. A plan is never empty and has at most three steps, all pending, at most one per specialist and
  in the order search, extraction, SQL; each step depends on exactly the steps before it; and the two
  scopes of the public API plan their own specialist and nothing else.\<close>
theorem create_plan_wellformed:
  "let plan = create_plan rq mem in
     plan \<noteq> [] \<and> length plan \<le> 3 \<and> distinct (map ps_specialist plan) \<and> distinct (map ps_id plan) \<and>
     list_all (\<lambda>p. ps_status p = ''pending'') plan \<and>
     map ps_depends_on plan = map (\<lambda>i. map ps_id (take i plan)) [0..<length plan] \<and>
     (if lower (strip (rq_feature_scope rq)) = ''rag'' then map ps_specialist plan = [RagSearch]
      else if lower (strip (rq_feature_scope rq)) = ''text_to_sql'' then map ps_specialist plan = [SqlGeneration]
      else True)"
proof (cases "needed_specialists rq")
  case (fields a b c)
  have "lower (strip (rq_feature_scope rq)) \<noteq> ''rag'' \<or> a \<and> \<not> b \<and> \<not> c"
    "lower (strip (rq_feature_scope rq)) \<noteq> ''text_to_sql'' \<or> \<not> a \<and> \<not> b \<and> c"
    using fields by (auto simp: needed_specialists_def Let_def split: if_splits)
  then show ?thesis
    by (cases a; cases b; cases c; cases "mem = []")
      (simp_all add: create_plan_def fields rag_step_def document_step_def sql_step_def default_step_def
        upt_rec numeral_eq_Suc)
qed

section \<open>The workflow executes its plan\<close>

definition matches :: "observation \<Rightarrow> plan_step \<Rightarrow> bool" where
  "matches o1 p \<longleftrightarrow> ob_step_id o1 = ps_id p \<and> ob_specialist o1 = ps_specialist p \<and>
     ps_status p = plan_status_of (ob_status o1)"

text \<open>Between nodes: the observations are those of the executed prefix of the plan, the plan is the one
  created for the request up to statuses, and the loosely typed data is JSON-ready.\<close>

definition workflow_inv :: "request \<Rightarrow> supervisor_state \<Rightarrow> bool" where
  "workflow_inv rq s \<longleftrightarrow> ss_index s \<le> length (ss_plan s) \<and>
     list_all2 matches (ss_observations s) (take (ss_index s) (ss_plan s)) \<and>
     ss_request s = rq \<and> map graph_observation (ss_observations s) = ss_observations s \<and>
     (ss_plan s = [] \<or> (\<exists>mem. map unstatus (ss_plan s) = map unstatus (create_plan rq mem)))"

lemma matches_graph [simp]: "matches (graph_observation o1) p = matches o1 p"
  by (simp add: matches_def)

lemma inv_graph:
  assumes "rq_context rq = map_option json_dict (rq_context rq)"
    and "ss_index s \<le> length (ss_plan s)" "list_all2 matches (ss_observations s) (take (ss_index s) (ss_plan s))"
    and "ss_request s = rq" "\<exists>mem. map unstatus (ss_plan s) = map unstatus (create_plan rq mem)"
  shows "workflow_inv rq (state_to_graph s)"
proof -
  have "rq\<lparr>rq_context := map_option json_dict (rq_context rq)\<rparr> = rq"
    using assms(1) by (metis request.surjective request.update_convs(4) request.select_convs(4))
  with assms show ?thesis
    by (simp add: workflow_inv_def state_to_graph_def list_all2_map1)
qed

lemma planned_prefix:
  assumes "workflow_inv rq s" "p = s \<and> ss_plan s \<noteq> [] \<or> ss_plan s = [] \<and> (\<exists>mem. p = planned_state s mem)"
  shows "ss_index p \<le> length (ss_plan p)" "list_all2 matches (ss_observations p) (take (ss_index p) (ss_plan p))"
    "ss_request p = rq" "\<exists>mem. map unstatus (ss_plan p) = map unstatus (create_plan rq mem)"
    "map graph_observation (ss_observations p) = ss_observations p"
  using assms by (auto simp: workflow_inv_def planned_state_def)

lemma unstatus_update:
  "i < length ps \<Longrightarrow> map unstatus (ps[i := (ps ! i)\<lparr>ps_status := x\<rparr>]) = map unstatus ps"
  by (rule nth_equalityI) (auto simp: unstatus_def nth_list_update)

lemma dispatched_inv:
  assumes "rq_context rq = map_option json_dict (rq_context rq)" "ss_index p < length (ss_plan p)"
    "list_all2 matches (ss_observations p) (take (ss_index p) (ss_plan p))"
    "ss_request p = rq" "\<exists>mem. map unstatus (ss_plan p) = map unstatus (create_plan rq mem)"
  shows "workflow_inv rq (state_to_graph (dispatched_state p))"
  by (rule inv_graph) (use assms unstatus_update in \<open>auto simp: dispatched_state_def Let_def\<close>)

lemma observed_inv:
  assumes "rq_context rq = map_option json_dict (rq_context rq)" "ss_index p < length (ss_plan p)"
    "list_all2 matches (ss_observations p) (take (ss_index p) (ss_plan p))"
    "ss_request p = rq" "\<exists>mem. map unstatus (ss_plan p) = map unstatus (create_plan rq mem)"
    "ps_specialist (ss_plan p ! ss_index p) = sp"
  shows "workflow_inv rq (state_to_graph (observed_state p sp status outp err))"
proof (rule inv_graph)
  let ?i = "ss_index p" and ?step = "ss_plan p ! ss_index p"
  let ?new = "?step\<lparr>ps_status := plan_status_of status\<rparr>"
  have "take (Suc ?i) ((ss_plan p)[?i := ?new]) = take ?i (ss_plan p) @ [?new]"
    using assms(2) by (simp add: take_Suc_conv_app_nth)
  then show "list_all2 matches (ss_observations (observed_state p sp status outp err))
      (take (ss_index (observed_state p sp status outp err)) (ss_plan (observed_state p sp status outp err)))"
    using assms(3,6) by (simp add: observed_state_def Let_def matches_def list_all2_appendI)
qed (use assms unstatus_update in \<open>auto simp: observed_state_def Let_def\<close>)

lemma dispatched_specialist:
  "ss_index p < length (ss_plan p) \<Longrightarrow>
   ss_dispatch (dispatched_state p) = Some (ps_specialist (ss_plan (dispatched_state p) ! ss_index p))"
  by (simp add: dispatched_state_def Let_def)

lemma invoke_graph_result:
  assumes "invoke_graph d s w = (Inr s', w')" "workflow_inv rq s"
    and "rq_context rq = map_option json_dict (rq_context rq)"
  shows "workflow_inv rq s' \<and> ss_plan s' \<noteq> [] \<and> ss_index s' = length (ss_plan s') \<and> ss_dispatch s' = None \<and>
    ss_status s' = completion_status (ss_observations s') \<and>
    (\<exists>resp. ss_final s' = Some resp \<and> synthesize_response d s' = Inr resp)"
  using assms(1,2)
proof (induction d s w arbitrary: s' w' rule: invoke_graph.induct)
  case (1 d s w)
  from "1.prems"(1) obtain s1 w1 where sup: "supervisor_node d s w = (Inr s1, w1)"
    by (subst (asm) invoke_graph.simps) (auto split: prod.splits sum.splits)
  from sup show ?case
  proof (cases rule: supervisor_cases)
    case (finished p resp)
    note pp = planned_prefix [OF "1.prems"(2) finished(1)]
    have s': "s' = s1"
      using "1.prems"(1) sup finished(4)
      by (subst (asm) invoke_graph.simps) (simp add: route_next_node_def completed_state_def)
    have "ss_plan p \<noteq> []" using pp(4) create_plan_length(1) by (metis map_is_Nil_conv)
    moreover have "workflow_inv rq s'"
      unfolding s' finished(4)
      by (rule inv_graph) (use pp assms(3) in \<open>auto simp: completed_state_def\<close>)
    moreover have "completion_status (ss_observations s') = completion_status (ss_observations p)"
      by (simp add: s' finished(4) state_to_graph_def completed_state_def completion_status_def list_ex_iff)
    moreover have "ss_observations s' = ss_observations p" "rq_query (ss_request s') = rq_query (ss_request p)"
      using pp(5) by (simp_all add: s' finished(4) state_to_graph_def completed_state_def)
    then have "synthesize_response d s' = Inr resp"
      using finished(3) by (simp add: synthesize_response_def)
    ultimately show ?thesis
      using finished(2) pp(1) by (simp add: s' finished(4) completed_state_def)
  next
    case (dispatched p)
    note pp = planned_prefix [OF "1.prems"(2) dispatched(1)]
    let ?sp = "ps_specialist (ss_plan (dispatched_state p) ! ss_index p)"
    have route: "route_next_node s1 = Some ?sp"
      using dispatched(2,3) by (simp add: route_next_node_def dispatched_specialist)
    from "1.prems"(1) obtain s2 w2 where spec: "specialist_node d ?sp s1 w1 = (Inr s2, w2)"
      and rest: "invoke_graph d s2 w2 = (Inr s', w')"
      by (subst (asm) invoke_graph.simps) (auto simp: sup route split: prod.splits sum.splits)
    have inv1: "workflow_inv rq s1"
      unfolding dispatched(3) by (rule dispatched_inv) (use pp dispatched(2) assms(3) in auto)
    from spec obtain status outp err where lt: "ss_index s1 < length (ss_plan s1)"
      and s2: "s2 = state_to_graph (observed_state s1 ?sp status outp err)" by (rule specialist_node_Inr)
    have idx: "ss_index s1 = ss_index p" "ss_plan s1 = ss_plan (dispatched_state p)"
      by (simp_all add: dispatched(3) dispatched_state_def Let_def)
    have "workflow_inv rq s2"
      unfolding s2 by (rule observed_inv) (use inv1 lt assms(3) idx in \<open>auto simp: workflow_inv_def\<close>)
    from "1.IH" [OF sup [symmetric] refl route spec [symmetric] refl rest this] show ?thesis .
  qed
qed

lemma initial_inv: "workflow_inv (ss_request (state_to_graph (initial_state rq sid))) (state_to_graph (initial_state rq sid))"
  by (simp add: workflow_inv_def state_to_graph_def initial_state_def)

lemma initial_context: "rq_context (ss_request (state_to_graph s)) =
    map_option json_dict (rq_context (ss_request (state_to_graph s)))"
  by (simp add: state_to_graph_def option.map_comp comp_def)

text \<open>C2. A workflow that returns has executed its whole plan and nothing else: the observations are,
  one for one and in order, those of the plan's steps, each step ends as completed, skipped or failed as
  its observation says, the plan is the one created for the request, and the status and the response
  summarise exactly these observations.\<close>
theorem workflow_executes_plan:
  assumes "invoke_graph d (state_to_graph (initial_state rq sid)) w = (Inr s, w')"
  shows "ss_plan s \<noteq> [] \<and> list_all2 matches (ss_observations s) (ss_plan s) \<and>
    (\<exists>mem. map unstatus (ss_plan s) =
       map unstatus (create_plan (ss_request (state_to_graph (initial_state rq sid))) mem)) \<and>
    ss_dispatch s = None \<and> ss_status s = completion_status (ss_observations s) \<and>
    (\<exists>resp. ss_final s = Some resp \<and> synthesize_response d s = Inr resp)"
proof -
  from invoke_graph_result [OF assms initial_inv initial_context]
  have "workflow_inv (ss_request (state_to_graph (initial_state rq sid))) s" "ss_plan s \<noteq> []"
    "ss_index s = length (ss_plan s)" "ss_dispatch s = None"
    "ss_status s = completion_status (ss_observations s)"
    "\<exists>resp. ss_final s = Some resp \<and> synthesize_response d s = Inr resp" by blast+
  then show ?thesis by (simp add: workflow_inv_def)
qed

section \<open>What can escape\<close>

lemma io_total_not_Inl: "io_total m \<Longrightarrow> (m w = (Inl e, w')) = False"
  by (metis Inl_Inr_False io_totalD prod.inject)

lemma ensure_plan_total [simp, intro]: "io_total (ensure_plan d s)"
  unfolding ensure_plan_def by (cases "ss_plan s = []") (auto intro!: io_total_bind)

lemma dispatch_step_total [simp, intro]: "io_total (dispatch_step d s)"
  unfolding dispatch_step_def Let_def by (intro io_total_bind set_attr_total persist_short_term_total io_total_return)

lemma finish_workflow_Inl: "finish_workflow d s w = (Inl e, w') \<Longrightarrow> synthesize_response d s = Inl e"
  by (auto simp: finish_workflow_def io_bind_eq_Inl io_bind_eq_Inr io_total_not_Inl)

lemma supervisor_Inl: "supervisor_node d s w = (Inl e, w') \<Longrightarrow> \<exists>p. synthesize_response d p = Inl e"
proof -
  assume "supervisor_node d s w = (Inl e, w')"
  from with_span_Inl [OF this [unfolded supervisor_node_def]]
  obtain w1 p w2 w3 where
    "(if ss_index p \<ge> length (ss_plan p) then finish_workflow d p else dispatch_step d p) w2 = (Inl e, w3)"
    by (auto simp: io_bind_eq_Inl io_total_not_Inl)
  then show ?thesis
    by (auto split: if_splits dest: finish_workflow_Inl simp: io_total_not_Inl)
qed

lemma specialist_total: "ss_index s < length (ss_plan s) \<Longrightarrow> io_total (specialist_node d sp s)"
  unfolding specialist_node_def Let_def
  by (auto intro!: with_span_total io_total_bind split: prod.splits)

lemma invoke_graph_Inl: "invoke_graph d s w = (Inl e, w') \<Longrightarrow> \<exists>p. synthesize_response d p = Inl e"
proof (induction d s w arbitrary: w' rule: invoke_graph.induct)
  case (1 d s w)
  obtain r1 w1 where sup: "supervisor_node d s w = (r1, w1)" by fastforce
  show ?case
  proof (cases r1)
    case (Inl e1)
    with "1.prems" sup have "e1 = e" by (subst (asm) invoke_graph.simps) simp
    with sup Inl have "supervisor_node d s w = (Inl e, w1)" by simp
    then show ?thesis by (rule supervisor_Inl)
  next
    case (Inr s1)
    with "1.prems" sup obtain sp where route: "route_next_node s1 = Some sp"
      by (subst (asm) invoke_graph.simps) (auto split: option.splits)
    from sup Inr have sup': "supervisor_node d s w = (Inr s1, w1)" by simp
    from sup' have "ss_index s1 < length (ss_plan s1)"
    proof (cases rule: supervisor_cases)
      case (finished p resp)
      with route show ?thesis by (simp add: route_next_node_def completed_state_def)
    next
      case (dispatched p)
      then show ?thesis by (simp add: dispatched_state_def Let_def)
    qed
    from io_totalD [OF specialist_total [OF this], of d sp w1]
    obtain s2 w2 where spec: "specialist_node d sp s1 w1 = (Inr s2, w2)" by blast
    from "1.prems" have "invoke_graph d s2 w2 = (Inl e, w')"
      by (subst (asm) invoke_graph.simps) (simp add: sup' route spec)
    from "1.IH" [OF sup' [symmetric] refl route spec [symmetric] refl this] show ?thesis .
  qed
qed

definition formatting_error :: "exn \<Rightarrow> bool" where
  "formatting_error e \<longleftrightarrow> fst e = TypeError \<or> fst e = OtherException ''AttributeError''"

lemma collect_Inl: "collect f xs = Inl e \<Longrightarrow> \<exists>x \<in> set xs. f x = Inl e"
  by (induction xs) (auto simp: rbind_eq_Inl)

lemma observation_line_Inl: "observation_line d o1 = Inl e \<Longrightarrow>
    formatting_error e \<and> ob_status o1 = Success \<and> ob_specialist o1 \<noteq> SqlGeneration"
  by (auto simp: observation_line_def success_line_def Let_def rbind_eq_Inl reference_texts_def
      as_mapping_def formatting_error_def get_attr_error_def
      split: obs_status.splits specialist.splits if_splits pyval.splits)

lemma synthesize_Inl: "synthesize_response d s = Inl e \<Longrightarrow> formatting_error e"
  by (auto simp: synthesize_response_def rbind_eq_Inl dest!: collect_Inl observation_line_Inl)

lemma join_Cons_prefix: "\<exists>r. join sep (x # ys) = x @ r"
  by (cases ys) auto

lemma synthesize_nonblank: "synthesize_response d s = Inr resp \<Longrightarrow> strip resp \<noteq> []"
proof -
  assume "synthesize_response d s = Inr resp"
  then obtain x xs where "resp = join '' '' ((''Completed '' @ x) # xs)"
    by (auto simp: synthesize_response_def rbind_eq_Inr simp del: join.simps)
  then obtain rest where "resp = ''Completed '' @ rest"
    using join_Cons_prefix [of "'' ''" "''Completed '' @ x" xs] by auto
  then show ?thesis by (auto simp: strip_eq_Nil is_space_def)
qed

section \<open>What is delivered\<close>

lemma blocked_empty: "\<exists>v. blocked_verdict env p ManualReview [] fs trig None = Inr v \<and>
    \<not> v_allowed v \<and> v_status v = ManualReview \<and> v_delivered v = BLOCKED_RESPONSE"
  by (auto simp: blocked_verdict_def build_verdict_def combined_confidence_def)

definition withheld :: "verdict \<Rightarrow> bool" where
  "withheld v \<longleftrightarrow> \<not> v_allowed v \<and> v_status v = ManualReview \<and> v_delivered v = BLOCKED_RESPONSE"

text \<open>The verdict the gate applies: the arbitrator's, unless there is nothing to deliver or the arbitrator
  raised.\<close>

definition gate_outcome :: "'w deps \<Rightarrow> orc_result \<Rightarrow> request \<Rightarrow> 'w \<Rightarrow> verdict \<Rightarrow> bool" where
  "gate_outcome d r rq w v \<longleftrightarrow>
     (if strip (or_final r) = [] then withheld v
      else case fst (invoke_arbitrator d (arbitration_payload r rq (or_final r)) w) of
             Inl e \<Rightarrow> withheld v | Inr v' \<Rightarrow> v = v')"

lemma apply_arbitration_result:
  "\<exists>v w'. apply_arbitration d r rq w = (Inr (apply_verdict r v), w') \<and> gate_outcome d r rq w v"
proof (cases "strip (or_final r) = []")
  case True
  from blocked_empty obtain v where v: "blocked_verdict (deps_env d)
      (arbitration_payload r rq ''[empty agent response]'') ManualReview [] [] [''empty_final_response''] None = Inr v"
    "withheld v" unfolding withheld_def by blast
  with True show ?thesis
    by (intro exI [of _ v]) (simp add: apply_arbitration_def io_bind_def apply_verdict_def withheld_def gate_outcome_def)
next
  case False
  let ?p = "arbitration_payload r rq (or_final r)"
  obtain x w1 where inv: "invoke_arbitrator d ?p w = (x, w1)" by fastforce
  show ?thesis
  proof (cases x)
    case (Inr v)
    with False inv show ?thesis
      by (intro exI [of _ v]) (simp add: apply_arbitration_def io_bind_def io_catch_def Let_def gate_outcome_def)
  next
    case (Inl e)
    from blocked_empty obtain v where v: "blocked_verdict (deps_env d) ?p ManualReview []
        [\<lparr>cf_dimension = ''arbitration'', cf_provider = ''runtime'', cf_error = exn_message e\<rparr>]
        [''arbitrator_runtime_failure''] None = Inr v" "withheld v" unfolding withheld_def by blast
    with False inv Inl show ?thesis
      by (intro exI [of _ v]) (simp add: apply_arbitration_def io_bind_def io_catch_def Let_def gate_outcome_def)
  qed
qed

lemma record_arbitration_quality_total [simp, intro]: "io_total (record_arbitration_quality d ov)"
  unfolding record_arbitration_quality_def by (cases ov) (auto intro!: io_total_bind)

lemma publish_interaction_total [simp, intro]: "io_total (publish_interaction d rq tid scores status)"
  unfolding publish_interaction_def by (intro io_total_catch io_total_return)

lemma publish_from_result_total [simp, intro]: "io_total (publish_from_result d r rq)"
proof (unfold io_total_def, rule allI)
  fix w
  obtain tid w1 where t: "(case or_trace_id r of None \<Rightarrow> dp_uuid d w
      | Some t \<Rightarrow> if t = [] then dp_uuid d w else (t, w)) = (tid, w1)" by fastforce
  show "\<exists>x w'. publish_from_result d r rq w = (Inr x, w')"
    unfolding publish_from_result_def t Let_def prod.case
    by (rule io_totalD [OF publish_interaction_total])
qed

lemma apply_arbitration_total [simp, intro]: "io_total (apply_arbitration d r rq)"
  using apply_arbitration_result [of d r rq] unfolding io_total_def by blast

text \<open>A run is the graph, then the gate, and two calls that cannot raise.\<close>

lemma orchestrate_cases:
  assumes "orchestrate d rq sid tid w = (res, w')"
  obtains (failed) e w1 w2 where "res = Inl e"
      "invoke_graph d (state_to_graph (initial_state rq sid)) w1 = (Inl e, w2)"
  | (finished) s v w1 w2 w3 where "res = Inr (apply_verdict (result_of_state s tid) v)"
      "invoke_graph d (state_to_graph (initial_state rq sid)) w1 = (Inr s, w2)"
      "gate_outcome d (result_of_state s tid) rq w3 v"
proof -
  from io_totalD [OF publish_interaction_total, of d rq tid "[]" "''pending''" w]
  obtain w1 where pub: "publish_interaction d rq tid [] ''pending'' w = (Inr (), w1)" by auto
  obtain x w2 where inv: "invoke_graph d (state_to_graph (initial_state rq sid)) w1 = (x, w2)" by fastforce
  show thesis
  proof (cases x)
    case (Inl e)
    with assms pub inv show thesis
      by (intro failed [of e w1 w2]) (auto simp: orchestrate_def io_bind_def)
  next
    case (Inr s)
    let ?r0 = "result_of_state s tid"
    let ?attrs = "[(''coremesh.step.index'', PInt (int (length (or_plan ?r0))))]"
    let ?w3 = "dp_span d (SpanStart ''coremesh.tool.arbitration'' Tool ?attrs) w2"
    obtain v w4 where app: "apply_arbitration d ?r0 rq ?w3 = (Inr (apply_verdict ?r0 v), w4)"
      and v: "gate_outcome d ?r0 rq ?w3 v"
      using apply_arbitration_result [of d ?r0 rq ?w3] by blast
    let ?r = "apply_verdict ?r0 v"
    obtain w6 where q: "record_arbitration_quality d (or_arbitration ?r) w4 = (Inr (), w6)"
      using io_totalD [OF record_arbitration_quality_total, of d "or_arbitration ?r" w4] by auto
    let ?w7 = "dp_span d (SpanEnd None) w6"
    obtain w8 where p2: "publish_from_result d ?r rq ?w7 = (Inr (), w8)"
      using io_totalD [OF publish_from_result_total, of d ?r rq ?w7] by auto
    obtain w9 where st: "store_long_term d ?r w8 = (Inr (), w9)"
      using io_totalD [OF store_long_term_total, of d ?r w8] by auto
    have "res = Inr ?r"
      using assms pub inv Inr app q p2 st
      by (simp add: orchestrate_def io_bind_def with_span_def Let_def)
    with inv Inr v show thesis by (intro finished [of s v w1 w2 ?w3]) auto
  qed
qed

lemma run_cases:
  assumes "run_orchestration d rq0 w0 = (res, w')"
  obtains (failed) e sid w1 w2 where "res = Inl e"
      "invoke_graph d (state_to_graph (initial_state (normalize_request rq0) sid)) w1 = (Inl e, w2)"
  | (finished) sid tid s v diag w1 w2 w3 where
      "res = Inr ((apply_verdict (result_of_state s tid) v)\<lparr>or_root_cause := diag\<rparr>)"
      "invoke_graph d (state_to_graph (initial_state (normalize_request rq0) sid)) w1 = (Inr s, w2)"
      "gate_outcome d (result_of_state s tid) (normalize_request rq0) w3 v"
proof -
  have root: "or_root_cause (apply_verdict (result_of_state s tid) v) = None" for s tid v
    by (simp add: apply_verdict_def result_of_state_def)
  have upd: "r\<lparr>or_root_cause := None\<rparr> = r" if "or_root_cause r = None" for r :: orc_result
    using that by (cases r) simp
  obtain sid w1 where "session_id d (normalize_request rq0) w0 = (sid, w1)" by fastforce
  moreover obtain started w2 where "dp_start_execution d ''coremesh.agent.workflow''
      ((''coremesh.feature_scope'', PStr (rq_feature_scope (normalize_request rq0)))
            # content_metadata (dp_trace_lib d) ''coremesh.session.id'' (PStr sid)
            @ content_metadata (dp_trace_lib d) ''coremesh.request.query'' (PStr (rq_query (normalize_request rq0)))
            @ content_metadata (dp_trace_lib d) ''coremesh.request.user_id'' (PStr (rq_user_id (normalize_request rq0)))) w1
      = (started, w2)" by fastforce
  moreover obtain tid w3 where "(case started of None \<Rightarrow> dp_uuid d w2
             | Some t \<Rightarrow> if t = [] then dp_uuid d w2 else (t, w2)) = (tid, w3)" by fastforce
  moreover obtain o1 w4 where orc: "orchestrate d (normalize_request rq0) sid tid w3 = (o1, w4)" by fastforce
  ultimately have run: "run_orchestration d rq0 w0 = (case o1 of
           Inl e \<Rightarrow> (Inl e, snd (dp_end_execution d None (Some e) w4))
         | Inr r \<Rightarrow>
             (let (diag, w5) = dp_end_execution d (Some (workflow_outcome r)) None w4
              in (Inr (case diag of None \<Rightarrow> r | Some dg \<Rightarrow> r\<lparr>or_root_cause := Some dg\<rparr>), w5)))"
    by (simp add: run_orchestration_def Let_def)
  from orc show thesis
  proof (cases rule: orchestrate_cases)
    case (failed e w5 w6)
    with run assms show thesis by (intro that(1) [of e sid w5 w6]) auto
  next
    case (finished s v w5 w6 w7)
    let ?r = "apply_verdict (result_of_state s tid) v"
    obtain diag w8 where "dp_end_execution d (Some (workflow_outcome ?r)) None w4 = (diag, w8)" by fastforce
    with run assms finished(1) have "res = Inr (?r\<lparr>or_root_cause := diag\<rparr>)"
      using upd [OF root] by (cases diag) auto
    from that(2) [OF this finished(2,3)] show thesis .
  qed
qed

lemma run_failures: "run_orchestration d rq w = (Inl e, w') \<Longrightarrow> formatting_error e"
  by (cases rule: run_cases [of d rq w "Inl e" w']) (auto dest!: invoke_graph_Inl synthesize_Inl)


lemma result_fields [simp]:
  "or_observations (result_of_state s tid) = ss_observations s" "or_status (result_of_state s tid) = ss_status s"
  "or_final (result_of_state s tid) = (case ss_final s of None \<Rightarrow> [] | Some t \<Rightarrow> t)"
  by (simp_all add: result_of_state_def)

lemma apply_verdict_fields [simp]:
  "or_arbitration (apply_verdict r v) = Some v" "or_final (apply_verdict r v) = v_delivered v"
  "or_observations (apply_verdict r v) = or_observations r" "or_plan (apply_verdict r v) = or_plan r"
  by (simp_all add: apply_verdict_def)

lemma invoke_own_arbitrator:
  assumes "dp_arbitrate d = (\<lambda>p. io_lift (arbitrate env arb p))"
  shows "invoke_arbitrator d p w = (arbitrate env arb p, w)"
proof (cases "arbitrate env arb p")
  case (Inr v)
  with arbiter.gate_confidence [OF Inr] show ?thesis
    by (simp add: invoke_arbitrator_def assms io_bind_def build_verdict_def)
qed (simp add: invoke_arbitrator_def assms io_bind_def)

lemma run_gated:
  assumes "dp_arbitrate d = (\<lambda>p. io_lift (arbitrate env arb p))"
    and "run_orchestration d rq w = (Inr r, w')"
  shows "\<exists>v. or_arbitration r = Some v \<and> or_final r = v_delivered v \<and> or_final r \<noteq> [] \<and>
    (if v_allowed v
     then (v_status v = Remediated \<and> or_status r = ''remediated_by_arbitration'') \<or>
          (\<exists>s. ss_observations s = or_observations r \<and> synthesize_response d s = Inr (or_final r) \<and>
             or_status r = completion_status (or_observations r))
     else or_final r = BLOCKED_RESPONSE \<and> or_status r = ''blocked_by_arbitration'')"
  using assms(2)
proof (cases rule: run_cases)
  case (finished sid tid s v diag w1 w2 w3)
  let ?rq = "normalize_request rq" and ?r0 = "result_of_state s tid"
  from invoke_graph_result [OF finished(2) initial_inv initial_context] obtain resp
    where fin: "ss_final s = Some resp" "synthesize_response d s = Inr resp"
      and st: "ss_status s = completion_status (ss_observations s)" by blast
  from finished(1) have r: "r = (apply_verdict ?r0 v)\<lparr>or_root_cause := diag\<rparr>" by simp
  show ?thesis
  proof (cases "withheld v")
    case True
    then show ?thesis
      by (simp add: r withheld_def apply_verdict_def BLOCKED_RESPONSE_def)
  next
    case False
    with finished(3) fin have gate: "arbitrate env arb (arbitration_payload ?r0 ?rq resp) = Inr v"
      by (auto simp: gate_outcome_def invoke_own_arbitrator [OF assms(1)] split: if_splits sum.splits)
    note c = arbiter.gate_consistent [OF gate] and n = arbiter.delivered_nonempty [OF gate]
    show ?thesis
    proof (cases "v_allowed v")
      case True
      show ?thesis
      proof (cases "v_status v = Remediated")
        case True
        with \<open>v_allowed v\<close> n show ?thesis by (simp add: r apply_verdict_def)
      next
        case False
        with c True have "v_delivered v = resp" by (auto simp: delivery_consistent_def arbitration_payload_def)
        with True False n fin st show ?thesis
          by (intro exI [of _ v]) (auto simp: r apply_verdict_def)
      qed
    next
      case False
      with c n show ?thesis by (auto simp: r apply_verdict_def delivery_consistent_def)
    qed
  qed
qed simp


lemma metadata_count: "metadata_nonnegative_int (arbitration_metadata r) ''failed_observation_count'' = int (count_status Errored r)"
  "metadata_nonnegative_int (arbitration_metadata r) ''skipped_observation_count'' = int (count_status Skipped r)"
  by (simp_all add: metadata_nonnegative_int_def arbitration_metadata_def)

lemma workflow_degraded_metadata: "workflow_degraded (arbitration_metadata r) \<longleftrightarrow>
    \<not> list_all (\<lambda>o1. ob_status o1 = Success) (or_observations r)"
proof -
  have "x \<noteq> Success \<longleftrightarrow> x = Errored \<or> x = Skipped" for x by (cases x) simp_all
  then show ?thesis
    by (auto simp: workflow_degraded_def metadata_count count_status_def list_all_iff filter_empty_conv)
qed

text \<open>C14. In deterministic arbitration mode the outcome of a run is decided by its observations: if every
  specialist succeeded, the synthesis is delivered with status completed; if any failed or was skipped,
  only the replacement text is delivered and the run is reported as blocked.\<close>
theorem deterministic_run_outcome:
  assumes "dp_arbitrate d = (\<lambda>p. io_lift (arbitrate env (configured_arbitrator cfg dc da) p))"
    and "set_mode cfg = Deterministic" and "2 < set_score_threshold cfg" and "set_score_threshold cfg \<le> 5"
    and "\<not> env_timed_out env" and "run_orchestration d rq w = (Inr r, w')"
  shows "if list_all (\<lambda>o1. ob_status o1 = Success) (or_observations r)
    then (\<exists>s. ss_observations s = or_observations r \<and> synthesize_response d s = Inr (or_final r)) \<and>
         or_status r = ''completed''
    else or_final r = BLOCKED_RESPONSE \<and> or_status r = ''blocked_by_arbitration''"
  using assms(6)
proof (cases rule: run_cases)
  case (finished sid tid s v diag w1 w2 w3)
  let ?rq = "normalize_request rq" and ?r0 = "result_of_state s tid"
  from invoke_graph_result [OF finished(2) initial_inv initial_context] obtain resp
    where fin: "ss_final s = Some resp" "synthesize_response d s = Inr resp"
      and st: "ss_status s = completion_status (ss_observations s)" by blast
  from finished(1) have r: "r = (apply_verdict ?r0 v)\<lparr>or_root_cause := diag\<rparr>" by simp
  let ?p = "arbitration_payload ?r0 ?rq resp"
  have ne: "ap_output_text ?p \<noteq> []"
    using synthesize_nonblank [OF fin(2)] by (auto simp: arbitration_payload_def text_simps)
  let ?all = "list_all (\<lambda>o1. ob_status o1 = Success) (ss_observations s)"
  have deg: "workflow_degraded (ap_metadata ?p) \<longleftrightarrow> \<not> ?all"
    by (simp add: arbitration_payload_def workflow_degraded_metadata)
  from deterministic_gate [OF assms(2-5) ne, of dc da] obtain v' where
    g: "arbitrate env (configured_arbitrator cfg dc da) ?p = Inr v'"
    and v': "(v_status v', v_delivered v') = (if \<not> ?all then (Blocked, BLOCKED_RESPONSE) else (Passed, ap_output_text ?p))"
    unfolding deg by (auto simp: map_sum_eq_Inr)
  note al = arbiter.withheld_iff [OF g]
  have comp: "?all \<Longrightarrow> completion_status (ss_observations s) = ''completed''"
    by (auto simp: completion_status_def list_all_iff list_ex_iff)
  have "strip resp \<noteq> []" using synthesize_nonblank [OF fin(2)] .
  with finished(3) fin g have "v = v'" by (simp add: gate_outcome_def invoke_own_arbitrator [OF assms(1)])
  with v' al fin st comp show ?thesis
    by (cases ?all) (auto simp: r apply_verdict_def arbitration_payload_def)
qed simp

section \<open>In-memory backends\<close>

record mem_world =
  mw_states :: "(str \<times> supervisor_state) list"
  mw_events :: "(str \<times> pyval dict) list"
  mw_memories :: "pyval list"
  mw_stored :: "orc_result list"
  mw_log :: log_table
  mw_spans :: "span_op list"

definition memory_save_state :: "str \<Rightarrow> supervisor_state \<Rightarrow> (mem_world, unit) io" where
  "memory_save_state sid s w = (Inr (), w\<lparr>mw_states := mw_states w @ [(sid, state_to_graph s)]\<rparr>)"

definition memory_append_event :: "str \<Rightarrow> pyval dict \<Rightarrow> (mem_world, unit) io" where
  "memory_append_event sid e w = (Inr (), w\<lparr>mw_events := mw_events w @ [(sid, json_dict e)]\<rparr>)"

definition memory_retrieve :: "str \<Rightarrow> str \<Rightarrow> int \<Rightarrow> (mem_world, pyval list) io" where
  "memory_retrieve user query limit w = (Inr (py_prefix limit (mw_memories w)), w)"

definition memory_store :: "orc_result \<Rightarrow> (mem_world, unit) io" where
  "memory_store r w = (Inr (), w\<lparr>mw_stored := mw_stored w @ [r]\<rparr>)"

definition memory_record :: "interaction \<Rightarrow> (mem_world, unit) io" where
  "memory_record r w = (case sink_step (PostgresSink \<lparr>sc_dsn = [], sc_connect_timeout = 3, sc_statement_timeout = 3000\<rparr>)
     (Record r) (mw_log w) of (res, t) \<Rightarrow> (res, w\<lparr>mw_log := t\<rparr>))"

section \<open>Concrete runs\<close>

text \<open>Collaborators on the trivial world: a retrieval tool with a fixed answer, and the hermetic
  arbitrator.\<close>

definition ex_deps :: "pyval result \<Rightarrow> unit deps" where
  "ex_deps answer = \<lparr>dp_tool = (\<lambda>sp rq step obs. io_lift answer), dp_save_state = (\<lambda>sid s. io_return ()),
     dp_append_event = (\<lambda>sid e. io_return ()), dp_retrieve = (\<lambda>u q n. io_return []),
     dp_store = (\<lambda>r. io_return ()),
     dp_arbitrate = (\<lambda>p. io_lift (arbitrate ex_env (configured_arbitrator ex_settings [] deterministic_adjudicator) p)),
     dp_record = (\<lambda>r. io_return ()),
     dp_log_lib = \<lparr>ll_redact = (\<lambda>s. s), ll_nfkc = (\<lambda>s. s), ll_sha256 = (\<lambda>s. ''h'')\<rparr>,
     dp_span = (\<lambda>op w. w), dp_start_execution = (\<lambda>name attrs w. (Some ''trace'', w)),
     dp_end_execution = (\<lambda>oc exc w. (None, w)), dp_uuid = (\<lambda>w. (''uuid'', w)),
     dp_uuid5 = (\<lambda>s. ''uuid5''), dp_time_text = (\<lambda>w. (''0'', w)), dp_format = (\<lambda>v. ''?''),
     dp_trace_lib = ex_trace_lib, dp_ocr_threshold = 1 / 2\<rparr>"

definition ex_request :: request where
  "ex_request = \<lparr>rq_user_id = ''u'', rq_feature_scope = ''rag'', rq_query = ''policy'', rq_context = None\<rparr>"

lemma ex_span [simp]: "with_span (ex_deps t) n c a body () = body ()"
  by (cases "body ()") (simp add: with_span_def ex_deps_def)

lemma ex_attr [simp]: "set_attr (ex_deps t) k v () = (Inr (), ())"
  by (simp add: set_attr_def)

lemma ex_persist [simp]: "persist_short_term (ex_deps t) s e () = (Inr (), ())"
  using io_totalD [OF persist_short_term_total, of "ex_deps t" s e "()"] by auto

lemma ex_tool [simp]: "dp_tool (ex_deps t) sp rq step obs () = (t, ())"
  by (simp add: ex_deps_def)

lemma ex_memories [simp]: "retrieve_memories (ex_deps t) rq () = (Inr [], ())"
  by (simp add: retrieve_memories_def io_catch_def) (simp add: ex_deps_def)

definition ex_initial :: "str \<Rightarrow> supervisor_state" where
  "ex_initial sid = state_to_graph (initial_state (normalize_request ex_request) sid)"

definition ex_dispatched :: "str \<Rightarrow> supervisor_state" where
  "ex_dispatched sid = state_to_graph (dispatched_state (planned_state (ex_initial sid) []))"

definition ex_observed :: "str \<Rightarrow> pyval result \<Rightarrow> supervisor_state" where
  "ex_observed sid t = (case run_tool (ex_deps t) RagSearch (ex_dispatched sid) (ss_plan (ex_dispatched sid) ! 0) () of
     (Inr (status, outp, err), w) \<Rightarrow> state_to_graph (observed_state (ex_dispatched sid) RagSearch status outp err)
   | (Inl e, w) \<Rightarrow> (ex_dispatched sid))"

lemma ex_rag_plan: "create_plan (ss_request (ex_initial sid)) [] = [rag_step]"
  by code_simp

lemma ex_initial_fields [simp]: "ss_plan (ex_initial sid) = []" "ss_index (ex_initial sid) = 0"
  by (simp_all add: ex_initial_def initial_state_def)

lemma ex_dispatched_fields [simp]: "ss_index (ex_dispatched sid) = 0" "length (ss_plan (ex_dispatched sid)) = 1"
  "ss_dispatch (ex_dispatched sid) = Some RagSearch"
  by (simp_all add: ex_dispatched_def dispatched_state_def planned_state_def ex_rag_plan rag_step_def)

lemma ex_supervisor: "supervisor_node (ex_deps t) (ex_initial sid) () = (Inr (ex_dispatched sid), ())"
  by (simp add: supervisor_node_def ensure_plan_def io_bind_def dispatch_step_def Let_def
      planned_state_def ex_rag_plan ex_dispatched_def)

lemma ex_specialist: "specialist_node (ex_deps t) RagSearch (ex_dispatched sid) () = (Inr (ex_observed sid t), ())"
proof -
  obtain r where r: "run_tool (ex_deps t) RagSearch (ex_dispatched sid) (ss_plan (ex_dispatched sid) ! 0) () = (Inr r, ())"
    using io_totalD [OF run_tool_total, of "ex_deps t" RagSearch "ex_dispatched sid" "ss_plan (ex_dispatched sid) ! 0" "()"] by auto
  then show ?thesis
    by (cases r) (simp add: specialist_node_def Let_def io_bind_def ex_observed_def)
qed

lemma ex_observed_fields [simp]: "ss_index (ex_observed sid t) = 1" "length (ss_plan (ex_observed sid t)) = 1"
proof -
  obtain r where r: "run_tool (ex_deps t) RagSearch (ex_dispatched sid) (ss_plan (ex_dispatched sid) ! 0) () = (Inr r, ())"
    using io_totalD [OF run_tool_total, of "ex_deps t" RagSearch "ex_dispatched sid" "ss_plan (ex_dispatched sid) ! 0" "()"] by auto
  then show "ss_index (ex_observed sid t) = 1" "length (ss_plan (ex_observed sid t)) = 1"
    by (cases r; simp add: ex_observed_def observed_state_def Let_def)+
qed

lemma ex_finish: "supervisor_node (ex_deps t) (ex_observed sid t) () =
    (case synthesize_response (ex_deps t) (ex_observed sid t) of Inl e \<Rightarrow> (Inl e, ())
     | Inr resp \<Rightarrow> (Inr (state_to_graph (completed_state (ex_observed sid t) resp)), ()))"
proof -
  have "ss_plan (ex_observed sid t) \<noteq> []" using ex_observed_fields(2) by (metis list.size(3) zero_neq_one)
  then show ?thesis
    by (simp add: supervisor_node_def ensure_plan_def io_bind_def finish_workflow_def split: sum.split)
qed

lemma ex_graph: "invoke_graph (ex_deps t) (ex_initial sid) () =
    (case synthesize_response (ex_deps t) (ex_observed sid t) of Inl e \<Rightarrow> (Inl e, ())
     | Inr resp \<Rightarrow> (Inr (state_to_graph (completed_state (ex_observed sid t) resp)), ()))"
  by (subst invoke_graph.simps, simp add: ex_supervisor route_next_node_def ex_specialist,
      subst invoke_graph.simps, simp add: ex_finish route_next_node_def completed_state_def split: sum.split)

text \<open>A run returns exactly when its answer can be summarised.\<close>

lemma ex_run_returns:
  assumes "\<And>sid. \<exists>resp. synthesize_response (ex_deps t) (ex_observed sid t) = Inr resp"
  shows "\<exists>r sid. run_orchestration (ex_deps t) ex_request () = (Inr r, ()) \<and>
    map ob_status (or_observations r) = map ob_status (ss_observations (ex_observed sid t))"
proof -
  obtain res where run: "run_orchestration (ex_deps t) ex_request () = (res, ())"
    by (cases "run_orchestration (ex_deps t) ex_request ()") simp
  then show ?thesis
  proof (cases rule: run_cases)
    case (failed e sid w1 w2)
    from assms [of sid] obtain resp where "synthesize_response (ex_deps t) (ex_observed sid t) = Inr resp" by blast
    with failed(2) ex_graph [of t sid] show ?thesis by (simp add: ex_initial_def)
  next
    case (finished sid tid s v diag w1 w2 w3)
    from assms [of sid] obtain resp where "synthesize_response (ex_deps t) (ex_observed sid t) = Inr resp" by blast
    with finished(2) ex_graph [of t sid] have "s = state_to_graph (completed_state (ex_observed sid t) resp)"
      by (simp add: ex_initial_def)
    then have "map ob_status (ss_observations s) = map ob_status (ss_observations (ex_observed sid t))"
      by (simp add: state_to_graph_def completed_state_def)
    with run finished(1) show ?thesis by (intro exI [of _ _] exI [of _ sid]) auto
  qed
qed

abbreviation ex_answer :: "pyval result" where
  "ex_answer \<equiv> Inr (PDict [(''results'', PSeq [PDict [(''source'', PStr ''policy.md'')]])])"

abbreviation ex_failure :: "pyval result" where
  "ex_failure \<equiv> Inl (OSError, ''down'')"

text \<open>A result list that is a mapping can be counted but not sliced.\<close>

abbreviation ex_odd_answer :: "pyval result" where
  "ex_odd_answer \<equiv> Inr (PDict [(''results'', PDict [(''a'', PNone)])])"

lemma ex_run_tool:
  "run_tool (ex_deps ex_answer) RagSearch s step () =
     (Inr (Success, [(''results'', PSeq [PDict [(''source'', PStr ''policy.md'')]])], None), ())"
  "run_tool (ex_deps ex_failure) RagSearch s step () = (Inr (Errored, [], Some ''down''), ())"
  "run_tool (ex_deps ex_odd_answer) RagSearch s step () = (Inr (Success, [(''results'', PDict [(''a'', PNone)])], None), ())"
  by (simp_all add: run_tool_def io_catch_def io_bind_def record_tool_quality_def normalize_tool_output_def
      Let_def get_or_none_def py_or_def py_len_def)

lemma ex_observations:
  "map ob_status (ss_observations (ex_observed sid ex_answer)) = [Success]"
  "map ob_status (ss_observations (ex_observed sid ex_failure)) = [Errored]"
  by (simp_all add: ex_observed_def ex_run_tool observed_state_def Let_def state_to_graph_def
      ex_dispatched_def dispatched_state_def planned_state_def ex_initial_def initial_state_def)

lemma ex_synthesis:
  "\<exists>resp. synthesize_response (ex_deps ex_answer) (ex_observed sid ex_answer) = Inr resp"
  "\<exists>resp. synthesize_response (ex_deps ex_failure) (ex_observed sid ex_failure) = Inr resp"
  "synthesize_response (ex_deps ex_odd_answer) (ex_observed sid ex_odd_answer) = Inl (TypeError, ''slice'')"
  by (simp_all add: synthesize_response_def ex_observed_def ex_run_tool observed_state_def Let_def state_to_graph_def
      ex_dispatched_def dispatched_state_def planned_state_def ex_initial_def initial_state_def
      observation_line_def success_line_def reference_texts_def graph_observation_def json_dict_def
      get_or_none_def List.map_filter_simps py_or_def)

theorem workflow_executes_plan_witness:
  "\<exists>s. invoke_graph (ex_deps ex_answer) (state_to_graph (initial_state (normalize_request ex_request) ''s'')) () = (Inr s, ()) \<and>
     list_all2 matches (ss_observations s) (ss_plan s) \<and> ss_plan s \<noteq> []"
proof -
  from ex_synthesis(1) obtain resp where
    "synthesize_response (ex_deps ex_answer) (ex_observed ''s'' ex_answer) = Inr resp" by blast
  with ex_graph [of ex_answer "''s''"] have run:
    "invoke_graph (ex_deps ex_answer) (state_to_graph (initial_state (normalize_request ex_request) ''s'')) () =
      (Inr (state_to_graph (completed_state (ex_observed ''s'' ex_answer) resp)), ())"
    by (simp add: ex_initial_def)
  with workflow_executes_plan [OF run] show ?thesis by blast
qed


lemma ex_own_arbitrator: "dp_arbitrate (ex_deps t) =
    (\<lambda>p. io_lift (arbitrate ex_env (configured_arbitrator ex_settings [] deterministic_adjudicator) p))"
  by (simp add: ex_deps_def)


theorem deterministic_run_outcome_witness:
  "(\<exists>r. run_orchestration (ex_deps ex_answer) ex_request () = (Inr r, ()) \<and> or_status r = ''completed'') \<and>
   (\<exists>r. run_orchestration (ex_deps ex_failure) ex_request () = (Inr r, ()) \<and> or_final r = BLOCKED_RESPONSE)"
proof -
  have cfg: "set_mode ex_settings = Deterministic" "2 < set_score_threshold ex_settings"
    "set_score_threshold ex_settings \<le> 5" "\<not> env_timed_out ex_env"
    by (simp_all add: ex_settings_def ex_env_def)
  from ex_run_returns [OF ex_synthesis(1)] obtain r1 sid1
    where r1: "run_orchestration (ex_deps ex_answer) ex_request () = (Inr r1, ())"
      "map ob_status (or_observations r1) = map ob_status (ss_observations (ex_observed sid1 ex_answer))" by blast
  then have "list_all (\<lambda>o1. ob_status o1 = Success) (or_observations r1)"
    by (auto simp: ex_observations map_eq_Cons_conv)
  with deterministic_run_outcome [OF ex_own_arbitrator cfg r1(1)] have a: "or_status r1 = ''completed''" by simp
  from ex_run_returns [OF ex_synthesis(2)] obtain r2 sid2
    where r2: "run_orchestration (ex_deps ex_failure) ex_request () = (Inr r2, ())"
      "map ob_status (or_observations r2) = map ob_status (ss_observations (ex_observed sid2 ex_failure))" by blast
  then have "\<not> list_all (\<lambda>o1. ob_status o1 = Success) (or_observations r2)"
    by (auto simp: ex_observations map_eq_Cons_conv)
  with deterministic_run_outcome [OF ex_own_arbitrator cfg r2(1)] have "or_final r2 = BLOCKED_RESPONSE" by simp
  with a r1(1) r2(1) show ?thesis by blast
qed

end
