(* ===== verification/OrcTools.thy ===== *)
theory OrcTools
  imports Orchestrator
begin

text \<open>
  The default collaborators of \<open>services-runtime/src/agents/orchestrator.py\<close>: the three specialist
  adapters, the heuristic SQL generator, and the Redis and Chroma memories. The retriever, the document
  pipeline, the SQL sandbox, the file system and the JSON codec are parameters.
\<close>

section \<open>Specialist adapters\<close>

text \<open>\<open>context.get(k, default)\<close>.\<close>

definition get_or :: "pyval dict \<Rightarrow> str \<Rightarrow> pyval \<Rightarrow> pyval" where
  "get_or m k v = (case map_of m k of None \<Rightarrow> v | Some x \<Rightarrow> x)"

definition hybrid_rag_run ::
    "(str \<Rightarrow> int \<Rightarrow> ('w, pyval list) io) \<Rightarrow> int \<Rightarrow> request \<Rightarrow> plan_step \<Rightarrow> observation list \<Rightarrow> ('w, pyval) io" where
  "hybrid_rag_run search top_k rq step obs =
     io_bind (io_lift (py_int (get_or (context_of rq) ''rag_top_k'' (PInt top_k)))) (\<lambda>k.
       io_bind (search (rq_query rq) k) (\<lambda>results.
         io_return (PDict [(''query'', PStr (rq_query rq)), (''results'', PSeq (map json_ready results)),
           (''prior_observation_count'', PInt (int (length obs)))])))"

record doc_backend =
  db_read :: "str \<Rightarrow> str result"
  db_str :: "pyval \<Rightarrow> str"
  db_process :: "str \<Rightarrow> str \<Rightarrow> pyval result"
  db_extract :: "str \<Rightarrow> (pyval \<times> bool) result"
  db_validate :: "pyval \<Rightarrow> pyval result"

definition doc_str :: "doc_backend \<Rightarrow> pyval \<Rightarrow> str" where
  "doc_str b v = (case v of PStr s \<Rightarrow> s | PInt i \<Rightarrow> int_text i | _ \<Rightarrow> db_str b v)"

definition document_filename :: "doc_backend \<Rightarrow> pyval dict \<Rightarrow> pyval \<Rightarrow> str" where
  "document_filename b ctx fallback = doc_str b (py_or (get_or_none ctx ''document_filename'') fallback)"

text \<open>\<open>Path(p).name\<close> of a POSIX path.\<close>

definition path_name :: "str \<Rightarrow> str" where
  "path_name p = rev (takeWhile (\<lambda>c. c \<noteq> CHR ''/'') (dropWhile (\<lambda>c. c = CHR ''/'') (rev p)))"

definition resolve_document_bytes :: "doc_backend \<Rightarrow> pyval dict \<Rightarrow> (str option \<times> str) result" where
  "resolve_document_bytes b ctx =
     (let filename = document_filename b ctx (PStr ''agent-upload'') in
      case get_or_none ctx ''document_bytes'' of
        PBytes raw \<Rightarrow> Inr (Some raw, filename)
      | raw_value \<Rightarrow>
          (case raw_value of
             PStr (c # s) \<Rightarrow> (case b64decode (c # s) of
                 Inr bytes \<Rightarrow> Inr (Some bytes, filename)
               | Inl e \<Rightarrow> Inr (Some (utf8_encode (c # s)), filename))
           | _ \<Rightarrow>
             (case get_or_none ctx ''document_base64'' of
                PStr (c # s) \<Rightarrow> rbind (b64decode (c # s)) (\<lambda>bytes. Inr (Some bytes, filename))
              | _ \<Rightarrow>
                (case get_or_none ctx ''document_path'' of
                   PStr (c # s) \<Rightarrow> rbind (db_read b (c # s)) (\<lambda>bytes.
                     Inr (Some bytes, document_filename b ctx (PStr (path_name (c # s)))))
                 | _ \<Rightarrow> Inr (None, filename)))))"

definition extract_from_text :: "doc_backend \<Rightarrow> str \<Rightarrow> pyval result" where
  "extract_from_text b t = rbind (db_extract b t) (\<lambda>(extraction, llm_used).
     rbind (db_validate b extraction) (\<lambda>validation.
       Inr (PDict [(''extraction'', json_ready extraction), (''llm_extraction_used'', PBool llm_used),
         (''validation'', json_ready validation), (''source'', PStr ''session_context.document_text'')])))"

definition document_run :: "doc_backend \<Rightarrow> request \<Rightarrow> plan_step \<Rightarrow> observation list \<Rightarrow> pyval result" where
  "document_run b rq step obs =
     (let ctx = context_of rq;
          from_bytes = rbind (resolve_document_bytes b ctx) (\<lambda>(bytes, filename). case bytes of
            None \<Rightarrow> Inr (PDict [(''status'', PStr ''skipped''),
              (''reason'', PStr ''No document_text, document_bytes, document_base64, or document_path found.''),
              (''prior_observation_count'', PInt (int (length obs)))])
          | Some bs \<Rightarrow> rbind (db_process b bs filename) (\<lambda>r. Inr (json_ready r)))
      in case get_or_none ctx ''document_text'' of
           PStr t \<Rightarrow> if strip t \<noteq> [] then extract_from_text b t else from_bytes
         | _ \<Rightarrow> from_bytes)"

definition heuristic_sql :: "request \<Rightarrow> str list \<Rightarrow> str" where
  "heuristic_sql rq tables =
     (let by_table = (case tables of
            [] \<Rightarrow> ''SELECT 1 AS result''
          | t # _ \<Rightarrow>
              if mentions [''count'', ''how many'', ''volume''] (lower (rq_query rq))
              then ''SELECT COUNT(*) AS row_count FROM '' @ t else ''SELECT * FROM '' @ t)
      in case get_or_none (context_of rq) ''sql_query'' of
           PStr s \<Rightarrow> if strip s \<noteq> [] then strip s else by_table
         | _ \<Rightarrow> by_table)"

record sql_result =
  sr_sql :: str
  sr_columns :: "str list"
  sr_rows :: "pyval list"
  sr_row_count :: int
  sr_elapsed :: rat
  sr_limit_applied :: bool

definition observation_dict :: "observation \<Rightarrow> pyval" where
  "observation_dict o1 = PDict [(''step_id'', PStr (ob_step_id o1)),
     (''specialist'', PStr (specialist_text (ob_specialist o1))), (''status'', PStr (obs_status_text (ob_status o1))),
     (''input_payload'', PDict (json_dict (ob_input o1))), (''output'', PDict (json_dict (ob_output o1))),
     (''error'', case ob_error o1 of None \<Rightarrow> PNone | Some e \<Rightarrow> PStr e)]"

definition sql_run ::
    "('w, str list) io \<Rightarrow> (str \<Rightarrow> ('w, sql_result) io) \<Rightarrow> request \<Rightarrow> plan_step \<Rightarrow> observation list \<Rightarrow> ('w, pyval) io" where
  "sql_run introspect execute rq step obs =
     io_bind introspect (\<lambda>tables.
       io_bind (execute (heuristic_sql rq tables)) (\<lambda>r.
         io_return (PDict [(''sql'', PStr (sr_sql r)), (''columns'', PSeq (map PStr (sr_columns r))),
           (''rows'', PSeq (map json_ready (sr_rows r))), (''row_count'', PInt (sr_row_count r)),
           (''elapsed_ms'', PFloat (sr_elapsed r)), (''limit_applied'', PBool (sr_limit_applied r)),
           (''schema_tables'', PSeq (map PStr tables)),
           (''prior_observations'', PSeq (map observation_dict obs))])))"

section \<open>Redis short-term memory\<close>

definition request_dict :: "request \<Rightarrow> pyval" where
  "request_dict rq = PDict [(''user_id'', PStr (rq_user_id rq)), (''feature_scope'', PStr (rq_feature_scope rq)),
     (''payload_query'', PStr (rq_query rq)),
     (''session_context'', case rq_context rq of None \<Rightarrow> PNone | Some c \<Rightarrow> PDict (json_dict c))]"

definition state_dict :: "supervisor_state \<Rightarrow> pyval" where
  "state_dict s = PDict [(''request'', request_dict (ss_request s)), (''session_id'', PStr (ss_session_id s)),
     (''plan'', PSeq (map step_dict (ss_plan s))), (''observations'', PSeq (map observation_dict (ss_observations s))),
     (''retrieved_memories'', PSeq (map json_ready (ss_memories s))), (''current_step_index'', PInt (int (ss_index s))),
     (''dispatch_next'', case ss_dispatch s of None \<Rightarrow> PNone | Some sp \<Rightarrow> PStr (specialist_text sp)),
     (''final_response'', case ss_final s of None \<Rightarrow> PNone | Some t \<Rightarrow> PStr t),
     (''status'', PStr (ss_status s))]"

text \<open>The database: one key space of strings and lists, and the time to live of keys.\<close>

datatype redis_value = RString str | RList "str list"

record redis =
  rd_keys :: "redis_value dict"
  rd_ttl :: "int dict"

record redis_config =
  rc_ttl :: int
  rc_dumps :: "pyval \<Rightarrow> str"
  rc_loads :: "str \<Rightarrow> pyval result"

definition redis_ttl_option :: "int option \<Rightarrow> int \<Rightarrow> int" where
  "redis_ttl_option ttl configured = (case ttl of None \<Rightarrow> configured | Some t \<Rightarrow> if t = 0 then configured else t)"

definition state_key :: "str \<Rightarrow> str" where
  "state_key sid = ''coremesh:agents:sessions:'' @ sid"

definition event_key :: "str \<Rightarrow> str" where
  "event_key sid = ''coremesh:agents:sessions:'' @ sid @ '':events''"

definition redis_save_state :: "redis_config \<Rightarrow> str \<Rightarrow> supervisor_state \<Rightarrow> (redis, unit) io" where
  "redis_save_state cfg sid s r =
     (let payload = rc_dumps cfg (state_dict s); key = state_key sid;
          r1 = r\<lparr>rd_keys := dict_set key (RString payload) (rd_keys r)\<rparr>
      in (Inr (), if 0 < rc_ttl cfg then r1\<lparr>rd_ttl := dict_set key (rc_ttl cfg) (rd_ttl r)\<rparr>
                  else r1\<lparr>rd_ttl := dict_pop key (rd_ttl r)\<rparr>))"

text \<open>\<open>RPUSH\<close> on a string key is refused.\<close>

definition redis_append_event :: "redis_config \<Rightarrow> str \<Rightarrow> pyval dict \<Rightarrow> (redis, unit) io" where
  "redis_append_event cfg sid e r =
     (let payload = rc_dumps cfg (PDict (json_dict e)); key = event_key sid;
          push = (\<lambda>old. let r1 = r\<lparr>rd_keys := dict_set key (RList (old @ [payload])) (rd_keys r)\<rparr>
             in (Inr (), if 0 < rc_ttl cfg then r1\<lparr>rd_ttl := dict_set key (rc_ttl cfg) (rd_ttl r)\<rparr> else r1))
      in case map_of (rd_keys r) key of
           None \<Rightarrow> push []
         | Some (RList xs) \<Rightarrow> push xs
         | Some (RString _) \<Rightarrow> (Inl (OtherException ''ResponseError'', ''WRONGTYPE''), r))"

definition redis_load_state :: "redis_config \<Rightarrow> str \<Rightarrow> (redis, pyval option) io" where
  "redis_load_state cfg sid r = (case map_of (rd_keys r) (state_key sid) of
     None \<Rightarrow> (Inr None, r)
   | Some (RString payload) \<Rightarrow> (rbind (rc_loads cfg payload) (\<lambda>v. Inr (Some v)), r)
   | Some (RList _) \<Rightarrow> (Inl (OtherException ''ResponseError'', ''WRONGTYPE''), r))"

section \<open>Chroma semantic memory\<close>

text \<open>\<open>(response.get(k) or [[]])[0]\<close>.\<close>

definition first_batch :: "pyval dict \<Rightarrow> str \<Rightarrow> pyval list result" where
  "first_batch resp k =
     (if \<not> truthy (get_or_none resp k) then Inr []
      else case get_or_none resp k of
        PSeq (PSeq xs # _) \<Rightarrow> Inr xs
      | _ \<Rightarrow> Inl (TypeError, ''batch''))"

fun memory_items :: "pyval list \<Rightarrow> nat \<Rightarrow> pyval list \<Rightarrow> pyval list \<Rightarrow> pyval list" where
  "memory_items distances i (t # ts) (m # ms) =
     PDict [(''text'', t), (''metadata'', py_or m (PDict [])),
            (''distance'', if i < length distances then distances ! i else PNone)]
     # memory_items distances (Suc i) ts ms"
| "memory_items distances i _ _ = []"

definition chroma_retrieve ::
    "(str \<Rightarrow> int \<Rightarrow> str \<Rightarrow> ('w, pyval dict) io) \<Rightarrow> str \<Rightarrow> str \<Rightarrow> int \<Rightarrow> ('w, pyval list) io" where
  "chroma_retrieve query user q limit =
     io_bind (query q limit user) (\<lambda>resp.
       io_bind (io_lift (first_batch resp ''documents'')) (\<lambda>docs.
         io_bind (io_lift (first_batch resp ''metadatas'')) (\<lambda>metas.
           io_bind (io_lift (first_batch resp ''distances'')) (\<lambda>dists.
             io_return (memory_items dists 0 docs metas)))))"

definition semantic_summary :: "orc_result \<Rightarrow> str" where
  "semantic_summary r = ''User '' @ or_user_id r @ '' asked: '' @ or_final r @ ''. ''
     @ ''Feature scope: '' @ or_feature_scope r @ ''. '' @ ''Workflow status: '' @ or_status r @ ''. ''
     @ ''Tool sequence: '' @ join '' -> '' (map (\<lambda>p. specialist_text (ps_specialist p)) (or_plan r)) @ ''.''"

definition chroma_metadata :: "orc_result \<Rightarrow> pyval dict" where
  "chroma_metadata r =
     [(''session_id'', PStr (or_session_id r)), (''user_id'', PStr (or_user_id r)),
      (''feature_scope'', PStr (or_feature_scope r)), (''status'', PStr (or_status r)),
      (''tool_sequence'', PStr (join '','' (map (\<lambda>p. specialist_text (ps_specialist p)) (or_plan r))))]"

text \<open>The collection, by record id.\<close>

type_synonym chroma = "(str \<times> pyval dict) dict"

definition chroma_store :: "(str \<Rightarrow> str) \<Rightarrow> orc_result \<Rightarrow> (chroma, unit) io" where
  "chroma_store uuid5 r c =
     (Inr (), dict_set (uuid5 (''coremesh:agents:'' @ or_session_id r)) (semantic_summary r, chroma_metadata r) c)"

section \<open>Binary documents survive the graph state\<close>

lemma get_or_none_json: "get_or_none (json_dict m) k = json_ready (get_or_none m k)"
proof -
  have "map_of (json_dict m) k = map_option json_ready (map_of m k)"
    by (induction m) (auto simp: json_dict_def)
  then show ?thesis by (simp add: get_or_none_def split: option.split)
qed

lemma get_or_none_set: "get_or_none (dict_set k v m) k' = (if k' = k then v else get_or_none m k')"
  by (simp add: get_or_none_def)

lemma get_or_none_pop: "get_or_none (dict_pop k m) k' = (if k' = k then PNone else get_or_none m k')"
  by (simp add: get_or_none_def map_of_dict_pop)

lemma document_filename_json: "get_or_none ctx ''document_filename'' = PStr f \<Longrightarrow>
    get_or_none ctx' ''document_filename'' = PStr f \<Longrightarrow> document_filename b ctx x = document_filename b ctx' x"
  by (simp add: document_filename_def)

text \<open>C39. A binary document given to a run reaches the extraction tool unchanged: after the context has
  been normalised (bytes to base64) and has crossed the JSON graph state, the tool still resolves exactly
  the original bytes and file name.\<close>
theorem document_bytes_roundtrip:
  assumes "get_or_none ctx ''document_bytes'' = PBytes raw" and "raw \<noteq> []"
    and "\<not> truthy (get_or_none ctx ''document_base64'')"
    and "get_or_none ctx ''document_filename'' \<in> {PNone, PStr name}"
  shows "resolve_document_bytes b ctx = Inr (Some raw, document_filename b ctx (PStr ''agent-upload'')) \<and>
    resolve_document_bytes b (json_dict (the (normalize_session_context (Some ctx)))) = resolve_document_bytes b ctx"
proof -
  define n where "n = dict_set ''document_base64'' (PStr (b64encode raw)) (dict_pop ''document_bytes'' ctx)"
  have norm: "normalize_session_context (Some ctx) = Some n"
    using assms(1,3) by (simp add: normalize_session_context_def n_def get_or_none_pop Let_def)
  have fields: "get_or_none n ''document_bytes'' = PNone"
    "get_or_none n ''document_base64'' = PStr (b64encode raw)"
    "get_or_none n ''document_filename'' = get_or_none ctx ''document_filename''"
    by (simp_all add: n_def get_or_none_set get_or_none_pop)
  obtain c s where enc: "b64encode raw = c # s" using assms(2) by (cases "b64encode raw") auto
  have dec: "b64decode (c # s) = Inr raw" using b64decode_encode [of raw] enc by simp
  have fn: "document_filename b (json_dict n) x = document_filename b ctx x" for x
    using assms(4) by (auto simp: document_filename_def get_or_none_json fields)
  show ?thesis
    by (simp add: resolve_document_bytes_def Let_def norm assms(1) get_or_none_json fields enc dec fn)
qed

definition ex_backend :: doc_backend where
  "ex_backend = \<lparr>db_read = (\<lambda>p. Inl (OSError, p)), db_str = (\<lambda>v. ''?''), db_process = (\<lambda>bs f. Inr (PStr bs)),
     db_extract = (\<lambda>t. Inr (PStr t, False)), db_validate = (\<lambda>v. Inr v)\<rparr>"

theorem document_bytes_roundtrip_witness:
  "resolve_document_bytes ex_backend
     (json_dict (the (normalize_session_context (Some [(''document_bytes'', PBytes ''PDF'')]))))
     = Inr (Some ''PDF'', ''agent-upload'')"
  using document_bytes_roundtrip [of "[(''document_bytes'', PBytes ''PDF'')]" "''PDF''" "[]" ex_backend]
  by (simp add: get_or_none_def document_filename_def py_or_def doc_str_def)

text \<open>With both spellings present the two functions disagree: the tool prefers the bytes, but
  normalisation drops them for the base64 text.\<close>

lemma document_bytes_precedence:
  assumes "get_or_none ctx ''document_bytes'' = PBytes raw"
    and "get_or_none ctx ''document_base64'' = PStr (b64encode other)" and "other \<noteq> []" "raw \<noteq> other"
  shows "map_sum id fst (resolve_document_bytes b ctx) = Inr (Some raw)"
    and "map_sum id fst (resolve_document_bytes b (the (normalize_session_context (Some ctx)))) = Inr (Some other)"
proof -
  obtain c s where enc: "b64encode other = c # s" using assms(3) by (cases "b64encode other") auto
  have dec: "b64decode (c # s) = Inr other" using b64decode_encode [of other] enc by simp
  show "map_sum id fst (resolve_document_bytes b ctx) = Inr (Some raw)"
    by (simp add: resolve_document_bytes_def Let_def assms(1))
  show "map_sum id fst (resolve_document_bytes b (the (normalize_session_context (Some ctx)))) = Inr (Some other)"
    using assms enc dec
    by (simp add: resolve_document_bytes_def Let_def normalize_session_context_def get_or_none_pop)
qed

section \<open>Session memory\<close>

text \<open>What the orchestrator relies on from a short-term memory, for acceptable session ids: the last saved
  state is the one found, and events accumulate in order. Payloads are stored in a representation.\<close>

locale session_memory =
  fixes save :: "str \<Rightarrow> supervisor_state \<Rightarrow> 'm \<Rightarrow> 'm"
    and append_event :: "str \<Rightarrow> pyval dict \<Rightarrow> 'm \<Rightarrow> 'm"
    and state_of :: "'m \<Rightarrow> str \<Rightarrow> 'p option"
    and events_of :: "'m \<Rightarrow> str \<Rightarrow> 'p list"
    and repr :: "pyval \<Rightarrow> 'p"
    and ok :: "str \<Rightarrow> bool"
    and inv :: "'m \<Rightarrow> bool"
  assumes inv_save: "inv m \<Longrightarrow> ok sid \<Longrightarrow> inv (save sid s m)"
    and inv_event: "inv m \<Longrightarrow> ok sid \<Longrightarrow> inv (append_event sid e m)"
    and state_save: "inv m \<Longrightarrow> ok sid \<Longrightarrow> ok k \<Longrightarrow>
      state_of (save sid s m) k = (if k = sid then Some (repr (state_dict s)) else state_of m k)"
    and state_event: "inv m \<Longrightarrow> ok sid \<Longrightarrow> ok k \<Longrightarrow> state_of (append_event sid e m) k = state_of m k"
    and events_save: "inv m \<Longrightarrow> ok sid \<Longrightarrow> ok k \<Longrightarrow> events_of (save sid s m) k = events_of m k"
    and events_append: "inv m \<Longrightarrow> ok sid \<Longrightarrow> ok k \<Longrightarrow> events_of (append_event sid e m) k =
      (if k = sid then events_of m k @ [repr (PDict (json_dict e))] else events_of m k)"
begin

text \<open>One call of \<open>_persist_short_term\<close> per entry.\<close>

definition persist_all :: "(str \<times> supervisor_state \<times> pyval dict) list \<Rightarrow> 'm \<Rightarrow> 'm" where
  "persist_all calls m = fold (\<lambda>(sid, s, e) m. append_event sid e (save sid s m)) calls m"

lemma persist_all_simps [simp]:
  "persist_all [] m = m"
  "persist_all (calls @ [(sid, s, e)]) m = append_event sid e (save sid s (persist_all calls m))"
  by (simp_all add: persist_all_def)

lemma persist_all_inv: "inv m \<Longrightarrow> list_all (\<lambda>c. ok (fst c)) calls \<Longrightarrow> inv (persist_all calls m)"
proof (induction calls rule: rev_induct)
  case (snoc c calls)
  then show ?case by (cases c) (simp add: inv_save inv_event)
qed simp

lemma persist_all_state: "inv m \<Longrightarrow> list_all (\<lambda>c. ok (fst c)) calls \<Longrightarrow> ok k \<Longrightarrow>
   state_of (persist_all calls m) k =
    (let cs = filter (\<lambda>c. fst c = k) calls
     in if cs = [] then state_of m k else Some (repr (state_dict (fst (snd (last cs))))))"
proof (induction calls rule: rev_induct)
  case (snoc c calls)
  then show ?case
    by (cases c) (auto simp: state_save state_event inv_save persist_all_inv Let_def)
qed simp

lemma persist_all_events: "inv m \<Longrightarrow> list_all (\<lambda>c. ok (fst c)) calls \<Longrightarrow> ok k \<Longrightarrow>
   events_of (persist_all calls m) k =
    events_of m k @ map (\<lambda>c. repr (PDict (json_dict (snd (snd c))))) (filter (\<lambda>c. fst c = k) calls)"
proof (induction calls rule: rev_induct)
  case (snoc c calls)
  then show ?case
    by (cases c) (auto simp: events_append events_save inv_save persist_all_inv)
qed simp

end

interpretation in_memory: session_memory
  "\<lambda>sid s m. snd (memory_save_state sid s m)" "\<lambda>sid e m. snd (memory_append_event sid e m)"
  "\<lambda>m sid. map_option (\<lambda>p. state_dict (snd p)) (find (\<lambda>p. fst p = sid) (rev (mw_states m)))"
  "\<lambda>m sid. map (\<lambda>p. PDict (snd p)) (filter (\<lambda>p. fst p = sid) (mw_events m))"
  "\<lambda>v. v" "\<lambda>sid. True" "\<lambda>m. True"
proof
  fix sid s m k
  have "state_dict (state_to_graph s) = state_dict s"
    by (simp add: state_dict_def state_to_graph_def request_dict_def observation_dict_def
        graph_observation_def comp_def split: option.split)
  then show "map_option (\<lambda>p. state_dict (snd p)) (find (\<lambda>p. fst p = k) (rev (mw_states (snd (memory_save_state sid s m))))) =
      (if k = sid then Some (state_dict s)
       else map_option (\<lambda>p. state_dict (snd p)) (find (\<lambda>p. fst p = k) (rev (mw_states m))))"
    by (simp add: memory_save_state_def)
qed (simp_all add: memory_append_event_def memory_save_state_def)

text \<open>In Redis the two key families overlap for session ids that end in \<open>:events\<close>.\<close>

definition plain_session :: "str \<Rightarrow> bool" where
  "plain_session sid \<longleftrightarrow> \<not> ends_with '':events'' (state_key sid)"

lemma session_key_collision: "state_key (sid @ '':events'') = event_key sid"
  by (simp add: state_key_def event_key_def)

definition redis_state_of :: "redis \<Rightarrow> str \<Rightarrow> str option" where
  "redis_state_of r sid = (case map_of (rd_keys r) (state_key sid) of Some (RString p) \<Rightarrow> Some p | _ \<Rightarrow> None)"

definition redis_events_of :: "redis \<Rightarrow> str \<Rightarrow> str list" where
  "redis_events_of r sid = (case map_of (rd_keys r) (event_key sid) of Some (RList xs) \<Rightarrow> xs | _ \<Rightarrow> [])"

definition redis_inv :: "redis \<Rightarrow> bool" where
  "redis_inv r \<longleftrightarrow> (\<forall>sid p. map_of (rd_keys r) (event_key sid) \<noteq> Some (RString p))"

lemma event_key_suffix: "ends_with '':events'' (event_key sid)"
  by (simp add: ends_with_def event_key_def suffix_def)

lemma plain_keys_differ: "plain_session sid \<Longrightarrow> event_key k \<noteq> state_key sid"
  using event_key_suffix [of k] by (auto simp: plain_session_def)

lemma key_inject [simp]: "state_key a = state_key b \<longleftrightarrow> a = b" "event_key a = event_key b \<longleftrightarrow> a = b"
  by (simp_all add: state_key_def event_key_def)

lemma redis_append_event_keys: "redis_inv r \<Longrightarrow> rd_keys (snd (redis_append_event cfg sid e r)) =
    dict_set (event_key sid) (RList (redis_events_of r sid @ [rc_dumps cfg (PDict (json_dict e))])) (rd_keys r)"
  by (auto simp: redis_append_event_def redis_events_of_def redis_inv_def Let_def split: option.splits redis_value.splits)

lemma redis_save_state_keys: "rd_keys (snd (redis_save_state cfg sid s r)) =
    dict_set (state_key sid) (RString (rc_dumps cfg (state_dict s))) (rd_keys r)"
  by (simp add: redis_save_state_def Let_def)

interpretation redis_memory: session_memory
  "\<lambda>sid s r. snd (redis_save_state cfg sid s r)" "\<lambda>sid e r. snd (redis_append_event cfg sid e r)"
  redis_state_of redis_events_of "rc_dumps cfg" plain_session redis_inv for cfg
proof
  fix m :: redis and sid s k e
  assume "redis_inv m" "plain_session sid"
  then show "redis_inv (snd (redis_save_state cfg sid s m))" "redis_inv (snd (redis_append_event cfg sid e m))"
    using plain_keys_differ by (auto simp: redis_inv_def redis_save_state_keys redis_append_event_keys)
next
  fix m :: redis and sid s k e
  assume inv: "redis_inv m" and ok: "plain_session sid" "plain_session k"
  show "redis_state_of (snd (redis_save_state cfg sid s m)) k =
      (if k = sid then Some (rc_dumps cfg (state_dict s)) else redis_state_of m k)"
    by (simp add: redis_state_of_def redis_save_state_keys)
  show "redis_state_of (snd (redis_append_event cfg sid e m)) k = redis_state_of m k"
    using inv plain_keys_differ [OF ok(2), of sid]
    by (simp add: redis_state_of_def redis_append_event_keys)
  show "redis_events_of (snd (redis_save_state cfg sid s m)) k = redis_events_of m k"
    using plain_keys_differ [OF ok(1), of k] by (auto simp: redis_events_of_def redis_save_state_keys)
  show "redis_events_of (snd (redis_append_event cfg sid e m)) k =
      (if k = sid then redis_events_of m k @ [rc_dumps cfg (PDict (json_dict e))] else redis_events_of m k)"
    using inv by (simp add: redis_events_of_def redis_append_event_keys)
qed

text \<open>The Redis calls of a sequence of \<open>_persist_short_term\<close>s.\<close>

definition redis_persist :: "redis_config \<Rightarrow> (str \<times> supervisor_state \<times> pyval dict) list \<Rightarrow> redis \<Rightarrow> redis" where
  "redis_persist cfg calls r = fold (\<lambda>(sid, s, e) r.
     snd (redis_append_event cfg sid e (snd (redis_save_state cfg sid s r)))) calls r"

lemma redis_persist_all: "redis_persist cfg calls r = redis_memory.persist_all cfg calls r"
  by (simp add: redis_persist_def redis_memory.persist_all_def)

text \<open>Redis working memory, for interleaved sessions whose ids keep the two key families apart: loading
  a session returns the last state saved for it, through the JSON codec, and its event list holds exactly
  its own events in the order they were appended.\<close>
theorem redis_session_history:
  assumes "\<forall>c \<in> set calls. rc_loads cfg (rc_dumps cfg (state_dict (fst (snd c)))) = Inr (state_dict (fst (snd c)))"
    and "list_all (\<lambda>c. plain_session (fst c)) calls" and "plain_session sid"
  shows "let r = redis_persist cfg calls \<lparr>rd_keys = [], rd_ttl = []\<rparr>; mine = filter (\<lambda>c. fst c = sid) calls in
    fst (redis_load_state cfg sid r) =
      Inr (if mine = [] then None else Some (state_dict (fst (snd (last mine))))) \<and>
    redis_events_of r sid = map (\<lambda>c. rc_dumps cfg (PDict (json_dict (snd (snd c))))) mine"
proof -
  let ?r0 = "\<lparr>rd_keys = [], rd_ttl = []\<rparr>"
  have inv: "redis_inv ?r0" by (simp add: redis_inv_def)
  have "map_of (rd_keys r) (state_key sid) \<noteq> Some (RList xs)" if "r = redis_memory.persist_all cfg calls ?r0" for r xs
    using assms(2) unfolding that
  proof (induction calls arbitrary: xs rule: rev_induct)
    case (snoc c calls)
    obtain k s e where c: "c = (k, s, e)" by (cases c)
    from snoc.prems have "redis_inv (snd (redis_save_state cfg k s (redis_memory.persist_all cfg calls ?r0)))"
      using redis_memory.inv_save redis_memory.persist_all_inv inv by (simp add: c)
    then show ?case
      using snoc plain_keys_differ [OF assms(3), of k]
      by (auto simp: c redis_append_event_keys redis_save_state_keys)
  qed simp
  then have load: "fst (redis_load_state cfg sid (redis_memory.persist_all cfg calls ?r0)) =
      (case redis_state_of (redis_memory.persist_all cfg calls ?r0) sid of None \<Rightarrow> Inr None
       | Some p \<Rightarrow> rbind (rc_loads cfg p) (\<lambda>v. Inr (Some v)))"
    by (auto simp: redis_load_state_def redis_state_of_def split: option.split redis_value.split)
  have empty: "redis_state_of ?r0 sid = None" "redis_events_of ?r0 sid = []"
    by (simp_all add: redis_state_of_def redis_events_of_def)
  have "last (filter (\<lambda>c. fst c = sid) calls) \<in> set calls" if "filter (\<lambda>c. fst c = sid) calls \<noteq> []"
    using last_in_set [OF that] by simp
  with assms(1) show ?thesis
    unfolding Let_def redis_persist_all load
    by (simp add: redis_memory.persist_all_state [OF inv assms(2,3)]
        redis_memory.persist_all_events [OF inv assms(2,3)] Let_def empty)
qed

theorem redis_session_history_witness:
  "let s = ex_initial ''s''; cfg = \<lparr>rc_ttl = 60, rc_dumps = (\<lambda>v. ''x''), rc_loads = (\<lambda>t. Inr (state_dict s))\<rparr> in
   fst (redis_load_state cfg ''a'' (redis_persist cfg [(''a'', s, []), (''b'', s, [])] \<lparr>rd_keys = [], rd_ttl = []\<rparr>))
     = Inr (Some (state_dict s))"
proof -
  let ?s = "ex_initial ''s''"
  let ?cfg = "\<lparr>rc_ttl = 60, rc_dumps = (\<lambda>v. ''x''), rc_loads = (\<lambda>t. Inr (state_dict ?s))\<rparr>"
  have "plain_session ''a''" "plain_session ''b''" by code_simp+
  then show ?thesis
    using redis_session_history [of "[(''a'', ?s, []), (''b'', ?s, [])]" ?cfg "''a''"]
    by (simp add: Let_def)
qed

end
