(* ===== verification/Sandbox.thy ===== *)
theory Sandbox
  imports Prelude
begin

text \<open>
  The SQL sandbox of \<open>services-runtime/src/sql_engine/sandbox.py\<close>: lexical safety checks on one SELECT,
  the appended row limit, schema introspection, and execution inside a transaction that is always
  rolled back. The \<open>sqlparse\<close> parser is a parameter that returns statements as token lists; the database
  is a parameter that answers each call, and the calls it received are recorded. The regular expression
  for function calls is modelled as the scan it performs.
\<close>

section \<open>Data\<close>

record sandbox_config =
  sb_row_limit :: int
  sb_enforce_limit :: bool
  sb_read_only_sql :: str
  sb_blocked_keywords :: "str list"
  sb_blocked_functions :: "str list"

definition default_config :: sandbox_config where
  "default_config = \<lparr>sb_row_limit = 1000, sb_enforce_limit = True,
     sb_read_only_sql = ''SET TRANSACTION READ ONLY'',
     sb_blocked_keywords = [''ALTER'', ''CALL'', ''COPY'', ''CREATE'', ''DELETE'', ''DROP'', ''GRANT'', ''INSERT'',
       ''MERGE'', ''REVOKE'', ''TRUNCATE'', ''UPDATE''],
     sb_blocked_functions = [''lo_import'', ''lo_export'', ''nextval'', ''pg_advisory_lock'', ''pg_advisory_unlock'',
       ''pg_cancel_backend'', ''pg_read_file'', ''pg_sleep'', ''pg_terminate_backend'', ''setval'']\<rparr>"

record column_schema =
  cs_name :: str
  cs_type :: str
  cs_nullable :: bool
  cs_primary :: bool

record foreign_key =
  fk_columns :: "str list"
  fk_table :: "str option"
  fk_referred :: "str list"
  fk_name :: "str option"

record table_schema =
  tb_name :: str
  tb_columns :: "column_schema list"
  tb_primary_key :: "str list"
  tb_foreign_keys :: "foreign_key list"
  tb_schema :: "str option"

record query_result =
  qr_sql :: str
  qr_columns :: "str list"
  qr_rows :: "pyval list"
  qr_row_count :: nat
  qr_limit_applied :: bool

record sanitized =
  sn_sql :: str
  sn_limit_applied :: bool

text \<open>Tokens as \<open>sqlparse\<close> classifies them.\<close>

record sql_token =
  tk_text :: str
  tk_whitespace :: bool
  tk_comment :: bool
  tk_keyword :: bool
  tk_normalized :: str

record sql_statement =
  sq_text :: str
  sq_type :: str
  sq_flat :: "sql_token list"
  sq_tokens :: "sql_token list"

type_synonym sql_parser = "str \<Rightarrow> sql_statement list"

section \<open>Function calls in the text\<close>

definition is_word :: "char \<Rightarrow> bool" where
  "is_word c \<longleftrightarrow> (let n = (of_char c :: nat) in (48 \<le> n \<and> n \<le> 57) \<or> (65 \<le> n \<and> n \<le> 90) \<or> n = 95
     \<or> (97 \<le> n \<and> n \<le> 122) \<or> n \<in> {170, 178, 179, 181, 185, 186, 188, 189, 190}
     \<or> (192 \<le> n \<and> n \<noteq> 215 \<and> n \<noteq> 247))"

definition is_ident_start :: "char \<Rightarrow> bool" where
  "is_ident_start c \<longleftrightarrow> is_lower_az c \<or> is_upper_az c \<or> c = CHR ''_''"

definition is_ident :: "char \<Rightarrow> bool" where
  "is_ident c \<longleftrightarrow> is_ident_start c \<or> is_digit c"

lemma length_dropWhile_tl: "length (tl (dropWhile p (dropWhile q (c # s)))) < Suc (length s)"
proof -
  have "length (dropWhile p (dropWhile q (c # s))) \<le> Suc (length s)"
    using length_dropWhile_le [of p "dropWhile q (c # s)"] length_dropWhile_le [of q "c # s"] by simp
  then show ?thesis by (simp only: length_tl)
qed

text \<open>\<open>finditer(r"\b([a-z_][a-z0-9_]*)\s*\(")\<close>, ignoring case; the flag says whether the character
  before is a word character.\<close>

function call_names :: "bool \<Rightarrow> str \<Rightarrow> str list" where
  "call_names after_word [] = []"
| "call_names after_word (c # s) =
     (if \<not> after_word \<and> is_ident_start c
      then (let name = takeWhile is_ident (c # s);
                rest = dropWhile is_space (dropWhile is_ident (c # s))
            in if rest \<noteq> [] \<and> hd rest = CHR ''('' then name # call_names False (tl rest)
               else call_names (is_word c) s)
      else call_names (is_word c) s)"
  by pat_completeness auto

termination
  by (relation "measure (\<lambda>(b, s). length s)")
     (simp_all only: wf_measure in_measure prod.case list.size(4) add_Suc_right add_0_right
        length_dropWhile_tl lessI)

section \<open>Sanitising\<close>

text \<open>\<open>str.upper\<close>; the two characters whose upper case is above code point 255 stay as they are.\<close>

definition upper_char :: "char \<Rightarrow> str" where
  "upper_char c = (let n = (of_char c :: nat) in
     if (97 \<le> n \<and> n \<le> 122) \<or> (224 \<le> n \<and> n \<le> 254 \<and> n \<noteq> 247) then [char_of (n - 32)]
     else if n = 223 then ''SS'' else [c])"

definition upper :: "str \<Rightarrow> str" where
  "upper s = concat (map upper_char s)"

abbreviation unsafe :: "str \<Rightarrow> 'a result" where
  "unsafe reason \<equiv> Inl (UnsafeSQLError, reason)"

fun check_keywords :: "str list \<Rightarrow> sql_token list \<Rightarrow> unit result" where
  "check_keywords blocked [] = Inr ()"
| "check_keywords blocked (t # ts) =
     (if tk_whitespace t \<or> tk_comment t then check_keywords blocked ts
      else if \<not> tk_keyword t then check_keywords blocked ts
      else case split_ws (upper (tk_normalized t)) of
             [] \<Rightarrow> Inl (OtherException ''IndexError'', ''list index out of range'')
           | keyword # _ \<Rightarrow>
               if keyword \<in> set blocked then unsafe (''Blocked unsafe SQL keyword: '' @ keyword @ ''.'')
               else check_keywords blocked ts)"

fun check_functions :: "str list \<Rightarrow> str list \<Rightarrow> unit result" where
  "check_functions blocked [] = Inr ()"
| "check_functions blocked (n # ns) =
     (if lower n \<in> set blocked then unsafe (''Blocked unsafe SQL function: '' @ lower n @ ''.'')
      else check_functions blocked ns)"

definition has_limit :: "sql_statement \<Rightarrow> bool" where
  "has_limit st \<longleftrightarrow> list_ex (\<lambda>t. tk_keyword t \<and> upper (tk_normalized t) = ''LIMIT'') (sq_tokens st)"

definition strip_trailing_comments :: "sql_parser \<Rightarrow> str \<Rightarrow> str result" where
  "strip_trailing_comments parse sql = (case parse sql of
     [] \<Rightarrow> Inl (OtherException ''IndexError'', ''tuple index out of range'')
   | st # _ \<Rightarrow> Inr (rstrip (concat (map tk_text
       (rev (dropWhile (\<lambda>t. tk_whitespace t \<or> tk_comment t) (rev (sq_tokens st))))))))"

definition append_row_limit :: "sql_parser \<Rightarrow> sandbox_config \<Rightarrow> str \<Rightarrow> str result" where
  "append_row_limit parse cfg sql =
     rbind (strip_trailing_comments parse (rstrip (rstrip_by (\<lambda>c. c = CHR '';'') (strip sql))))
       (\<lambda>body. Inr (body @ '' LIMIT '' @ int_text (sb_row_limit cfg)))"

definition sanitize_sql :: "sql_parser \<Rightarrow> sandbox_config \<Rightarrow> str \<Rightarrow> sanitized result" where
  "sanitize_sql parse cfg sql =
     (let stripped = strip sql in
      if stripped = [] then unsafe ''SQL query is empty.''
      else case filter (\<lambda>st. strip (sq_text st) \<noteq> []) (parse stripped) of
        [st] \<Rightarrow>
          (if upper (sq_type st) \<noteq> ''SELECT''
           then unsafe (''Only read-only SELECT statements are allowed; got '' @ upper (sq_type st) @ ''.'')
           else rbind (check_keywords (sb_blocked_keywords cfg) (sq_flat st)) (\<lambda>_.
             rbind (check_functions (sb_blocked_functions cfg) (call_names False (sq_text st))) (\<lambda>_.
               if \<not> sb_enforce_limit cfg \<or> has_limit st
               then Inr \<lparr>sn_sql = stripped, sn_limit_applied = False\<rparr>
               else rbind (append_row_limit parse cfg stripped) (\<lambda>limited.
                 Inr \<lparr>sn_sql = limited, sn_limit_applied = True\<rparr>))))
      | _ \<Rightarrow> unsafe ''Only one SQL statement may be executed at a time.'')"

section \<open>Execution\<close>

datatype db_call = Connect | Begin | Exec str | Rollback | Close

text \<open>How the database answers: connecting, beginning, executing a statement, rolling back and closing
  may each raise.\<close>

record database =
  da_connect :: "unit result"
  da_begin :: "unit result"
  da_exec :: "str \<Rightarrow> (str list \<times> pyval list) result"
  da_rollback :: "unit result"
  da_close :: "unit result"

text \<open>The \<open>finally\<close> block: an exception in it replaces the outcome.\<close>

definition finish :: "database \<Rightarrow> 'a result \<Rightarrow> 'a result \<times> db_call list" where
  "finish db res = (case da_rollback db of Inl e \<Rightarrow> (Inl e, [Rollback])
     | Inr _ \<Rightarrow> (case da_close db of Inl e \<Rightarrow> (Inl e, [Rollback, Close]) | Inr _ \<Rightarrow> (res, [Rollback, Close])))"

definition run_query :: "sandbox_config \<Rightarrow> database \<Rightarrow> sanitized \<Rightarrow> query_result result \<times> db_call list" where
  "run_query cfg db s =
     (case da_exec db (sb_read_only_sql cfg) of
        Inl e \<Rightarrow> (Inl e, [Exec (sb_read_only_sql cfg)])
      | Inr _ \<Rightarrow>
          (rbind (da_exec db (sn_sql s)) (\<lambda>(cols, rows).
             Inr \<lparr>qr_sql = sn_sql s, qr_columns = cols, qr_rows = rows, qr_row_count = length rows,
                  qr_limit_applied = sn_limit_applied s\<rparr>),
           [Exec (sb_read_only_sql cfg), Exec (sn_sql s)]))"

definition execute_sql ::
    "sql_parser \<Rightarrow> sandbox_config \<Rightarrow> database \<Rightarrow> str \<Rightarrow> query_result result \<times> db_call list" where
  "execute_sql parse cfg db sql =
     (case sanitize_sql parse cfg sql of
        Inl e \<Rightarrow> (Inl e, [])
      | Inr s \<Rightarrow>
          (case da_connect db of
             Inl e \<Rightarrow> (Inl e, [Connect])
           | Inr _ \<Rightarrow>
               (case da_begin db of
                  Inl e \<Rightarrow> (Inl e, [Connect, Begin])
                | Inr _ \<Rightarrow>
                    (let (res, calls) = run_query cfg db s; (out1, last) = finish db res
                     in (out1, [Connect, Begin] @ calls @ last)))))"

section \<open>Introspection\<close>

text \<open>What the SQLAlchemy inspector answers.\<close>

record inspector =
  in_tables :: "str list"
  in_pk :: "str \<Rightarrow> str list option"
  in_columns :: "str \<Rightarrow> (str \<times> str \<times> bool option) list"
  in_fks :: "str \<Rightarrow> (str list option \<times> str option \<times> str list option \<times> str option) list"

definition or_empty :: "'a list option \<Rightarrow> 'a list" where
  "or_empty x = (case x of None \<Rightarrow> [] | Some xs \<Rightarrow> xs)"

definition introspect_schema :: "inspector \<Rightarrow> str option \<Rightarrow> table_schema list" where
  "introspect_schema ins schema = map (\<lambda>t.
     let pk = or_empty (in_pk ins t) in
     \<lparr>tb_name = t,
      tb_columns = map (\<lambda>(n, ty, nullable). \<lparr>cs_name = n, cs_type = ty,
         cs_nullable = (case nullable of None \<Rightarrow> True | Some b \<Rightarrow> b), cs_primary = (n \<in> set pk)\<rparr>) (in_columns ins t),
      tb_primary_key = pk,
      tb_foreign_keys = map (\<lambda>(cols, tab, refs, n). \<lparr>fk_columns = or_empty cols, fk_table = tab,
         fk_referred = or_empty refs, fk_name = n\<rparr>) (in_fks ins t),
      tb_schema = schema\<rparr>) (in_tables ins)"

section \<open>The scan finds every call\<close>

lemma ident_is_word: "is_ident c \<Longrightarrow> is_word c"
  by (auto simp: is_ident_def is_ident_start_def is_word_def is_lower_az_def is_upper_az_def is_digit_def Let_def)

lemma ident_not_space: "is_ident c \<Longrightarrow> \<not> is_space c"
  by (auto simp: is_ident_def is_ident_start_def is_space_def is_lower_az_def is_upper_az_def is_digit_def Let_def)

lemma paren_char: "\<not> is_ident (CHR ''('')" "\<not> is_word (CHR ''('')" "\<not> is_space (CHR ''('')"
  by (simp_all add: is_ident_def is_ident_start_def is_word_def is_lower_az_def is_upper_az_def is_digit_def
      is_space_def)

lemma space_not_word: "is_space c \<Longrightarrow> \<not> is_word c"
  by (auto simp: is_space_def is_word_def Let_def)

text \<open>A call position: an identifier that is not preceded by a word character, blanks, and a parenthesis.\<close>

definition is_identifier :: "str \<Rightarrow> bool" where
  "is_identifier name \<longleftrightarrow> name \<noteq> [] \<and> is_ident_start (hd name) \<and> list_all is_ident name"

definition starts_call :: "str \<Rightarrow> str \<Rightarrow> bool" where
  "starts_call name s \<longleftrightarrow> is_identifier name \<and>
     (\<exists>ws b. s = name @ ws @ CHR ''('' # b \<and> list_all is_space ws)"

definition occurs_call :: "bool \<Rightarrow> str \<Rightarrow> str \<Rightarrow> bool" where
  "occurs_call after_word name s \<longleftrightarrow> (\<exists>a t. s = a @ t \<and> starts_call name t \<and>
     \<not> (if a = [] then after_word else is_word (last a)))"

lemma starts_call_scan:
  assumes "starts_call name s"
  shows "takeWhile is_ident s = name"
    and "\<exists>b. dropWhile is_space (dropWhile is_ident s) = CHR ''('' # b"
    and "\<not> is_word (hd (dropWhile is_ident s))"
proof -
  from assms obtain ws b where s: "s = name @ ws @ CHR ''('' # b" and ws: "list_all is_space ws"
    and n: "list_all is_ident name" by (auto simp: starts_call_def is_identifier_def)
  have n': "x \<in> set name \<Longrightarrow> is_ident x" for x using n by (simp add: list_all_iff)
  have tail: "takeWhile is_ident (ws @ CHR ''('' # b) = [] \<and> dropWhile is_ident (ws @ CHR ''('' # b) = ws @ CHR ''('' # b"
    using ws ident_not_space paren_char by (cases ws) auto
  show "takeWhile is_ident s = name" unfolding s using tail n' by (simp add: takeWhile_append2)
  have d: "dropWhile is_ident s = ws @ CHR ''('' # b" unfolding s using tail n' by (simp add: dropWhile_append2)
  have "dropWhile is_space (ws @ CHR ''('' # b) = CHR ''('' # b"
    using ws paren_char by (induction ws) auto
  with d show "\<exists>b. dropWhile is_space (dropWhile is_ident s) = CHR ''('' # b" by simp
  show "\<not> is_word (hd (dropWhile is_ident s))"
    unfolding d using ws space_not_word paren_char by (cases ws) auto
qed

lemma occurs_call_Cons: "occurs_call w name (c # s) \<longleftrightarrow>
    (\<not> w \<and> starts_call name (c # s)) \<or> occurs_call (is_word c) name s"
proof
  assume "occurs_call w name (c # s)"
  then obtain a t where at: "c # s = a @ t" "starts_call name t" "\<not> (if a = [] then w else is_word (last a))"
    by (auto simp: occurs_call_def)
  show "(\<not> w \<and> starts_call name (c # s)) \<or> occurs_call (is_word c) name s"
  proof (cases a)
    case (Cons x a')
    with at have "s = a' @ t" "\<not> (if a' = [] then is_word c else is_word (last a'))" by auto
    with at(2) show ?thesis unfolding occurs_call_def by blast
  qed (use at in auto)
next
  assume "(\<not> w \<and> starts_call name (c # s)) \<or> occurs_call (is_word c) name s"
  then show "occurs_call w name (c # s)"
  proof
    assume "\<not> w \<and> starts_call name (c # s)"
    then show ?thesis unfolding occurs_call_def by (intro exI [of _ "[]"] exI [of _ "c # s"]) auto
  next
    assume "occurs_call (is_word c) name s"
    then obtain a t where "s = a @ t" "starts_call name t" "\<not> (if a = [] then is_word c else is_word (last a))"
      by (auto simp: occurs_call_def)
    then show ?thesis unfolding occurs_call_def by (intro exI [of _ "c # a"] exI [of _ t]) auto
  qed
qed

lemma occurs_call_empty: "\<not> occurs_call w name []"
  by (auto simp: occurs_call_def starts_call_def is_identifier_def)

text \<open>Nothing is missed inside a matched call: an identifier that starts inside it continues to its end.\<close>

lemma occurs_after_word_prefix:
  "\<forall>c \<in> set p. is_word c \<Longrightarrow> p \<noteq> [] \<Longrightarrow> occurs_call True name (p @ r) \<longleftrightarrow> occurs_call True name r"
proof (induction p)
  case (Cons c p)
  then show ?case by (cases "p = []") (simp_all add: occurs_call_Cons)
qed simp

lemma occurs_spaces:
  "list_all is_space ws \<Longrightarrow> occurs_call w name (ws @ CHR ''('' # r) \<longleftrightarrow> occurs_call False name r"
proof (induction ws arbitrary: w)
  case Nil
  have "\<not> starts_call name (CHR ''('' # r)" using paren_char(1)
    by (auto simp: starts_call_def is_identifier_def Cons_eq_append_conv)
  then show ?case using paren_char(2) by (simp add: occurs_call_Cons)
next
  case (Cons c ws)
  have "\<not> starts_call name (c # x)" for x
    using Cons.prems ident_not_space by (auto simp: starts_call_def is_identifier_def Cons_eq_append_conv)
  with Cons space_not_word show ?case by (simp add: occurs_call_Cons)
qed

lemma call_names_exact: "set (call_names w s) = {name. occurs_call w name s}"
proof (induction w s rule: call_names.induct)
  case (1 w)
  then show ?case by (simp add: occurs_call_empty)
next
  case (2 w c s)
  define rest where "rest = dropWhile is_space (dropWhile is_ident (c # s))"
  show ?case
  proof (cases "\<not> w \<and> is_ident_start c \<and> rest \<noteq> [] \<and> hd rest = CHR ''(''")
    case True
    define name where "name = takeWhile is_ident (c # s)"
    define ws where "ws = takeWhile is_space (dropWhile is_ident (c # s))"
    from True have rest: "rest = CHR ''('' # tl rest" by (cases rest) auto
    have split: "c # s = name @ ws @ CHR ''('' # tl rest"
      unfolding name_def ws_def using rest rest_def by (metis takeWhile_dropWhile_id)
    have cid: "is_ident c" using True by (simp add: is_ident_def)
    obtain nm where nm: "name = c # nm" using cid by (simp add: name_def)
    have idn: "list_all is_ident name" unfolding name_def by (auto simp: list_all_iff dest: set_takeWhileD)
    have wss: "list_all is_space ws" unfolding ws_def by (auto simp: list_all_iff dest: set_takeWhileD)
    have st: "starts_call name (c # s)"
      using True nm idn wss split unfolding starts_call_def is_identifier_def by auto
    have "call_names w (c # s) = name # call_names False (tl rest)"
      using True by (simp add: rest_def name_def Let_def)
    moreover have "set (call_names False (tl rest)) = {n. occurs_call False n (tl rest)}"
      using 2(1) True by (simp add: rest_def)
    moreover have "occurs_call w n (c # s) \<longleftrightarrow> n = name \<or> occurs_call False n (tl rest)" for n
    proof -
      have "starts_call n (c # s) \<longleftrightarrow> n = name"
        using st starts_call_scan(1) by (metis name_def)
      moreover have "occurs_call (is_word c) n s \<longleftrightarrow> occurs_call False n (tl rest)"
      proof -
        have wc: "is_word c" using cid ident_is_word by simp
        have "s = nm @ ws @ CHR ''('' # tl rest" using split nm by simp
        moreover have "\<forall>x \<in> set nm. is_word x" using idn nm ident_is_word by (auto simp: list_all_iff)
        ultimately show ?thesis
          using occurs_after_word_prefix [of nm n] occurs_spaces [OF wss, of True n "tl rest"] wc
          by (cases "nm = []") simp_all
      qed
      ultimately show ?thesis using True by (simp add: occurs_call_Cons)
    qed
    ultimately show ?thesis by auto
  next
    case False
    have no: "\<not> (\<not> w \<and> starts_call n (c # s))" for n
    proof
      assume a: "\<not> w \<and> starts_call n (c # s)"
      then have "is_ident_start c" by (cases n) (auto simp: starts_call_def is_identifier_def)
      moreover obtain b where "rest = CHR ''('' # b" using a starts_call_scan(2) [of n "c # s"] rest_def by auto
      ultimately show False using a False by simp
    qed
    have "call_names w (c # s) = call_names (is_word c) s"
      using False by (auto simp: rest_def Let_def)
    moreover have "set (call_names (is_word c) s) = {n. occurs_call (is_word c) n s}"
      using 2(2,3) False by (cases "\<not> w \<and> is_ident_start c") (auto simp: rest_def)
    ultimately show ?thesis using no by (auto simp: occurs_call_Cons simp del: call_names.simps)
  qed
qed

section \<open>What sanitising accepts\<close>

text \<open>The policy as a predicate: the input is one SELECT statement without a blocked keyword and without
  a call of a blocked function.\<close>

definition keyword_allowed :: "str list \<Rightarrow> sql_token \<Rightarrow> bool" where
  "keyword_allowed blocked t \<longleftrightarrow> tk_whitespace t \<or> tk_comment t \<or> \<not> tk_keyword t
     \<or> (case split_ws (upper (tk_normalized t)) of [] \<Rightarrow> False | k # _ \<Rightarrow> k \<notin> set blocked)"

definition permitted :: "sql_parser \<Rightarrow> sandbox_config \<Rightarrow> str \<Rightarrow> sql_statement \<Rightarrow> bool" where
  "permitted parse cfg sql st \<longleftrightarrow> strip sql \<noteq> []
     \<and> filter (\<lambda>x. strip (sq_text x) \<noteq> []) (parse (strip sql)) = [st]
     \<and> upper (sq_type st) = ''SELECT''
     \<and> list_all (keyword_allowed (sb_blocked_keywords cfg)) (sq_flat st)
     \<and> (\<forall>name. occurs_call False name (sq_text st) \<longrightarrow> lower name \<notin> set (sb_blocked_functions cfg))"

lemma check_keywords_ok: "check_keywords blocked ts = Inr () \<longleftrightarrow> list_all (keyword_allowed blocked) ts"
proof (induction blocked ts rule: check_keywords.induct)
  case (2 blocked t ts)
  then show ?case by (cases "split_ws (upper (tk_normalized t))") (auto simp: keyword_allowed_def)
qed simp

lemma check_functions_ok: "check_functions blocked ns = Inr () \<longleftrightarrow> (\<forall>n \<in> set ns. lower n \<notin> set blocked)"
  by (induction blocked ns rule: check_functions.induct) auto

lemma check_calls_ok: "check_functions blocked (call_names False s) = Inr () \<longleftrightarrow>
    (\<forall>name. occurs_call False name s \<longrightarrow> lower name \<notin> set blocked)"
  by (auto simp: check_functions_ok call_names_exact)

lemma sanitize_permitted:
  "permitted parse cfg sql st \<Longrightarrow> sanitize_sql parse cfg sql =
     (if \<not> sb_enforce_limit cfg \<or> has_limit st then Inr \<lparr>sn_sql = strip sql, sn_limit_applied = False\<rparr>
      else rbind (append_row_limit parse cfg (strip sql)) (\<lambda>l. Inr \<lparr>sn_sql = l, sn_limit_applied = True\<rparr>))"
  by (simp add: sanitize_sql_def permitted_def check_keywords_ok [THEN iffD2]
      check_calls_ok [THEN iffD2] Let_def)

lemma sanitize_Inr_permitted:
  assumes "sanitize_sql parse cfg sql = Inr out1"
  obtains st where "permitted parse cfg sql st"
proof -
  from assms obtain st where f: "filter (\<lambda>st. strip (sq_text st) \<noteq> []) (parse (strip sql)) = [st]"
    and ne: "strip sql \<noteq> []"
    by (auto simp: sanitize_sql_def Let_def split: if_splits list.splits)
  with assms have "upper (sq_type st) = ''SELECT''"
    "check_keywords (sb_blocked_keywords cfg) (sq_flat st) = Inr ()"
    "check_functions (sb_blocked_functions cfg) (call_names False (sq_text st)) = Inr ()"
    by (auto simp: sanitize_sql_def Let_def rbind_eq_Inr split: if_splits)
  with f ne have "permitted parse cfg sql st"
    by (simp add: permitted_def check_keywords_ok check_calls_ok)
  then show thesis by (rule that)
qed


text \<open>A parser that answers one statement, for the concrete runs.\<close>

definition word_token :: "str \<Rightarrow> bool \<Rightarrow> sql_token" where
  "word_token w key = \<lparr>tk_text = w, tk_whitespace = (w = '' ''), tk_comment = False, tk_keyword = key,
     tk_normalized = w\<rparr>"

definition ex_sql :: str where
  "ex_sql = ''SELECT now()''"

definition ex_parser :: sql_parser where
  "ex_parser s = (let ts = [word_token ''SELECT'' True, word_token '' '' False, word_token ''now()'' False]
     in [\<lparr>sq_text = s, sq_type = ''SELECT'', sq_flat = ts, sq_tokens = ts\<rparr>])"

lemma ex_sanitized: "sanitize_sql ex_parser default_config ex_sql
    = Inr \<lparr>sn_sql = ''SELECT now() LIMIT 1000'', sn_limit_applied = True\<rparr>"
  by code_simp


section \<open>What execution does to the database\<close>

definition statements :: "db_call list \<Rightarrow> str list" where
  "statements calls = concat (map (\<lambda>c. case c of Exec s \<Rightarrow> [s] | _ \<Rightarrow> []) calls)"

lemma finish_calls: "finish db res = (r, cs) \<Longrightarrow> cs = [Rollback] \<or> cs = [Rollback, Close]"
  by (auto simp: finish_def split: sum.splits)

lemma finish_Inr: "finish db res = (Inr q, cs) \<Longrightarrow> res = Inr q \<and> cs = [Rollback, Close]"
  by (auto simp: finish_def split: sum.splits)

lemma run_query_calls: "run_query cfg db s = (r, cs) \<Longrightarrow>
    cs = [Exec (sb_read_only_sql cfg)] \<or> cs = [Exec (sb_read_only_sql cfg), Exec (sn_sql s)]"
  by (auto simp: run_query_def split: sum.splits)

lemma run_query_Inr: "run_query cfg db s = (Inr q, cs) \<Longrightarrow>
    cs = [Exec (sb_read_only_sql cfg), Exec (sn_sql s)] \<and>
    da_exec db (sn_sql s) = Inr (qr_columns q, qr_rows q) \<and> qr_sql q = sn_sql s \<and>
    qr_row_count q = length (qr_rows q) \<and> qr_limit_applied q = sn_limit_applied s"
  by (auto simp: run_query_def rbind_eq_Inr split: sum.splits)

lemma execute_Inr:
  assumes "sanitize_sql parse cfg sql = Inr s" "da_connect db = Inr ()" "da_begin db = Inr ()"
  obtains r cs r' l where "run_query cfg db s = (r, cs)" "finish db r = (r', l)"
    "execute_sql parse cfg db sql = (r', [Connect, Begin] @ cs @ l)"
  using assms by (cases "run_query cfg db s"; cases "finish db (fst (run_query cfg db s))")
    (auto simp: execute_sql_def Let_def)


text \<open>A result is the database's answer to the sanitised text: the calls were connect, begin, the
  two statements, rollback and close, and the row count is the number of rows.\<close>
theorem execute_result:
  assumes "execute_sql parse cfg db sql = (Inr q, calls)"
  shows "\<exists>s. sanitize_sql parse cfg sql = Inr s
    \<and> calls = [Connect, Begin, Exec (sb_read_only_sql cfg), Exec (sn_sql s), Rollback, Close]
    \<and> da_exec db (sn_sql s) = Inr (qr_columns q, qr_rows q) \<and> qr_sql q = sn_sql s
    \<and> qr_row_count q = length (qr_rows q) \<and> qr_limit_applied q = sn_limit_applied s"
proof -
  from assms obtain s where s: "sanitize_sql parse cfg sql = Inr s" "da_connect db = Inr ()"
    "da_begin db = Inr ()" by (auto simp: execute_sql_def split: sum.splits)
  then obtain r cs r' l where run: "run_query cfg db s = (r, cs)" "finish db r = (r', l)"
    "execute_sql parse cfg db sql = (r', [Connect, Begin] @ cs @ l)" by (blast elim: execute_Inr)
  with assms have "r' = Inr q" "calls = [Connect, Begin] @ cs @ l" by auto
  with run finish_Inr [of db r q l] have fin: "r = Inr q" "l = [Rollback, Close]" by auto
  with run run_query_Inr [of cfg db s q cs] have "cs = [Exec (sb_read_only_sql cfg), Exec (sn_sql s)]"
    "da_exec db (sn_sql s) = Inr (qr_columns q, qr_rows q)" "qr_sql q = sn_sql s"
    "qr_row_count q = length (qr_rows q)" "qr_limit_applied q = sn_limit_applied s" by auto
  with s \<open>calls = _\<close> fin show ?thesis by simp
qed

definition ex_database :: database where
  "ex_database = \<lparr>da_connect = Inr (), da_begin = Inr (),
     da_exec = (\<lambda>s. if s = ''SELECT now() LIMIT 1000'' then Inr ([''now''], [PNone, PNone]) else Inr ([], [])),
     da_rollback = Inr (), da_close = Inr ()\<rparr>"

lemma ex_execution: "execute_sql ex_parser default_config ex_database ex_sql
    = (Inr \<lparr>qr_sql = ''SELECT now() LIMIT 1000'', qr_columns = [''now''], qr_rows = [PNone, PNone],
          qr_row_count = 2, qr_limit_applied = True\<rparr>,
       [Connect, Begin, Exec ''SET TRANSACTION READ ONLY'', Exec ''SELECT now() LIMIT 1000'', Rollback, Close])"
proof -
  have "sb_read_only_sql default_config = ''SET TRANSACTION READ ONLY''" by (simp add: default_config_def)
  then show ?thesis
    by (simp add: execute_sql_def ex_sanitized run_query_def finish_def ex_database_def)
qed

lemma execute_result_witness:
  "\<exists>s. sanitize_sql ex_parser default_config ex_sql = Inr s \<and> da_exec ex_database (sn_sql s) = Inr ([''now''], [PNone, PNone])"
  using execute_result [OF ex_execution] by auto

text \<open>C40. The scan for calls reports exactly the names that are called: an identifier at a word boundary,
  blanks, and an opening parenthesis, at any position of the text.\<close>
theorem call_scan_exact: "set (call_names False s) = {name. occurs_call False name s}"
  by (rule call_names_exact)

text \<open>A call whose name is quoted, or followed by a comment, is not such a position, so a blocked function
  written that way passes.\<close>

lemma quoted_call_missed: "call_names False ''SELECT \"pg_sleep\"(10)'' = []"
  by code_simp

lemma commented_call_missed: "call_names False ''SELECT pg_sleep/**/(10)'' = []"
  by code_simp

text \<open>A limit of the statement's own is accepted however large it is.\<close>

definition ex_limited_parser :: sql_parser where
  "ex_limited_parser s = (let ts = [word_token ''SELECT'' True, word_token '' '' False, word_token ''1'' False,
      word_token '' '' False, word_token ''LIMIT'' True, word_token '' '' False, word_token ''999999'' False]
     in [\<lparr>sq_text = s, sq_type = ''SELECT'', sq_flat = ts, sq_tokens = ts\<rparr>])"

lemma own_limit_kept: "sanitize_sql ex_limited_parser default_config ''SELECT 1 LIMIT 999999''
    = Inr \<lparr>sn_sql = ''SELECT 1 LIMIT 999999'', sn_limit_applied = False\<rparr>"
  by code_simp

end
