(* ===== verification/Retrieval.thy ===== *)
theory Retrieval
  imports Encoding
begin

text \<open>
  Hybrid retrieval, \<open>services-runtime/src/rag/retrieval.py\<close>: the tokenizer, the lexical index with its
  fallback scoring, hash embeddings and cosine reranking, reciprocal rank fusion, and the retriever that
  keeps a process-local lexical corpus in step with a persistent vector store. A float is a real number.
  The embedding provider, the Qdrant client, the \<open>rank_bm25\<close> package and the cross encoder are parameters;
  a call of theirs may raise and may change the world.
\<close>

section \<open>Tokens\<close>

definition is_tok :: "char \<Rightarrow> bool" where
  "is_tok c \<longleftrightarrow> is_lower_az c \<or> is_upper_az c \<or> is_digit c \<or> c = CHR ''_''"

definition is_sep :: "char \<Rightarrow> bool" where
  "is_sep c \<longleftrightarrow> c \<in> set ''.-/:''"

lemma dropWhile_Cons_length: "dropWhile p s = c # t \<Longrightarrow> length t < length s"
  using length_dropWhile_le [of p s] by simp

text \<open>One match of \<open>[A-Za-z0-9_]+(?:[.\-/:][A-Za-z0-9_]+)*\<close> at the head of the text.\<close>

function scan_token :: "str \<Rightarrow> str \<times> str" where
  "scan_token s =
     (let w = takeWhile is_tok s; r = dropWhile is_tok s in
      case r of [] \<Rightarrow> (w, [])
      | c # t \<Rightarrow> if is_sep c \<and> t \<noteq> [] \<and> is_tok (hd t)
                 then (let (m, rest) = scan_token t in (w @ c # m, rest)) else (w, r))"
  by pat_completeness auto

termination
  by (relation "measure length") (auto dest: dropWhile_Cons_length [OF sym])

declare scan_token.simps [simp del]

lemma scan_token_append: "scan_token s = (m, rest) \<Longrightarrow> s = m @ rest"
proof (induction s arbitrary: m rest rule: scan_token.induct)
  case (1 s)
  show ?case
  proof (cases "dropWhile is_tok s")
    case Nil
    with 1(2) have "m = takeWhile is_tok s" "rest = []" by (simp_all add: scan_token.simps [of s] Let_def)
    with Nil show ?thesis by (metis takeWhile_dropWhile_id)
  next
    case (Cons c t)
    have s: "s = takeWhile is_tok s @ c # t" using Cons by (metis takeWhile_dropWhile_id)
    show ?thesis
    proof (cases "is_sep c \<and> t \<noteq> [] \<and> is_tok (hd t)")
      case True
      obtain m' r' where st: "scan_token t = (m', r')" by fastforce
      with True Cons 1(2) have "m = takeWhile is_tok s @ c # m'" "rest = r'"
        by (simp_all add: scan_token.simps [of s] Let_def)
      with s 1(1) [OF refl refl Cons True st] show ?thesis by simp
    next
      case False
      with Cons 1(2) have "m = takeWhile is_tok s" "rest = c # t"
        by (auto simp: scan_token.simps [of s] Let_def)
      with s show ?thesis by simp
    qed
  qed
qed

lemma scan_token_nonempty: "scan_token (c # s) = (m, rest) \<Longrightarrow> is_tok c \<Longrightarrow> m \<noteq> []"
  by (auto simp: scan_token.simps [of "c # s"] Let_def split: list.splits if_splits prod.splits)

lemma scan_token_shorter: "is_tok c \<Longrightarrow> length (snd (scan_token (c # s))) < Suc (length s)"
proof -
  assume a: "is_tok c"
  obtain m rest where m: "scan_token (c # s) = (m, rest)" by fastforce
  from scan_token_append [OF m] scan_token_nonempty [OF m a] show ?thesis
    unfolding m by (cases m) auto
qed

text \<open>\<open>finditer\<close> over the whole text.\<close>

function find_tokens :: "str \<Rightarrow> str list" where
  "find_tokens [] = []"
| "find_tokens (c # s) =
     (if is_tok c then fst (scan_token (c # s)) # find_tokens (snd (scan_token (c # s)))
      else find_tokens s)"
  by pat_completeness auto

termination
  by (relation "measure length") (auto intro: scan_token_shorter)

text \<open>\<open>re.split(r"[.\-/:]", token)\<close>.\<close>

fun split_seps :: "str \<Rightarrow> str list" where
  "split_seps [] = [[]]"
| "split_seps (c # s) =
     (if is_sep c then [] # split_seps s
      else (case split_seps s of [] \<Rightarrow> [[c]] | w # ws \<Rightarrow> (c # w) # ws))"

definition emit_token :: "str \<Rightarrow> str list" where
  "emit_token raw = (let token = lower raw; parts = split_seps token in
     token # (if 1 < length parts then filter (\<lambda>p. p \<noteq> [] \<and> p \<noteq> token) parts else []))"

definition tokenize :: "str \<Rightarrow> str list" where
  "tokenize s = concat (map emit_token (find_tokens s))"

text \<open>\<open>re.search(r"[a-z][A-Z]", token)\<close>.\<close>

fun camel_case :: "str \<Rightarrow> bool" where
  "camel_case (a # b # s) = (is_lower_az a \<and> is_upper_az b \<or> camel_case (b # s))"
| "camel_case _ = False"

definition technical_tokens :: "str \<Rightarrow> str list" where
  "technical_tokens s = remdups (map lower
     (filter (\<lambda>t. list_ex (\<lambda>c. c \<in> set ''._-/:'') t \<or> camel_case t) (find_tokens s)))"

definition technical_match_count :: "str list \<Rightarrow> str \<Rightarrow> nat" where
  "technical_match_count tokens s = length (filter (\<lambda>t. contains t (lower s)) tokens)"

section \<open>Chunks and hits\<close>

record text_chunk =
  ch_id :: str
  ch_text :: str
  ch_source :: str
  ch_metadata :: "pyval dict"

record search_hit =
  hit_chunk :: text_chunk
  hit_score :: real

record retrieval_result =
  rr_chunk_id :: str
  rr_text :: str
  rr_source :: str
  rr_metadata :: "pyval dict"
  rr_marker :: str
  rr_score :: real
  rr_dense_rank :: "nat option"
  rr_sparse_rank :: "nat option"
  rr_rrf_score :: real
  rr_rerank_score :: real

record fused_candidate =
  fc_chunk :: text_chunk
  fc_score :: real
  fc_dense :: "nat option"
  fc_sparse :: "nat option"

section \<open>Lexical scoring\<close>

definition term_count :: "str list \<Rightarrow> str \<Rightarrow> nat" where
  "term_count doc t = count_list doc t"

definition document_freq :: "str list list \<Rightarrow> str \<Rightarrow> nat" where
  "document_freq corpus t = length (filter (\<lambda>d. t \<in> set d) corpus)"

definition average_length :: "str list list \<Rightarrow> real" where
  "average_length corpus = (if corpus = [] then 0
     else of_nat (sum_list (map length corpus)) / of_nat (length corpus))"

definition idf :: "str list list \<Rightarrow> str \<Rightarrow> real" where
  "idf corpus t = (let freq = document_freq corpus t in
     if freq = 0 then 0
     else ln (1 + (of_nat (length corpus) - of_nat freq + 1 / 2) / (of_nat freq + 1 / 2)))"

text \<open>\<open>_SimpleBM25.get_scores\<close> with \<open>k1 = 1.5\<close> and \<open>b = 0.75\<close>.\<close>

definition bm25_term :: "str list list \<Rightarrow> str list \<Rightarrow> str \<Rightarrow> real" where
  "bm25_term corpus doc t = (let f = of_nat (term_count doc t) :: real in
     if f = 0 then 0
     else idf corpus t * f * (3 / 2 + 1) /
       (f + 3 / 2 * (1 - 3 / 4 + 3 / 4 * of_nat (length doc) /
          (if average_length corpus = 0 then 1 else average_length corpus))))"

definition simple_bm25 :: "str list list \<Rightarrow> str list \<Rightarrow> real list" where
  "simple_bm25 corpus query = map (\<lambda>doc. sum_list (map (bm25_term corpus doc) query)) corpus"

text \<open>The index: chunks with their tokens. The third-party scorer, when it can be imported, is a
  parameter of type \<open>(corpus \<Rightarrow> query \<Rightarrow> scores) option\<close>.\<close>

type_synonym bm25 = "(str list list \<Rightarrow> str list \<Rightarrow> real list) option"

record sparse_index =
  si_chunks :: "text_chunk list"
  si_tokens :: "str list list"
  si_built :: bool

definition empty_index :: sparse_index where
  "empty_index = \<lparr>si_chunks = [], si_tokens = [], si_built = False\<rparr>"

definition has_chunks :: "sparse_index \<Rightarrow> bool" where
  "has_chunks i \<longleftrightarrow> si_chunks i \<noteq> []"

definition rebuild :: "text_chunk list \<Rightarrow> sparse_index" where
  "rebuild cs = \<lparr>si_chunks = cs, si_tokens = map (\<lambda>c. tokenize (ch_text c)) cs, si_built = True\<rparr>"

definition sparse_replace :: "text_chunk list \<Rightarrow> sparse_index" where
  "sparse_replace cs = rebuild cs"

definition by_id :: "text_chunk list \<Rightarrow> (str \<times> text_chunk) list" where
  "by_id cs = fold (\<lambda>c. dict_set (ch_id c) c) cs []"

definition sparse_upsert :: "text_chunk list \<Rightarrow> sparse_index \<Rightarrow> sparse_index" where
  "sparse_upsert cs i = rebuild (map snd (fold (\<lambda>c. dict_set (ch_id c) c) cs (by_id (si_chunks i))))"

definition index_scores :: "bm25 \<Rightarrow> sparse_index \<Rightarrow> str list \<Rightarrow> real list" where
  "index_scores okapi i query =
     (let scores = (if si_tokens i = [] then simple_bm25 (si_tokens i) query
                    else case okapi of None \<Rightarrow> simple_bm25 (si_tokens i) query
                         | Some f \<Rightarrow> f (si_tokens i) query)
      in if list_ex (\<lambda>x. 0 < x) scores then scores else simple_bm25 (si_tokens i) query)"

fun collect_hits :: "text_chunk list \<Rightarrow> (nat \<times> real) list \<Rightarrow> search_hit list result" where
  "collect_hits cs [] = Inr []"
| "collect_hits cs ((n, x) # r) =
     (if 0 < x
      then (if n < length cs
            then rbind (collect_hits cs r) (\<lambda>hs. Inr (\<lparr>hit_chunk = cs ! n, hit_score = x\<rparr> # hs))
            else Inl (OtherException ''IndexError'', ''list index out of range''))
      else collect_hits cs r)"

definition sparse_search :: "bm25 \<Rightarrow> sparse_index \<Rightarrow> str \<Rightarrow> int \<Rightarrow> search_hit list result" where
  "sparse_search okapi i query limit =
     (if si_chunks i = [] \<or> \<not> si_built i then Inr []
      else collect_hits (si_chunks i) (py_prefix limit
        (sorted_desc (\<lambda>(n, x). (x, - int n)) (enumerate 0 (index_scores okapi i (tokenize query))))))"

section \<open>Hash embeddings and cosine reranking\<close>

text \<open>\<open>collections.Counter\<close>: the distinct items in order of first occurrence, with their counts.\<close>

definition counter :: "'a list \<Rightarrow> ('a \<times> nat) list" where
  "counter xs = map (\<lambda>t. (t, count_list xs t)) (rev (remdups (rev xs)))"

definition counter_get :: "('a \<times> nat) list \<Rightarrow> 'a \<Rightarrow> nat" where
  "counter_get c t = (case map_of c t of None \<Rightarrow> 0 | Some n \<Rightarrow> n)"

definition norm_of :: "real list \<Rightarrow> real" where
  "norm_of xs = sqrt (sum_list (map (\<lambda>x. x * x) xs))"

text \<open>\<open>int.from_bytes(bs, "big")\<close>.\<close>

definition big_endian :: "str \<Rightarrow> nat" where
  "big_endian bs = foldl (\<lambda>n c. 256 * n + of_char c) 0 bs"

text \<open>The SHA-256 digest of a byte string is a parameter: 32 bytes.\<close>

definition add_feature :: "(str \<Rightarrow> str) \<Rightarrow> nat \<Rightarrow> str \<Rightarrow> nat \<Rightarrow> nat \<Rightarrow> real list \<Rightarrow> real list" where
  "add_feature sha256 width token occ offset v =
     (let digest = sha256 (utf8_encode token);
          index = big_endian (take 8 (drop offset digest)) mod width;
          sign = (if odd (of_char (digest ! (offset + 16)) :: nat) then 1 else - 1 :: real)
      in v[index := v ! index + sign * of_nat occ])"

definition feature_vector :: "(str \<Rightarrow> str) \<Rightarrow> nat \<Rightarrow> str \<Rightarrow> real list" where
  "feature_vector sha256 width s =
     fold (\<lambda>(token, occ) v. add_feature sha256 width token occ 8 (add_feature sha256 width token occ 0 v))
       (counter (tokenize s)) (replicate width 0)"

definition hash_embed_one :: "(str \<Rightarrow> str) \<Rightarrow> nat \<Rightarrow> str \<Rightarrow> real list" where
  "hash_embed_one sha256 width s =
     (let v = feature_vector sha256 width s; norm = norm_of v in
      if norm = 0
      then v[big_endian (take 8 (sha256 (utf8_encode s))) mod width := 1]
      else map (\<lambda>x. x / norm) v)"

definition hash_embed :: "(str \<Rightarrow> str) \<Rightarrow> int \<Rightarrow> str list \<Rightarrow> real list list result" where
  "hash_embed sha256 width ts =
     (if width \<le> 0 then Inl (ValueError, ''Hash embedding vector size must be positive.'')
      else Inr (map (hash_embed_one sha256 (nat width)) ts))"

definition count_norm :: "('a \<times> nat) list \<Rightarrow> real" where
  "count_norm c = sqrt (of_nat (sum_list (map (\<lambda>(t, n). n * n) c)))"

definition lexical_score :: "str \<Rightarrow> text_chunk list \<Rightarrow> real list" where
  "lexical_score query chunks =
     (let q = counter (tokenize query) in
      if count_norm q = 0 then map (\<lambda>_. 0) chunks
      else map (\<lambda>chunk. let d = counter (tokenize (ch_text chunk)) in
             if count_norm d = 0 then 0
             else of_nat (sum_list (map (\<lambda>(t, n). n * counter_get d t) q)) / (count_norm q * count_norm d)) chunks)"

section \<open>Rank fusion\<close>

record rag_config =
  rg_dense_limit :: int
  rg_sparse_limit :: int
  rg_rrf_k :: int
  rg_rerank_limit :: int
  rg_dense_weight :: real
  rg_sparse_weight :: real
  rg_keyword_priority :: bool

definition default_rag_config :: rag_config where
  "default_rag_config = \<lparr>rg_dense_limit = 40, rg_sparse_limit = 40, rg_rrf_k = 60, rg_rerank_limit = 20,
     rg_dense_weight = 1, rg_sparse_weight = 1, rg_keyword_priority = True\<rparr>"

definition new_candidate :: "text_chunk \<Rightarrow> fused_candidate" where
  "new_candidate c = \<lparr>fc_chunk = c, fc_score = 0, fc_dense = None, fc_sparse = None\<rparr>"

text \<open>One ranked list: every hit sets its rank and adds \<open>weight / (k + rank)\<close> to its candidate.\<close>

fun rrf_pass :: "(nat \<Rightarrow> fused_candidate \<Rightarrow> fused_candidate) \<Rightarrow> real \<Rightarrow> int \<Rightarrow> nat \<Rightarrow> search_hit list
    \<Rightarrow> (str \<times> fused_candidate) list \<Rightarrow> (str \<times> fused_candidate) list result" where
  "rrf_pass set_rank weight k rank [] fused = Inr fused"
| "rrf_pass set_rank weight k rank (h # hs) fused =
     (let cid = ch_id (hit_chunk h);
          d = dict_setdefault cid (new_candidate (hit_chunk h)) fused;
          c = set_rank rank (the (map_of d cid))
      in if k + int rank = 0 then Inl (OtherException ''ZeroDivisionError'', ''division by zero'')
         else rrf_pass set_rank weight k (rank + 1) hs
           (dict_set cid (c\<lparr>fc_score := fc_score c + weight / of_int (k + int rank)\<rparr>) d))"

definition set_dense_rank :: "nat \<Rightarrow> fused_candidate \<Rightarrow> fused_candidate" where
  "set_dense_rank n c = c\<lparr>fc_dense := Some n\<rparr>"

definition set_sparse_rank :: "nat \<Rightarrow> fused_candidate \<Rightarrow> fused_candidate" where
  "set_sparse_rank n c = c\<lparr>fc_sparse := Some n\<rparr>"

definition rrf_candidates ::
    "rag_config \<Rightarrow> search_hit list \<Rightarrow> search_hit list \<Rightarrow> (str \<times> fused_candidate) list result" where
  "rrf_candidates cfg dense sparse =
     rbind (rrf_pass set_dense_rank (rg_dense_weight cfg) (rg_rrf_k cfg) 1 dense [])
       (rrf_pass set_sparse_rank (rg_sparse_weight cfg) (rg_rrf_k cfg) 1 sparse)"

text \<open>\<open>-(sparse_rank or 10**9)\<close>.\<close>

definition sparse_order :: "fused_candidate \<Rightarrow> int" where
  "sparse_order c = - (case fc_sparse c of None \<Rightarrow> 10 ^ 9 | Some n \<Rightarrow> if n = 0 then 10 ^ 9 else int n)"

definition fusion_key :: "fused_candidate \<Rightarrow> real \<times> bool \<times> int" where
  "fusion_key c = (fc_score c, fc_sparse c \<noteq> None, sparse_order c)"

definition rerank_key :: "rag_config \<Rightarrow> str list \<Rightarrow> fused_candidate \<times> real \<Rightarrow> nat \<times> real \<times> real \<times> bool \<times> int" where
  "rerank_key cfg technical = (\<lambda>(c, x).
     (if rg_keyword_priority cfg then technical_match_count technical (ch_text (fc_chunk c)) else 0,
      x, fusion_key c))"

definition result_of :: "fused_candidate \<times> real \<Rightarrow> retrieval_result" where
  "result_of = (\<lambda>(c, x). let ch = fc_chunk c in
     \<lparr>rr_chunk_id = ch_id ch, rr_text = ch_text ch, rr_source = ch_source ch, rr_metadata = ch_metadata ch,
      rr_marker = ''['' @ ch_source ch @ '':'' @ ch_id ch @ '']'', rr_score = x, rr_dense_rank = fc_dense c,
      rr_sparse_rank = fc_sparse c, rr_rrf_score = fc_score c, rr_rerank_score = x\<rparr>)"

section \<open>The retriever\<close>

record ('w, 'v) rag_deps =
  rd_embed :: "str list \<Rightarrow> ('w, 'v list) io"
  rd_index :: "text_chunk list \<Rightarrow> 'v list \<Rightarrow> ('w, unit) io"
  rd_query :: "'v \<Rightarrow> int \<Rightarrow> ('w, search_hit list) io"
  rd_load :: "('w, text_chunk list) io option"
  rd_rerank :: "str \<Rightarrow> text_chunk list \<Rightarrow> ('w, real list) io"
  rd_okapi :: bm25

record 'w retriever =
  rv_sparse :: sparse_index
  rv_hydrated :: bool
  rv_world :: 'w

definition new_retriever :: "sparse_index \<Rightarrow> 'w \<Rightarrow> 'w retriever" where
  "new_retriever i w = \<lparr>rv_sparse = i, rv_hydrated = has_chunks i, rv_world = w\<rparr>"

definition on_world :: "('w, 'a) io \<Rightarrow> ('w retriever, 'a) io" where
  "on_world m r = (case m (rv_world r) of (x, w) \<Rightarrow> (x, r\<lparr>rv_world := w\<rparr>))"

definition mark_hydrated :: "('w retriever, unit) io" where
  "mark_hydrated r = (Inr (), r\<lparr>rv_hydrated := True\<rparr>)"

definition put_sparse :: "(sparse_index \<Rightarrow> sparse_index) \<Rightarrow> ('w retriever, unit) io" where
  "put_sparse f r = (Inr (), r\<lparr>rv_sparse := f (rv_sparse r)\<rparr>)"

definition ensure_hydrated :: "('w, 'v) rag_deps \<Rightarrow> ('w retriever, unit) io" where
  "ensure_hydrated d r =
     (if rv_hydrated r \<or> has_chunks (rv_sparse r) then mark_hydrated r
      else case rd_load d of
             None \<Rightarrow> mark_hydrated r
           | Some load \<Rightarrow>
               io_bind (on_world load) (\<lambda>cs. io_then (put_sparse (\<lambda>_. sparse_replace cs)) mark_hydrated) r)"

definition index_chunks :: "('w, 'v) rag_deps \<Rightarrow> text_chunk list \<Rightarrow> ('w retriever, unit) io" where
  "index_chunks d cs =
     (if cs = [] then io_return ()
      else io_then (ensure_hydrated d)
        (io_bind (on_world (rd_embed d (map ch_text cs))) (\<lambda>vs.
          io_then (on_world (rd_index d cs vs))
            (io_then (put_sparse (sparse_upsert cs)) mark_hydrated))))"

definition sparse_lookup :: "('w, 'v) rag_deps \<Rightarrow> rag_config \<Rightarrow> str \<Rightarrow> ('w retriever, search_hit list) io" where
  "sparse_lookup d cfg query r = (sparse_search (rd_okapi d) (rv_sparse r) query (rg_sparse_limit cfg), r)"

definition first_vector :: "'v list \<Rightarrow> 'v result" where
  "first_vector vs = (case vs of [] \<Rightarrow> Inl (OtherException ''IndexError'', ''list index out of range'')
     | v # _ \<Rightarrow> Inr v)"

definition fuse :: "rag_config \<Rightarrow> search_hit list \<Rightarrow> search_hit list \<Rightarrow> fused_candidate list result" where
  "fuse cfg dense sparse = rbind (rrf_candidates cfg dense sparse)
     (\<lambda>d. Inr (py_prefix (rg_rerank_limit cfg) (sorted_desc fusion_key (map snd d))))"

definition rank_results ::
    "rag_config \<Rightarrow> str \<Rightarrow> int \<Rightarrow> fused_candidate list \<Rightarrow> real list \<Rightarrow> retrieval_result list result" where
  "rank_results cfg query top_k cands scores =
     (if length scores \<noteq> length cands
      then Inl (RuntimeError, ''Reranker returned a score count that does not match candidates.'')
      else (let technical = (if rg_keyword_priority cfg then technical_tokens query else [])
            in Inr (map result_of (py_prefix top_k (sorted_desc (rerank_key cfg technical) (zip cands scores))))))"

definition search ::
    "('w, 'v) rag_deps \<Rightarrow> rag_config \<Rightarrow> str \<Rightarrow> int \<Rightarrow> ('w retriever, retrieval_result list) io" where
  "search d cfg query top_k =
     (if top_k \<le> 0 then io_return []
      else io_then (ensure_hydrated d)
        (io_bind (on_world (rd_embed d [query])) (\<lambda>vs.
         io_bind (io_lift (first_vector vs)) (\<lambda>v.
         io_bind (on_world (rd_query d v (rg_dense_limit cfg))) (\<lambda>dense.
         io_bind (sparse_lookup d cfg query) (\<lambda>sparse.
         io_bind (io_lift (fuse cfg dense sparse)) (\<lambda>cands.
           if cands = [] then io_return []
           else io_bind (on_world (rd_rerank d query (map fc_chunk cands))) (\<lambda>scores.
             io_lift (rank_results cfg query top_k cands scores)))))))))"

section \<open>The Qdrant adapter\<close>

text \<open>The client's answers; an offset is a string.\<close>

record 'w qdrant =
  qd_exists :: "('w, bool) io"
  qd_create :: "int \<Rightarrow> ('w, unit) io"
  qd_upsert :: "(str \<times> real list \<times> pyval dict) list \<Rightarrow> ('w, unit) io"
  qd_query :: "real list \<Rightarrow> int \<Rightarrow> ('w, (pyval dict option \<times> real) list) io"
  qd_scroll :: "str option \<Rightarrow> ('w, pyval dict option list \<times> str option) io"

definition payload_of :: "text_chunk \<Rightarrow> pyval dict" where
  "payload_of c = [(''chunk_id'', PStr (ch_id c)), (''text'', PStr (ch_text c)), (''source'', PStr (ch_source c)),
     (''metadata'', PDict (ch_metadata c))]"

definition payload_text :: "pyval dict \<Rightarrow> str \<Rightarrow> pyval result" where
  "payload_text p k = (case map_of p k of None \<Rightarrow> Inl (KeyError, k) | Some v \<Rightarrow> Inr v)"

definition as_text :: "pyval \<Rightarrow> str result" where
  "as_text v = (case v of PStr s \<Rightarrow> Inr s | _ \<Rightarrow> Inl (ValidationError, ''Input should be a valid string''))"

definition chunk_of_payload :: "pyval dict \<Rightarrow> text_chunk result" where
  "chunk_of_payload p =
     rbind (payload_text p ''chunk_id'') (\<lambda>i. rbind (payload_text p ''text'') (\<lambda>t.
     rbind (payload_text p ''source'') (\<lambda>s.
     rbind (as_text i) (\<lambda>i. rbind (as_text t) (\<lambda>t. rbind (as_text s) (\<lambda>s.
       (let m = get_or_none p ''metadata'' in
        if \<not> truthy m then Inr \<lparr>ch_id = i, ch_text = t, ch_source = s, ch_metadata = []\<rparr>
        else case m of PDict d \<Rightarrow> Inr \<lparr>ch_id = i, ch_text = t, ch_source = s, ch_metadata = d\<rparr>
          | _ \<Rightarrow> Inl (ValidationError, ''Input should be a valid dictionary''))))))))"

fun collect :: "'a result list \<Rightarrow> 'a list result" where
  "collect [] = Inr []"
| "collect (r # rs) = rbind r (\<lambda>x. rbind (collect rs) (\<lambda>xs. Inr (x # xs)))"

definition point_chunk :: "pyval dict option \<Rightarrow> text_chunk result" where
  "point_chunk p = chunk_of_payload (case p of None \<Rightarrow> [] | Some d \<Rightarrow> d)"

definition ensure_collection :: "'w qdrant \<Rightarrow> int \<Rightarrow> ('w, unit) io" where
  "ensure_collection cl width = io_bind (qd_exists cl) (\<lambda>b. if b then io_return () else qd_create cl width)"

text \<open>\<open>uuid5(NAMESPACE_URL, ...)\<close> is a parameter.\<close>

definition stable_point_id :: "(str \<Rightarrow> str) \<Rightarrow> str \<Rightarrow> str" where
  "stable_point_id uuid5 cid = uuid5 (''coremesh:rag:'' @ cid)"

definition qdrant_index :: "'w qdrant \<Rightarrow> (str \<Rightarrow> str) \<Rightarrow> int \<Rightarrow> text_chunk list \<Rightarrow> real list list \<Rightarrow> ('w, unit) io" where
  "qdrant_index cl uuid5 width cs vs =
     (if length cs \<noteq> length vs then io_raise (ValueError, ''chunks and vectors must have the same length.'')
      else if cs = [] then io_return ()
      else io_then (ensure_collection cl width)
        (qd_upsert cl (map (\<lambda>(c, v). (stable_point_id uuid5 (ch_id c), v, payload_of c)) (zip cs vs))))"

definition qdrant_search :: "'w qdrant \<Rightarrow> real list \<Rightarrow> int \<Rightarrow> ('w, search_hit list) io" where
  "qdrant_search cl v limit = io_bind (qd_query cl v limit) (\<lambda>ps.
     io_lift (collect (map (\<lambda>(p, x). rbind (point_chunk p) (\<lambda>c. Inr \<lparr>hit_chunk = c, hit_score = x\<rparr>)) ps)))"

text \<open>The scroll loop ends only when the client answers without a next offset.\<close>

partial_function (option) scroll_loop ::
    "'w qdrant \<Rightarrow> str option \<Rightarrow> text_chunk list \<Rightarrow> 'w \<Rightarrow> (text_chunk list result \<times> 'w) option" where
  "scroll_loop cl offset acc w = (case qd_scroll cl offset w of
     (Inl e, w') \<Rightarrow> Some (Inl e, w')
   | (Inr (ps, next1), w') \<Rightarrow>
       (case collect (map point_chunk ps) of
          Inl e \<Rightarrow> Some (Inl e, w')
        | Inr cs \<Rightarrow> (case next1 of None \<Rightarrow> Some (Inr (acc @ cs), w')
            | Some n \<Rightarrow> scroll_loop cl (Some n) (acc @ cs) w')))"

definition qdrant_load :: "'w qdrant \<Rightarrow> 'w \<Rightarrow> (text_chunk list result \<times> 'w) option" where
  "qdrant_load cl w = (case qd_exists cl w of
     (Inl e, w') \<Rightarrow> Some (Inl e, w')
   | (Inr False, w') \<Rightarrow> Some (Inr [], w')
   | (Inr True, w') \<Rightarrow> map_option (\<lambda>(r, w2). (rbind r (\<lambda>cs. Inr (sort_key ch_id cs)), w2)) (scroll_loop cl None [] w'))"

section \<open>What the tokenizer finds\<close>

text \<open>The shape of a token: identifier characters, single separators between them.\<close>

fun token_shape :: "str \<Rightarrow> bool" where
  "token_shape [] = False"
| "token_shape [c] = is_tok c"
| "token_shape (c # d # s) = (is_tok c \<and> (if is_tok d then token_shape (d # s)
     else is_sep d \<and> token_shape s))"

lemma tok_not_sep: "is_tok c \<Longrightarrow> \<not> is_sep c"
  by (auto simp: is_tok_def is_sep_def is_lower_az_def is_upper_az_def is_digit_def Let_def)

lemma token_shape_run: "w \<noteq> [] \<Longrightarrow> list_all is_tok w \<Longrightarrow> token_shape w"
  by (induction w rule: token_shape.induct) auto

lemma token_shape_join:
  "w \<noteq> [] \<Longrightarrow> list_all is_tok w \<Longrightarrow> is_sep c \<Longrightarrow> token_shape m \<Longrightarrow> token_shape (w @ c # m)"
proof (induction w rule: token_shape.induct)
  case (2 d)
  then show ?case using tok_not_sep by (cases m) auto
qed (auto dest: tok_not_sep)

lemma scan_token_shape:
  "scan_token s = (m, rest) \<Longrightarrow> s \<noteq> [] \<Longrightarrow> is_tok (hd s) \<Longrightarrow> token_shape m"
proof (induction s arbitrary: m rest rule: scan_token.induct)
  case (1 s)
  have w: "takeWhile is_tok s \<noteq> []" using 1(3,4) by (cases s) auto
  have all: "list_all is_tok (takeWhile is_tok s)" by (auto simp: list_all_iff dest: set_takeWhileD)
  note shape = token_shape_run [OF w all]
  show ?case
  proof (cases "dropWhile is_tok s")
    case Nil
    with 1(2) shape show ?thesis by (simp add: scan_token.simps [of s] Let_def)
  next
    case (Cons c t)
    show ?thesis
    proof (cases "is_sep c \<and> t \<noteq> [] \<and> is_tok (hd t)")
      case True
      obtain m' r' where st: "scan_token t = (m', r')" by fastforce
      with True Cons 1(2) have "m = takeWhile is_tok s @ c # m'"
        by (simp_all add: scan_token.simps [of s] Let_def)
      with 1(1) [OF refl refl Cons True st] True w all show ?thesis by (simp add: token_shape_join)
    next
      case False
      with Cons 1(2) shape show ?thesis by (auto simp: scan_token.simps [of s] Let_def)
    qed
  qed
qed

text \<open>The tokens have that shape and hold every identifier character of the text, in order.\<close>

lemma find_tokens_cover:
  "list_all token_shape (find_tokens s) \<and> concat (map (filter is_tok) (find_tokens s)) = filter is_tok s"
proof (induction s rule: find_tokens.induct)
  case (2 c s)
  show ?case
  proof (cases "is_tok c")
    case True
    obtain m rest where m: "scan_token (c # s) = (m, rest)" by fastforce
    have "filter is_tok (c # s) = filter is_tok m @ filter is_tok rest"
      unfolding scan_token_append [OF m] by simp
    with 2(1) [OF True] True m scan_token_shape [OF m] show ?thesis by simp
  next
    case False
    with 2(2) show ?thesis by simp
  qed
qed simp

lemma tokenize_whole: "t \<in> set (find_tokens s) \<Longrightarrow> lower t \<in> set (tokenize s)"
  by (auto simp: tokenize_def emit_token_def Let_def)

section \<open>The fallback scores\<close>

lemma idf_pos:
  assumes "d \<in> set corpus" "t \<in> set d" shows "0 < idf corpus t"
proof -
  have "0 < document_freq corpus t" using assms by (auto simp: document_freq_def filter_empty_conv)
  moreover have "document_freq corpus t \<le> length corpus" by (simp add: document_freq_def)
  ultimately show ?thesis by (auto simp: idf_def Let_def intro!: ln_gt_zero add_nonneg_pos divide_pos_pos)
qed

lemma average_length_nonneg: "0 \<le> average_length corpus"
  by (simp add: average_length_def)

lemma bm25_term_sign:
  assumes "d \<in> set corpus"
  shows "0 \<le> bm25_term corpus d t" "0 < bm25_term corpus d t \<longleftrightarrow> t \<in> set d"
proof -
  have "0 < bm25_term corpus d t" if "t \<in> set d"
  proof -
    have f: "0 < term_count d t" using that count_list_0_iff [of d t] by (simp add: term_count_def)
    define den where "den = of_nat (term_count d t) + 3 / 2 * (1 - 3 / 4 + 3 / 4 * of_nat (length d) /
          (if average_length corpus = 0 then 1 else average_length corpus))"
    have "0 < den" unfolding den_def
      using f average_length_nonneg [of corpus] by (auto intro!: add_pos_nonneg divide_nonneg_nonneg)
    moreover have "bm25_term corpus d t = idf corpus t * of_nat (term_count d t) * (3 / 2 + 1) / den"
      using f by (simp add: bm25_term_def den_def Let_def)
    ultimately show ?thesis using f idf_pos [OF assms that]
      by (simp only:) (intro divide_pos_pos mult_pos_pos; simp)
  qed
  moreover have "bm25_term corpus d t = 0" if "t \<notin> set d"
    using that by (simp add: bm25_term_def term_count_def count_notin)
  ultimately show "0 \<le> bm25_term corpus d t" "0 < bm25_term corpus d t \<longleftrightarrow> t \<in> set d"
    by (metis less_eq_real_def, metis less_irrefl)
qed

lemma sum_list_pos_iff:
  "(\<And>x. x \<in> set xs \<Longrightarrow> 0 \<le> f x) \<Longrightarrow> (0 :: real) < sum_list (map f xs) \<longleftrightarrow> (\<exists>x \<in> set xs. 0 < f x)"
proof (induction xs)
  case (Cons x xs)
  then have "0 \<le> f x" "0 \<le> sum_list (map f xs)" using Cons.prems by (auto intro!: sum_list_nonneg)
  then have "0 < f x + sum_list (map f xs) \<longleftrightarrow> 0 < f x \<or> 0 < sum_list (map f xs)" by linarith
  moreover have "0 < sum_list (map f xs) \<longleftrightarrow> (\<exists>x \<in> set xs. 0 < f x)" using Cons by simp
  ultimately show ?case unfolding list.map sum_list.Cons by (metis list.set_intros set_ConsD)
qed simp

lemma simple_bm25_pos:
  "n < length corpus \<Longrightarrow> 0 < simple_bm25 corpus query ! n \<longleftrightarrow> set query \<inter> set (corpus ! n) \<noteq> {}"
  by (auto simp: simple_bm25_def sum_list_pos_iff bm25_term_sign)

lemma length_simple_bm25 [simp]: "length (simple_bm25 corpus query) = length corpus"
  by (simp add: simple_bm25_def)

text \<open>A lexical index whose tokens are those of its chunks.\<close>

definition index_ok :: "sparse_index \<Rightarrow> bool" where
  "index_ok i \<longleftrightarrow> si_tokens i = map (\<lambda>c. tokenize (ch_text c)) (si_chunks i) \<and> (si_chunks i \<noteq> [] \<longrightarrow> si_built i)"

lemma index_ok_operations [simp, intro]:
  "index_ok empty_index" "index_ok (rebuild cs)" "index_ok (sparse_replace cs)" "index_ok (sparse_upsert cs i)"
  by (simp_all add: index_ok_def empty_index_def rebuild_def sparse_replace_def sparse_upsert_def)

lemma collect_hits_Inr:
  "\<forall>(n, x) \<in> set r. n < length cs \<Longrightarrow>
     collect_hits cs r = Inr (map (\<lambda>(n, x). \<lparr>hit_chunk = cs ! n, hit_score = x\<rparr>) (filter (\<lambda>(n, x). 0 < x) r))"
  by (induction cs r rule: collect_hits.induct) auto

definition shares_token :: "str \<Rightarrow> text_chunk \<Rightarrow> bool" where
  "shares_token query c \<longleftrightarrow> set (tokenize query) \<inter> set (tokenize (ch_text c)) \<noteq> {}"

lemma fallback_scores:
  assumes "index_ok i" "case okapi of None \<Rightarrow> True | Some f \<Rightarrow> \<forall>x \<in> set (f (si_tokens i) q). x \<le> 0"
  shows "index_scores okapi i q = simple_bm25 (si_tokens i) q"
  using assms(2) by (auto simp: index_scores_def Let_def list_ex_iff not_less split: option.splits)

lemma sparse_search_fallback:
  assumes ok: "index_ok i" and fb: "index_scores okapi i (tokenize query) = simple_bm25 (si_tokens i) (tokenize query)"
  shows "\<exists>hits. sparse_search okapi i query limit = Inr hits
    \<and> sorted_wrt (\<lambda>a b. hit_score b \<le> hit_score a) hits
    \<and> (\<forall>h \<in> set hits. hit_chunk h \<in> set (si_chunks i) \<and> shares_token query (hit_chunk h) \<and> 0 < hit_score h)
    \<and> (int (length (si_chunks i)) \<le> limit
        \<longrightarrow> (\<forall>c \<in> set (si_chunks i). shares_token query c \<longrightarrow> c \<in> hit_chunk ` set hits))"
proof (cases "si_chunks i = []")
  case True
  then show ?thesis by (simp add: sparse_search_def)
next
  case False
  define cs where "cs = si_chunks i"
  define sc where "sc = simple_bm25 (si_tokens i) (tokenize query)"
  define key where "key = (\<lambda>(n :: nat, x :: real). (x, - int n))"
  define r where "r = py_prefix limit (sorted_desc key (enumerate 0 sc))"
  have toks: "si_tokens i = map (\<lambda>c. tokenize (ch_text c)) cs" and len: "length sc = length cs"
    using ok by (simp_all add: index_ok_def cs_def sc_def)
  have pos: "0 < sc ! n \<longleftrightarrow> shares_token query (cs ! n)" if "n < length cs" for n
    using that simple_bm25_pos [of n "si_tokens i" "tokenize query"] by (simp add: sc_def toks shares_token_def)
  have enum: "(n, x) \<in> set (enumerate 0 sc) \<longleftrightarrow> n < length cs \<and> x = sc ! n" for n x
    by (auto simp: in_set_enumerate_eq len)
  have sub: "(n, x) \<in> set r \<Longrightarrow> n < length cs \<and> x = sc ! n" for n x
    using set_py_prefix [of limit "sorted_desc key (enumerate 0 sc)"] enum by (auto simp: r_def)
  define hits where "hits = map (\<lambda>(n, x). \<lparr>hit_chunk = cs ! n, hit_score = x\<rparr>) (filter (\<lambda>(n, x). 0 < x) r)"
  have "sparse_search okapi i query limit = collect_hits cs r"
    using False ok fb by (simp add: sparse_search_def index_ok_def cs_def r_def key_def sc_def)
  then have run: "sparse_search okapi i query limit = Inr hits"
    using collect_hits_Inr [of r cs] sub by (auto simp: hits_def)
  have "sorted_wrt (\<lambda>a b. key b \<le> key a) r"
    using sorted_desc_sorted [of key "enumerate 0 sc"] by (simp add: r_def py_prefix_def sorted_wrt_take)
  then have "sorted_wrt (\<lambda>a b. snd b \<le> snd a) r"
    by (rule sorted_wrt_mono_rel [rotated]) (auto simp: key_def)
  then have "sorted_wrt (\<lambda>a b. snd b \<le> snd a) (filter (\<lambda>(n, x). 0 < x) r)" by (rule sorted_wrt_filter)
  then have srt: "sorted_wrt (\<lambda>a b. hit_score b \<le> hit_score a) hits"
    unfolding hits_def sorted_wrt_map by (rule sorted_wrt_mono_rel [rotated]) auto
  have mem: "\<forall>h \<in> set hits. hit_chunk h \<in> set cs \<and> shares_token query (hit_chunk h) \<and> 0 < hit_score h"
    using sub pos by (fastforce simp: hits_def)
  have all: "c \<in> hit_chunk ` set hits" if lim: "int (length cs) \<le> limit" and c: "c \<in> set cs" "shares_token query c" for c
  proof -
    obtain n where n: "n < length cs" "cs ! n = c" using c(1) by (auto simp: in_set_conv_nth)
    have "r = sorted_desc key (enumerate 0 sc)" using lim len by (simp add: r_def py_prefix_def)
    then have "(n, sc ! n) \<in> set r" using n enum by simp
    moreover have "0 < sc ! n" using pos n c(2) by simp
    ultimately show ?thesis using n by (force simp: hits_def)
  qed
  from run srt mem all show ?thesis by (auto simp: cs_def)
qed

section \<open>Fusion, exactly\<close>

abbreviation hit_id :: "search_hit \<Rightarrow> str" where
  "hit_id h \<equiv> ch_id (hit_chunk h)"

text \<open>What a ranked list adds to one identifier, and the rank it leaves there.\<close>

definition rank_sum :: "real \<Rightarrow> int \<Rightarrow> nat \<Rightarrow> search_hit list \<Rightarrow> str \<Rightarrow> real" where
  "rank_sum weight k r hs cid =
     (\<Sum>j < length hs. if hit_id (hs ! j) = cid then weight / of_int (k + int (r + j)) else 0)"

fun last_rank :: "nat \<Rightarrow> search_hit list \<Rightarrow> str \<Rightarrow> nat option" where
  "last_rank r [] cid = None"
| "last_rank r (h # hs) cid = (case last_rank (r + 1) hs cid of
     Some n \<Rightarrow> Some n | None \<Rightarrow> if hit_id h = cid then Some r else None)"

lemma rank_sum_simps [simp]:
  "rank_sum weight k r [] cid = 0"
  "rank_sum weight k r (h # hs) cid =
     (if hit_id h = cid then weight / of_int (k + int r) else 0) + rank_sum weight k (r + 1) hs cid"
  by (simp_all add: rank_sum_def sum.lessThan_Suc_shift ac_simps del: sum.lessThan_Suc cong: if_cong)

lemma rank_sum_absent: "cid \<notin> hit_id ` set hs \<Longrightarrow> rank_sum weight k r hs cid = 0"
  by (induction hs arbitrary: r) auto

lemma last_rank_None: "last_rank r hs cid = None \<longleftrightarrow> cid \<notin> hit_id ` set hs"
proof (induction hs arbitrary: r)
  case (Cons h hs)
  show ?case using Cons.IH [of "Suc r"] by (cases "last_rank (Suc r) hs cid") auto
qed simp

definition keyed :: "(str \<times> fused_candidate) list \<Rightarrow> bool" where
  "keyed d \<longleftrightarrow> distinct (dict_keys d) \<and> (\<forall>(cid, c) \<in> set d. ch_id (fc_chunk c) = cid)"

text \<open>The setters touch only the rank they set.\<close>

definition rank_setter :: "(nat \<Rightarrow> fused_candidate \<Rightarrow> fused_candidate) \<Rightarrow> (fused_candidate \<Rightarrow> nat option)
    \<Rightarrow> (fused_candidate \<Rightarrow> nat option) \<Rightarrow> bool" where
  "rank_setter set_rank get other \<longleftrightarrow> (\<forall>n c. fc_chunk (set_rank n c) = fc_chunk c
     \<and> fc_score (set_rank n c) = fc_score c \<and> get (set_rank n c) = Some n \<and> other (set_rank n c) = other c)
   \<and> (\<forall>c x. get (c\<lparr>fc_score := x\<rparr>) = get c \<and> other (c\<lparr>fc_score := x\<rparr>) = other c)"

lemma setters: "rank_setter set_dense_rank fc_dense fc_sparse" "rank_setter set_sparse_rank fc_sparse fc_dense"
  by (simp_all add: rank_setter_def set_dense_rank_def set_sparse_rank_def)

definition candidate_at :: "(str \<times> fused_candidate) list \<Rightarrow> search_hit list \<Rightarrow> str \<Rightarrow> fused_candidate" where
  "candidate_at d hs cid = (case map_of d cid of Some c \<Rightarrow> c
     | None \<Rightarrow> (case find (\<lambda>h. hit_id h = cid) hs of Some h \<Rightarrow> new_candidate (hit_chunk h) | None \<Rightarrow> undefined))"

lemma rrf_pass_total: "0 \<le> k \<Longrightarrow> 0 < r \<Longrightarrow> \<exists>d'. rrf_pass set_rank weight k r hs d = Inr d'"
  by (induction set_rank weight k r hs d rule: rrf_pass.induct) (auto simp: Let_def)

lemma keyed_step:
  assumes "keyed d" "ch_id (fc_chunk c) = cid"
  shows "keyed (dict_set cid c d)"
proof -
  have "distinct (dict_keys (dict_set cid c d))" using assms(1) by (simp add: keyed_def)
  moreover have "ch_id (fc_chunk x) = i" if "(i, x) \<in> set (dict_set cid c d)" for i x
    using that assms by (induction cid c d rule: dict_set.induct) (auto simp: keyed_def split: if_splits)
  ultimately show ?thesis by (auto simp: keyed_def)
qed

lemma rrf_pass_spec:
  assumes "rank_setter set_rank get other" "rrf_pass set_rank weight k r hs d = Inr d'" "keyed d"
  shows "keyed d'
    \<and> fst ` set d' = fst ` set d \<union> hit_id ` set hs
    \<and> (\<forall>cid \<in> fst ` set d'. \<exists>c'. map_of d' cid = Some c'
        \<and> (let c = candidate_at d hs cid in
             fc_chunk c' = fc_chunk c \<and> fc_score c' = fc_score c + rank_sum weight k r hs cid
             \<and> get c' = (case last_rank r hs cid of None \<Rightarrow> get c | Some n \<Rightarrow> Some n) \<and> other c' = other c))"
  using assms(2,3)
proof (induction hs arbitrary: r d)
  case Nil
  then show ?case by (auto simp: keyed_def candidate_at_def Let_def)
next
  case (Cons h hs)
  define cid where "cid = hit_id h"
  define d0 where "d0 = dict_setdefault cid (new_candidate (hit_chunk h)) d"
  define base where "base = candidate_at d (h # hs) cid"
  define c1 where "c1 = (set_rank r base)\<lparr>fc_score := fc_score (set_rank r base) + weight / of_int (k + int r)\<rparr>"
  define d1 where "d1 = dict_set cid c1 d0"
  have base_id: "ch_id (fc_chunk base) = cid"
    using Cons.prems(2)
    by (auto simp: base_def candidate_at_def keyed_def cid_def new_candidate_def dest: map_of_SomeD split: option.splits)
  have look: "map_of d0 = (map_of d)(cid \<mapsto> base)"
  proof (cases "map_of d cid")
    case None
    then have "cid \<notin> fst ` set d" by (simp add: map_of_eq_None_iff)
    with None show ?thesis by (simp add: d0_def map_of_dict_setdefault base_def candidate_at_def cid_def)
  next
    case (Some c)
    then have "cid \<in> fst ` set d" by (metis map_of_eq_None_iff option.distinct(1))
    with Some show ?thesis by (auto simp: d0_def map_of_dict_setdefault base_def candidate_at_def fun_eq_iff)
  qed
  have c1: "fc_chunk c1 = fc_chunk base" "fc_score c1 = fc_score base + weight / of_int (k + int r)"
    "get c1 = Some r" "other c1 = other base"
    using assms(1) by (simp_all add: c1_def rank_setter_def)
  have keyed1: "keyed d1"
    using Cons.prems(2) base_id c1(1) unfolding d1_def d0_def
    by (intro keyed_step) (auto simp: keyed_def dict_setdefault_def cid_def new_candidate_def)
  have keys1: "fst ` set d1 = insert cid (fst ` set d)"
    by (auto simp: d1_def d0_def dict_setdefault_def)
  have map1: "map_of d1 = (map_of d)(cid \<mapsto> c1)" by (simp add: d1_def look)
  have rest: "rrf_pass set_rank weight k (r + 1) hs d1 = Inr d'"
    using Cons.prems(1) look by (simp add: Let_def d1_def c1_def d0_def cid_def split: if_splits)
  note IH = Cons.IH [OF rest keyed1]
  have at: "candidate_at d1 hs i = (if i = cid then c1 else candidate_at d (h # hs) i)" for i
    by (cases "map_of d i") (auto simp: candidate_at_def map1 cid_def)
  show ?case
  proof (intro conjI ballI)
    show "keyed d'" using IH by simp
    show "fst ` set d' = fst ` set d \<union> hit_id ` set (h # hs)" using IH keys1 by (auto simp: cid_def)
    fix i assume "i \<in> fst ` set d'"
    from bspec [OF IH [THEN conjunct2, THEN conjunct2] this] obtain c' where m: "map_of d' i = Some c'" and c':
      "fc_chunk c' = fc_chunk (candidate_at d1 hs i)"
      "fc_score c' = fc_score (candidate_at d1 hs i) + rank_sum weight k (r + 1) hs i"
      "get c' = (case last_rank (r + 1) hs i of None \<Rightarrow> get (candidate_at d1 hs i) | Some n \<Rightarrow> Some n)"
      "other c' = other (candidate_at d1 hs i)" by (auto simp: Let_def)
    show "\<exists>c'. map_of d' i = Some c' \<and> (let c = candidate_at d (h # hs) i in
        fc_chunk c' = fc_chunk c \<and> fc_score c' = fc_score c + rank_sum weight k r (h # hs) i
        \<and> get c' = (case last_rank r (h # hs) i of None \<Rightarrow> get c | Some n \<Rightarrow> Some n) \<and> other c' = other c)"
      using m c' c1 at [of i] by (auto simp: Let_def cid_def base_def split: option.splits)
  qed
qed

text \<open>The candidates of two ranked lists.\<close>

lemma candidate_at_empty: "cid \<in> hit_id ` set hs \<Longrightarrow>
    (\<exists>h \<in> set hs. hit_id h = cid \<and> candidate_at [] hs cid = new_candidate (hit_chunk h))"
  by (auto simp: candidate_at_def find_None_set dest: find_Some_set split: option.splits)

lemma rrf_spec:
  assumes "rrf_candidates cfg dense sparse = Inr d"
  shows "keyed d" "fst ` set d = hit_id ` set dense \<union> hit_id ` set sparse"
    "(cid, c) \<in> set d \<Longrightarrow>
       fc_score c = rank_sum (rg_dense_weight cfg) (rg_rrf_k cfg) 1 dense cid
         + rank_sum (rg_sparse_weight cfg) (rg_rrf_k cfg) 1 sparse cid
       \<and> fc_dense c = last_rank 1 dense cid \<and> fc_sparse c = last_rank 1 sparse cid
       \<and> (\<exists>h \<in> set dense \<union> set sparse. hit_id h = cid \<and> fc_chunk c = hit_chunk h)"
proof -
  from assms obtain d1 where
    p1: "rrf_pass set_dense_rank (rg_dense_weight cfg) (rg_rrf_k cfg) 1 dense [] = Inr d1" and
    p2: "rrf_pass set_sparse_rank (rg_sparse_weight cfg) (rg_rrf_k cfg) 1 sparse d1 = Inr d"
    by (auto simp: rrf_candidates_def rbind_eq_Inr)
  have k0: "keyed []" by (simp add: keyed_def)
  note s1 = rrf_pass_spec [OF setters(1) p1 k0]
  note s2 = rrf_pass_spec [OF setters(2) p2 s1 [THEN conjunct1]]
  show "keyed d" using s2 by simp
  show "fst ` set d = hit_id ` set dense \<union> hit_id ` set sparse" using s1 s2 by simp
  assume mem: "(cid, c) \<in> set d"
  then have in_d: "cid \<in> fst ` set d" by force
  have "map_of d cid = Some c" using mem s2 by (simp add: keyed_def)
  then have c: "fc_chunk c = fc_chunk (candidate_at d1 sparse cid)"
    "fc_score c = fc_score (candidate_at d1 sparse cid) + rank_sum (rg_sparse_weight cfg) (rg_rrf_k cfg) 1 sparse cid"
    "fc_sparse c = (case last_rank 1 sparse cid of None \<Rightarrow> fc_sparse (candidate_at d1 sparse cid) | Some n \<Rightarrow> Some n)"
    "fc_dense c = fc_dense (candidate_at d1 sparse cid)"
    using bspec [OF s2 [THEN conjunct2, THEN conjunct2] in_d] by (auto simp: Let_def)
  show "fc_score c = rank_sum (rg_dense_weight cfg) (rg_rrf_k cfg) 1 dense cid
         + rank_sum (rg_sparse_weight cfg) (rg_rrf_k cfg) 1 sparse cid
       \<and> fc_dense c = last_rank 1 dense cid \<and> fc_sparse c = last_rank 1 sparse cid
       \<and> (\<exists>h \<in> set dense \<union> set sparse. hit_id h = cid \<and> fc_chunk c = hit_chunk h)"
  proof (cases "cid \<in> hit_id ` set dense")
    case True
    then have "cid \<in> fst ` set d1" using s1 by simp
    from bspec [OF s1 [THEN conjunct2, THEN conjunct2] this]
    obtain c1 where m: "map_of d1 cid = Some c1" and c1:
      "fc_chunk c1 = fc_chunk (candidate_at [] dense cid)"
      "fc_score c1 = fc_score (candidate_at [] dense cid) + rank_sum (rg_dense_weight cfg) (rg_rrf_k cfg) 1 dense cid"
      "fc_dense c1 = (case last_rank 1 dense cid of None \<Rightarrow> fc_dense (candidate_at [] dense cid) | Some n \<Rightarrow> Some n)"
      "fc_sparse c1 = fc_sparse (candidate_at [] dense cid)" by (auto simp: Let_def)
    have at: "candidate_at d1 sparse cid = c1" using m by (simp add: candidate_at_def)
    obtain h where "h \<in> set dense" "hit_id h = cid" "candidate_at [] dense cid = new_candidate (hit_chunk h)"
      using candidate_at_empty [OF True] by auto
    with c c1 at show ?thesis by (auto simp: new_candidate_def split: option.splits)
  next
    case False
    then have m: "map_of d1 cid = None"
      using s1 [THEN conjunct2, THEN conjunct1] by (simp add: map_of_eq_None_iff)
    then have at: "candidate_at d1 sparse cid = candidate_at [] sparse cid" by (simp add: candidate_at_def)
    have "cid \<in> hit_id ` set sparse" using in_d False s1 [THEN conjunct2, THEN conjunct1] s2 [THEN conjunct2, THEN conjunct1] by simp
    then obtain h where "h \<in> set sparse" "hit_id h = cid" "candidate_at [] sparse cid = new_candidate (hit_chunk h)"
      using candidate_at_empty by blast
    moreover have "rank_sum (rg_dense_weight cfg) (rg_rrf_k cfg) 1 dense cid = 0" "last_rank 1 dense cid = None"
      using False rank_sum_absent last_rank_None by blast+
    ultimately show ?thesis using c at by (auto simp: new_candidate_def split: option.splits)
  qed
qed

section \<open>What a search returns\<close>

text \<open>The order of results, read off a result.\<close>

definition result_key :: "rag_config \<Rightarrow> str \<Rightarrow> retrieval_result \<Rightarrow> nat \<times> real \<times> real \<times> bool \<times> int" where
  "result_key cfg query x =
     (if rg_keyword_priority cfg then technical_match_count (technical_tokens query) (rr_text x) else 0,
      rr_rerank_score x, rr_rrf_score x, rr_sparse_rank x \<noteq> None,
      - (case rr_sparse_rank x of None \<Rightarrow> 10 ^ 9 | Some n \<Rightarrow> if n = 0 then 10 ^ 9 else int n))"

lemma result_key_of:
  "rerank_key cfg (if rg_keyword_priority cfg then technical_tokens query else []) p = result_key cfg query (result_of p)"
  by (cases p) (simp add: rerank_key_def result_key_def result_of_def fusion_key_def sparse_order_def Let_def)

lemma fuse_Inr:
  assumes "fuse cfg dense sparse = Inr cands"
  obtains d where "rrf_candidates cfg dense sparse = Inr d"
    "distinct (map (\<lambda>c. ch_id (fc_chunk c)) cands)" "\<forall>c \<in> set cands. (ch_id (fc_chunk c), c) \<in> set d"
proof -
  from assms obtain d where d: "rrf_candidates cfg dense sparse = Inr d"
    and c: "cands = py_prefix (rg_rerank_limit cfg) (sorted_desc fusion_key (map snd d))"
    by (auto simp: fuse_def rbind_eq_Inr)
  have k: "keyed d" by (rule rrf_spec(1) [OF d])
  then have ids: "map (\<lambda>c. ch_id (fc_chunk c)) (map snd d) = dict_keys d"
    by (auto simp: keyed_def)
  have "mset (map (\<lambda>c. ch_id (fc_chunk c)) (sorted_desc fusion_key (map snd d))) = mset (dict_keys d)"
    by (metis ids mset_map mset_sorted_desc)
  then have "distinct (map (\<lambda>c. ch_id (fc_chunk c)) (sorted_desc fusion_key (map snd d)))"
    using k by (metis keyed_def mset_eq_imp_distinct_iff)
  then have "distinct (map (\<lambda>c. ch_id (fc_chunk c)) cands)"
    by (simp add: c py_prefix_def take_map [symmetric])
  moreover have "\<forall>c \<in> set cands. (ch_id (fc_chunk c), c) \<in> set d"
    using set_py_prefix [of "rg_rerank_limit cfg" "sorted_desc fusion_key (map snd d)"] k
    by (fastforce simp: c keyed_def)
  ultimately show thesis using d that by blast
qed

lemma search_Inr:
  assumes "search d cfg query top_k r = (Inr res, r')" "0 < top_k"
  obtains dense sparse cands where "fuse cfg dense sparse = Inr cands" "cands = []" "res = []"
  | dense sparse cands scores where "fuse cfg dense sparse = Inr cands"
      "rank_results cfg query top_k cands scores = Inr res"
  using assms by (auto simp: search_def io_bind_eq_Inr split: if_splits)

lemma rank_results_Inr:
  assumes "rank_results cfg query top_k cands scores = Inr res" "0 < top_k"
  obtains all where "mset all = mset (map result_of (zip cands scores))" "res = take (nat top_k) all"
    "sorted_wrt (\<lambda>x y. result_key cfg query y \<le> result_key cfg query x) all" "length scores = length cands"
proof -
  define key where "key = rerank_key cfg (if rg_keyword_priority cfg then technical_tokens query else [])"
  define all where "all = map result_of (sorted_desc key (zip cands scores))"
  have "res = take (nat top_k) all" "length scores = length cands"
    using assms by (auto simp: rank_results_def Let_def all_def key_def py_prefix_def take_map split: if_splits)
  moreover have "mset all = mset (map result_of (zip cands scores))" by (simp add: all_def)
  moreover have "sorted_wrt (\<lambda>x y. result_key cfg query y \<le> result_key cfg query x) all"
    unfolding all_def sorted_wrt_map
    by (rule sorted_wrt_mono_rel [OF _ sorted_desc_sorted [of key]]) (simp add: key_def result_key_of)
  ultimately show thesis using that by blast
qed

lemma map_result_ids: "length scores = length cands \<Longrightarrow>
    map rr_chunk_id (map result_of (zip cands scores)) = map (\<lambda>c. ch_id (fc_chunk c)) cands"
  by (induction cands scores rule: list_induct2') (auto simp: result_of_def Let_def)

lemma search_results:
  assumes "search d cfg query top_k r = (Inr res, r')"
  shows "int (length res) \<le> max 0 top_k" "distinct (map rr_chunk_id res)"
    "sorted_wrt (\<lambda>x y. result_key cfg query y \<le> result_key cfg query x) res"
    "x \<in> set res \<Longrightarrow> rr_marker x = ''['' @ rr_source x @ '':'' @ rr_chunk_id x @ '']''
       \<and> (rr_dense_rank x \<noteq> None \<or> rr_sparse_rank x \<noteq> None)"
proof -
  have "int (length res) \<le> max 0 top_k \<and> distinct (map rr_chunk_id res)
    \<and> sorted_wrt (\<lambda>x y. result_key cfg query y \<le> result_key cfg query x) res
    \<and> (\<forall>x \<in> set res. rr_marker x = ''['' @ rr_source x @ '':'' @ rr_chunk_id x @ '']''
       \<and> (rr_dense_rank x \<noteq> None \<or> rr_sparse_rank x \<noteq> None))"
  proof (cases "0 < top_k")
    case False
    with assms show ?thesis by (simp add: search_def)
  next
    case True
    from assms True show ?thesis
    proof (cases rule: search_Inr)
      case (2 dense sparse cands scores)
      obtain d where d: "rrf_candidates cfg dense sparse = Inr d" and
        ids: "distinct (map (\<lambda>c. ch_id (fc_chunk c)) cands)" and
        mem: "\<forall>c \<in> set cands. (ch_id (fc_chunk c), c) \<in> set d" using 2(1) by (rule fuse_Inr)
      obtain all where all: "mset all = mset (map result_of (zip cands scores))" "res = take (nat top_k) all"
        "sorted_wrt (\<lambda>x y. result_key cfg query y \<le> result_key cfg query x) all" "length scores = length cands"
        using 2(2) True by (rule rank_results_Inr)
      have "mset (map rr_chunk_id all) = mset (map (\<lambda>c. ch_id (fc_chunk c)) cands)"
        by (metis all(1,4) map_result_ids mset_map)
      then have "distinct (map rr_chunk_id all)" using ids by (metis mset_eq_imp_distinct_iff)
      then have "distinct (map rr_chunk_id res)" by (simp add: all(2) take_map [symmetric])
      moreover have "rr_marker x = ''['' @ rr_source x @ '':'' @ rr_chunk_id x @ '']''
          \<and> (rr_dense_rank x \<noteq> None \<or> rr_sparse_rank x \<noteq> None)" if "x \<in> set res" for x
      proof -
        have "x \<in> set all" using that all(2) by (auto dest: in_set_takeD)
        then have "x \<in> result_of ` set (zip cands scores)" by (metis all(1) set_map set_mset_mset)
        then obtain c s where cs: "c \<in> set cands" "x = result_of (c, s)" by (auto dest: set_zip_leftD)
        with mem have in_d: "(ch_id (fc_chunk c), c) \<in> set d" by blast
        then have "ch_id (fc_chunk c) \<in> hit_id ` set dense \<union> hit_id ` set sparse"
          unfolding rrf_spec(2) [OF d, symmetric] by (metis fst_conv image_eqI)
        moreover have "fc_dense c = last_rank 1 dense (ch_id (fc_chunk c))"
          "fc_sparse c = last_rank 1 sparse (ch_id (fc_chunk c))" using rrf_spec(3) [OF d in_d] by simp_all
        ultimately have "fc_dense c \<noteq> None \<or> fc_sparse c \<noteq> None"
          by (simp only: last_rank_None) blast
        with cs(2) show ?thesis by (simp add: result_of_def Let_def)
      qed
      moreover have "int (length res) \<le> max 0 top_k" using True by (simp add: all(2))
      moreover have "sorted_wrt (\<lambda>x y. result_key cfg query y \<le> result_key cfg query x) res"
        using all(3) by (simp add: all(2) sorted_wrt_take)
      ultimately show ?thesis by blast
    qed simp
  qed
  then show "int (length res) \<le> max 0 top_k" "distinct (map rr_chunk_id res)"
    "sorted_wrt (\<lambda>x y. result_key cfg query y \<le> result_key cfg query x) res"
    "x \<in> set res \<Longrightarrow> rr_marker x = ''['' @ rr_source x @ '':'' @ rr_chunk_id x @ '']''
       \<and> (rr_dense_rank x \<noteq> None \<or> rr_sparse_rank x \<noteq> None)"
    by auto
qed

section \<open>The lexical corpus follows the vector store\<close>

definition chunk_map :: "text_chunk list \<Rightarrow> str \<Rightarrow> text_chunk option" where
  "chunk_map cs = map_of (rev (map (\<lambda>c. (ch_id c, c)) cs))"

lemma chunk_map_append: "chunk_map (cs @ ds) = chunk_map cs ++ chunk_map ds"
  by (simp add: chunk_map_def)

lemma fold_by_id: "fold (\<lambda>c. dict_set (ch_id c) c) cs d = dict_update d (map (\<lambda>c. (ch_id c, c)) cs)"
  by (simp add: dict_update_def fold_map comp_def)

definition id_keyed :: "(str \<times> text_chunk) list \<Rightarrow> bool" where
  "id_keyed d \<longleftrightarrow> distinct (dict_keys d) \<and> (\<forall>(k, c) \<in> set d. ch_id c = k)"

lemma id_keyed_fold: "id_keyed d \<Longrightarrow> id_keyed (fold (\<lambda>c. dict_set (ch_id c) c) cs d)"
proof (induction cs arbitrary: d)
  case (Cons c cs)
  have "ch_id x = i" if "(i, x) \<in> set (dict_set (ch_id c) c d)" for i x
    using that Cons.prems by (induction "ch_id c" c d rule: dict_set.induct) (auto simp: id_keyed_def split: if_splits)
  then have "id_keyed (dict_set (ch_id c) c d)" using Cons.prems by (auto simp: id_keyed_def)
  then show ?case by (simp add: Cons.IH)
qed simp

lemma chunk_map_values: "id_keyed d \<Longrightarrow> chunk_map (map snd d) = map_of d"
proof -
  assume d: "id_keyed d"
  then have "map (\<lambda>c. (ch_id c, c)) (map snd d) = d"
    by (auto simp: id_keyed_def intro!: map_idI)
  moreover have "map_of (rev d) = map_of d"
    using d by (intro map_of_eqI) (auto simp: id_keyed_def rev_map [symmetric] intro!: map_of_is_SomeI dest: map_of_SomeD)
  ultimately show ?thesis by (simp add: chunk_map_def)
qed

text \<open>A store that keeps one chunk per identifier.\<close>

locale chunk_store =
  fixes upsert :: "text_chunk list \<Rightarrow> 's \<Rightarrow> 's"
    and contents :: "'s \<Rightarrow> str \<Rightarrow> text_chunk option"
  assumes contents_upsert: "contents (upsert cs s) = contents s ++ chunk_map cs"
begin

lemma lookup_new: "chunk_map cs i = Some c \<Longrightarrow> contents (upsert cs s) i = Some c"
  by (simp add: contents_upsert)

lemma lookup_old: "i \<notin> ch_id ` set cs \<Longrightarrow> contents (upsert cs s) i = contents s i"
proof -
  assume "i \<notin> ch_id ` set cs"
  then have "chunk_map cs i = None" by (auto simp: chunk_map_def map_of_eq_None_iff)
  then show ?thesis by (simp add: contents_upsert map_add_def)
qed

lemma upload_again: "contents (upsert cs (upsert cs s)) = contents (upsert cs s)"
  by (rule ext) (simp add: contents_upsert map_add_def split: option.splits)

lemma same_ids_replace:
  assumes "ch_id ` set cs = ch_id ` set ds"
  shows "contents (upsert ds (upsert cs s)) = contents (upsert ds s)"
proof
  fix i
  have "chunk_map cs i = None \<longleftrightarrow> chunk_map ds i = None"
    using assms by (auto simp: chunk_map_def map_of_eq_None_iff comp_def image_image)
  then show "contents (upsert ds (upsert cs s)) i = contents (upsert ds s) i"
    by (auto simp: contents_upsert map_add_def split: option.splits)
qed

lemma contents_uploads: "contents (fold upsert css s) = contents s ++ chunk_map (concat css)"
proof (induction css arbitrary: s)
  case Nil
  then show ?case by (simp add: chunk_map_def)
next
  case (Cons cs css)
  then show ?case by (simp add: contents_upsert chunk_map_append)
qed

end

definition index_contents :: "sparse_index \<Rightarrow> str \<Rightarrow> text_chunk option" where
  "index_contents i = chunk_map (si_chunks i)"

interpretation bm25: chunk_store sparse_upsert index_contents
proof
  fix cs :: "text_chunk list" and i :: sparse_index
  have keyed0: "id_keyed []" by (simp add: id_keyed_def)
  have k1: "id_keyed (by_id (si_chunks i))" unfolding by_id_def by (rule id_keyed_fold [OF keyed0])
  define d where "d = fold (\<lambda>c. dict_set (ch_id c) c) cs (by_id (si_chunks i))"
  have "id_keyed d" unfolding d_def by (rule id_keyed_fold [OF k1])
  then have "index_contents (sparse_upsert cs i) = map_of d"
    by (simp add: index_contents_def sparse_upsert_def rebuild_def d_def chunk_map_values)
  also have "\<dots> = index_contents i ++ chunk_map cs"
    by (simp add: d_def fold_by_id map_of_dict_update by_id_def index_contents_def chunk_map_def)
  finally show "index_contents (sparse_upsert cs i) = index_contents i ++ chunk_map cs" .
qed

text \<open>What the retriever relies on of the vector store and the model calls: an upsert stores the chunks by
  identifier or, when it raises, nothing; loading answers the stored chunks; nothing else changes them.\<close>

definition keeps :: "('w \<Rightarrow> 'c) \<Rightarrow> ('w, 'a) io \<Rightarrow> bool" where
  "keeps f m \<longleftrightarrow> (\<forall>w. f (snd (m w)) = f w)"

definition dense_contract :: "('w, 'v) rag_deps \<Rightarrow> ('w \<Rightarrow> str \<Rightarrow> text_chunk option) \<Rightarrow> bool" where
  "dense_contract d stored \<longleftrightarrow>
     (\<forall>ts. keeps stored (rd_embed d ts)) \<and> (\<forall>v n. keeps stored (rd_query d v n)) \<and>
     (\<forall>q cs. keeps stored (rd_rerank d q cs)) \<and>
     (\<forall>cs vs w r w'. rd_index d cs vs w = (r, w') \<longrightarrow>
        stored w' = (case r of Inl _ \<Rightarrow> stored w | Inr _ \<Rightarrow> stored w ++ chunk_map cs)) \<and>
     (\<exists>load. rd_load d = Some load \<and> keeps stored load \<and>
        (\<forall>w cs w'. load w = (Inr cs, w') \<longrightarrow> chunk_map cs = stored w))"

datatype rag_op = RIndex "text_chunk list" | RSearch str int

definition rag_step :: "('w, 'v) rag_deps \<Rightarrow> rag_config \<Rightarrow> rag_op \<Rightarrow> 'w retriever \<Rightarrow> 'w retriever" where
  "rag_step d cfg x r = (case x of RIndex cs \<Rightarrow> snd (index_chunks d cs r)
     | RSearch q k \<Rightarrow> snd (search d cfg q k r))"

definition in_sync :: "('w \<Rightarrow> str \<Rightarrow> text_chunk option) \<Rightarrow> 'w retriever \<Rightarrow> bool" where
  "in_sync stored r \<longleftrightarrow> index_ok (rv_sparse r) \<and>
     (rv_hydrated r \<or> has_chunks (rv_sparse r) \<longrightarrow> index_contents (rv_sparse r) = stored (rv_world r))"

text \<open>Actions that keep the retriever in step, whether they raise or not.\<close>

definition sync_keeping :: "('w \<Rightarrow> str \<Rightarrow> text_chunk option) \<Rightarrow> ('w retriever, 'a) io \<Rightarrow> bool" where
  "sync_keeping stored m \<longleftrightarrow> (\<forall>r. in_sync stored r \<longrightarrow> in_sync stored (snd (m r)))"

lemma sync_bind [intro]:
  "sync_keeping stored m \<Longrightarrow> (\<And>x. sync_keeping stored (f x)) \<Longrightarrow> sync_keeping stored (io_bind m f)"
  by (auto simp: sync_keeping_def io_bind_def split: prod.splits sum.splits)

lemma sync_simple [intro, simp]:
  "sync_keeping stored (io_return x)" "sync_keeping stored (io_lift y)"
  "sync_keeping stored (sparse_lookup d cfg q)"
  by (simp_all add: sync_keeping_def io_return_def io_lift_def sparse_lookup_def)

lemma sync_on_world [intro]: "keeps stored m \<Longrightarrow> sync_keeping stored (on_world m)"
proof -
  assume keep: "keeps stored m"
  have "stored w = stored w0" if "m w0 = (x, w)" for w0 x w
    using keep that by (metis keeps_def snd_conv)
  then show ?thesis by (auto simp: sync_keeping_def on_world_def in_sync_def split: prod.splits)
qed

lemma ensure_hydrated_sync:
  assumes "dense_contract d stored" shows "sync_keeping stored (ensure_hydrated d)"
proof -
  from assms obtain load where load: "rd_load d = Some load" "keeps stored load"
    "\<And>w cs w'. load w = (Inr cs, w') \<Longrightarrow> chunk_map cs = stored w" by (auto simp: dense_contract_def)
  have "in_sync stored (snd (ensure_hydrated d r))" if "in_sync stored r" for r
  proof (cases "rv_hydrated r \<or> has_chunks (rv_sparse r)")
    case True
    with that show ?thesis by (auto simp: ensure_hydrated_def mark_hydrated_def in_sync_def)
  next
    case False
    obtain x w where lw: "load (rv_world r) = (x, w)" by fastforce
    have w: "stored w = stored (rv_world r)" using load(2) lw by (metis keeps_def snd_conv)
    show ?thesis
    proof (cases x)
      case (Inl e)
      with False that lw load(1) w show ?thesis
        by (simp add: ensure_hydrated_def io_bind_def on_world_def in_sync_def)
    next
      case (Inr cs)
      then have "chunk_map cs = stored w" using load(3) lw w by metis
      with Inr False lw load(1) show ?thesis
        by (simp add: ensure_hydrated_def io_bind_def on_world_def in_sync_def put_sparse_def mark_hydrated_def
            index_contents_def sparse_replace_def rebuild_def index_ok_def)
    qed
  qed
  then show ?thesis by (simp add: sync_keeping_def)
qed

text \<open>After hydration, storing chunks in the vector store and then in the index keeps them equal.\<close>

lemma ensure_hydrated_done: "ensure_hydrated d r = (Inr (), r') \<Longrightarrow> rv_hydrated r'"
  by (auto simp: ensure_hydrated_def mark_hydrated_def io_bind_eq_Inr split: if_splits option.splits)

lemma index_chunks_sync:
  assumes "dense_contract d stored" shows "sync_keeping stored (index_chunks d cs)"
proof (cases "cs = []")
  case False
  have "in_sync stored (snd (index_chunks d cs r))" if sync: "in_sync stored r" for r
  proof -
    obtain x r1 where e: "ensure_hydrated d r = (x, r1)" by fastforce
    have s1: "in_sync stored r1" using ensure_hydrated_sync [OF assms] sync e by (metis sync_keeping_def snd_conv)
    show ?thesis
    proof (cases x)
      case (Inl a)
      with e s1 False show ?thesis by (simp add: index_chunks_def io_bind_def)
    next
      case (Inr u)
      obtain y w2 where em: "rd_embed d (map ch_text cs) (rv_world r1) = (y, w2)" by fastforce
      have w2: "stored w2 = stored (rv_world r1)"
        using assms em by (metis dense_contract_def keeps_def snd_conv)
      show ?thesis
      proof (cases y)
        case (Inl a)
        with Inr e em w2 s1 False show ?thesis
          by (auto simp: index_chunks_def io_bind_def on_world_def in_sync_def)
      next
        case (Inr vs)
        obtain z w3 where ix: "rd_index d cs vs w2 = (z, w3)" by fastforce
        have w3: "stored w3 = (case z of Inl _ \<Rightarrow> stored w2 | Inr _ \<Rightarrow> stored w2 ++ chunk_map cs)"
          using assms ix by (auto simp: dense_contract_def)
        have h: "rv_hydrated r1" using ensure_hydrated_done e \<open>x = Inr u\<close> by simp
        have eq: "index_contents (rv_sparse r1) = stored (rv_world r1)" using s1 h by (simp add: in_sync_def)
        show ?thesis using e \<open>x = Inr u\<close> em Inr ix w2 w3 s1 eq False
          by (cases z) (auto simp: index_chunks_def io_bind_def on_world_def put_sparse_def mark_hydrated_def
              in_sync_def bm25.contents_upsert)
      qed
    qed
  qed
  then show ?thesis by (simp add: sync_keeping_def)
qed (simp add: index_chunks_def)

lemma search_sync:
  assumes "dense_contract d stored" shows "sync_keeping stored (search d cfg q k)"
  using assms ensure_hydrated_sync [OF assms]
  by (auto simp: search_def dense_contract_def intro!: sync_bind sync_on_world)

lemma run_in_sync:
  assumes "dense_contract d stored" "in_sync stored r"
  shows "in_sync stored (fold (rag_step d cfg) xs r)"
  using assms(2)
proof (induction xs arbitrary: r)
  case (Cons x xs)
  have "in_sync stored (rag_step d cfg x r)"
    using Cons.prems index_chunks_sync [OF assms(1)] search_sync [OF assms(1)]
    by (auto simp: rag_step_def sync_keeping_def split: rag_op.splits)
  with Cons.IH show ?case by simp
qed simp

lemma new_retriever_in_sync: "in_sync stored (new_retriever empty_index w)"
  by (simp add: in_sync_def new_retriever_def empty_index_def has_chunks_def index_ok_def)

section \<open>Loading the stored chunks\<close>

lemma collect_Inr: "collect (map Inr xs) = Inr xs"
  by (induction xs) auto

lemma payload_roundtrip: "chunk_of_payload (payload_of c) = Inr c"
  by (cases c) (auto simp: chunk_of_payload_def payload_of_def payload_text_def as_text_def get_or_none_def Let_def)

lemma collect_payloads: "collect (map (\<lambda>c. point_chunk (Some (payload_of c))) cs) = Inr cs"
  by (induction cs) (simp_all add: point_chunk_def payload_roundtrip)

text \<open>A client whose scroll answers the stored payloads page by page, the last page without a next offset.\<close>

fun scroll_pages :: "'w qdrant \<Rightarrow> 'w \<Rightarrow> str option \<Rightarrow> text_chunk list list \<Rightarrow> bool" where
  "scroll_pages cl w off [] = False"
| "scroll_pages cl w off [p] = (qd_scroll cl off w = (Inr (map (\<lambda>c. Some (payload_of c)) p, None), w))"
| "scroll_pages cl w off (p # q # ps) = (\<exists>n.
     qd_scroll cl off w = (Inr (map (\<lambda>c. Some (payload_of c)) p, Some n), w) \<and> scroll_pages cl w (Some n) (q # ps))"

lemma scroll_loop_pages:
  "scroll_pages cl w off ps \<Longrightarrow> scroll_loop cl off acc w = Some (Inr (acc @ concat ps), w)"
proof (induction cl w off ps arbitrary: acc rule: scroll_pages.induct)
  case (2 cl w off p)
  then show ?case by (subst scroll_loop.simps) (simp add: collect_payloads comp_def)
next
  case (3 cl w off p q ps)
  then obtain n where "qd_scroll cl off w = (Inr (map (\<lambda>c. Some (payload_of c)) p, Some n), w)"
    and "scroll_pages cl w (Some n) (q # ps)" by auto
  with 3(1) show ?case by (subst scroll_loop.simps) (simp add: collect_payloads comp_def)
qed simp

lemma qdrant_load_pages:
  "qd_exists cl w = (Inr True, w) \<Longrightarrow> scroll_pages cl w None ps \<Longrightarrow>
     qdrant_load cl w = Some (Inr (sort_key ch_id (concat ps)), w)"
  by (simp add: qdrant_load_def scroll_loop_pages)

section \<open>Properties\<close>

text \<open>A small installation for the concrete runs: the world is the list of stored chunks.\<close>

definition ex_chunk :: "str \<Rightarrow> str \<Rightarrow> text_chunk" where
  "ex_chunk i t = \<lparr>ch_id = i, ch_text = t, ch_source = ''src'', ch_metadata = []\<rparr>"

definition ex_rag :: "(text_chunk list, unit) rag_deps" where
  "ex_rag = \<lparr>rd_embed = (\<lambda>ts w. (Inr (map (\<lambda>_. ()) ts), w)), rd_index = (\<lambda>cs vs w. (Inr (), w @ cs)),
     rd_query = (\<lambda>v n w. (Inr (map (\<lambda>c. \<lparr>hit_chunk = c, hit_score = 1\<rparr>) w), w)),
     rd_load = Some (\<lambda>w. (Inr w, w)), rd_rerank = (\<lambda>q cs w. (Inr (map (\<lambda>_. 1) cs), w)), rd_okapi = None\<rparr>"

lemma ex_rag_contract: "dense_contract ex_rag chunk_map"
  by (auto simp: dense_contract_def ex_rag_def keeps_def chunk_map_append)

text \<open>C12. Whatever sequence of uploads and searches a fresh retriever serves, once it has been hydrated
  its lexical index holds exactly the chunks of the vector store, by identifier: a document stored before
  a restart is not lost by the first upload after it.\<close>
theorem retriever_in_sync:
  assumes "dense_contract d stored" "rv_hydrated (fold (rag_step d cfg) ops (new_retriever empty_index w))"
  shows "index_contents (rv_sparse (fold (rag_step d cfg) ops (new_retriever empty_index w)))
    = stored (rv_world (fold (rag_step d cfg) ops (new_retriever empty_index w)))"
  using run_in_sync [OF assms(1) new_retriever_in_sync] assms(2) by (simp add: in_sync_def)

lemma ex_upload_hydrated:
  "rv_hydrated (fold (rag_step ex_rag default_rag_config) [RIndex [ex_chunk ''b'' ''new'']]
     (new_retriever empty_index [ex_chunk ''a'' ''old'']))"
  by (simp add: rag_step_def index_chunks_def ensure_hydrated_def new_retriever_def empty_index_def has_chunks_def
      io_bind_def on_world_def ex_rag_def mark_hydrated_def put_sparse_def)

lemma retriever_in_sync_witness:
  "index_contents (rv_sparse (fold (rag_step ex_rag default_rag_config) [RIndex [ex_chunk ''b'' ''new'']]
     (new_retriever empty_index [ex_chunk ''a'' ''old''])))
   = chunk_map (rv_world (fold (rag_step ex_rag default_rag_config) [RIndex [ex_chunk ''b'' ''new'']]
     (new_retriever empty_index [ex_chunk ''a'' ''old''])))"
  by (rule retriever_in_sync [OF ex_rag_contract ex_upload_hydrated])

text \<open>With a non-negative constant, fusion succeeds and its candidates are the identifiers of the two
  lists, each once; a candidate's score is the sum over its occurrences of weight over constant plus rank,
  and its ranks are those of its last occurrence in each list.\<close>
theorem rrf_exact:
  assumes "0 \<le> rg_rrf_k cfg"
  shows "\<exists>d. rrf_candidates cfg dense sparse = Inr d \<and> distinct (dict_keys d)
    \<and> set (dict_keys d) = hit_id ` set dense \<union> hit_id ` set sparse
    \<and> list_all (\<lambda>(cid, c). ch_id (fc_chunk c) = cid
         \<and> fc_score c = (\<Sum>j < length dense. if hit_id (dense ! j) = cid
               then rg_dense_weight cfg / of_int (rg_rrf_k cfg + int (1 + j)) else 0)
           + (\<Sum>j < length sparse. if hit_id (sparse ! j) = cid
               then rg_sparse_weight cfg / of_int (rg_rrf_k cfg + int (1 + j)) else 0)
         \<and> fc_dense c = last_rank 1 dense cid \<and> fc_sparse c = last_rank 1 sparse cid) d"
proof -
  obtain d1 where "rrf_pass set_dense_rank (rg_dense_weight cfg) (rg_rrf_k cfg) 1 dense [] = Inr d1"
    using rrf_pass_total [OF assms zero_less_one, of set_dense_rank "rg_dense_weight cfg" dense "[]"] by auto
  moreover obtain d where "rrf_pass set_sparse_rank (rg_sparse_weight cfg) (rg_rrf_k cfg) 1 sparse d1 = Inr d"
    using rrf_pass_total [OF assms zero_less_one, of set_sparse_rank "rg_sparse_weight cfg" sparse d1] by auto
  ultimately have d: "rrf_candidates cfg dense sparse = Inr d" by (simp add: rrf_candidates_def)
  have each: "ch_id (fc_chunk c) = cid
      \<and> fc_score c = rank_sum (rg_dense_weight cfg) (rg_rrf_k cfg) 1 dense cid
           + rank_sum (rg_sparse_weight cfg) (rg_rrf_k cfg) 1 sparse cid
      \<and> fc_dense c = last_rank 1 dense cid \<and> fc_sparse c = last_rank 1 sparse cid" if "(cid, c) \<in> set d" for cid c
    using rrf_spec(1) [OF d] that rrf_spec(3) [OF d that] unfolding keyed_def by blast
  show ?thesis
  proof (intro exI [of _ d] conjI)
    show "distinct (dict_keys d)" using rrf_spec(1) [OF d] by (simp add: keyed_def)
    show "set (dict_keys d) = hit_id ` set dense \<union> hit_id ` set sparse" using rrf_spec(2) [OF d] by simp
  qed (use d each in \<open>simp_all only: list_all_iff rank_sum_def, blast?\<close>)
qed

definition ex_hits :: "search_hit list" where
  "ex_hits = [\<lparr>hit_chunk = ex_chunk ''a'' ''x'', hit_score = 2\<rparr>, \<lparr>hit_chunk = ex_chunk ''b'' ''y'', hit_score = 1\<rparr>]"

lemma rrf_exact_witness:
  "\<exists>d. rrf_candidates default_rag_config ex_hits (rev ex_hits) = Inr d \<and> set (dict_keys d) = {''a'', ''b''}"
proof -
  have "0 \<le> rg_rrf_k default_rag_config" by (simp add: default_rag_config_def)
  from rrf_exact [OF this, of ex_hits "rev ex_hits"] show ?thesis
    by (auto simp: ex_hits_def ex_chunk_def)
qed

text \<open>A search that returns gives at most \<open>top_k\<close> results, no chunk twice, in descending order of
  technical matches, reranker score, fused score and lexical rank, each with the marker of its source and
  identifier and the rank of at least one of the two indexes.\<close>
theorem search_contract:
  assumes "search d cfg query top_k r = (Inr res, r')"
  shows "int (length res) \<le> max 0 top_k \<and> distinct (map rr_chunk_id res)
    \<and> sorted_wrt (\<lambda>x y. result_key cfg query y \<le> result_key cfg query x) res
    \<and> list_all (\<lambda>x. rr_marker x = ''['' @ rr_source x @ '':'' @ rr_chunk_id x @ '']''
         \<and> (rr_dense_rank x \<noteq> None \<or> rr_sparse_rank x \<noteq> None)) res"
  using search_results [OF assms] by (simp add: list_all_iff)

lemma ex_sparse: "sparse_search None (rebuild [c]) ''?'' 40 = Inr []"
proof -
  have t: "tokenize ''?'' = []" by code_simp
  show ?thesis by (simp add: sparse_search_def rebuild_def index_scores_def t simple_bm25_def py_prefix_def sorted_desc_def)
qed
lemma ex_fuse: "fuse default_rag_config [\<lparr>hit_chunk = c, hit_score = 1\<rparr>] []
   = Inr [\<lparr>fc_chunk = c, fc_score = 1 / 61, fc_dense = Some 1, fc_sparse = None\<rparr>]"
  by (simp add: fuse_def rrf_candidates_def default_rag_config_def new_candidate_def dict_setdefault_def set_dense_rank_def
     py_prefix_def sorted_desc_def Let_def)
lemma ex_rank: "rank_results default_rag_config ''?'' 1 [fc] [1] = Inr [result_of (fc, 1)]"
  by (simp add: rank_results_def py_prefix_def sorted_desc_def)
lemma ex_search:
  "search ex_rag default_rag_config ''?'' 1 (new_retriever empty_index [ex_chunk ''a'' ''x'']) = 
   (Inr [result_of (\<lparr>fc_chunk = ex_chunk ''a'' ''x'', fc_score = 1 / 61, fc_dense = Some 1, fc_sparse = None\<rparr>, 1)],
     \<lparr>rv_sparse = rebuild [ex_chunk ''a'' ''x''], rv_hydrated = True, rv_world = [ex_chunk ''a'' ''x'']\<rparr>)"
proof -
  have lim: "rg_sparse_limit default_rag_config = 40" by (simp add: default_rag_config_def)
  show ?thesis
    by (simp add: search_def ensure_hydrated_def new_retriever_def empty_index_def has_chunks_def
      io_bind_def on_world_def ex_rag_def mark_hydrated_def put_sparse_def first_vector_def sparse_lookup_def 
     sparse_replace_def ex_sparse ex_fuse ex_rank lim)
qed

lemma search_contract_witness:
  "distinct (map rr_chunk_id [result_of (\<lparr>fc_chunk = ex_chunk ''a'' ''x'', fc_score = 1 / 61, fc_dense = Some 1, fc_sparse = None\<rparr>, 1)])"
  using search_contract [OF ex_search] by blast

text \<open>When the package's scores, if it is installed, are all non-positive, as they are on a tiny
  corpus, the lexical search still finds every chunk that shares a token with the query, and only those,
  in descending score order, up to the limit.\<close>
theorem lexical_match_survives:
  assumes "index_ok i"
    and "case okapi of None \<Rightarrow> True | Some f \<Rightarrow> list_all (\<lambda>x. x \<le> 0) (f (si_tokens i) (tokenize query))"
  shows "\<exists>hits. sparse_search okapi i query limit = Inr hits
    \<and> sorted_wrt (\<lambda>a b. hit_score b \<le> hit_score a) hits
    \<and> hit_chunk ` set hits \<subseteq> {c \<in> set (si_chunks i). shares_token query c}
    \<and> (int (length (si_chunks i)) \<le> limit
        \<longrightarrow> hit_chunk ` set hits = {c \<in> set (si_chunks i). shares_token query c})"
proof -
  have "index_scores okapi i (tokenize query) = simple_bm25 (si_tokens i) (tokenize query)"
    using assms by (intro fallback_scores) (auto simp: list_all_iff split: option.splits)
  from sparse_search_fallback [OF assms(1) this, of limit] show ?thesis by blast
qed

definition ex_index :: sparse_index where
  "ex_index = sparse_upsert [ex_chunk ''a'' ''invoice total''] empty_index"

lemma lexical_match_survives_witness:
  "\<exists>hits. sparse_search (Some (\<lambda>corpus q. [- 1])) ex_index ''Invoice'' 40 = Inr hits
    \<and> hit_chunk ` set hits = {ex_chunk ''a'' ''invoice total''}"
proof -
  have cs: "si_chunks ex_index = [ex_chunk ''a'' ''invoice total'']"
    by (simp add: ex_index_def sparse_upsert_def empty_index_def by_id_def rebuild_def)
  have ok: "index_ok ex_index" by (simp add: ex_index_def)
  have t: "''invoice'' \<in> set (tokenize ''Invoice'')" "''invoice'' \<in> set (tokenize ''invoice total'')"
    by code_simp+
  have "shares_token ''Invoice'' (ex_chunk ''a'' ''invoice total'')"
    using t by (auto simp: shares_token_def ex_chunk_def)
  then have all: "{c \<in> set (si_chunks ex_index). shares_token ''Invoice'' c} = {ex_chunk ''a'' ''invoice total''}"
    by (auto simp: cs)
  have neg: "case Some (\<lambda>(corpus :: str list list) (q :: str list). [- 1 :: real]) of None \<Rightarrow> True
      | Some f \<Rightarrow> list_all (\<lambda>x. x \<le> 0) (f (si_tokens ex_index) (tokenize ''Invoice''))" by simp
  from lexical_match_survives [OF ok neg, of 40] obtain hits where
    "sparse_search (Some (\<lambda>corpus q. [- 1])) ex_index ''Invoice'' 40 = Inr hits"
    "hit_chunk ` set hits = {c \<in> set (si_chunks ex_index). shares_token ''Invoice'' c}" by (auto simp: cs)
  then show ?thesis by (auto simp: all)
qed

text \<open>Hydration reads every page: when the client scrolls through the stored payloads in pages, loading
  returns all of their chunks, sorted by identifier.\<close>
theorem hydration_reads_all:
  assumes "qd_exists cl w = (Inr True, w)" "scroll_pages cl w None ps"
  shows "qdrant_load cl w = Some (Inr (sort_key ch_id (concat ps)), w)"
  by (rule qdrant_load_pages [OF assms])

definition ex_client :: "unit qdrant" where
  "ex_client = \<lparr>qd_exists = (\<lambda>w. (Inr True, w)), qd_create = (\<lambda>n w. (Inr (), w)), qd_upsert = (\<lambda>ps w. (Inr (), w)),
     qd_query = (\<lambda>v n w. (Inr [], w)),
     qd_scroll = (\<lambda>off w. (Inr (if off = None then ([Some (payload_of (ex_chunk ''b'' ''y''))], Some ''o'')
        else ([Some (payload_of (ex_chunk ''a'' ''x''))], None)), w))\<rparr>"

lemma hydration_reads_all_witness:
  "qdrant_load ex_client () = Some (Inr (sort_key ch_id [ex_chunk ''b'' ''y'', ex_chunk ''a'' ''x'']), ())"
  using hydration_reads_all [of ex_client "()" "[[ex_chunk ''b'' ''y''], [ex_chunk ''a'' ''x'']]"]
  by (simp add: ex_client_def)

section \<open>Vectors and cosine scores\<close>

lemma sum_squares_nonneg: "(0 :: real) \<le> sum_list (map (\<lambda>x. x * x) v)"
  by (induction v) auto

lemma norm_of_scaled: "norm_of v \<noteq> 0 \<Longrightarrow> norm_of (map (\<lambda>x. x / norm_of v) v) = 1"
proof -
  assume n: "norm_of v \<noteq> 0"
  define q where "q = sum_list (map (\<lambda>x. x * x) v)"
  have q0: "0 \<le> q" unfolding q_def by (rule sum_squares_nonneg)
  have nv: "norm_of v * norm_of v = q" using q0 by (simp add: norm_of_def q_def)
  have "sum_list (map (\<lambda>x. x * x) (map (\<lambda>x. x / norm_of v) v)) = sum_list (map (\<lambda>x. x * x / q) v)"
    by (simp add: comp_def nv)
  also have "\<dots> = q / q"
  proof -
    have "sum_list (map (\<lambda>x. x * x / c) v) = sum_list (map (\<lambda>x. x * x) v) / c" for c :: real
      by (induction v) (simp_all add: add_divide_distrib)
    then show ?thesis by (simp only: q_def)
  qed
  also have "\<dots> = 1" using n nv by auto
  finally show ?thesis by (simp add: norm_of_def)
qed

lemma length_feature_vector: "length (feature_vector sha width s) = width"
proof -
  have "length (fold (\<lambda>(t, n) v. add_feature sha width t n 8 (add_feature sha width t n 0 v)) ps v) = length v" for ps v
    by (induction ps arbitrary: v) (auto simp: add_feature_def Let_def)
  then show ?thesis by (simp add: feature_vector_def)
qed

lemma sum_squares_zero: "sum_list (map (\<lambda>x. x * x) v) = 0 \<Longrightarrow> set v \<subseteq> {0 :: real}"
proof (induction v)
  case (Cons x v)
  have "0 \<le> x * x" "0 \<le> sum_list (map (\<lambda>x. x * x) v)" using sum_squares_nonneg by auto
  moreover have "x * x + sum_list (map (\<lambda>x. x * x) v) = 0" using Cons.prems by simp
  ultimately have "x * x = 0" "sum_list (map (\<lambda>x. x * x) v) = 0" by linarith+
  with Cons.IH show ?case by simp
qed simp

lemma unit_update:
  "set v \<subseteq> {0 :: real} \<Longrightarrow> n < length v \<Longrightarrow> norm_of (v[n := 1]) = 1"
proof (induction v arbitrary: n)
  case (Cons x v)
  have z: "set v \<subseteq> {0 :: real} \<Longrightarrow> sum_list (map (\<lambda>x. x * x) v) = 0" for v by (induction v) auto
  from Cons show ?case by (cases n) (auto simp: norm_of_def z)
qed simp

lemma hash_embed_one_unit:
  assumes "0 < width"
  shows "length (hash_embed_one sha width s) = width" "norm_of (hash_embed_one sha width s) = 1"
proof -
  define v where "v = feature_vector sha width s"
  have len: "length v = width" by (simp add: v_def length_feature_vector)
  have zero: "set v \<subseteq> {0}" if "norm_of v = 0"
    using that by (intro sum_squares_zero) (simp add: norm_of_def)
  show "length (hash_embed_one sha width s) = width" using len by (simp add: hash_embed_one_def v_def Let_def)
  show "norm_of (hash_embed_one sha width s) = 1"
    using zero len assms norm_of_scaled [of v] unit_update [of v]
    by (simp add: hash_embed_one_def v_def [symmetric] Let_def)
qed

text \<open>Hash embedding refuses a non-positive width; otherwise it gives one vector per text, of that
  width and of norm one, for the empty text as well.\<close>
theorem hash_embed_unit:
  shows "case hash_embed sha width ts of Inl e \<Rightarrow> width \<le> 0 \<and> fst e = ValueError
    | Inr vs \<Rightarrow> 0 < width \<and> length vs = length ts
        \<and> list_all (\<lambda>v. length v = nat width \<and> norm_of v = 1) vs"
  by (simp add: hash_embed_def hash_embed_one_unit list_all_iff)

lemma sum_list_counter: "sum_list (map f (counter xs)) = (\<Sum>t \<in> set xs. f (t, count_list xs t))"
proof -
  have "sum_list (map f (counter xs)) = sum_list (map (\<lambda>t. f (t, count_list xs t)) (rev (remdups (rev xs))))"
    by (simp add: counter_def comp_def)
  also have "\<dots> = (\<Sum>t \<in> set xs. f (t, count_list xs t))" by (subst sum_list_distinct_conv_sum_set) auto
  finally show ?thesis .
qed

lemma counter_get_counter: "counter_get (counter xs) t = count_list xs t"
proof (cases "t \<in> set xs")
  case True
  then have "map_of (counter xs) t = Some (count_list xs t)"
    by (simp add: counter_def map_of_map_restrict)
  then show ?thesis by (simp add: counter_get_def)
next
  case False
  then have "map_of (counter xs) t = None" by (simp add: counter_def map_of_map_restrict)
  with False show ?thesis by (simp add: counter_get_def count_notin)
qed

lemma cauchy_schwarz:
  fixes a b :: "'a \<Rightarrow> real"
  assumes "finite A"
  shows "(\<Sum>t \<in> A. a t * b t)\<^sup>2 \<le> (\<Sum>t \<in> A. (a t)\<^sup>2) * (\<Sum>t \<in> A. (b t)\<^sup>2)"
  using assms
proof (induction A rule: finite_induct)
  case (insert x A)
  define s p q where "s = (\<Sum>t \<in> A. a t * b t)" and "p = (\<Sum>t \<in> A. (a t)\<^sup>2)" and "q = (\<Sum>t \<in> A. (b t)\<^sup>2)"
  have pq: "0 \<le> p" "0 \<le> q" by (auto simp: p_def q_def intro: sum_nonneg)
  have "\<bar>s\<bar> \<le> sqrt (p * q)" using insert.IH by (simp add: s_def p_def q_def real_le_rsqrt)
  then have "\<bar>s\<bar> * \<bar>a x * b x\<bar> \<le> sqrt p * sqrt q * \<bar>a x * b x\<bar>"
    unfolding real_sqrt_mult [symmetric] by (rule mult_right_mono) simp
  moreover have "s * (a x * b x) \<le> \<bar>s\<bar> * \<bar>a x * b x\<bar>" unfolding abs_mult [symmetric] by simp
  ultimately have "s * (a x * b x) \<le> sqrt p * sqrt q * \<bar>a x * b x\<bar>" by linarith
  moreover have "2 * (sqrt p * sqrt q * \<bar>a x * b x\<bar>) \<le> p * (b x)\<^sup>2 + q * (a x)\<^sup>2"
  proof -
    have expand: "(u * y - v * z)\<^sup>2 = u\<^sup>2 * y\<^sup>2 - 2 * (u * v * (z * y)) + v\<^sup>2 * z\<^sup>2" for u v y z :: real
      by (simp add: power2_eq_square algebra_simps)
    have "0 \<le> (sqrt p * \<bar>b x\<bar> - sqrt q * \<bar>a x\<bar>)\<^sup>2" by simp
    then show ?thesis using pq by (simp add: expand abs_mult)
  qed
  ultimately have "2 * (s * (a x * b x)) \<le> p * (b x)\<^sup>2 + q * (a x)\<^sup>2" by linarith
  moreover have "s\<^sup>2 \<le> p * q" using insert.IH by (simp add: s_def p_def q_def)
  ultimately have "(a x * b x + s)\<^sup>2 \<le> ((a x)\<^sup>2 + p) * ((b x)\<^sup>2 + q)"
    by (simp add: power2_sum power_mult_distrib algebra_simps)
  with insert show ?case by (simp add: s_def p_def q_def)
qed simp

definition square_sum :: "str list \<Rightarrow> real" where
  "square_sum xs = (\<Sum>t \<in> set xs. (of_nat (count_list xs t))\<^sup>2)"

lemma count_norm_counter: "count_norm (counter xs) = sqrt (square_sum xs)"
  by (simp add: count_norm_def sum_list_counter square_sum_def power2_eq_square)

lemma square_sum_pos: "xs \<noteq> [] \<Longrightarrow> 0 < square_sum xs"
  unfolding square_sum_def by (intro sum_pos) (auto simp: count_list_0_iff)

lemma square_sum_zero [simp]: "square_sum [] = 0"
  by (simp add: square_sum_def)

definition overlap :: "str list \<Rightarrow> str list \<Rightarrow> real" where
  "overlap xs ys = (\<Sum>t \<in> set xs. of_nat (count_list xs t) * of_nat (count_list ys t))"

lemma overlap_bound: "overlap xs ys \<le> sqrt (square_sum xs) * sqrt (square_sum ys)"
proof -
  have "(\<Sum>t \<in> set xs. (of_nat (count_list ys t) :: real)\<^sup>2) \<le> (\<Sum>t \<in> set xs \<union> set ys. (of_nat (count_list ys t))\<^sup>2)"
    by (intro sum_mono2) auto
  also have "\<dots> = square_sum ys"
    unfolding square_sum_def by (intro sum.mono_neutral_right) (auto simp: count_notin)
  finally have "(overlap xs ys)\<^sup>2 \<le> square_sum xs * square_sum ys"
    using cauchy_schwarz [of "set xs" "\<lambda>t. of_nat (count_list xs t)" "\<lambda>t. of_nat (count_list ys t)"]
    unfolding overlap_def square_sum_def [of xs]
    by (meson List.finite_set dual_order.trans mult_left_mono sum_nonneg zero_le_power2)
  then show ?thesis by (simp add: real_sqrt_mult [symmetric] real_le_rsqrt)
qed

lemma overlap_pos: "0 \<le> overlap xs ys" "0 < overlap xs ys \<longleftrightarrow> set xs \<inter> set ys \<noteq> {}"
proof -
  have nn: "0 \<le> (of_nat (count_list xs t) * of_nat (count_list ys t) :: real)" for t by simp
  show "0 \<le> overlap xs ys" unfolding overlap_def by (intro sum_nonneg nn)
  have "overlap xs ys = 0 \<longleftrightarrow> (\<forall>t \<in> set xs. count_list ys t = 0)"
    unfolding overlap_def by (subst sum_nonneg_eq_0_iff) (auto simp: count_list_0_iff)
  then show "0 < overlap xs ys \<longleftrightarrow> set xs \<inter> set ys \<noteq> {}"
    using \<open>0 \<le> overlap xs ys\<close> by (auto simp: count_list_0_iff less_le)
qed

lemma lexical_score_cosine: "lexical_score query chunks = map (\<lambda>c. let ys = tokenize (ch_text c); xs = tokenize query in
    if xs = [] \<or> ys = [] then 0 else overlap xs ys / (sqrt (square_sum xs) * sqrt (square_sum ys))) chunks"
proof -
  have z: "square_sum xs = 0 \<longleftrightarrow> xs = []" for xs using square_sum_pos [of xs] by (cases "xs = []") auto
  show ?thesis
    by (simp add: lexical_score_def Let_def count_norm_counter z overlap_def sum_list_counter counter_get_counter)
qed

text \<open>The lexical reranker gives each chunk a score between zero and one, positive exactly for the
  chunks that share a token with the query.\<close>
theorem lexical_score_bounds:
  shows "list_all2 (\<lambda>c x. 0 \<le> x \<and> x \<le> 1 \<and> (0 < x) = shares_token query c) chunks (lexical_score query chunks)"
proof -
  have "0 \<le> x \<and> x \<le> 1 \<and> (0 < x) = shares_token query c"
    if x: "x = (let ys = tokenize (ch_text c); xs = tokenize query in
      if xs = [] \<or> ys = [] then 0 else overlap xs ys / (sqrt (square_sum xs) * sqrt (square_sum ys)))" for c x
  proof (cases "tokenize query = [] \<or> tokenize (ch_text c) = []")
    case True
    then have "\<not> shares_token query c" by (auto simp: shares_token_def)
    with True x show ?thesis by simp
  next
    case False
    define xs ys where "xs = tokenize query" and "ys = tokenize (ch_text c)"
    have n: "0 < sqrt (square_sum xs) * sqrt (square_sum ys)"
      using False square_sum_pos by (simp add: xs_def ys_def)
    have "x = overlap xs ys / (sqrt (square_sum xs) * sqrt (square_sum ys))"
      using False x by (simp add: xs_def ys_def Let_def)
    with n overlap_bound [of xs ys] overlap_pos [of xs ys] show ?thesis
      by (simp add: shares_token_def xs_def [symmetric] ys_def [symmetric] zero_less_divide_iff divide_le_eq)
  qed
  then show ?thesis by (simp add: lexical_score_cosine list_all2_conv_all_nth)
qed

end
