(* ===== verification/MinerRepo.thy ===== *)
theory MinerRepo
  imports ProdLogs
begin

text \<open>
  The PostgreSQL repository of the log miner, \<open>analytics-workers/src/log_miner/repository.py\<close>, over the tables
  of \<open>migrations/001_log_miner.sql\<close>: leases with fencing tokens, run audit rows, mined candidates with their
  members, golden cases, the embedding cache and the production log. A statement sees one database clock;
  a transaction that raises leaves the database as it was. \<open>gen_random_uuid()\<close> and \<open>uuid4()\<close> draw from one
  supply of fresh identifiers. Time is a number of seconds.
\<close>

section \<open>Data\<close>

type_synonym uuid = nat
type_synonym time = int

datatype expected_behavior = Answer | Refuse | Clarify
datatype difficulty_rating = Simple | Moderate | Hard | Adversarial
datatype candidate_status = PendingReview | Promoted
datatype run_status = RunRunning | RunCompleted | RunFailed | RunSkipped

record expected_output =
  eo_answer :: str
  eo_criteria :: "(str \<times> bool) list"
  eo_behavior :: expected_behavior
  eo_pattern :: str

record mined_candidate =
  cd_fingerprint :: str
  cd_scope :: str
  cd_input :: str
  cd_representative :: str
  cd_members :: "str list"
  cd_label :: "int option"
  cd_noise :: bool
  cd_outlier :: "rat option"
  cd_expected :: expected_output
  cd_difficulty :: difficulty_rating
  cd_confidence :: rat
  cd_status :: candidate_status
  cd_provenance :: "pyval dict"

record persist_result =
  pr_created :: bool
  pr_candidate :: "uuid option"
  pr_golden :: "uuid option"

record run_claim =
  rc_run :: uuid
  rc_lease :: str
  rc_token :: uuid
  rc_expires :: time

record cached_embedding =
  ce_fingerprint :: str
  ce_provider :: str
  ce_model :: str
  ce_version :: str
  ce_dimensions :: int
  ce_values :: "real list"

record interaction_record =
  ir_trace :: str
  ir_scope :: str
  ir_prompt :: str
  ir_fingerprint :: "str option"
  ir_scores :: "int dict"
  ir_min_score :: "int option"
  ir_status :: "str option"
  ir_negative :: bool
  ir_created :: time

record run_counts =
  rk_eligible :: int
  rk_embedded :: int
  rk_candidate :: int
  rk_promoted :: int
  rk_pending :: int
  rk_duplicate :: int
  rk_error :: int
  rk_purged :: int

definition empty_counts :: run_counts where
  "empty_counts = \<lparr>rk_eligible = 0, rk_embedded = 0, rk_candidate = 0, rk_promoted = 0, rk_pending = 0,
     rk_duplicate = 0, rk_error = 0, rk_purged = 0\<rparr>"

record run_summary =
  sm_run :: "uuid option"
  sm_status :: run_status
  sm_start :: time
  sm_end :: time
  sm_counts :: run_counts
  sm_message :: "str option"

section \<open>Tables\<close>

record lease_row =
  ls_token :: "uuid option"
  ls_run :: "uuid option"
  ls_expires :: "time option"
  ls_heartbeat :: "time option"

record run_row =
  rn_status :: run_status
  rn_start :: time
  rn_end :: time
  rn_config :: "pyval dict"
  rn_counts :: run_counts
  rn_message :: "str option"
  rn_completed :: "time option"

text \<open>A candidate row holds its case, which merging updates.\<close>

record candidate_row =
  cr_id :: uuid
  cr_run :: "uuid option"
  cr_case :: mined_candidate
  cr_golden :: "uuid option"
  cr_created :: time
  cr_updated :: time

record golden_row =
  gd_id :: uuid
  gd_scope :: str
  gd_input :: str
  gd_expected :: expected_output
  gd_difficulty :: difficulty_rating
  gd_origin :: str
  gd_fingerprint :: "str option"
  gd_provenance :: "pyval dict"

record source_row = log_row +
  sr_created :: time

record miner_db =
  db_clock :: time
  db_next :: nat
  db_leases :: "lease_row dict"
  db_runs :: "(uuid \<times> run_row) list"
  db_candidates :: "candidate_row list"
  db_members :: "(uuid \<times> str) list"
  db_golden :: "golden_row list"
  db_cache :: "cached_embedding list"
  db_logs :: "source_row dict"

type_synonym 'a query = "miner_db \<Rightarrow> 'a result \<times> miner_db"

definition transaction :: "'a query \<Rightarrow> 'a query" where
  "transaction m db = (case m db of (Inl e, _) \<Rightarrow> (Inl e, db) | (Inr x, db') \<Rightarrow> (Inr x, db'))"

section \<open>Leases\<close>

definition unexpired :: "miner_db \<Rightarrow> lease_row \<Rightarrow> bool" where
  "unexpired db l \<longleftrightarrow> (case ls_expires l of None \<Rightarrow> False | Some t \<Rightarrow> db_clock db < t)"

text \<open>The lease row that a claim names and still owns.\<close>

definition owned_lease :: "run_claim \<Rightarrow> miner_db \<Rightarrow> lease_row option" where
  "owned_lease c db = (case map_of (db_leases db) (rc_lease c) of None \<Rightarrow> None
     | Some l \<Rightarrow> if ls_token l = Some (rc_token c) \<and> ls_run l = Some (rc_run c) \<and> unexpired db l
                 then Some l else None)"

definition owns :: "run_claim \<Rightarrow> miner_db \<Rightarrow> bool" where
  "owns c db \<longleftrightarrow> owned_lease c db \<noteq> None"

abbreviation claim_lost :: "str \<Rightarrow> exn" where
  "claim_lost m \<equiv> (OtherException ''RunClaimLostError'', m)"

definition assert_claim :: "run_claim \<Rightarrow> unit query" where
  "assert_claim c db = (if owns c db then Inr () else Inl (claim_lost ''log-miner run lease is no longer active''), db)"

definition free_lease :: lease_row where
  "free_lease = \<lparr>ls_token = None, ls_run = None, ls_expires = None, ls_heartbeat = None\<rparr>"

definition new_run :: "run_status \<Rightarrow> time \<Rightarrow> time \<Rightarrow> pyval dict \<Rightarrow> run_row" where
  "new_run status ws we cfg = \<lparr>rn_status = status, rn_start = ws, rn_end = we, rn_config = cfg,
     rn_counts = empty_counts, rn_message = None, rn_completed = None\<rparr>"

text \<open>The run of an expired lease is closed as failed, if it was still running.\<close>

definition expire_run :: "time \<Rightarrow> run_row \<Rightarrow> run_row" where
  "expire_run now r = (if rn_status r = RunRunning
     then r\<lparr>rn_status := RunFailed, rn_counts := (rn_counts r)\<lparr>rk_error := rk_error (rn_counts r) + 1\<rparr>,
            rn_message := Some ''RunLeaseExpired'', rn_completed := Some now\<rparr>
     else r)"

definition update_row :: "'k \<Rightarrow> ('v \<Rightarrow> 'v) \<Rightarrow> ('k \<times> 'v) list \<Rightarrow> ('k \<times> 'v) list" where
  "update_row k f t = map (\<lambda>(i, r). (i, if i = k then f r else r)) t"

definition grant_lease :: "str \<Rightarrow> int \<Rightarrow> time \<Rightarrow> time \<Rightarrow> pyval dict \<Rightarrow> lease_row \<Rightarrow> run_claim option query" where
  "grant_lease name ttl ws we cfg l db =
     (let runs = (case ls_run l of None \<Rightarrow> db_runs db
                  | Some old \<Rightarrow> update_row old (expire_run (db_clock db)) (db_runs db));
          run = db_next db; token = db_next db + 1; expires = db_clock db + ttl
      in (Inr (Some \<lparr>rc_run = run, rc_lease = name, rc_token = token, rc_expires = expires\<rparr>),
          db\<lparr>db_next := db_next db + 2, db_runs := runs @ [(run, new_run RunRunning ws we cfg)],
             db_leases := update_row name (\<lambda>_. \<lparr>ls_token = Some token, ls_run = Some run,
               ls_expires = Some expires, ls_heartbeat = Some (db_clock db)\<rparr>) (db_leases db)\<rparr>))"

definition claim_run :: "str \<Rightarrow> int \<Rightarrow> time \<Rightarrow> time \<Rightarrow> pyval dict \<Rightarrow> run_claim option query" where
  "claim_run name ttl ws we cfg db =
     (if name = [] \<or> ttl < 1 then (Inl (ValueError, ''lease_name and a positive lease TTL are required''), db)
      else if 128 < length name then (Inl (OtherException ''DataError'', ''value too long''), db)
      else (let db1 = db\<lparr>db_leases := dict_setdefault name free_lease (db_leases db)\<rparr>;
                l = the (map_of (db_leases db1) name)
            in if unexpired db l then (Inr None, db1) else grant_lease name ttl ws we cfg l db1))"

definition renew_claim :: "run_claim \<Rightarrow> int \<Rightarrow> bool query" where
  "renew_claim c ttl db =
     (if ttl < 1 then (Inl (ValueError, ''lease TTL must be positive''), db)
      else if owns c db
      then (Inr True, db\<lparr>db_leases := update_row (rc_lease c) (\<lambda>l. l\<lparr>ls_expires := Some (db_clock db + ttl),
              ls_heartbeat := Some (db_clock db)\<rparr>) (db_leases db)\<rparr>)
      else (Inr False, db))"

definition claim_is_active :: "run_claim \<Rightarrow> bool query" where
  "claim_is_active c db = (Inr (owns c db), db)"

definition record_skipped_run :: "time \<Rightarrow> time \<Rightarrow> pyval dict \<Rightarrow> str \<Rightarrow> uuid query" where
  "record_skipped_run ws we cfg reason db =
     (Inr (db_next db), db\<lparr>db_next := db_next db + 1,
        db_runs := db_runs db @ [(db_next db, (new_run RunSkipped ws we cfg)
          \<lparr>rn_message := Some reason, rn_completed := Some (db_clock db)\<rparr>)]\<rparr>)"

section \<open>Reading the source and the cache\<close>

definition char64 :: "str \<Rightarrow> str" where
  "char64 s = s @ replicate (64 - length s) (CHR '' '')"

definition eligible_row :: "time \<Rightarrow> time \<Rightarrow> int \<Rightarrow> source_row \<Rightarrow> bool" where
  "eligible_row ws we threshold r \<longleftrightarrow> ws \<le> sr_created r \<and> sr_created r \<le> we \<and>
     btrim (lr_feature_scope r) \<noteq> [] \<and> btrim (lr_redacted_prompt r) \<noteq> [] \<and>
     (lr_negative_feedback r \<or> (case lr_min_score r of None \<Rightarrow> False | Some m \<Rightarrow> m < threshold))"

definition valid_record :: "interaction_record \<Rightarrow> bool" where
  "valid_record r \<longleftrightarrow> 1 \<le> length (ir_trace r) \<and> length (ir_trace r) \<le> 64 \<and>
     1 \<le> length (ir_scope r) \<and> length (ir_scope r) \<le> 64 \<and> 1 \<le> length (ir_prompt r) \<and>
     (case ir_fingerprint r of None \<Rightarrow> True | Some f \<Rightarrow> length f = 64) \<and>
     (case ir_min_score r of None \<Rightarrow> True | Some m \<Rightarrow> 1 \<le> m \<and> m \<le> 5) \<and>
     (case ir_status r of None \<Rightarrow> True | Some s \<Rightarrow> length s \<le> 32)"

definition record_of_row :: "str \<times> source_row \<Rightarrow> interaction_record result" where
  "record_of_row = (\<lambda>(tid, r).
     let fp = char64 (lr_fingerprint r);
         x = \<lparr>ir_trace = tid, ir_scope = strip (lr_feature_scope r), ir_prompt = strip (lr_redacted_prompt r),
              ir_fingerprint = (if fp = [] then None else Some (strip fp)), ir_scores = lr_scores r,
              ir_min_score = lr_min_score r, ir_status = lr_status r, ir_negative = lr_negative_feedback r,
              ir_created = sr_created r\<rparr>
     in if valid_record x then Inr x else Inl (ValidationError, ''validation error for InteractionRecord''))"

fun traverse :: "('a \<Rightarrow> 'b result) \<Rightarrow> 'a list \<Rightarrow> 'b list result" where
  "traverse f [] = Inr []"
| "traverse f (x # xs) = rbind (f x) (\<lambda>y. rbind (traverse f xs) (\<lambda>ys. Inr (y # ys)))"

definition fetch_eligible :: "time \<Rightarrow> time \<Rightarrow> int \<Rightarrow> interaction_record list query" where
  "fetch_eligible ws we threshold db =
     (traverse record_of_row (sort_key (\<lambda>(tid, r). (sr_created r, tid))
        (filter (\<lambda>(tid, r). eligible_row ws we threshold r) (db_logs db))), db)"

definition same_profile :: "str \<Rightarrow> str \<Rightarrow> str \<Rightarrow> str \<Rightarrow> cached_embedding \<Rightarrow> bool" where
  "same_profile fp provider model version e \<longleftrightarrow> char64 (ce_fingerprint e) = char64 fp \<and>
     ce_provider e = provider \<and> ce_model e = model \<and> ce_version e = version"

definition valid_embedding :: "cached_embedding \<Rightarrow> bool" where
  "valid_embedding e \<longleftrightarrow> length (ce_fingerprint e) = 64 \<and> 1 \<le> length (ce_provider e) \<and>
     length (ce_provider e) \<le> 128 \<and> 1 \<le> length (ce_model e) \<and> length (ce_model e) \<le> 255 \<and>
     1 \<le> length (ce_version e) \<and> length (ce_version e) \<le> 64 \<and> 0 < ce_dimensions e \<and> ce_values e \<noteq> []"

definition embedding_of_row :: "cached_embedding \<Rightarrow> cached_embedding result" where
  "embedding_of_row e = (let x = e\<lparr>ce_fingerprint := strip (ce_fingerprint e)\<rparr>
     in if valid_embedding x then Inr x else Inl (ValidationError, ''validation error for CachedEmbedding''))"

definition group_rows :: "cached_embedding list \<Rightarrow> cached_embedding list dict" where
  "group_rows es = fold (\<lambda>e d. let d' = dict_setdefault (ce_fingerprint e) [] d
     in dict_set (ce_fingerprint e) (the (map_of d' (ce_fingerprint e)) @ [e]) d') es []"

definition load_cached_embeddings ::
    "str list \<Rightarrow> str \<Rightarrow> str \<Rightarrow> str \<Rightarrow> cached_embedding list dict query" where
  "load_cached_embeddings fps provider model version db =
     (if fps = [] then (Inr [], db)
      else (rbind (traverse embedding_of_row (sort_key (\<lambda>e. (ce_fingerprint e, ce_dimensions e))
              (filter (\<lambda>e. list_ex (\<lambda>fp. same_profile fp provider model version e) fps) (db_cache db))))
            (\<lambda>es. Inr (group_rows es)), db))"

fun store_rows :: "str \<Rightarrow> str \<Rightarrow> str \<Rightarrow> (str \<times> real list) list \<Rightarrow> unit query" where
  "store_rows provider model version [] db = (Inr (), db)"
| "store_rows provider model version ((fp, values) # es) db =
     (if values = [] then (Inl (ValueError, ''cached embeddings must not be empty''), db)
      else store_rows provider model version es
        (db\<lparr>db_cache := filter (\<lambda>e. \<not> same_profile fp provider model version e) (db_cache db)
           @ [\<lparr>ce_fingerprint = fp, ce_provider = provider, ce_model = model, ce_version = version,
               ce_dimensions = int (length values), ce_values = values\<rparr>]\<rparr>))"

definition store_cached_embeddings ::
    "run_claim \<Rightarrow> str \<Rightarrow> str \<Rightarrow> str \<Rightarrow> (str \<times> real list) list \<Rightarrow> unit query" where
  "store_cached_embeddings c provider model version embeddings =
     (if embeddings = [] then io_return ()
      else transaction (io_then (assert_claim c)
        (store_rows provider model version (sort_key fst embeddings))))"

section \<open>Candidates and golden cases\<close>

definition source_fingerprint_exists :: "str \<Rightarrow> bool query" where
  "source_fingerprint_exists fp db =
     (Inr (list_ex (\<lambda>r. cd_fingerprint (cr_case r) = fp) (db_candidates db)
         \<or> list_ex (\<lambda>g. gd_fingerprint g = Some fp) (db_golden db)), db)"

definition members_of :: "uuid \<Rightarrow> (uuid \<times> str) list \<Rightarrow> str list" where
  "members_of cid ms = sort (map snd (filter (\<lambda>p. fst p = cid) ms))"

text \<open>\<open>ON CONFLICT DO NOTHING\<close>.\<close>

definition insert_member :: "uuid \<Rightarrow> str \<Rightarrow> (uuid \<times> str) list \<Rightarrow> (uuid \<times> str) list" where
  "insert_member cid tid ms = (if (cid, tid) \<in> set ms then ms else ms @ [(cid, tid)])"

definition opt_val :: "('a \<Rightarrow> pyval) \<Rightarrow> 'a option \<Rightarrow> pyval" where
  "opt_val f x = (case x of None \<Rightarrow> PNone | Some v \<Rightarrow> f v)"

definition cluster_facts :: "nat \<Rightarrow> int \<Rightarrow> int option \<Rightarrow> bool \<Rightarrow> rat option \<Rightarrow> pyval dict" where
  "cluster_facts members examples label noise outlier =
     [(''member_count'', PInt (int members)), (''nearest_example_count'', PInt examples),
      (''cluster_label'', opt_val PInt label), (''is_noise'', PBool noise), (''outlier_score'', opt_val PFloat outlier)]"

definition merge_row_members :: "time \<Rightarrow> (uuid \<times> str) list \<Rightarrow> int option \<Rightarrow> bool \<Rightarrow> rat option \<Rightarrow> int
    \<Rightarrow> candidate_row \<Rightarrow> candidate_row" where
  "merge_row_members now ms label noise outlier examples r = r\<lparr>cr_case := (cr_case r)
     \<lparr>cd_label := label, cd_noise := noise, cd_outlier := outlier, cd_members := members_of (cr_id r) ms,
      cd_provenance := dict_update (cd_provenance (cr_case r))
        (cluster_facts (length (members_of (cr_id r) ms)) examples label noise outlier)\<rparr>, cr_updated := now\<rparr>"

definition merge_members :: "uuid \<Rightarrow> str list \<Rightarrow> int option \<Rightarrow> bool \<Rightarrow> rat option \<Rightarrow> int \<Rightarrow> miner_db \<Rightarrow> miner_db" where
  "merge_members cid tids label noise outlier examples db =
     (let ms = fold (insert_member cid) (sort (remdups tids)) (db_members db);
          cands = map (\<lambda>r. if cr_id r = cid then merge_row_members (db_clock db) ms label noise outlier examples r else r)
                    (db_candidates db);
          golden = map (\<lambda>g. case find (\<lambda>r. cr_id r = cid) cands of
                       Some r \<Rightarrow> if cr_golden r = Some (gd_id g)
                         then g\<lparr>gd_provenance := dict_update (gd_provenance g) (cd_provenance (cr_case r))\<rparr> else g
                     | None \<Rightarrow> g) (db_golden db)
      in db\<lparr>db_members := ms, db_candidates := cands, db_golden := golden\<rparr>)"

abbreviation case_row :: "str \<Rightarrow> miner_db \<Rightarrow> candidate_row option" where
  "case_row fp db \<equiv> find (\<lambda>r. cd_fingerprint (cr_case r) = fp) (db_candidates db)"

definition merge_on_connection :: "str \<Rightarrow> str list \<Rightarrow> int option \<Rightarrow> bool \<Rightarrow> rat option \<Rightarrow> int \<Rightarrow> bool query" where
  "merge_on_connection fp tids label noise outlier examples db = (case case_row fp db of
     None \<Rightarrow> (Inr False, db)
   | Some r \<Rightarrow> (Inr True, merge_members (cr_id r) tids label noise outlier examples db))"

definition merge_candidate_members ::
    "run_claim \<Rightarrow> str \<Rightarrow> str list \<Rightarrow> int option \<Rightarrow> bool \<Rightarrow> rat option \<Rightarrow> int \<Rightarrow> bool query" where
  "merge_candidate_members c fp tids label noise outlier examples =
     transaction (io_then (assert_claim c) (merge_on_connection fp tids label noise outlier examples))"

text \<open>\<open>int(provenance.get("nearest_example_count", 0))\<close>.\<close>

definition example_count :: "mined_candidate \<Rightarrow> int result" where
  "example_count cd = (case map_of (cd_provenance cd) ''nearest_example_count'' of None \<Rightarrow> Inr 0
     | Some (PInt n) \<Rightarrow> Inr n | Some (PBool b) \<Rightarrow> Inr (if b then 1 else 0)
     | Some (PFloat x) \<Rightarrow> Inr (if 0 \<le> x then \<lfloor>x\<rfloor> else \<lceil>x\<rceil>)
     | Some (PStr s) \<Rightarrow> (case parse_int s of Some n \<Rightarrow> Inr n | None \<Rightarrow> Inl (ValueError, ''invalid literal for int()''))
     | Some _ \<Rightarrow> Inl (TypeError, ''int() argument must be a string or a number''))"

definition insert_candidate :: "run_claim \<Rightarrow> mined_candidate \<Rightarrow> miner_db \<Rightarrow> miner_db" where
  "insert_candidate c cd db = db\<lparr>db_next := db_next db + 1, db_candidates := db_candidates db @
     [\<lparr>cr_id = db_next db, cr_run = Some (rc_run c), cr_case = cd, cr_golden = None,
       cr_created = db_clock db, cr_updated = db_clock db\<rparr>]\<rparr>"

text \<open>The inserted identifier, or the one the fingerprint already has.\<close>

definition insert_golden :: "run_claim \<Rightarrow> uuid \<Rightarrow> mined_candidate \<Rightarrow> miner_db \<Rightarrow> uuid \<times> miner_db" where
  "insert_golden c cid cd db = (case find (\<lambda>g. gd_fingerprint g = Some (cd_fingerprint cd)) (db_golden db) of
     Some g \<Rightarrow> (gd_id g, db)
   | None \<Rightarrow> (db_next db, db\<lparr>db_next := db_next db + 1, db_golden := db_golden db @
       [\<lparr>gd_id = db_next db, gd_scope = cd_scope cd, gd_input = cd_input cd, gd_expected = cd_expected cd,
         gd_difficulty = cd_difficulty cd, gd_origin = ''production_miner'',
         gd_fingerprint = Some (cd_fingerprint cd),
         gd_provenance = dict_update (cd_provenance cd) [(''candidate_id'', PStr (nat_text cid)),
           (''run_id'', PStr (nat_text (rc_run c))), (''label_confidence'', PFloat (cd_confidence cd))]\<rparr>]\<rparr>))"

definition link_golden :: "uuid \<Rightarrow> uuid \<Rightarrow> miner_db \<Rightarrow> miner_db" where
  "link_golden cid gid db = db\<lparr>db_candidates := map (\<lambda>r. if cr_id r = cid
     then r\<lparr>cr_golden := Some gid, cr_updated := db_clock db\<rparr> else r) (db_candidates db)\<rparr>"

definition all_members :: "mined_candidate \<Rightarrow> str list" where
  "all_members cd = cd_representative cd # cd_members cd"

definition persist_new :: "run_claim \<Rightarrow> mined_candidate \<Rightarrow> persist_result query" where
  "persist_new c cd db =
     (let cid = db_next db; db1 = insert_candidate c cd db in
      case example_count cd of Inl e \<Rightarrow> (Inl e, db1)
      | Inr n \<Rightarrow>
          (let db2 = merge_members cid (all_members cd) (cd_label cd) (cd_noise cd) (cd_outlier cd) n db1 in
           if cd_status cd = Promoted
           then (let (gid, db3) = insert_golden c cid cd db2 in
                 (Inr \<lparr>pr_created = True, pr_candidate = Some cid, pr_golden = Some gid\<rparr>, link_golden cid gid db3))
           else (Inr \<lparr>pr_created = True, pr_candidate = Some cid, pr_golden = None\<rparr>, db2)))"

definition persist_existing :: "candidate_row \<Rightarrow> mined_candidate \<Rightarrow> persist_result query" where
  "persist_existing r cd db = (case example_count cd of Inl e \<Rightarrow> (Inl e, db)
     | Inr n \<Rightarrow> (Inr \<lparr>pr_created = False, pr_candidate = Some (cr_id r), pr_golden = cr_golden r\<rparr>,
         merge_members (cr_id r) (all_members cd) (cd_label cd) (cd_noise cd) (cd_outlier cd) n db))"

definition persist_candidate :: "run_claim \<Rightarrow> mined_candidate \<Rightarrow> persist_result query" where
  "persist_candidate c cd = transaction (io_then (assert_claim c) (\<lambda>db.
     case case_row (cd_fingerprint cd) db of None \<Rightarrow> persist_new c cd db | Some r \<Rightarrow> persist_existing r cd db))"

section \<open>Closing a run\<close>

definition summarised :: "run_summary \<Rightarrow> time \<Rightarrow> run_row \<Rightarrow> run_row" where
  "summarised s now r = r\<lparr>rn_status := sm_status s, rn_counts := sm_counts s, rn_message := sm_message s,
     rn_completed := Some now\<rparr>"

definition update_run :: "uuid \<Rightarrow> run_summary \<Rightarrow> unit query" where
  "update_run run s db =
     (if run \<in> fst ` set (db_runs db)
      then (Inr (), db\<lparr>db_runs := update_row run (summarised s (db_clock db)) (db_runs db)\<rparr>)
      else (Inl (RuntimeError, ''log-miner run audit row is missing''), db))"

definition release_lease :: "run_claim \<Rightarrow> unit query" where
  "release_lease c db = (Inr (), db\<lparr>db_leases := update_row (rc_lease c)
     (\<lambda>l. if ls_token l = Some (rc_token c) \<and> ls_run l = Some (rc_run c)
          then \<lparr>ls_token = None, ls_run = None, ls_expires = None, ls_heartbeat = Some (db_clock db)\<rparr> else l)
     (db_leases db)\<rparr>)"

text \<open>Deleting a candidate deletes its members.\<close>

definition purgeable :: "time \<Rightarrow> candidate_row \<Rightarrow> bool" where
  "purgeable cutoff r \<longleftrightarrow> cd_status (cr_case r) = PendingReview \<and> cr_created r < cutoff"

definition purge :: "time \<Rightarrow> int query" where
  "purge cutoff db =
     (let logs = filter (\<lambda>(k, r). \<not> sr_created r < cutoff) (db_logs db);
          cands = filter (\<lambda>r. \<not> purgeable cutoff r) (db_candidates db);
          members = filter (\<lambda>(cid, tid). cid \<in> cr_id ` set cands) (db_members db);
          cache = filter (\<lambda>e. list_ex (\<lambda>(k, r). char64 (lr_fingerprint r) = char64 (ce_fingerprint e)) logs) (db_cache db)
      in (Inr (int (length (db_logs db)) - int (length logs) + (int (length (db_candidates db)) - int (length cands))
              + (int (length (db_cache db)) - int (length cache))),
          db\<lparr>db_logs := logs, db_candidates := cands, db_members := members, db_cache := cache\<rparr>))"

definition with_purged :: "run_summary \<Rightarrow> int \<Rightarrow> run_summary" where
  "with_purged s n = s\<lparr>sm_counts := (sm_counts s)\<lparr>rk_purged := n\<rparr>\<rparr>"

definition finalize_run :: "run_claim \<Rightarrow> run_summary \<Rightarrow> time \<Rightarrow> int query" where
  "finalize_run c s cutoff = transaction (io_then (assert_claim c)
     (io_bind (purge cutoff) (\<lambda>n. io_then (update_run (rc_run c) (with_purged s n))
       (io_then (release_lease c) (io_return n)))))"

definition fail_run :: "run_claim \<Rightarrow> run_summary \<Rightarrow> bool query" where
  "fail_run c s db = (case transaction (io_then (assert_claim c)
       (io_then (update_run (rc_run c) s) (release_lease c))) db of
     (Inl e, db') \<Rightarrow> if fst e = OtherException ''RunClaimLostError'' then (Inr False, db') else (Inl e, db')
   | (Inr _, db') \<Rightarrow> (Inr True, db'))"

section \<open>Steps of any number of workers\<close>

text \<open>A step is one repository call of some worker, the passing of time, or a change of the source table
  by the runtime.\<close>

datatype miner_op =
    ClaimOp str int time time "pyval dict"
  | RenewOp run_claim int
  | SkipOp time time "pyval dict" str
  | StoreOp run_claim str str str "(str \<times> real list) list"
  | MergeOp run_claim str "str list" "int option" bool "rat option" int
  | PersistOp run_claim mined_candidate
  | FinalizeOp run_claim run_summary time
  | FailOp run_claim run_summary
  | TickOp nat
  | LogsOp "source_row dict"

fun miner_step :: "miner_op \<Rightarrow> miner_db \<Rightarrow> miner_db" where
  "miner_step (ClaimOp name ttl ws we cfg) db = snd (claim_run name ttl ws we cfg db)"
| "miner_step (RenewOp c ttl) db = snd (renew_claim c ttl db)"
| "miner_step (SkipOp ws we cfg reason) db = snd (record_skipped_run ws we cfg reason db)"
| "miner_step (StoreOp c p m v es) db = snd (store_cached_embeddings c p m v es db)"
| "miner_step (MergeOp c fp tids l n q k) db = snd (merge_candidate_members c fp tids l n q k db)"
| "miner_step (PersistOp c cd) db = snd (persist_candidate c cd db)"
| "miner_step (FinalizeOp c s cutoff) db = snd (finalize_run c s cutoff db)"
| "miner_step (FailOp c s) db = snd (fail_run c s db)"
| "miner_step (TickOp n) db = db\<lparr>db_clock := db_clock db + int n\<rparr>"
| "miner_step (LogsOp t) db = db\<lparr>db_logs := t\<rparr>"

fun acts_for :: "miner_op \<Rightarrow> run_claim option" where
  "acts_for (RenewOp c ttl) = Some c"
| "acts_for (StoreOp c p m v es) = Some c"
| "acts_for (MergeOp c fp tids l n q k) = Some c"
| "acts_for (PersistOp c cd) = Some c"
| "acts_for (FinalizeOp c s cutoff) = Some c"
| "acts_for (FailOp c s) = Some c"
| "acts_for _ = None"

section \<open>What a statement leaves alone\<close>

lemma map_of_update_row: "map_of (update_row k f t) i = (if i = k then map_option f (map_of t i) else map_of t i)"
  by (induction t) (auto simp: update_row_def)

lemma keys_update_row [simp]: "dict_keys (update_row k f t) = dict_keys t" "fst ` set (update_row k f t) = fst ` set t"
  by (auto simp: update_row_def comp_def case_prod_unfold image_comp)

lemma merge_members_frame [simp]:
  "db_leases (merge_members cid tids l n q k db) = db_leases db"
  "db_runs (merge_members cid tids l n q k db) = db_runs db"
  "db_clock (merge_members cid tids l n q k db) = db_clock db"
  "db_next (merge_members cid tids l n q k db) = db_next db"
  by (simp_all add: merge_members_def Let_def)

text \<open>The fields a worker's lease and audit depend on.\<close>

definition keeps_audit :: "miner_db \<Rightarrow> miner_db \<Rightarrow> bool" where
  "keeps_audit db db' \<longleftrightarrow> db_leases db' = db_leases db \<and> db_runs db' = db_runs db
     \<and> db_clock db' = db_clock db \<and> db_next db \<le> db_next db'"

lemma keeps_audit_refl [simp]: "keeps_audit db db"
  by (simp add: keeps_audit_def)

lemma keeps_audit_trans: "keeps_audit a b \<Longrightarrow> keeps_audit b c \<Longrightarrow> keeps_audit a c"
  by (simp add: keeps_audit_def)

lemma transaction_cases:
  assumes "transaction m db = (r, db')"
  obtains e where "r = Inl e" "db' = db" | x where "r = Inr x" "m db = (Inr x, db')"
  using assms by (auto simp: transaction_def split: prod.splits sum.splits)

lemma fenced_transaction:
  "\<not> owns c db \<Longrightarrow> transaction (io_then (assert_claim c) m) db
     = (Inl (claim_lost ''log-miner run lease is no longer active''), db)"
  by (simp add: transaction_def io_bind_def assert_claim_def)

lemma owned_transaction:
  "owns c db \<Longrightarrow> transaction (io_then (assert_claim c) m) db = transaction m db"
  by (simp add: transaction_def io_bind_def assert_claim_def)

lemma store_rows_frame: "store_rows p m v es db = (r, db') \<Longrightarrow> keeps_audit db db'"
proof (induction es arbitrary: db)
  case (Cons e es)
  show ?case
  proof (cases "snd e = []")
    case False
    with Cons.prems show ?thesis by (cases e) (auto simp: keeps_audit_def dest: Cons.IH)
  qed (use Cons.prems in \<open>cases e; simp\<close>)
qed simp

lemma merge_on_connection_frame: "merge_on_connection fp tids l n q k db = (r, db') \<Longrightarrow> keeps_audit db db'"
  by (auto simp: merge_on_connection_def keeps_audit_def split: option.splits)

lemma insert_golden_frame: "insert_golden c cid cd db = (g, db') \<Longrightarrow> keeps_audit db db'"
  by (auto simp: insert_golden_def keeps_audit_def split: option.splits)

lemma persist_new_frame: "persist_new c cd db = (r, db') \<Longrightarrow> keeps_audit db db'"
  by (auto simp: persist_new_def keeps_audit_def insert_candidate_def link_golden_def Let_def insert_golden_def
      split: sum.splits if_splits prod.splits option.splits)

lemma persist_existing_frame: "persist_existing x cd db = (r, db') \<Longrightarrow> keeps_audit db db'"
  by (auto simp: persist_existing_def keeps_audit_def split: sum.splits)

lemma purge_frame: "purge cutoff db = (r, db') \<Longrightarrow> keeps_audit db db'"
  by (auto simp: purge_def keeps_audit_def Let_def)

lemma framed_transaction:
  assumes "\<And>r db'. m db = (r, db') \<Longrightarrow> keeps_audit db db'"
  shows "keeps_audit db (snd (transaction (io_then (assert_claim c) m) db))"
proof (cases "owns c db")
  case True
  obtain r db' where t: "transaction m db = (r, db')" by fastforce
  then have "keeps_audit db db'" using assms by (cases rule: transaction_cases) auto
  with t True show ?thesis by (simp add: owned_transaction)
qed (simp add: fenced_transaction)

text \<open>Closing a run: the row is updated and the lease released, together.\<close>

definition closed :: "run_claim \<Rightarrow> run_summary \<Rightarrow> miner_db \<Rightarrow> miner_db \<Rightarrow> bool" where
  "closed c s db db' \<longleftrightarrow> owns c db \<and> rc_run c \<in> fst ` set (db_runs db) \<and> db_clock db' = db_clock db
     \<and> db_next db \<le> db_next db' \<and> db_runs db' = update_row (rc_run c) (summarised s (db_clock db)) (db_runs db)
     \<and> db_leases db' = update_row (rc_lease c) (\<lambda>l. free_lease\<lparr>ls_heartbeat := Some (db_clock db)\<rparr>) (db_leases db)"

lemma release_owned:
  assumes "owns c db" "distinct (dict_keys (db_leases db))" "db_leases db1 = db_leases db" "db_clock db1 = db_clock db"
  shows "db_leases (snd (release_lease c db1))
    = update_row (rc_lease c) (\<lambda>l. free_lease\<lparr>ls_heartbeat := Some (db_clock db)\<rparr>) (db_leases db)"
proof -
  from assms(1) obtain l where l: "map_of (db_leases db) (rc_lease c) = Some l"
    "ls_token l = Some (rc_token c)" "ls_run l = Some (rc_run c)"
    by (auto simp: owns_def owned_lease_def split: option.splits if_splits)
  have "k = rc_lease c \<Longrightarrow> (k, x) \<in> set (db_leases db) \<Longrightarrow> x = l" for k x
    using l(1) assms(2) by (metis map_of_is_SomeI option.inject)
  then show ?thesis using assms(3,4) l(2,3) by (auto simp: release_lease_def update_row_def free_lease_def)
qed

lemma finalize_cases:
  assumes "distinct (dict_keys (db_leases db))"
  obtains e where "finalize_run c s cutoff db = (Inl e, db)"
  | n db1 db' where "finalize_run c s cutoff db = (Inr n, db')" "purge cutoff db = (Inr n, db1)" "owns c db"
      "closed c (with_purged s n) db db'" "db_logs db' = db_logs db1" "db_candidates db' = db_candidates db1"
      "db_members db' = db_members db1" "db_cache db' = db_cache db1" "db_golden db' = db_golden db1" "db_next db' = db_next db1"
proof (cases "owns c db")
  case False
  then show thesis using that(1) by (simp add: finalize_run_def fenced_transaction)
next
  case True
  obtain n db1 where p: "purge cutoff db = (Inr n, db1)" by (auto simp: purge_def Let_def)
  have k: "keeps_audit db db1" by (rule purge_frame [OF p])
  show thesis
  proof (cases "rc_run c \<in> fst ` set (db_runs db)")
    case False
    then have "finalize_run c s cutoff db = (Inl (RuntimeError, ''log-miner run audit row is missing''), db)"
      unfolding finalize_run_def owned_transaction [OF True] using p k
      by (simp add: transaction_def io_bind_def update_run_def keeps_audit_def)
    then show thesis by (rule that(1))
  next
    case mem: True
    define db2 where "db2 = db1\<lparr>db_runs := update_row (rc_run c) (summarised (with_purged s n) (db_clock db)) (db_runs db)\<rparr>"
    define db' where "db' = snd (release_lease c db2)"
    have run: "finalize_run c s cutoff db = (Inr n, db')"
      unfolding finalize_run_def owned_transaction [OF True] using p k mem
      by (simp add: transaction_def io_bind_def update_run_def keeps_audit_def db'_def db2_def release_lease_def)
    have leases: "db_leases db' = update_row (rc_lease c) (\<lambda>l. free_lease\<lparr>ls_heartbeat := Some (db_clock db)\<rparr>) (db_leases db)"
      unfolding db'_def by (rule release_owned [OF True assms]) (use k in \<open>simp_all add: db2_def keeps_audit_def\<close>)
    have "closed c (with_purged s n) db db'"
      using leases True mem k by (simp add: closed_def db'_def db2_def release_lease_def keeps_audit_def)
    then show thesis using that(2) [OF run p True] by (simp add: db'_def db2_def release_lease_def)
  qed
qed

lemma fail_cases:
  assumes "distinct (dict_keys (db_leases db))"
  obtains r where "fail_run c s db = (r, db)" | db' where "fail_run c s db = (Inr True, db')" "closed c s db db'"
    "db_logs db' = db_logs db" "db_candidates db' = db_candidates db" "db_members db' = db_members db"
    "db_cache db' = db_cache db" "db_golden db' = db_golden db" "db_next db' = db_next db"
proof (cases "owns c db")
  case False
  then show thesis using that(1) by (simp add: fail_run_def fenced_transaction)
next
  case True
  show thesis
  proof (cases "rc_run c \<in> fst ` set (db_runs db)")
    case False
    then have "fail_run c s db = (Inl (RuntimeError, ''log-miner run audit row is missing''), db)"
      unfolding fail_run_def owned_transaction [OF True]
      by (simp add: transaction_def io_bind_def update_run_def)
    then show thesis by (rule that(1))
  next
    case mem: True
    define db2 where "db2 = db\<lparr>db_runs := update_row (rc_run c) (summarised s (db_clock db)) (db_runs db)\<rparr>"
    define db' where "db' = snd (release_lease c db2)"
    have run: "fail_run c s db = (Inr True, db')"
      unfolding fail_run_def owned_transaction [OF True] using mem
      by (simp add: transaction_def io_bind_def update_run_def db'_def db2_def release_lease_def)
    have leases: "db_leases db' = update_row (rc_lease c) (\<lambda>l. free_lease\<lparr>ls_heartbeat := Some (db_clock db)\<rparr>) (db_leases db)"
      unfolding db'_def by (rule release_owned [OF True assms]) (simp_all add: db2_def)
    have "closed c s db db'"
      using leases True mem by (simp add: closed_def db'_def db2_def release_lease_def)
    then show thesis using that(2) [OF run] by (simp add: db'_def db2_def release_lease_def)
  qed
qed

section \<open>A lost lease stays lost\<close>

definition leases_distinct :: "miner_db \<Rightarrow> bool" where
  "leases_distinct db \<longleftrightarrow> distinct (dict_keys (db_leases db))"

text \<open>How one step may change the lease that is stored under a name.\<close>

definition lease_move :: "miner_db \<Rightarrow> miner_db \<Rightarrow> bool" where
  "lease_move db db' \<longleftrightarrow> leases_distinct db' \<and> db_clock db \<le> db_clock db' \<and> db_next db \<le> db_next db' \<and>
     (\<forall>n l'. map_of (db_leases db') n = Some l' \<longrightarrow>
        map_of (db_leases db) n = Some l' \<or> ls_token l' = None
        \<or> (\<exists>t. ls_token l' = Some t \<and> db_next db \<le> t)
        \<or> (\<exists>l. map_of (db_leases db) n = Some l \<and> ls_token l' = ls_token l \<and> ls_run l' = ls_run l \<and> unexpired db l))"

lemma keeps_audit_move: "leases_distinct db \<Longrightarrow> keeps_audit db db' \<Longrightarrow> lease_move db db'"
  by (simp add: lease_move_def keeps_audit_def leases_distinct_def)

lemma closed_move: "leases_distinct db \<Longrightarrow> closed c s db db' \<Longrightarrow> lease_move db db'"
  by (auto simp: lease_move_def closed_def leases_distinct_def map_of_update_row free_lease_def split: if_splits)

lemma claim_run_cases:
  obtains e where "claim_run name ttl ws we cfg db = (Inl e, db)"
  | l where "1 \<le> ttl" "map_of (dict_setdefault name free_lease (db_leases db)) name = Some l" "unexpired db l"
      "claim_run name ttl ws we cfg db = (Inr None, db\<lparr>db_leases := dict_setdefault name free_lease (db_leases db)\<rparr>)"
  | l where "1 \<le> ttl" "map_of (dict_setdefault name free_lease (db_leases db)) name = Some l" "\<not> unexpired db l"
      "claim_run name ttl ws we cfg db
        = grant_lease name ttl ws we cfg l (db\<lparr>db_leases := dict_setdefault name free_lease (db_leases db)\<rparr>)"
proof -
  obtain l where l: "map_of (dict_setdefault name free_lease (db_leases db)) name = Some l"
    by (cases "name \<in> fst ` set (db_leases db)")
      (auto simp: map_of_dict_setdefault dest: weak_map_of_SomeI)
  have un: "unexpired (db\<lparr>db_leases := x\<rparr>) l = unexpired db l" for x
    by (cases "ls_expires l") (simp_all add: unexpired_def)
  show thesis
  proof (cases "name = [] \<or> ttl < 1 \<or> 128 < length name")
    case True
    then have "\<exists>e. claim_run name ttl ws we cfg db = (Inl e, db)" by (auto simp: claim_run_def)
    then show thesis using that(1) by blast
  next
    case False
    then have ttl: "1 \<le> ttl" by simp
    show thesis
    proof (cases "unexpired db l")
      case True
      with False l un have "claim_run name ttl ws we cfg db
          = (Inr None, db\<lparr>db_leases := dict_setdefault name free_lease (db_leases db)\<rparr>)"
        by (simp add: claim_run_def Let_def)
      with that(2) ttl l True show thesis by blast
    next
      case not_active: False
      with False l un have "claim_run name ttl ws we cfg db
          = grant_lease name ttl ws we cfg l (db\<lparr>db_leases := dict_setdefault name free_lease (db_leases db)\<rparr>)"
        by (simp add: claim_run_def Let_def)
      with that(3) ttl l not_active show thesis by blast
    qed
  qed
qed

lemma setdefault_lookup: "map_of (dict_setdefault k v d) i = (if i = k \<and> map_of d k = None then Some v else map_of d i)"
  by (auto simp: map_of_dict_setdefault map_of_eq_None_iff)

lemma claim_move: "leases_distinct db \<Longrightarrow> lease_move db (snd (claim_run name ttl ws we cfg db))"
proof (cases rule: claim_run_cases [of name ttl ws we cfg db])
  case (2 l)
  assume "leases_distinct db"
  then show ?thesis unfolding 2(4)
    by (auto simp: lease_move_def leases_distinct_def setdefault_lookup free_lease_def split: if_splits)
next
  case (3 l)
  assume "leases_distinct db"
  then show ?thesis unfolding 3(4)
    by (auto simp: lease_move_def leases_distinct_def grant_lease_def Let_def map_of_update_row setdefault_lookup
        free_lease_def split: if_splits)
qed (simp add: keeps_audit_move)

lemma renew_move: "leases_distinct db \<Longrightarrow> lease_move db (snd (renew_claim c ttl db))"
proof -
  assume d: "leases_distinct db"
  show ?thesis
  proof (cases "1 \<le> ttl \<and> owns c db")
    case True
    then obtain l where l: "map_of (db_leases db) (rc_lease c) = Some l" "unexpired db l"
      by (auto simp: owns_def owned_lease_def split: option.splits if_splits)
    define db' where "db' = snd (renew_claim c ttl db)"
    have db': "db_leases db' = update_row (rc_lease c) (\<lambda>l. l\<lparr>ls_expires := Some (db_clock db + ttl),
        ls_heartbeat := Some (db_clock db)\<rparr>) (db_leases db)" "db_clock db' = db_clock db" "db_next db' = db_next db"
      using True by (simp_all add: db'_def renew_claim_def)
    have "leases_distinct db'" using d db'(1) by (simp add: leases_distinct_def)
    with l db' show ?thesis by (auto simp: lease_move_def db'_def [symmetric] map_of_update_row)
  next
    case False
    then have "snd (renew_claim c ttl db) = db" by (auto simp: renew_claim_def)
    with d show ?thesis by (simp add: keeps_audit_move)
  qed
qed

lemma miner_step_move: "leases_distinct db \<Longrightarrow> lease_move db (miner_step x db)"
proof (cases x)
  case (FinalizeOp c s cutoff)
  assume d: "leases_distinct db"
  then have "distinct (dict_keys (db_leases db))" by (simp add: leases_distinct_def)
  then show ?thesis unfolding FinalizeOp
    by (cases rule: finalize_cases [of db c s cutoff]) (use d in \<open>auto simp: keeps_audit_move intro: closed_move\<close>)
next
  case (FailOp c s)
  assume d: "leases_distinct db"
  then have "distinct (dict_keys (db_leases db))" by (simp add: leases_distinct_def)
  then show ?thesis unfolding FailOp
    by (cases rule: fail_cases [of db c s]) (use d in \<open>auto simp: keeps_audit_move intro: closed_move\<close>)
next
  case (StoreOp c p m v es)
  assume d: "leases_distinct db"
  have "keeps_audit db (snd (store_cached_embeddings c p m v es db))"
    using framed_transaction [OF store_rows_frame] by (auto simp: store_cached_embeddings_def)
  with d show ?thesis unfolding StoreOp by (simp add: keeps_audit_move)
next
  case (MergeOp c fp tids l n q k)
  assume d: "leases_distinct db"
  have "keeps_audit db (snd (merge_candidate_members c fp tids l n q k db))"
    using framed_transaction [OF merge_on_connection_frame] by (simp add: merge_candidate_members_def)
  with d show ?thesis unfolding MergeOp by (simp add: keeps_audit_move)
next
  case (PersistOp c cd)
  assume d: "leases_distinct db"
  have "keeps_audit db (snd (persist_candidate c cd db))" unfolding persist_candidate_def
    by (rule framed_transaction) (auto intro: persist_new_frame persist_existing_frame split: option.splits)
  with d show ?thesis unfolding PersistOp by (simp add: keeps_audit_move)
next
  case (ClaimOp name ttl ws we cfg)
  assume "leases_distinct db"
  then show ?thesis unfolding ClaimOp by (simp add: claim_move)
next
  case (RenewOp c ttl)
  assume "leases_distinct db"
  then show ?thesis unfolding RenewOp by (simp add: renew_move)
qed (simp_all add: record_skipped_run_def lease_move_def leases_distinct_def)

lemma lost_stays_lost:
  assumes "lease_move db db'" "\<not> owns c db" "rc_token c < db_next db"
  shows "\<not> owns c db'"
proof
  assume "owns c db'"
  then obtain l' where l': "map_of (db_leases db') (rc_lease c) = Some l'" "ls_token l' = Some (rc_token c)"
    "ls_run l' = Some (rc_run c)" "unexpired db' l'" by (auto simp: owns_def owned_lease_def split: option.splits if_splits)
  have clock: "db_clock db \<le> db_clock db'" using assms(1) by (simp add: lease_move_def)
  from assms(1) l'(1) consider "map_of (db_leases db) (rc_lease c) = Some l'"
    | l where "map_of (db_leases db) (rc_lease c) = Some l" "ls_token l' = ls_token l" "ls_run l' = ls_run l" "unexpired db l"
    using l'(2) assms(3) by (fastforce simp: lease_move_def)
  then show False
  proof cases
    case 1
    have "unexpired db l'" using l'(4) clock by (auto simp: unexpired_def split: option.splits)
    with 1 l' assms(2) show False by (simp add: owns_def owned_lease_def)
  next
    case 2
    with l' assms(2) show False by (simp add: owns_def owned_lease_def)
  qed
qed

lemma fenced_step: "\<not> owns c db \<Longrightarrow> acts_for x = Some c \<Longrightarrow> miner_step x db = db"
  by (cases x) (auto simp: renew_claim_def store_cached_embeddings_def merge_candidate_members_def
      persist_candidate_def finalize_run_def fail_run_def fenced_transaction)

section \<open>Fencing\<close>

text \<open>Workers that act on a shared store under claims: a claim once lost stays lost, and the store ignores
  an action under a lost claim.\<close>

locale fenced_store =
  fixes step :: "'op \<Rightarrow> 's \<Rightarrow> 's"
    and actor :: "'op \<Rightarrow> 'c option"
    and lost :: "'c \<Rightarrow> 's \<Rightarrow> bool"
  assumes lost_step: "lost c s \<Longrightarrow> lost c (step x s)"
    and fenced: "lost c s \<Longrightarrow> actor x = Some c \<Longrightarrow> step x s = s"
begin

lemma lost_forever: "lost c s \<Longrightarrow> lost c (fold step xs s)"
  by (induction xs arbitrary: s) (simp_all add: lost_step)

lemma stale_actions_vanish:
  "lost c s \<Longrightarrow> fold step xs s = fold step (filter (\<lambda>x. actor x \<noteq> Some c) xs) s"
  by (induction xs arbitrary: s) (auto simp: fenced lost_step)

end

definition lost_claim :: "run_claim \<Rightarrow> miner_db \<Rightarrow> bool" where
  "lost_claim c db \<longleftrightarrow> leases_distinct db \<and> rc_token c < db_next db \<and> \<not> owns c db"

interpretation miner: fenced_store miner_step acts_for lost_claim
proof
  fix c db x
  assume lost: "lost_claim c db"
  then have move: "lease_move db (miner_step x db)" by (simp add: lost_claim_def miner_step_move)
  then show "lost_claim c (miner_step x db)"
    using lost lost_stays_lost [OF move] by (auto simp: lost_claim_def lease_move_def)
  assume "acts_for x = Some c"
  then show "miner_step x db = db" using lost fenced_step [of c db x] by (simp add: lost_claim_def)
qed

text \<open>C4. Once a worker's claim is lost, because it expired or the lease passed to another, nothing the
  worker still does has any effect: in whatever order the calls of all workers, the clock and the runtime
  interleave, the database is what it would be without the calls of the stale worker, whose fenced writes
  raise and whose renewals are refused.\<close>
theorem stale_worker_invisible:
  assumes "leases_distinct db" "rc_token c < db_next db" "\<not> owns c db"
  shows "fold miner_step xs db = fold miner_step (filter (\<lambda>x. acts_for x \<noteq> Some c) xs) db
    \<and> persist_candidate c cd (fold miner_step xs db)
      = (Inl (claim_lost ''log-miner run lease is no longer active''), fold miner_step xs db)
    \<and> finalize_run c s cutoff (fold miner_step xs db)
      = (Inl (claim_lost ''log-miner run lease is no longer active''), fold miner_step xs db)
    \<and> claim_is_active c (fold miner_step xs db) = (Inr False, fold miner_step xs db)"
proof -
  have lost: "lost_claim c db" using assms by (simp add: lost_claim_def)
  have vanish: "fold miner_step xs db = fold miner_step (filter (\<lambda>x. acts_for x \<noteq> Some c) xs) db"
    using lost by (rule miner.stale_actions_vanish)
  have gone: "\<not> owns c (fold miner_step xs db)" using miner.lost_forever [OF lost] by (simp add: lost_claim_def)
  show ?thesis
    using vanish gone by (simp add: persist_candidate_def finalize_run_def fenced_transaction claim_is_active_def)
qed

lemma unexpired_frame [simp]: "unexpired (db\<lparr>db_leases := x\<rparr>) l = unexpired db l"
  by (cases "ls_expires l") (simp_all add: unexpired_def)

text \<open>A claim of a well-formed lease name is granted exactly when nobody holds the lease: then no
  earlier claim owns it, the new claim does, and its token is fresh; otherwise the database is unchanged.\<close>
theorem claim_exclusive:
  assumes "name \<noteq> []" "length name \<le> 128" "1 \<le> ttl"
  shows "case claim_run name ttl ws we cfg db of
      (Inr None, db') \<Rightarrow> (\<exists>l. map_of (db_leases db) name = Some l \<and> unexpired db l) \<and> db' = db
    | (Inr (Some c), db') \<Rightarrow> \<not> (\<exists>c'. rc_lease c' = name \<and> owns c' db) \<and> owns c db' \<and> rc_lease c = name
        \<and> rc_token c = db_next db + 1 \<and> rc_run c = db_next db
        \<and> map_of (db_runs db') (rc_run c) \<noteq> None
    | (Inl e, db') \<Rightarrow> False"
proof (cases rule: claim_run_cases [of name ttl ws we cfg db])
  case (1 e)
  with assms show ?thesis by (auto simp: claim_run_def Let_def grant_lease_def split: if_splits)
next
  case (2 l)
  have "name \<in> fst ` set (db_leases db)"
  proof (rule ccontr)
    assume "name \<notin> fst ` set (db_leases db)"
    then have "l = free_lease" using 2(2) by (simp add: setdefault_lookup map_of_eq_None_iff)
    with 2(3) show False by (simp add: free_lease_def unexpired_def)
  qed
  then have same: "dict_setdefault name free_lease (db_leases db) = db_leases db" by (simp add: dict_setdefault_def)
  with 2 show ?thesis by auto
next
  case (3 l)
  have none: "\<not> owns c' db" if "rc_lease c' = name" for c'
    using 3(2,3) that by (auto simp: owns_def owned_lease_def setdefault_lookup split: option.splits if_splits)
  have present: "map_of (dict_setdefault name free_lease (db_leases db)) name \<noteq> None" using 3(2) by simp
  show ?thesis unfolding 3(4) using none present assms(3)
    by (auto simp: grant_lease_def Let_def owns_def owned_lease_def map_of_update_row unexpired_def map_add_def
        split: option.splits)
qed

section \<open>The audit rows\<close>

definition leased :: "miner_db \<Rightarrow> str \<Rightarrow> uuid \<Rightarrow> bool" where
  "leased db n i \<longleftrightarrow> (\<exists>l. map_of (db_leases db) n = Some l \<and> ls_run l = Some i)"

definition running :: "miner_db \<Rightarrow> uuid \<Rightarrow> bool" where
  "running db i \<longleftrightarrow> (\<exists>r. map_of (db_runs db) i = Some r \<and> rn_status r = RunRunning)"

text \<open>The running audit rows and the held leases correspond one to one.\<close>

definition audit_ok :: "miner_db \<Rightarrow> bool" where
  "audit_ok db \<longleftrightarrow> leases_distinct db \<and> (\<forall>i \<in> fst ` set (db_runs db). i < db_next db)
     \<and> (\<forall>n i. leased db n i \<longrightarrow> running db i) \<and> (\<forall>i. running db i \<longrightarrow> (\<exists>n. leased db n i))
     \<and> (\<forall>n m i. leased db n i \<longrightarrow> leased db m i \<longrightarrow> n = m)"

text \<open>A worker closes its run with a final status.\<close>

fun closes_properly :: "miner_op \<Rightarrow> bool" where
  "closes_properly (FinalizeOp c s cutoff) = (sm_status s \<noteq> RunRunning)"
| "closes_properly (FailOp c s) = (sm_status s \<noteq> RunRunning)"
| "closes_properly _ = True"

lemma audit_okD:
  assumes "audit_ok db"
  shows "leased db n i \<Longrightarrow> running db i" "running db i \<Longrightarrow> \<exists>n. leased db n i"
    "leased db n i \<Longrightarrow> leased db m i \<Longrightarrow> n = m"
proof -
  have "(\<forall>n i. leased db n i \<longrightarrow> running db i) \<and> (\<forall>i. running db i \<longrightarrow> (\<exists>n. leased db n i))
     \<and> (\<forall>n m i. leased db n i \<longrightarrow> leased db m i \<longrightarrow> n = m)"
    using assms unfolding audit_ok_def by (elim conjE) (intro conjI; assumption)
  then show "leased db n i \<Longrightarrow> running db i" "running db i \<Longrightarrow> \<exists>n. leased db n i"
    "leased db n i \<Longrightarrow> leased db m i \<Longrightarrow> n = m" by simp_all
qed

lemma running_bound: "audit_ok db \<Longrightarrow> running db i \<Longrightarrow> i < db_next db"
  by (auto simp: audit_ok_def running_def dest!: map_of_SomeD)

lemma audit_transfer:
  assumes "audit_ok db" "leases_distinct db'" "\<forall>i \<in> fst ` set (db_runs db'). i < db_next db'"
    and "leased db' = leased db" "running db' = running db"
  shows "audit_ok db'"
  using assms by (simp add: audit_ok_def)

lemma keeps_audit_ok: "audit_ok db \<Longrightarrow> keeps_audit db db' \<Longrightarrow> audit_ok db'"
  by (rule audit_transfer, assumption)
    (auto simp: keeps_audit_def audit_ok_def leases_distinct_def leased_def running_def fun_eq_iff)

lemma owns_leased: "owns c db \<Longrightarrow> leased db (rc_lease c) (rc_run c)"
  by (auto simp: owns_def owned_lease_def leased_def split: option.splits if_splits)

lemma closed_audit:
  assumes "audit_ok db" "closed c s db db'" "sm_status s \<noteq> RunRunning"
  shows "audit_ok db'"
proof -
  have own: "leased db (rc_lease c) (rc_run c)" using assms(2) by (simp add: closed_def owns_leased)
  have leased': "leased db' n i \<longleftrightarrow> leased db n i \<and> n \<noteq> rc_lease c" for n i
    using assms(2) by (auto simp: closed_def leased_def map_of_update_row free_lease_def)
  have running': "running db' i \<longleftrightarrow> running db i \<and> i \<noteq> rc_run c" for i
    using assms(2,3) by (auto simp: closed_def running_def map_of_update_row summarised_def)
  have "leases_distinct db'" "\<forall>i \<in> fst ` set (db_runs db'). i < db_next db'"
    using assms(1,2) by (auto simp: closed_def audit_ok_def leases_distinct_def)
  moreover have "leased db n i \<Longrightarrow> n \<noteq> rc_lease c \<Longrightarrow> running db i \<and> i \<noteq> rc_run c" for n i
    using audit_okD(1,3) [OF assms(1)] own by blast
  moreover have "\<exists>n. leased db n i \<and> n \<noteq> rc_lease c" if i: "running db i" "i \<noteq> rc_run c" for i
  proof -
    obtain n where n: "leased db n i" using audit_okD(2) [OF assms(1) i(1)] by auto
    with own i(2) have "n \<noteq> rc_lease c" by (auto simp: leased_def)
    with n show ?thesis by blast
  qed
  moreover have "leased db n i \<Longrightarrow> leased db m i \<Longrightarrow> n = m" for n m i by (rule audit_okD(3) [OF assms(1)])
  ultimately show ?thesis unfolding audit_ok_def leased' running' by blast
qed

lemma grant_audit:
  assumes ok: "audit_ok db" and l: "map_of (db_leases db) name = Some l"
  shows "audit_ok (snd (grant_lease name ttl ws we cfg l db))"
proof -
  define db' where "db' = snd (grant_lease name ttl ws we cfg l db)"
  have leased': "leased db' n i \<longleftrightarrow> (if n = name then i = db_next db else leased db n i)" for n i
    using l by (auto simp: db'_def grant_lease_def Let_def leased_def map_of_update_row)
  have fresh: "map_of (db_runs db) (db_next db) = None"
    using ok by (auto simp: audit_ok_def map_of_eq_None_iff)
  have old: "running db' i \<longleftrightarrow> i = db_next db \<or> running db i \<and> Some i \<noteq> ls_run l" for i
    using fresh by (cases "ls_run l") (auto simp: db'_def grant_lease_def Let_def running_def map_of_update_row
        map_add_def new_run_def expire_run_def split: option.splits)
  have own: "ls_run l = Some i \<longleftrightarrow> leased db name i" for i using l by (simp add: leased_def)
  have old': "running db' i \<longleftrightarrow> i = db_next db \<or> running db i \<and> \<not> leased db name i" for i
    unfolding old own [symmetric] by (simp add: eq_commute)
  have lt: "leased db n i \<Longrightarrow> i < db_next db" for n i
    using running_bound [OF ok] audit_okD(1) [OF ok] by simp
  have runs: "\<forall>i \<in> fst ` set (db_runs db'). i < db_next db'"
    using ok by (cases "ls_run l") (auto simp: db'_def grant_lease_def Let_def audit_ok_def)
  have ld: "leases_distinct db'"
    using ok by (simp add: db'_def grant_lease_def Let_def audit_ok_def leases_distinct_def)
  show ?thesis unfolding audit_ok_def db'_def [symmetric]
  proof (intro conjI allI impI)
    show "leases_distinct db'" "\<forall>i \<in> fst ` set (db_runs db'). i < db_next db'" by (rule ld, rule runs)
    fix n i assume a: "leased db' n i"
    show "running db' i"
    proof (cases "n = name")
      case True
      with a show ?thesis by (simp add: leased' old')
    next
      case False
      with a have li: "leased db n i" by (simp add: leased')
      then have "running db i" by (rule audit_okD(1) [OF ok])
      moreover have "\<not> leased db name i"
      proof
        assume "leased db name i"
        from audit_okD(3) [OF ok li this] False show False by simp
      qed
      ultimately show ?thesis by (simp add: old')
    qed
  next
    fix i assume a: "running db' i"
    show "\<exists>n. leased db' n i"
    proof (cases "i = db_next db")
      case False
      with a have r: "running db i" "\<not> leased db name i" by (simp_all add: old')
      obtain n where "leased db n i" using audit_okD(2) [OF ok r(1)] ..
      with r(2) have "leased db' n i" by (auto simp: leased')
      then show ?thesis ..
    qed (rule exI [of _ name], simp add: leased')
  next
    fix n m i assume "leased db' n i" "leased db' m i"
    then show "n = m" using lt [of n i] lt [of m i] audit_okD(3) [OF ok, of n i m] unfolding leased'
      by (simp split: if_splits)
  qed
qed

lemma claim_audit: "audit_ok db \<Longrightarrow> audit_ok (snd (claim_run name ttl ws we cfg db))"
proof -
  assume ok: "audit_ok db"
  define db1 where "db1 = db\<lparr>db_leases := dict_setdefault name free_lease (db_leases db)\<rparr>"
  have "leased db1 = leased db"
    by (auto simp: db1_def leased_def setdefault_lookup free_lease_def fun_eq_iff)
  with ok have ok1: "audit_ok db1"
    by (intro audit_transfer [OF ok]) (auto simp: db1_def audit_ok_def leases_distinct_def running_def)
  show ?thesis
  proof (cases rule: claim_run_cases [of name ttl ws we cfg db])
    case (3 l)
    then show ?thesis using grant_audit [OF ok1] by (simp add: db1_def)
  qed (use ok ok1 in \<open>auto simp: db1_def\<close>)
qed

lemma renew_audit: "audit_ok db \<Longrightarrow> audit_ok (snd (renew_claim c ttl db))"
proof -
  assume ok: "audit_ok db"
  have "leases_distinct (snd (renew_claim c ttl db))"
    using renew_move [of db c ttl] ok by (simp add: audit_ok_def lease_move_def)
  then show ?thesis
    by (rule audit_transfer [OF ok])
      (use ok in \<open>auto simp: renew_claim_def audit_ok_def leased_def running_def map_of_update_row fun_eq_iff\<close>)
qed

lemma skip_audit: "audit_ok db \<Longrightarrow> audit_ok (snd (record_skipped_run ws we cfg reason db))"
proof -
  assume ok: "audit_ok db"
  then have "map_of (db_runs db) (db_next db) = None" by (auto simp: audit_ok_def map_of_eq_None_iff)
  then have "running (snd (record_skipped_run ws we cfg reason db)) = running db"
    by (auto simp: record_skipped_run_def running_def new_run_def map_add_def fun_eq_iff split: option.splits)
  moreover have "leased (snd (record_skipped_run ws we cfg reason db)) = leased db"
    by (simp add: record_skipped_run_def leased_def fun_eq_iff)
  moreover have "leases_distinct (snd (record_skipped_run ws we cfg reason db))"
    "\<forall>i \<in> fst ` set (db_runs (snd (record_skipped_run ws we cfg reason db))).
       i < db_next (snd (record_skipped_run ws we cfg reason db))"
    using ok by (auto simp: record_skipped_run_def leases_distinct_def audit_ok_def)
  ultimately show ?thesis by (intro audit_transfer [OF ok])
qed

lemma miner_step_audit: "audit_ok db \<Longrightarrow> closes_properly x \<Longrightarrow> audit_ok (miner_step x db)"
proof (cases x)
  case (FinalizeOp c s cutoff)
  assume ok: "audit_ok db" and "closes_properly x"
  then have "distinct (dict_keys (db_leases db))" "sm_status (with_purged s n) \<noteq> RunRunning" for n
    using FinalizeOp by (simp_all add: audit_ok_def leases_distinct_def with_purged_def)
  then show ?thesis unfolding FinalizeOp
    by (cases rule: finalize_cases [of db c s cutoff]) (use ok in \<open>auto intro: closed_audit\<close>)
next
  case (FailOp c s)
  assume ok: "audit_ok db" and "closes_properly x"
  then have "distinct (dict_keys (db_leases db))" "sm_status s \<noteq> RunRunning"
    using FailOp by (simp_all add: audit_ok_def leases_distinct_def)
  then show ?thesis unfolding FailOp
    by (cases rule: fail_cases [of db c s]) (use ok in \<open>auto intro: closed_audit\<close>)
next
  case (StoreOp c p m v es)
  assume ok: "audit_ok db"
  have "keeps_audit db (snd (store_cached_embeddings c p m v es db))"
    using framed_transaction [OF store_rows_frame] by (auto simp: store_cached_embeddings_def)
  with ok show ?thesis unfolding StoreOp by (simp add: keeps_audit_ok)
next
  case (MergeOp c fp tids l n q k)
  assume ok: "audit_ok db"
  have "keeps_audit db (snd (merge_candidate_members c fp tids l n q k db))"
    using framed_transaction [OF merge_on_connection_frame] by (simp add: merge_candidate_members_def)
  with ok show ?thesis unfolding MergeOp by (simp add: keeps_audit_ok)
next
  case (PersistOp c cd)
  assume ok: "audit_ok db"
  have "keeps_audit db (snd (persist_candidate c cd db))" unfolding persist_candidate_def
    by (rule framed_transaction) (auto intro: persist_new_frame persist_existing_frame split: option.splits)
  with ok show ?thesis unfolding PersistOp by (simp add: keeps_audit_ok)
next
  case (TickOp n)
  assume ok: "audit_ok db"
  then show ?thesis unfolding TickOp
    by (intro audit_transfer [OF ok]) (simp_all add: audit_ok_def leases_distinct_def leased_def running_def fun_eq_iff)
next
  case (LogsOp t)
  assume ok: "audit_ok db"
  then show ?thesis unfolding LogsOp
    by (intro audit_transfer [OF ok]) (simp_all add: audit_ok_def leases_distinct_def leased_def running_def fun_eq_iff)
qed (simp_all add: claim_audit renew_audit skip_audit)

definition empty_db :: miner_db where
  "empty_db = \<lparr>db_clock = 0, db_next = 0, db_leases = [(''production-log-miner'', free_lease)], db_runs = [],
     db_candidates = [], db_members = [], db_golden = [], db_cache = [], db_logs = []\<rparr>"

lemma empty_db_audit: "audit_ok empty_db"
  by (simp add: audit_ok_def empty_db_def leases_distinct_def leased_def running_def free_lease_def)

lemma run_audit: "audit_ok db \<Longrightarrow> list_all closes_properly xs \<Longrightarrow> audit_ok (fold miner_step xs db)"
  by (induction xs arbitrary: db) (auto intro: miner_step_audit)

text \<open>C15. From the migrated database, whatever the workers, the clock and the runtime do, an audit row is
  \<open>running\<close> exactly while one lease holds its run, and no two leases hold the same run: a crashed worker's
  row is closed when its lease is claimed again.\<close>
theorem running_rows_are_leased:
  assumes "list_all closes_properly xs"
  shows "running (fold miner_step xs empty_db) i = (\<exists>!n. leased (fold miner_step xs empty_db) n i)"
  using audit_okD [OF run_audit [OF empty_db_audit assms]] by blast

definition ex_summary :: "run_status \<Rightarrow> run_summary" where
  "ex_summary st = \<lparr>sm_run = Some 0, sm_status = st, sm_start = 0, sm_end = 10, sm_counts = empty_counts, sm_message = None\<rparr>"

definition ex_claim :: run_claim where
  "ex_claim = \<lparr>rc_run = 0, rc_lease = ''production-log-miner'', rc_token = 1, rc_expires = 5\<rparr>"

definition ex_ops :: "miner_op list" where
  "ex_ops = [ClaimOp ''production-log-miner'' 5 0 10 [], TickOp 6, ClaimOp ''production-log-miner'' 5 0 10 [],
     FailOp ex_claim (ex_summary RunFailed)]"

lemma running_rows_are_leased_witness:
  "running (fold miner_step ex_ops empty_db) 2 = (\<exists>!n. leased (fold miner_step ex_ops empty_db) n 2)"
  by (rule running_rows_are_leased) (simp add: ex_ops_def ex_summary_def)

text \<open>The stale worker of that run: its claim expired and the lease passed on.\<close>

definition ex_taken_over :: miner_db where
  "ex_taken_over = fold miner_step (butlast ex_ops) empty_db"

lemma ex_taken_over_facts: "leases_distinct ex_taken_over" "rc_token ex_claim < db_next ex_taken_over"
  "\<not> owns ex_claim ex_taken_over"
  by (simp_all add: ex_taken_over_def ex_ops_def empty_db_def claim_run_def grant_lease_def Let_def ex_claim_def
      dict_setdefault_def update_row_def free_lease_def unexpired_def leases_distinct_def owns_def owned_lease_def)

lemma stale_worker_invisible_witness:
  "fold miner_step [FailOp ex_claim (ex_summary RunFailed)] ex_taken_over
    = fold miner_step (filter (\<lambda>x. acts_for x \<noteq> Some ex_claim) [FailOp ex_claim (ex_summary RunFailed)]) ex_taken_over"
  using stale_worker_invisible [OF ex_taken_over_facts] by blast

lemma claim_exclusive_witness:
  "case claim_run ''lease'' 5 0 10 [] empty_db of
      (Inr None, db') \<Rightarrow> (\<exists>l. map_of (db_leases empty_db) ''lease'' = Some l \<and> unexpired empty_db l) \<and> db' = empty_db
    | (Inr (Some c), db') \<Rightarrow> \<not> (\<exists>c'. rc_lease c' = ''lease'' \<and> owns c' empty_db) \<and> owns c db' \<and> rc_lease c = ''lease''
        \<and> rc_token c = db_next empty_db + 1 \<and> rc_run c = db_next empty_db \<and> map_of (db_runs db') (rc_run c) \<noteq> None
    | (Inl e, db') \<Rightarrow> False"
  by (rule claim_exclusive) simp_all

section \<open>The mined cases\<close>

text \<open>What identifies a candidate row and a golden case.\<close>

type_synonym row_key = "uuid \<times> str \<times> candidate_status \<times> uuid option"

definition row_key :: "candidate_row \<Rightarrow> row_key" where
  "row_key r = (cr_id r, cd_fingerprint (cr_case r), cd_status (cr_case r), cr_golden r)"

definition golden_key :: "golden_row \<Rightarrow> uuid \<times> str option" where
  "golden_key g = (gd_id g, gd_fingerprint g)"

definition keys_ok :: "row_key list \<Rightarrow> (uuid \<times> str option) list \<Rightarrow> nat \<Rightarrow> bool" where
  "keys_ok rs gs n \<longleftrightarrow> distinct (map fst rs) \<and> distinct (map (fst \<circ> snd) rs) \<and> (\<forall>r \<in> set rs. fst r < n)
     \<and> distinct (map fst gs) \<and> (\<forall>g \<in> set gs. fst g < n)
     \<and> (\<forall>g \<in> set gs. \<forall>h \<in> set gs. snd g = snd h \<longrightarrow> snd g \<noteq> None \<longrightarrow> g = h)
     \<and> (\<forall>(i, fp, st, gid) \<in> set rs. st = Promoted \<longrightarrow> (\<exists>g. gid = Some g \<and> (g, Some fp) \<in> set gs))"

definition members_ok :: "candidate_row list \<Rightarrow> (uuid \<times> str) list \<Rightarrow> bool" where
  "members_ok rs ms \<longleftrightarrow> distinct ms \<and> fst ` set ms \<subseteq> cr_id ` set rs
     \<and> (\<forall>r \<in> set rs. cd_members (cr_case r) = members_of (cr_id r) ms)"

definition cases_ok :: "miner_db \<Rightarrow> bool" where
  "cases_ok db \<longleftrightarrow> keys_ok (map row_key (db_candidates db)) (map golden_key (db_golden db)) (db_next db)
     \<and> members_ok (db_candidates db) (db_members db)"

lemma keys_ok_mono: "keys_ok rs gs n \<Longrightarrow> n \<le> m \<Longrightarrow> keys_ok rs gs m"
  by (fastforce simp: keys_ok_def)

lemma keys_ok_golden:
  assumes "keys_ok rs gs n" "\<forall>g \<in> set gs. snd g \<noteq> Some fp" "gid \<notin> fst ` set gs" "n \<le> m" "gid < m"
  shows "keys_ok rs (gs @ [(gid, Some fp)]) m"
proof -
  have "\<forall>(i, fp1, st, g1) \<in> set rs. st = Promoted \<longrightarrow> (\<exists>g. g1 = Some g \<and> (g, Some fp1) \<in> set (gs @ [(gid, Some fp)]))"
    using assms(1) by (force simp: keys_ok_def)
  moreover have "\<forall>r \<in> set rs. fst r < m" "\<forall>g \<in> set (gs @ [(gid, Some fp)]). fst g < m"
    using assms(1,4,5) by (auto simp: keys_ok_def)
  moreover have "\<forall>g \<in> set (gs @ [(gid, Some fp)]). \<forall>h \<in> set (gs @ [(gid, Some fp)]). snd g = snd h \<longrightarrow> snd g \<noteq> None \<longrightarrow> g = h"
    using assms(1,2) by (auto simp: keys_ok_def)
  ultimately show ?thesis using assms(1,3) unfolding keys_ok_def by simp
qed

lemma keys_ok_row:
  assumes "keys_ok rs gs n" "i \<notin> fst ` set rs" "\<forall>r \<in> set rs. fst (snd r) \<noteq> fp" "n \<le> m" "i < m"
    and "st = Promoted \<longrightarrow> (\<exists>g. gid = Some g \<and> (g, Some fp) \<in> set gs)"
  shows "keys_ok (rs @ [(i, fp, st, gid)]) gs m"
proof -
  have "\<forall>r \<in> set (rs @ [(i, fp, st, gid)]). fst r < m" "\<forall>g \<in> set gs. fst g < m"
    using assms(1,4,5) by (auto simp: keys_ok_def)
  then show ?thesis using assms(1,2,3,6) unfolding keys_ok_def by auto
qed

lemma keys_ok_subset:
  "keys_ok rs gs n \<Longrightarrow> set rs' \<subseteq> set rs \<Longrightarrow> distinct (map fst rs') \<Longrightarrow> distinct (map (fst \<circ> snd) rs') \<Longrightarrow> keys_ok rs' gs n"
  by (auto simp: keys_ok_def)

lemma insert_members:
  "set (fold (insert_member cid) tids ms) = set ms \<union> (\<lambda>t. (cid, t)) ` set tids"
  "distinct ms \<Longrightarrow> distinct (fold (insert_member cid) tids ms)"
  by (induction tids arbitrary: ms) (auto simp: insert_member_def)

lemma members_of_other: "i \<noteq> cid \<Longrightarrow> members_of i (fold (insert_member cid) tids ms) = members_of i ms"
  by (induction tids arbitrary: ms) (auto simp: insert_member_def members_of_def)

lemma set_members_of: "set (members_of cid ms) = {t. (cid, t) \<in> set ms}"
  by (force simp: members_of_def)

lemma merge_members_keys:
  "map row_key (db_candidates (merge_members cid tids l n q k db)) = map row_key (db_candidates db)"
  "map golden_key (db_golden (merge_members cid tids l n q k db)) = map golden_key (db_golden db)"
  by (auto simp: merge_members_def Let_def row_key_def merge_row_members_def golden_key_def split: option.splits)

lemma merge_members_ok:
  assumes "distinct (db_members db)" "fst ` set (db_members db) \<subseteq> cr_id ` set (db_candidates db)"
    and "cid \<in> cr_id ` set (db_candidates db)"
    and "\<forall>r \<in> set (db_candidates db). cr_id r \<noteq> cid \<longrightarrow> cd_members (cr_case r) = members_of (cr_id r) (db_members db)"
  shows "members_ok (db_candidates (merge_members cid tids l n q k db)) (db_members (merge_members cid tids l n q k db))"
proof -
  define ms where "ms = fold (insert_member cid) (sort (remdups tids)) (db_members db)"
  have "map cr_id (db_candidates (merge_members cid tids l n q k db)) = map cr_id (db_candidates db)"
    using arg_cong [OF merge_members_keys(1) [of cid tids l n q k db], of "map fst"] by (simp add: comp_def row_key_def)
  then have ids: "cr_id ` set (db_candidates (merge_members cid tids l n q k db)) = cr_id ` set (db_candidates db)"
    by (metis set_map)
  have m: "db_members (merge_members cid tids l n q k db) = ms" by (simp add: merge_members_def ms_def Let_def)
  have "distinct ms" "fst ` set ms \<subseteq> cr_id ` set (db_candidates db)"
    using assms(1-3) by (auto simp: ms_def insert_members)
  moreover have "cd_members (cr_case r) = members_of (cr_id r) ms"
    if "r \<in> set (db_candidates (merge_members cid tids l n q k db))" for r
    using that assms(4) by (auto simp: merge_members_def Let_def merge_row_members_def ms_def members_of_other)
  ultimately show ?thesis unfolding members_ok_def ids m by auto
qed

lemma merge_members_cases:
  assumes "cases_ok db" "cid \<in> cr_id ` set (db_candidates db)"
  shows "cases_ok (merge_members cid tids l n q k db)"
  using assms merge_members_ok [of db cid] unfolding cases_ok_def merge_members_keys
  by (simp add: members_ok_def)

lemma case_row_Some: "case_row fp db = Some r \<Longrightarrow> r \<in> set (db_candidates db) \<and> cd_fingerprint (cr_case r) = fp"
  by (auto dest: find_Some_set)

lemma case_row_None: "case_row fp db = None \<longleftrightarrow> (\<forall>r \<in> set (db_candidates db). cd_fingerprint (cr_case r) \<noteq> fp)"
  by (simp add: find_None_set)

lemma insert_golden_keys:
  assumes "insert_golden c cid cd db = (gid, db')"
  shows "db_candidates db' = db_candidates db" "db_members db' = db_members db"
    "map golden_key (db_golden db') = (if \<exists>g \<in> set (db_golden db). gd_fingerprint g = Some (cd_fingerprint cd)
       then map golden_key (db_golden db) else map golden_key (db_golden db) @ [(db_next db, Some (cd_fingerprint cd))])"
    "(gid, Some (cd_fingerprint cd)) \<in> set (map golden_key (db_golden db'))"
    "db_next db' = (if \<exists>g \<in> set (db_golden db). gd_fingerprint g = Some (cd_fingerprint cd)
       then db_next db else Suc (db_next db))"
  using assms find_None_set [of "\<lambda>g. gd_fingerprint g = Some (cd_fingerprint cd)" "db_golden db"]
  by (force simp: insert_golden_def golden_key_def dest: find_Some_set split: option.splits)+

lemma persist_new_cases:
  assumes ok: "cases_ok db" and none: "case_row (cd_fingerprint cd) db = None"
    and run: "persist_new c cd db = (Inr x, db')"
  shows "cases_ok db'"
    "map row_key (db_candidates db') = map row_key (db_candidates db)
       @ [(db_next db, cd_fingerprint cd, cd_status cd, pr_golden x)]"
    "x = \<lparr>pr_created = True, pr_candidate = Some (db_next db), pr_golden = pr_golden x\<rparr>"
    "(pr_golden x \<noteq> None) = (cd_status cd = Promoted)"
    "members_of (db_next db) (db_members db') = sort (remdups (all_members cd))"
proof -
  obtain k where k: "example_count cd = Inr k" using run by (auto simp: persist_new_def Let_def split: sum.splits)
  define cid where "cid = db_next db"
  define db1 where "db1 = insert_candidate c cd db"
  define db2 where "db2 = merge_members cid (all_members cd) (cd_label cd) (cd_noise cd) (cd_outlier cd) k db1"
  have fresh: "cid \<notin> cr_id ` set (db_candidates db)"
    using ok by (auto simp: cases_ok_def keys_ok_def row_key_def cid_def)
  have mem: "distinct (db_members db)" "fst ` set (db_members db) \<subseteq> cr_id ` set (db_candidates db)"
    using ok by (simp_all add: cases_ok_def members_ok_def)
  have mem1: "cid \<notin> fst ` set (db_members db1)" using mem fresh by (auto simp: db1_def insert_candidate_def)
  have rows1: "map row_key (db_candidates db1) = map row_key (db_candidates db) @ [(cid, cd_fingerprint cd, cd_status cd, None)]"
    by (simp add: db1_def insert_candidate_def row_key_def cid_def)
  have rows2: "map row_key (db_candidates db2) = map row_key (db_candidates db) @ [(cid, cd_fingerprint cd, cd_status cd, None)]"
    by (simp add: db2_def merge_members_keys rows1)
  have gold2: "map golden_key (db_golden db2) = map golden_key (db_golden db)" "db_next db2 = Suc cid"
    by (simp_all add: db2_def merge_members_keys db1_def insert_candidate_def cid_def)
  have mem2: "members_ok (db_candidates db2) (db_members db2)"
    unfolding db2_def using ok fresh
    by (intro merge_members_ok) (auto simp: db1_def insert_candidate_def cases_ok_def members_ok_def cid_def)
  have list2: "members_of cid (db_members db2) = sort (remdups (all_members cd))"
  proof -
    have m: "db_members db2 = fold (insert_member cid) (sort (remdups (all_members cd))) (db_members db1)"
      by (simp add: db2_def merge_members_def Let_def)
    have "set (members_of cid (db_members db2)) = set (all_members cd)"
      unfolding set_members_of m insert_members using mem1 by force
    moreover have "distinct (members_of cid (db_members db2))"
      using mem2 by (auto simp: members_ok_def members_of_def distinct_map inj_on_def)
    moreover have "sorted (members_of cid (db_members db2))" by (simp add: members_of_def)
    ultimately show ?thesis by (intro sorted_distinct_set_unique) simp_all
  qed
  have old: "keys_ok (map row_key (db_candidates db)) (map golden_key (db_golden db)) cid"
    using ok by (simp add: cases_ok_def cid_def)
  have new_row: "cid \<notin> fst ` set (map row_key (db_candidates db))"
    "\<forall>r \<in> set (map row_key (db_candidates db)). fst (snd r) \<noteq> cd_fingerprint cd"
    using fresh none by (auto simp: row_key_def case_row_None)
  have "cases_ok db' \<and> map row_key (db_candidates db') = map row_key (db_candidates db)
       @ [(cid, cd_fingerprint cd, cd_status cd, pr_golden x)] \<and> x = \<lparr>pr_created = True, pr_candidate = Some cid, pr_golden = pr_golden x\<rparr>
     \<and> (pr_golden x \<noteq> None) = (cd_status cd = Promoted) \<and> members_of cid (db_members db') = sort (remdups (all_members cd))"
  proof (cases "cd_status cd = Promoted")
    case False
    with run k have x: "x = \<lparr>pr_created = True, pr_candidate = Some cid, pr_golden = None\<rparr>" "db' = db2"
      by (simp_all add: persist_new_def Let_def db1_def db2_def cid_def)
    have "keys_ok (map row_key (db_candidates db2)) (map golden_key (db_golden db2)) (db_next db2)"
      unfolding rows2 gold2 by (rule keys_ok_row [OF old new_row]) (simp_all add: False)
    then show ?thesis using x False mem2 rows2 list2 by (simp add: cases_ok_def)
  next
    case True
    obtain gid db3 where g: "insert_golden c cid cd db2 = (gid, db3)" by fastforce
    note gk = insert_golden_keys [OF g]
    with run k True g have x: "x = \<lparr>pr_created = True, pr_candidate = Some cid, pr_golden = Some gid\<rparr>"
      "db' = link_golden cid gid db3"
      by (simp_all add: persist_new_def Let_def db1_def db2_def cid_def)
    have "map row_key (db_candidates db') = map (\<lambda>(i, fp, st, g). (i, fp, st, if i = cid then Some gid else g)) (map row_key (db_candidates db2))"
      by (auto simp: x(2) link_golden_def gk(1) row_key_def)
    also have "\<dots> = map row_key (db_candidates db) @ [(cid, cd_fingerprint cd, cd_status cd, Some gid)]"
      unfolding rows2 using fresh by (auto simp: row_key_def)
    finally have rows: "map row_key (db_candidates db') = map row_key (db_candidates db) @ [(cid, cd_fingerprint cd, cd_status cd, Some gid)]" .
    have same: "db_golden db' = db_golden db3" "db_next db' = db_next db3" "db_members db' = db_members db2"
      by (simp_all add: x(2) link_golden_def gk(2))
    have "map cr_id (db_candidates db') = map cr_id (db_candidates db2)" by (simp add: x(2) link_golden_def gk(1))
    then have "cr_id ` set (db_candidates db') = cr_id ` set (db_candidates db2)" by (metis set_map)
    then have "members_ok (db_candidates db') (db_members db')"
      using mem2 unfolding members_ok_def same by (auto simp: x(2) link_golden_def gk(1))
    moreover have "keys_ok (map row_key (db_candidates db')) (map golden_key (db_golden db')) (db_next db')"
    proof (cases "\<exists>g \<in> set (db_golden db2). gd_fingerprint g = Some (cd_fingerprint cd)")
      case True
      then have g: "map golden_key (db_golden db') = map golden_key (db_golden db)" "db_next db' = Suc cid"
        using gk(3,5) gold2 by (simp_all add: same)
      have "(gid, Some (cd_fingerprint cd)) \<in> set (map golden_key (db_golden db3))" by (rule gk(4))
      then have "(gid, Some (cd_fingerprint cd)) \<in> set (map golden_key (db_golden db'))" by (simp only: same(1))
      then have "(gid, Some (cd_fingerprint cd)) \<in> set (map golden_key (db_golden db))" by (simp only: g(1))
      then show ?thesis unfolding rows g by (intro keys_ok_row [OF old new_row]) simp_all
    next
      case False
      have nog: "\<forall>g \<in> set (map golden_key (db_golden db)). snd g \<noteq> Some (cd_fingerprint cd)"
        unfolding gold2(1) [symmetric] using False by (auto simp: golden_key_def)
      have g: "map golden_key (db_golden db') = map golden_key (db_golden db) @ [(Suc cid, Some (cd_fingerprint cd))]"
        "db_next db' = Suc (Suc cid)" using gk(3,5) gold2 False by (simp_all add: same)
      have "Suc cid \<notin> fst ` set (map golden_key (db_golden db))"
      proof
        assume "Suc cid \<in> fst ` set (map golden_key (db_golden db))"
        then obtain e where e: "e \<in> set (map golden_key (db_golden db))" "Suc cid = fst e" by (rule imageE)
        have "\<forall>e \<in> set (map golden_key (db_golden db)). fst e < cid" using old unfolding keys_ok_def by blast
        from bspec [OF this e(1)] e(2) show False by simp
      qed
      then have k: "keys_ok (map row_key (db_candidates db)) (map golden_key (db_golden db')) (Suc (Suc cid))"
        unfolding g by (intro keys_ok_golden [OF old nog]) simp_all
      have "(gid, Some (cd_fingerprint cd)) \<in> set (map golden_key (db_golden db'))"
        using gk(4) by (simp add: same)
      then show ?thesis unfolding rows g(2) by (intro keys_ok_row [OF k new_row]) simp_all
    qed
    ultimately show ?thesis using x rows True list2 same by (simp add: cases_ok_def)
  qed
  then show "cases_ok db'"
    "map row_key (db_candidates db') = map row_key (db_candidates db)
       @ [(db_next db, cd_fingerprint cd, cd_status cd, pr_golden x)]"
    "x = \<lparr>pr_created = True, pr_candidate = Some (db_next db), pr_golden = pr_golden x\<rparr>"
    "(pr_golden x \<noteq> None) = (cd_status cd = Promoted)"
    "members_of (db_next db) (db_members db') = sort (remdups (all_members cd))"
    by (simp_all add: cid_def)
qed

lemma persist_existing_cases:
  assumes ok: "cases_ok db" and r: "case_row (cd_fingerprint cd) db = Some r"
    and run: "persist_existing r cd db = (Inr x, db')"
  shows "cases_ok db'" "map row_key (db_candidates db') = map row_key (db_candidates db)"
    "map golden_key (db_golden db') = map golden_key (db_golden db)"
    "x = \<lparr>pr_created = False, pr_candidate = Some (cr_id r), pr_golden = cr_golden r\<rparr>"
proof -
  obtain k where k: "example_count cd = Inr k" using run by (auto simp: persist_existing_def split: sum.splits)
  have db': "db' = merge_members (cr_id r) (all_members cd) (cd_label cd) (cd_noise cd) (cd_outlier cd) k db"
    and x: "x = \<lparr>pr_created = False, pr_candidate = Some (cr_id r), pr_golden = cr_golden r\<rparr>"
    using run k by (simp_all add: persist_existing_def)
  show "cases_ok db'" unfolding db' using ok case_row_Some [OF r] by (intro merge_members_cases) auto
  show "map row_key (db_candidates db') = map row_key (db_candidates db)"
    "map golden_key (db_golden db') = map golden_key (db_golden db)" unfolding db' by (simp_all add: merge_members_keys)
  show "x = \<lparr>pr_created = False, pr_candidate = Some (cr_id r), pr_golden = cr_golden r\<rparr>" by (rule x)
qed

lemma transaction_cases_ok:
  assumes "cases_ok db" "\<And>x db'. m db = (Inr x, db') \<Longrightarrow> cases_ok db'"
  shows "cases_ok (snd (transaction (io_then (assert_claim c) m) db))"
proof (cases "owns c db")
  case True
  obtain r db' where t: "transaction m db = (r, db')" by fastforce
  then have "cases_ok db'" using assms by (cases rule: transaction_cases) auto
  with t True show ?thesis by (simp add: owned_transaction)
qed (simp add: fenced_transaction assms(1))

definition same_cases :: "miner_db \<Rightarrow> miner_db \<Rightarrow> bool" where
  "same_cases db db' \<longleftrightarrow> db_candidates db' = db_candidates db \<and> db_members db' = db_members db
     \<and> db_golden db' = db_golden db \<and> db_next db \<le> db_next db'"

lemma same_cases_ok: "cases_ok db \<Longrightarrow> same_cases db db' \<Longrightarrow> cases_ok db'"
  by (auto simp: cases_ok_def same_cases_def intro: keys_ok_mono)

lemma store_rows_cases: "store_rows p m v es db = (r, db') \<Longrightarrow> same_cases db db'"
proof (induction es arbitrary: db)
  case (Cons e es)
  show ?case
  proof (cases "snd e = []")
    case False
    with Cons.prems show ?thesis by (cases e) (auto simp: same_cases_def dest: Cons.IH)
  qed (use Cons.prems in \<open>cases e; simp add: same_cases_def\<close>)
qed (simp add: same_cases_def)

lemma purge_cases:
  assumes "cases_ok db" "purge cutoff db = (n, db1)"
  shows "cases_ok db1"
proof -
  have rows: "db_candidates db1 = filter (\<lambda>r. \<not> purgeable cutoff r) (db_candidates db)"
    "db_golden db1 = db_golden db" "db_next db1 = db_next db"
    "db_members db1 = filter (\<lambda>(cid, tid). cid \<in> cr_id ` set (db_candidates db1)) (db_members db)"
    using assms(2) by (auto simp: purge_def Let_def)
  have k: "keys_ok (map row_key (db_candidates db)) (map golden_key (db_golden db)) (db_next db)"
    using assms(1) by (simp add: cases_ok_def)
  have "keys_ok (map row_key (db_candidates db1)) (map golden_key (db_golden db1)) (db_next db1)"
  proof (unfold rows, rule keys_ok_subset [OF k])
    have "distinct (map (fst \<circ> row_key) (db_candidates db))" "distinct (map (fst \<circ> snd \<circ> row_key) (db_candidates db))"
      using k by (simp_all add: keys_ok_def comp_assoc)
    then show "distinct (map fst (map row_key (filter (\<lambda>r. \<not> purgeable cutoff r) (db_candidates db))))"
      "distinct (map (fst \<circ> snd) (map row_key (filter (\<lambda>r. \<not> purgeable cutoff r) (db_candidates db))))"
      by (simp_all only: map_map comp_assoc distinct_map_filter)
  qed auto
  moreover have "members_of (cr_id r) (db_members db1) = members_of (cr_id r) (db_members db)"
    if "r \<in> set (db_candidates db1)" for r
    unfolding rows(4) members_of_def using that by (simp add: filter_filter case_prod_unfold) (metis (no_types, lifting) image_eqI)
  moreover have "distinct (db_members db1)" using assms(1) by (simp add: rows(4) cases_ok_def members_ok_def)
  moreover have "fst ` set (db_members db1) \<subseteq> cr_id ` set (db_candidates db1)" by (auto simp: rows(4))
  moreover have "cd_members (cr_case r) = members_of (cr_id r) (db_members db)" if "r \<in> set (db_candidates db1)" for r
    using that assms(1) by (simp add: rows(1) cases_ok_def members_ok_def)
  ultimately show ?thesis by (simp add: cases_ok_def members_ok_def)
qed

lemma miner_step_cases:
  assumes ok: "cases_ok db" and dist: "leases_distinct db"
  shows "cases_ok (miner_step x db)"
proof -
  have d: "distinct (dict_keys (db_leases db))" using dist by (simp add: leases_distinct_def)
  show ?thesis
  proof (cases x)
    case (PersistOp c cd)
    show ?thesis unfolding PersistOp miner_step.simps persist_candidate_def
    proof (rule transaction_cases_ok [OF ok])
      fix y db' assume "(case case_row (cd_fingerprint cd) db of None \<Rightarrow> persist_new c cd db
          | Some r \<Rightarrow> persist_existing r cd db) = (Inr y, db')"
      then show "cases_ok db'" using persist_new_cases(1) [OF ok] persist_existing_cases(1) [OF ok]
        by (cases "case_row (cd_fingerprint cd) db") auto
    qed
  next
    case (MergeOp c fp tids l n q k)
    show ?thesis unfolding MergeOp miner_step.simps merge_candidate_members_def
    proof (rule transaction_cases_ok [OF ok])
      fix y db' assume "merge_on_connection fp tids l n q k db = (Inr y, db')"
      then show "cases_ok db'" using ok case_row_Some [of fp db]
        by (auto simp: merge_on_connection_def intro: merge_members_cases split: option.splits)
    qed
  next
    case (StoreOp c p m v es)
    have "cases_ok (snd (transaction (io_then (assert_claim c) (store_rows p m v (sort_key fst es))) db))"
      by (rule transaction_cases_ok [OF ok]) (rule same_cases_ok [OF ok store_rows_cases])
    then show ?thesis using ok by (simp add: StoreOp store_cached_embeddings_def)
  next
    case (FinalizeOp c s cutoff)
    from d show ?thesis unfolding FinalizeOp
    proof (cases rule: finalize_cases [of db c s cutoff])
      case (2 n db1 db')
      then have "miner_step (FinalizeOp c s cutoff) db = db'" by simp
      then show "cases_ok (miner_step (FinalizeOp c s cutoff) db)"
        using purge_cases [OF ok 2(2)] 2 by (simp add: cases_ok_def)
    qed (simp add: ok)
  next
    case (FailOp c s)
    from d show ?thesis unfolding FailOp
      by (cases rule: fail_cases [of db c s]) (use ok in \<open>simp_all add: cases_ok_def\<close>)
  next
    case (ClaimOp name ttl ws we cfg)
    have "same_cases db (snd (claim_run name ttl ws we cfg db))"
      by (cases rule: claim_run_cases [of name ttl ws we cfg db])
        (simp_all add: same_cases_def grant_lease_def Let_def)
    then show ?thesis using ok by (simp add: ClaimOp same_cases_ok)
  qed (use ok in \<open>auto intro!: same_cases_ok [OF ok] simp: same_cases_def renew_claim_def record_skipped_run_def\<close>)
qed

lemma run_cases_ok:
  "cases_ok db \<Longrightarrow> leases_distinct db \<Longrightarrow> cases_ok (fold miner_step xs db)"
proof (induction xs arbitrary: db)
  case (Cons x xs)
  have "leases_distinct (miner_step x db)" using miner_step_move [OF Cons.prems(2), of x] by (simp add: lease_move_def)
  with Cons miner_step_cases show ?case by simp
qed simp

lemma empty_db_cases: "cases_ok empty_db" "leases_distinct empty_db"
  by (simp_all add: cases_ok_def empty_db_def keys_ok_def members_ok_def leases_distinct_def)

text \<open>C19. In every reachable database a source fingerprint has at most one candidate and at most one golden
  case, every promoted candidate is linked to the golden case of its fingerprint, and a candidate's member
  list is the sorted list of its member rows.\<close>
theorem mined_cases_consistent:
  shows "cases_ok (fold miner_step xs empty_db)"
  by (rule run_cases_ok [OF empty_db_cases])


definition ex_case :: mined_candidate where
  "ex_case = \<lparr>cd_fingerprint = ''f'', cd_scope = ''rag'', cd_input = ''q'', cd_representative = ''t1'',
     cd_members = [''t2'', ''t1''], cd_label = None, cd_noise = True, cd_outlier = None,
     cd_expected = \<lparr>eo_answer = ''a'', eo_criteria = [], eo_behavior = Answer, eo_pattern = ''p''\<rparr>,
     cd_difficulty = Simple, cd_confidence = 1, cd_status = Promoted, cd_provenance = []\<rparr>"

definition ex_claimed :: miner_db where
  "ex_claimed = snd (claim_run ''production-log-miner'' 5 0 10 [] empty_db)"

lemma ex_claimed_facts: "cases_ok ex_claimed" "owns ex_claim ex_claimed" "case_row ''f'' ex_claimed = None"
  "db_next ex_claimed = 2"
  by (simp_all add: ex_claimed_def empty_db_def claim_run_def grant_lease_def Let_def ex_claim_def
      dict_setdefault_def update_row_def free_lease_def unexpired_def owns_def owned_lease_def
      cases_ok_def keys_ok_def members_ok_def)

lemma ex_persisted: "\<exists>x db'. persist_candidate ex_claim ex_case ex_claimed = (Inr x, db')"
proof -
  have "example_count ex_case = Inr 0" by (simp add: example_count_def ex_case_def)
  then show ?thesis
    using ex_claimed_facts(3)
    unfolding persist_candidate_def owned_transaction [OF ex_claimed_facts(2)]
    by (auto simp: transaction_def persist_new_def Let_def ex_case_def split: prod.splits)
qed


text \<open>Completing a run under a live claim keeps the source rows that are not older than the cutoff, the
  candidates that are promoted or not older than it, and the cached embeddings that still have a source
  row; the count is what was removed, the audit row has the summary with that count, and the lease is free.\<close>
theorem finalize_retention:
  assumes "leases_distinct db" "finalize_run c s cutoff db = (Inr n, db')"
  shows "owns c db \<and> db_logs db' = filter (\<lambda>(k, r). cutoff \<le> sr_created r) (db_logs db)
    \<and> db_candidates db' = filter (\<lambda>r. cd_status (cr_case r) = Promoted \<or> cutoff \<le> cr_created r) (db_candidates db)
    \<and> db_cache db' = filter (\<lambda>e. list_ex (\<lambda>(k, r). char64 (lr_fingerprint r) = char64 (ce_fingerprint e)) (db_logs db')) (db_cache db)
    \<and> n = int (length (db_logs db)) - int (length (db_logs db')) + (int (length (db_candidates db)) - int (length (db_candidates db')))
        + (int (length (db_cache db)) - int (length (db_cache db')))
    \<and> map_of (db_runs db') (rc_run c) = map_option (summarised (with_purged s n) (db_clock db)) (map_of (db_runs db) (rc_run c))
    \<and> \<not> owns c db'"
proof -
  have d: "distinct (dict_keys (db_leases db))" using assms(1) by (simp add: leases_distinct_def)
  from d show ?thesis
  proof (cases rule: finalize_cases [of db c s cutoff])
    case (1 e)
    with assms(2) show ?thesis by simp
  next
    case (2 n' db1 db2)
    with assms(2) have eq: "n' = n" "db2 = db'" by simp_all
    have cand: "(\<lambda>r. \<not> purgeable cutoff r) = (\<lambda>r. cd_status (cr_case r) = Promoted \<or> cutoff \<le> cr_created r)"
    proof
      fix r :: candidate_row
      show "(\<not> purgeable cutoff r) = (cd_status (cr_case r) = Promoted \<or> cutoff \<le> cr_created r)"
        by (cases "cd_status (cr_case r)") (auto simp: purgeable_def)
    qed
    have logs: "(\<lambda>(k :: str, r). \<not> sr_created r < cutoff) = (\<lambda>(k, r). cutoff \<le> sr_created r)"
      by (auto simp: fun_eq_iff)
    have p: "db_logs db' = filter (\<lambda>(k, r). cutoff \<le> sr_created r) (db_logs db)"
      "db_candidates db' = filter (\<lambda>r. cd_status (cr_case r) = Promoted \<or> cutoff \<le> cr_created r) (db_candidates db)"
      "db_cache db' = filter (\<lambda>e. list_ex (\<lambda>(k, r). char64 (lr_fingerprint r) = char64 (ce_fingerprint e)) (db_logs db')) (db_cache db)"
      "n = int (length (db_logs db)) - int (length (db_logs db')) + (int (length (db_candidates db)) - int (length (db_candidates db')))
        + (int (length (db_cache db)) - int (length (db_cache db')))"
      using 2 eq unfolding purge_def Let_def cand logs by auto
    have runs: "map_of (db_runs db') (rc_run c) = map_option (summarised (with_purged s n) (db_clock db)) (map_of (db_runs db) (rc_run c))"
      using 2(4) eq by (simp add: closed_def map_of_update_row)
    have "\<not> owns c db'"
      using 2(4) eq by (auto simp: closed_def owns_def owned_lease_def map_of_update_row free_lease_def
          split: option.splits if_splits)
    with 2(3) p runs show ?thesis by blast
  qed
qed

lemma ex_finalized_run: "\<exists>db'. finalize_run ex_claim (ex_summary RunCompleted) 0 ex_claimed = (Inr 0, db')"
proof -
  have "fst (finalize_run ex_claim (ex_summary RunCompleted) 0 ex_claimed) = Inr 0" by code_simp
  then show ?thesis by (metis prod.collapse)
qed

lemma finalize_retention_witness:
  "\<exists>db'. finalize_run ex_claim (ex_summary RunCompleted) 0 ex_claimed = (Inr 0, db') \<and> \<not> owns ex_claim db'
     \<and> db_candidates db' = []"
proof -
  obtain db' where run: "finalize_run ex_claim (ex_summary RunCompleted) 0 ex_claimed = (Inr 0, db')"
    using ex_finalized_run by blast
  have "leases_distinct ex_claimed" "db_candidates ex_claimed = []" by (code_simp, code_simp)
  with finalize_retention [OF this(1) run] run show ?thesis by simp
qed

text \<open>\<open>BTRIM\<close> removes spaces only, \<open>str.strip\<close> every white space: a row whose scope is a line feed passes the
  filter and the table's check, and then no row of the window can be read.\<close>

definition ex_blank_row :: source_row where
  "ex_blank_row = \<lparr>lr_feature_scope = [CHR 0x0A], lr_redacted_prompt = ''p'', lr_fingerprint = ''f'', lr_scores = [],
     lr_min_score = None, lr_status = None, lr_negative_feedback = True, sr_created = 1\<rparr>"

lemma blank_scope_fails_window:
  "eligible_row 0 2 4 ex_blank_row \<and>
   fst (fetch_eligible 0 2 4 (empty_db\<lparr>db_logs := [(''t'', ex_blank_row)]\<rparr>))
     = Inl (ValidationError, ''validation error for InteractionRecord'')"
  by code_simp

end
