(* ===== verification/LogMiner.thy ===== *)
theory LogMiner
  imports MinerRepo Encoding
begin

text \<open>
  The log-miner pipeline, \<open>analytics-workers/src/log_miner/extractor.py\<close>, on top of the repository: prompt
  normalisation and fingerprints, embedding validation and the embedding cache, medoids and candidate
  seeds, the lease heartbeat, and one audited run. The embedding provider, the reference generator, the
  clusterer, NFKC and SHA-256 are parameters; a provider is a function of the number of provider calls made
  before. Before every call of the repository and of a provider, a schedule says what happens meanwhile:
  other workers, the clock, the heartbeat thread, and whether the database connection fails. A float of a
  vector is a real number, \<open>None\<close> for a non-finite one.
\<close>

section \<open>Settings and data\<close>

record reference_answer =
  ra_expected :: expected_output
  ra_difficulty :: difficulty_rating
  ra_confidence :: rat

record assignments =
  as_labels :: "int list"
  as_scores :: "rat option list"

record miner_env =
  me_nfkc :: "str \<Rightarrow> str"
  me_sha256 :: "str \<Rightarrow> str"
  me_embed :: "nat \<Rightarrow> str list \<Rightarrow> real option list list result"
  me_generate :: "nat \<Rightarrow> str \<Rightarrow> str \<Rightarrow> str list \<Rightarrow> reference_answer result"
  me_cluster :: "real list list \<Rightarrow> assignments result"
  me_status :: "exn \<Rightarrow> int option"
  me_now :: time

record miner_config =
  mc_window_days :: int
  mc_retention_days :: int
  mc_score_threshold :: int
  mc_max_noise :: int
  mc_max_examples :: int
  mc_promotion :: rat
  mc_version :: str
  mc_lease_name :: str
  mc_lease_ttl :: int
  mc_heartbeat :: int
  mc_input_version :: str
  mc_provider_type :: str
  mc_provider_name :: str
  mc_model :: str
  mc_generator_type :: str
  mc_reference_model :: "str option"
  mc_clustering :: "pyval dict"

definition make_miner :: "miner_config \<Rightarrow> miner_config result" where
  "make_miner cfg =
     (if mc_lease_name cfg = [] then Inl (ValueError, ''lease_name is required'')
      else if mc_lease_ttl cfg < 1 \<or> mc_heartbeat cfg < 1
      then Inl (ValueError, ''lease TTL and heartbeat interval must be positive'')
      else if mc_lease_ttl cfg \<le> mc_heartbeat cfg
      then Inl (ValueError, ''heartbeat interval must be shorter than lease TTL'')
      else Inr cfg)"

definition configuration :: "miner_config \<Rightarrow> pyval dict" where
  "configuration cfg =
     [(''window_days'', PInt (mc_window_days cfg)), (''retention_days'', PInt (mc_retention_days cfg)),
      (''score_threshold'', PInt (mc_score_threshold cfg)), (''max_noise_per_feature'', PInt (mc_max_noise cfg)),
      (''max_cluster_examples'', PInt (mc_max_examples cfg)), (''promotion_confidence'', PFloat (mc_promotion cfg)),
      (''fingerprint_version'', PStr (mc_version cfg)), (''lease_name'', PStr (mc_lease_name cfg)),
      (''lease_ttl_seconds'', PInt (mc_lease_ttl cfg)), (''heartbeat_interval_seconds'', PInt (mc_heartbeat cfg)),
      (''embedding_provider'', PStr (mc_provider_type cfg)), (''embedding_model'', PStr (mc_model cfg)),
      (''embedding_input_version'', PStr (mc_input_version cfg)), (''reference_generator'', PStr (mc_generator_type cfg)),
      (''reference_model'', opt_val PStr (mc_reference_model cfg)), (''clustering'', PDict (mc_clustering cfg))]"

section \<open>Prompts and vectors\<close>

definition normalize_prompt :: "miner_env \<Rightarrow> str \<Rightarrow> str" where
  "normalize_prompt env prompt = squeeze (me_nfkc env prompt)"

definition prompt_fingerprint :: "miner_env \<Rightarrow> str \<Rightarrow> str" where
  "prompt_fingerprint env prompt = me_sha256 env (utf8_encode (normalize_prompt env prompt))"

definition source_fingerprint :: "miner_env \<Rightarrow> str \<Rightarrow> str \<Rightarrow> str \<Rightarrow> str" where
  "source_fingerprint env version scope prompt =
     me_sha256 env (utf8_encode (version @ [CHR 0x00] @ scope @ [CHR 0x00] @ normalize_prompt env prompt))"

definition dot :: "real list \<Rightarrow> real list \<Rightarrow> real" where
  "dot u v = sum_list (map2 (*) u v)"

definition vec_norm :: "real list \<Rightarrow> real" where
  "vec_norm v = sqrt (dot v v)"

definition vec_diff :: "real list \<Rightarrow> real list \<Rightarrow> real list" where
  "vec_diff u v = map2 (-) u v"

definition unit_row :: "real list \<Rightarrow> real list" where
  "unit_row v = map (\<lambda>x. x / vec_norm v) v"

definition validate_embeddings :: "real option list list \<Rightarrow> nat option \<Rightarrow> real list list result" where
  "validate_embeddings vs expected =
     (if \<not> list_all (\<lambda>v. length v = length (hd vs)) vs
      then Inl (ValueError, ''embeddings must have consistent numeric dimensions'')
      else if vs = [] \<or> hd vs = [] then Inl (ValueError, ''embeddings must be a non-empty two-dimensional matrix'')
      else if expected \<noteq> None \<and> expected \<noteq> Some (length vs)
      then Inl (ValueError, ''embedding provider returned '' @ nat_text (length vs) @ '' vectors for ''
             @ nat_text (the expected) @ '' prompts'')
      else if list_ex (list_ex (\<lambda>x. x = None)) vs then Inl (ValueError, ''embeddings must contain only finite values'')
      else (let rows = map (map the) vs in
            if list_ex (\<lambda>v. vec_norm v \<le> 0) rows
            then Inl (ValueError, ''embeddings must not contain zero-length vectors'')
            else Inr (map unit_row rows)))"

text \<open>The clusterer that is composed by default; \<open>fit\<close> is the HDBSCAN package.\<close>

definition hdbscan_cluster :: "int \<Rightarrow> (real list list \<Rightarrow> assignments result) \<Rightarrow> real list list \<Rightarrow> assignments result" where
  "hdbscan_cluster min_cluster_size fit vectors =
     (if int (length vectors) < min_cluster_size
      then Inr \<lparr>as_labels = replicate (length vectors) (- 1), as_scores = replicate (length vectors) (Some 1)\<rparr>
      else rbind (fit vectors) (\<lambda>a.
        if length (as_labels a) \<noteq> length vectors \<or> length (as_scores a) \<noteq> length vectors
        then Inl (ValueError, ''HDBSCAN returned assignments with unexpected dimensions'') else Inr a))"

function chunks :: "nat \<Rightarrow> 'a list \<Rightarrow> 'a list list" where
  "chunks n xs = (if xs = [] \<or> n = 0 then [] else take n xs # chunks n (drop n xs))"
  by pat_completeness auto
termination
  by (relation "measure (\<lambda>(n, xs). length xs)") auto

declare chunks.simps [simp del]

text \<open>One row of the pairwise distances, from the squared norms and the scalar products.\<close>

definition distance_row :: "real list list \<Rightarrow> real list \<Rightarrow> real list" where
  "distance_row vs v = map (\<lambda>u. sqrt (max (dot v v + dot u u - 2 * dot v u) 0)) vs"

definition distance_sums :: "real list list \<Rightarrow> real list" where
  "distance_sums vs = concat (map (\<lambda>block. map (\<lambda>v. sum_list (distance_row vs v)) block) (chunks 256 vs))"

definition argmin :: "'k::linorder list \<Rightarrow> nat" where
  "argmin xs = length (takeWhile (\<lambda>x. x \<noteq> Min (set xs)) xs)"

definition select_medoid :: "real list list \<Rightarrow> nat result" where
  "select_medoid vs = (if vs = [] then Inl (ValueError, ''medoid selection requires at least one vector'')
     else Inr (argmin (distance_sums vs)))"

section \<open>Candidate seeds\<close>

definition is_eligible :: "time \<Rightarrow> time \<Rightarrow> int \<Rightarrow> interaction_record \<Rightarrow> bool" where
  "is_eligible ws we threshold r \<longleftrightarrow> ws \<le> ir_created r \<and> ir_created r \<le> we \<and>
     (ir_negative r \<or> (case ir_min_score r of None \<Rightarrow> False | Some m \<Rightarrow> m < threshold))"

record candidate_seed =
  sd_representative :: interaction_record
  sd_members :: "interaction_record list"
  sd_examples :: "str list"
  sd_label :: "int option"
  sd_noise :: bool
  sd_outlier :: "rat option"

definition finite_outlier :: "rat option \<Rightarrow> rat" where
  "finite_outlier x = (case x of None \<Rightarrow> 0 | Some v \<Rightarrow> v)"

text \<open>The loop that collects examples until \<open>m\<close> are found, \<open>seen\<close> being the normalised prompts so far.\<close>

fun pick_examples :: "miner_env \<Rightarrow> int \<Rightarrow> str list \<Rightarrow> interaction_record list \<Rightarrow> str list" where
  "pick_examples env m seen [] = []"
| "pick_examples env m seen (r # rs) =
     (let n = normalize_prompt env (ir_prompt r) in
      if n \<in> set seen then pick_examples env m seen rs
      else ir_prompt r # (if m \<le> 1 then [] else pick_examples env (m - 1) (n # seen) rs))"

definition nearest_distinct_examples ::
    "miner_env \<Rightarrow> nat \<Rightarrow> nat list \<Rightarrow> interaction_record list \<Rightarrow> real list list \<Rightarrow> int \<Rightarrow> str list" where
  "nearest_distinct_examples env rep members records vectors maximum =
     (if maximum \<le> 0 then []
      else pick_examples env maximum [normalize_prompt env (ir_prompt (records ! rep))]
        (map (\<lambda>i. records ! i) (sort_key (\<lambda>i. (vec_norm (vec_diff (vectors ! i) (vectors ! rep)),
           ir_created (records ! i), ir_trace (records ! i))) (filter (\<lambda>i. i \<noteq> rep) members))))"

definition labelled :: "assignments \<Rightarrow> int \<Rightarrow> nat list" where
  "labelled a l = filter (\<lambda>i. as_labels a ! i = l) [0..<length (as_labels a)]"

definition cluster_seed :: "miner_env \<Rightarrow> int \<Rightarrow> interaction_record list \<Rightarrow> real list list \<Rightarrow> assignments \<Rightarrow> int
    \<Rightarrow> candidate_seed result" where
  "cluster_seed env max_examples records vectors a l =
     (let members = labelled a l in
      rbind (select_medoid (map (\<lambda>i. vectors ! i) members)) (\<lambda>m. let rep = members ! m in
        Inr \<lparr>sd_representative = records ! rep, sd_members = map (\<lambda>i. records ! i) members,
             sd_examples = nearest_distinct_examples env rep members records vectors max_examples,
             sd_label = Some l, sd_noise = False, sd_outlier = Some (finite_outlier (as_scores a ! rep))\<rparr>))"

definition noise_seed :: "interaction_record list \<Rightarrow> assignments \<Rightarrow> nat \<Rightarrow> candidate_seed" where
  "noise_seed records a i = \<lparr>sd_representative = records ! i, sd_members = [records ! i], sd_examples = [],
     sd_label = None, sd_noise = True, sd_outlier = Some (finite_outlier (as_scores a ! i))\<rparr>"

definition ranked_noise :: "interaction_record list \<Rightarrow> assignments \<Rightarrow> nat list" where
  "ranked_noise records a = sort_key (\<lambda>i. (- finite_outlier (as_scores a ! i), ir_created (records ! i),
     ir_trace (records ! i))) (labelled a (- 1))"

definition cluster_labels :: "assignments \<Rightarrow> int list" where
  "cluster_labels a = sort (remdups (filter (\<lambda>l. 0 \<le> l) (as_labels a)))"

definition build_candidate_seeds :: "miner_env \<Rightarrow> interaction_record list \<Rightarrow> real list list \<Rightarrow> assignments \<Rightarrow> int \<Rightarrow> int
    \<Rightarrow> candidate_seed list result" where
  "build_candidate_seeds env records vectors a max_noise max_examples =
     (if length (as_labels a) \<noteq> length records \<or> length (as_scores a) \<noteq> length records
      then Inl (ValueError, ''cluster assignments must align with source records'')
      else rbind (traverse (cluster_seed env max_examples records vectors a) (cluster_labels a)) (\<lambda>seeds.
        Inr (seeds @ (if 0 < max_noise
                      then map (noise_seed records a) (take (nat max_noise) (ranked_noise records a)) else []))))"

section \<open>The world of a run\<close>

text \<open>What may happen while a worker waits for a call: a step of some other worker, of the clock or of the
  runtime; a beat of this run's heartbeat thread; or a beat whose renewal raises.\<close>

datatype event = Meanwhile miner_op | Beat | BeatFails

record mine_world =
  mw_db :: miner_db
  mw_lost :: bool
  mw_beat :: "(run_claim \<times> int) option"
  mw_sched :: "(event list \<times> exn option) list"
  mw_calls :: nat
  mw_counts :: run_counts

type_synonym 'a mining = "(mine_world, 'a) io"

text \<open>The heartbeat thread stops at the first renewal that fails, and then the run's lease counts as lost.\<close>

fun happen :: "event \<Rightarrow> mine_world \<Rightarrow> mine_world" where
  "happen (Meanwhile x) w = w\<lparr>mw_db := miner_step x (mw_db w)\<rparr>"
| "happen Beat w = (case mw_beat w of None \<Rightarrow> w
     | Some (c, ttl) \<Rightarrow> (case renew_claim c ttl (mw_db w) of
         (Inr True, db') \<Rightarrow> w\<lparr>mw_db := db'\<rparr>
       | (_, db') \<Rightarrow> w\<lparr>mw_db := db', mw_lost := True, mw_beat := None\<rparr>))"
| "happen BeatFails w = (case mw_beat w of None \<Rightarrow> w | Some _ \<Rightarrow> w\<lparr>mw_lost := True, mw_beat := None\<rparr>)"

definition settle :: "mine_world \<Rightarrow> exn option \<times> mine_world" where
  "settle w = (case mw_sched w of [] \<Rightarrow> (None, w)
     | (evs, fault) # rest \<Rightarrow> (fault, fold happen evs (w\<lparr>mw_sched := rest\<rparr>)))"

text \<open>A repository call, which fails without effect when the connection does.\<close>

definition on_db :: "'a query \<Rightarrow> 'a mining" where
  "on_db q w = (case settle w of (Some e, w1) \<Rightarrow> (Inl e, w1)
     | (None, w1) \<Rightarrow> (case q (mw_db w1) of (r, db') \<Rightarrow> (r, w1\<lparr>mw_db := db'\<rparr>)))"

text \<open>A provider call.\<close>

definition ask :: "(nat \<Rightarrow> 'a result) \<Rightarrow> 'a mining" where
  "ask f w = (case settle w of (_, w1) \<Rightarrow> (f (mw_calls w1), w1\<lparr>mw_calls := Suc (mw_calls w1)\<rparr>))"

definition bump :: "(run_counts \<Rightarrow> run_counts) \<Rightarrow> unit mining" where
  "bump f w = (Inr (), w\<lparr>mw_counts := f (mw_counts w)\<rparr>)"

definition start_heartbeat :: "miner_config \<Rightarrow> run_claim \<Rightarrow> unit mining" where
  "start_heartbeat cfg c w =
     (if mc_lease_ttl cfg < 1 \<or> mc_heartbeat cfg < 1
      then (Inl (ValueError, ''lease TTL and heartbeat interval must be positive''), w)
      else if mc_lease_ttl cfg \<le> mc_heartbeat cfg
      then (Inl (ValueError, ''heartbeat interval must be shorter than lease TTL''), w)
      else (Inr (), w\<lparr>mw_lost := False, mw_beat := Some (c, mc_lease_ttl cfg)\<rparr>))"

definition stop_heartbeat :: "unit mining" where
  "stop_heartbeat w = (Inr (), w\<lparr>mw_beat := None\<rparr>)"

definition ensure_active :: "run_claim \<Rightarrow> unit mining" where
  "ensure_active c w =
     (if mw_lost w then (Inl (claim_lost ''log-miner run lease heartbeat was lost''), w)
      else case on_db (claim_is_active c) w of
          (Inl e, w1) \<Rightarrow> (Inl e, w1\<lparr>mw_lost := True\<rparr>)
        | (Inr active, w1) \<Rightarrow>
            if active then (Inr (), w1)
            else (Inl (claim_lost ''log-miner run lease is no longer active''), w1\<lparr>mw_lost := True\<rparr>))"

section \<open>Embedding with the cache\<close>

fun canonical_prompts :: "miner_env \<Rightarrow> interaction_record list \<Rightarrow> str dict \<times> str list \<Rightarrow> (str dict \<times> str list) result" where
  "canonical_prompts env [] acc = Inr acc"
| "canonical_prompts env (r # rs) (table, fps) =
     (let canonical = normalize_prompt env (ir_prompt r);
          fp = prompt_fingerprint env canonical;
          table' = dict_setdefault fp canonical table
      in if the (map_of table' fp) \<noteq> canonical then Inl (ValueError, ''prompt fingerprint collision detected'')
         else canonical_prompts env rs (table', fps @ [fp]))"

text \<open>The vector of a fingerprint, if the cache holds exactly one well-formed row of this profile for it.\<close>

definition cached_vector :: "miner_config \<Rightarrow> cached_embedding list dict \<Rightarrow> str \<Rightarrow> real list option" where
  "cached_vector cfg rows fp = (case map_of rows fp of
     Some [e] \<Rightarrow>
       (if ce_fingerprint e \<noteq> fp \<or> ce_provider e \<noteq> mc_provider_name cfg \<or> ce_model e \<noteq> mc_model cfg
           \<or> ce_version e \<noteq> mc_input_version cfg \<or> int (length (ce_values e)) \<noteq> ce_dimensions e then None
        else case validate_embeddings [map Some (ce_values e)] (Some 1) of Inl _ \<Rightarrow> None | Inr m \<Rightarrow> Some (hd m))
   | _ \<Rightarrow> None)"

definition cached_vectors :: "miner_config \<Rightarrow> cached_embedding list dict \<Rightarrow> str list \<Rightarrow> real list dict" where
  "cached_vectors cfg rows fps =
     (let found = map (\<lambda>fp. (fp, the (cached_vector cfg rows fp))) (filter (\<lambda>fp. cached_vector cfg rows fp \<noteq> None) fps)
      in if 1 < card (length ` snd ` set found) then [] else found)"

definition embed_fingerprints :: "miner_env \<Rightarrow> run_claim \<Rightarrow> str dict \<Rightarrow> str list \<Rightarrow> real list dict mining" where
  "embed_fingerprints env c table fps =
     (if fps = [] then io_return []
      else io_then (ensure_active c)
        (io_bind (ask (\<lambda>n. me_embed env n (map (\<lambda>fp. the (map_of table fp)) fps))) (\<lambda>raw.
          io_then (ensure_active c)
            (io_bind (io_lift (validate_embeddings raw (Some (length fps)))) (\<lambda>m. io_return (zip fps m))))))"

text \<open>Fresh vectors of another width than the cached ones invalidate the cached profile.\<close>

definition widths_differ :: "real list dict \<Rightarrow> real list dict \<Rightarrow> bool" where
  "widths_differ cached fresh \<longleftrightarrow> cached \<noteq> [] \<and> fresh \<noteq> [] \<and>
     length ` snd ` set fresh \<noteq> length ` snd ` set cached"

definition embed_unique :: "miner_env \<Rightarrow> miner_config \<Rightarrow> run_claim \<Rightarrow> str dict \<Rightarrow> (real list dict \<times> str list) mining" where
  "embed_unique env cfg c table =
     (let unique = dict_keys table in
      io_then (ensure_active c)
        (io_bind (on_db (load_cached_embeddings unique (mc_provider_name cfg) (mc_model cfg) (mc_input_version cfg)))
          (\<lambda>rows. let cached = cached_vectors cfg rows unique;
                      missing = filter (\<lambda>fp. fp \<notin> set (dict_keys cached)) unique in
             io_bind (embed_fingerprints env c table missing) (\<lambda>fresh.
               if widths_differ cached fresh
               then io_bind (embed_fingerprints env c table (dict_keys cached)) (\<lambda>again.
                      io_return (dict_update again fresh, missing @ dict_keys cached))
               else io_return (dict_update cached fresh, missing)))))"

definition embed_records :: "miner_env \<Rightarrow> miner_config \<Rightarrow> run_claim \<Rightarrow> interaction_record list \<Rightarrow> real list list mining" where
  "embed_records env cfg c records =
     (if records = [] then io_return []
      else io_bind (io_lift (canonical_prompts env records ([], []))) (\<lambda>(table, fps).
        io_bind (embed_unique env cfg c table) (\<lambda>(vectors, embedded).
          io_then (if embedded = [] then io_return ()
                   else io_then (ensure_active c)
                     (on_db (store_cached_embeddings c (mc_provider_name cfg) (mc_model cfg) (mc_input_version cfg)
                        (map (\<lambda>fp. (fp, the (map_of vectors fp))) embedded))))
            (io_then (bump (\<lambda>k. k\<lparr>rk_embedded := int (length embedded)\<rparr>))
              (io_lift (validate_embeddings (map (\<lambda>fp. map Some (the (map_of vectors fp))) fps)
                 (Some (length records))))))))"

section \<open>Labelling and persistence\<close>

record member_merge =
  mg_fingerprint :: str
  mg_traces :: "str list"
  mg_label :: "int option"
  mg_noise :: bool
  mg_outlier :: "rat option"
  mg_examples :: int

definition feature_scopes :: "interaction_record list \<Rightarrow> str list" where
  "feature_scopes records = sort (remdups (map ir_scope records))"

definition feature_indices :: "interaction_record list \<Rightarrow> str \<Rightarrow> nat list" where
  "feature_indices records scope = filter (\<lambda>i. ir_scope (records ! i) = scope) [0..<length records]"

fun collect_seeds :: "miner_env \<Rightarrow> miner_config \<Rightarrow> run_claim \<Rightarrow> interaction_record list \<Rightarrow> real list list
    \<Rightarrow> str list \<Rightarrow> candidate_seed list mining" where
  "collect_seeds env cfg c records matrix [] = io_return []"
| "collect_seeds env cfg c records matrix (scope # scopes) =
     (let idx = feature_indices records scope; vectors = map (\<lambda>i. matrix ! i) idx in
      io_then (ensure_active c)
        (io_bind (io_lift (me_cluster env vectors)) (\<lambda>a.
          io_then (ensure_active c)
            (io_bind (io_lift (build_candidate_seeds env (map (\<lambda>i. records ! i) idx) vectors a
                        (mc_max_noise cfg) (mc_max_examples cfg))) (\<lambda>seeds.
              io_bind (collect_seeds env cfg c records matrix scopes) (\<lambda>rest. io_return (seeds @ rest)))))))"

definition seed_fingerprint :: "miner_env \<Rightarrow> miner_config \<Rightarrow> candidate_seed \<Rightarrow> str" where
  "seed_fingerprint env cfg s = source_fingerprint env (mc_version cfg) (ir_scope (sd_representative s))
     (ir_prompt (sd_representative s))"

definition merge_of :: "str \<Rightarrow> candidate_seed \<Rightarrow> member_merge" where
  "merge_of fp s = \<lparr>mg_fingerprint = fp, mg_traces = map ir_trace (sd_members s), mg_label = sd_label s,
     mg_noise = sd_noise s, mg_outlier = sd_outlier s, mg_examples = int (length (sd_examples s))\<rparr>"

definition valid_case :: "mined_candidate \<Rightarrow> bool" where
  "valid_case cd \<longleftrightarrow> length (cd_fingerprint cd) = 64 \<and> 1 \<le> length (cd_scope cd) \<and> length (cd_scope cd) \<le> 64 \<and>
     1 \<le> length (cd_input cd) \<and> 1 \<le> length (cd_representative cd) \<and> length (cd_representative cd) \<le> 64 \<and>
     cd_members cd \<noteq> [] \<and> 0 \<le> cd_confidence cd \<and> cd_confidence cd \<le> 1"

definition valid_expected :: "expected_output \<Rightarrow> bool" where
  "valid_expected x \<longleftrightarrow> eo_answer x \<noteq> [] \<and> eo_criteria x \<noteq> [] \<and> list_all (\<lambda>(d, _). d \<noteq> []) (eo_criteria x)
     \<and> eo_pattern x \<noteq> []"

definition seed_provenance :: "miner_config \<Rightarrow> nat \<Rightarrow> candidate_seed \<Rightarrow> pyval dict" where
  "seed_provenance cfg width s =
     [(''origin_source'', PStr ''production_miner''), (''fingerprint_version'', PStr (mc_version cfg)),
      (''source_prompt_fingerprint'', opt_val PStr (ir_fingerprint (sd_representative s))),
      (''member_count'', PInt (int (length (sd_members s)))),
      (''nearest_example_count'', PInt (int (length (sd_examples s)))),
      (''cluster_label'', opt_val PInt (sd_label s)), (''is_noise'', PBool (sd_noise s)),
      (''outlier_score'', opt_val PFloat (sd_outlier s)), (''embedding_provider'', PStr (mc_provider_name cfg)),
      (''embedding_model'', PStr (mc_model cfg)), (''embedding_dimensions'', PInt (int width)),
      (''embedding_input_version'', PStr (mc_input_version cfg)),
      (''reference_model'', opt_val PStr (mc_reference_model cfg))]"

definition candidate_of_seed :: "miner_config \<Rightarrow> nat \<Rightarrow> str \<Rightarrow> candidate_seed \<Rightarrow> reference_answer \<Rightarrow> mined_candidate result" where
  "candidate_of_seed cfg width fp s g =
     (let cd = \<lparr>cd_fingerprint = fp, cd_scope = ir_scope (sd_representative s), cd_input = ir_prompt (sd_representative s),
            cd_representative = ir_trace (sd_representative s), cd_members = map ir_trace (sd_members s),
            cd_label = sd_label s, cd_noise = sd_noise s, cd_outlier = sd_outlier s, cd_expected = ra_expected g,
            cd_difficulty = ra_difficulty g, cd_confidence = ra_confidence g,
            cd_status = (if mc_promotion cfg \<le> ra_confidence g then Promoted else PendingReview),
            cd_provenance = seed_provenance cfg width s\<rparr>
      in if valid_case cd \<and> valid_expected (ra_expected g) then Inr cd
         else Inl (ValidationError, ''validation error for Candidate''))"

text \<open>A failed generation is counted and skipped; a lost lease ends the run.\<close>

definition generate_reference :: "miner_env \<Rightarrow> run_claim \<Rightarrow> candidate_seed \<Rightarrow> reference_answer option mining" where
  "generate_reference env c s =
     io_catch
       (io_then (ensure_active c)
         (io_bind (ask (\<lambda>n. me_generate env n (ir_scope (sd_representative s)) (ir_prompt (sd_representative s))
                      (sd_examples s))) (\<lambda>g.
           io_then (ensure_active c) (io_return (Some g)))))
       (\<lambda>e. if fst e = OtherException ''RunClaimLostError'' then io_raise e
            else io_then (bump (\<lambda>k. k\<lparr>rk_error := rk_error k + 1\<rparr>)) (io_return None))"

fun label_seeds :: "miner_env \<Rightarrow> miner_config \<Rightarrow> run_claim \<Rightarrow> nat \<Rightarrow> candidate_seed list
    \<Rightarrow> (mined_candidate list \<times> member_merge list) mining" where
  "label_seeds env cfg c width [] = io_return ([], [])"
| "label_seeds env cfg c width (s # ss) =
     (let fp = seed_fingerprint env cfg s in
      io_bind (on_db (source_fingerprint_exists fp)) (\<lambda>known.
        if known
        then io_then (bump (\<lambda>k. k\<lparr>rk_duplicate := rk_duplicate k + 1\<rparr>))
               (io_bind (label_seeds env cfg c width ss) (\<lambda>(cds, mgs). io_return (cds, merge_of fp s # mgs)))
        else io_bind (generate_reference env c s) (\<lambda>g. case g of
               None \<Rightarrow> label_seeds env cfg c width ss
             | Some x \<Rightarrow> io_bind (io_lift (candidate_of_seed cfg width fp s x)) (\<lambda>cd.
                 io_bind (label_seeds env cfg c width ss) (\<lambda>(cds, mgs). io_return (cd # cds, mgs))))))"

definition build_candidates :: "miner_env \<Rightarrow> miner_config \<Rightarrow> run_claim \<Rightarrow> interaction_record list \<Rightarrow> real list list
    \<Rightarrow> (mined_candidate list \<times> member_merge list) mining" where
  "build_candidates env cfg c records matrix =
     (if records = [] then io_return ([], [])
      else if length matrix \<noteq> length records
      then io_raise (ValueError, ''embedding matrix must align with source records'')
      else io_bind (collect_seeds env cfg c records matrix (feature_scopes records))
             (label_seeds env cfg c (length (hd matrix))))"

fun persist_merges :: "run_claim \<Rightarrow> member_merge list \<Rightarrow> unit mining" where
  "persist_merges c [] = io_return ()"
| "persist_merges c (g # gs) = io_then (ensure_active c)
     (io_bind (on_db (merge_candidate_members c (mg_fingerprint g) (mg_traces g) (mg_label g) (mg_noise g)
        (mg_outlier g) (mg_examples g))) (\<lambda>_. persist_merges c gs))"

definition count_persisted :: "mined_candidate \<Rightarrow> bool \<Rightarrow> run_counts \<Rightarrow> run_counts" where
  "count_persisted cd created k =
     (if \<not> created then k\<lparr>rk_duplicate := rk_duplicate k + 1\<rparr>
      else if cd_status cd = Promoted then k\<lparr>rk_candidate := rk_candidate k + 1, rk_promoted := rk_promoted k + 1\<rparr>
      else k\<lparr>rk_candidate := rk_candidate k + 1, rk_pending := rk_pending k + 1\<rparr>)"

fun persist_candidates :: "run_claim \<Rightarrow> mined_candidate list \<Rightarrow> unit mining" where
  "persist_candidates c [] = io_return ()"
| "persist_candidates c (cd # cds) = io_then (ensure_active c)
     (io_bind (on_db (persist_candidate c cd)) (\<lambda>x.
       io_then (bump (count_persisted cd (pr_created x))) (persist_candidates c cds)))"

definition persist_prepared :: "run_claim \<Rightarrow> mined_candidate list \<Rightarrow> member_merge list \<Rightarrow> unit mining" where
  "persist_prepared c prepared merges = io_then (persist_merges c merges) (persist_candidates c prepared)"

section \<open>One run\<close>

definition days :: "int \<Rightarrow> time" where
  "days n = 86400 * n"

definition safe_error_message :: "miner_env \<Rightarrow> exn \<Rightarrow> str" where
  "safe_error_message env e = exn_type_name (fst e) @
     (case me_status env e of None \<Rightarrow> [] | Some n \<Rightarrow> '' (status '' @ int_text n @ '')'')"

definition run_report :: "uuid option \<Rightarrow> run_status \<Rightarrow> time \<Rightarrow> time \<Rightarrow> str option \<Rightarrow> run_counts \<Rightarrow> run_summary" where
  "run_report run st ws we msg k = \<lparr>sm_run = run, sm_status = st, sm_start = ws, sm_end = we, sm_counts = k, sm_message = msg\<rparr>"

definition fail_pipeline :: "miner_env \<Rightarrow> run_claim option \<Rightarrow> time \<Rightarrow> time \<Rightarrow> exn \<Rightarrow> run_summary mining" where
  "fail_pipeline env claim ws we e =
     io_then (bump (\<lambda>k. k\<lparr>rk_error := rk_error k + 1\<rparr>)) (\<lambda>w.
       let s = run_report (map_option rc_run claim) RunFailed ws we (Some (safe_error_message env e)) (mw_counts w)
       in case claim of None \<Rightarrow> (Inr s, w)
          | Some c \<Rightarrow> io_then (io_catch (io_bind (on_db (fail_run c s)) (\<lambda>_. io_return ())) (\<lambda>_. io_return ()))
                        (io_return s) w)"

definition finish_run :: "miner_config \<Rightarrow> run_claim \<Rightarrow> time \<Rightarrow> time \<Rightarrow> run_summary mining" where
  "finish_run cfg c ws we w =
     (let s = run_report (Some (rc_run c)) RunCompleted ws we None (mw_counts w)
      in io_bind (on_db (finalize_run c s (we - days (mc_retention_days cfg))))
           (\<lambda>n. io_return (with_purged s n)) w)"

definition mine_records :: "miner_env \<Rightarrow> miner_config \<Rightarrow> run_claim \<Rightarrow> time \<Rightarrow> time \<Rightarrow> run_summary mining" where
  "mine_records env cfg c ws we =
     io_then (ensure_active c)
       (io_bind (on_db (fetch_eligible ws we (mc_score_threshold cfg))) (\<lambda>rows.
         let records = sort_key (\<lambda>r. (ir_created r, ir_trace r))
               (filter (is_eligible ws we (mc_score_threshold cfg)) rows) in
         io_then (bump (\<lambda>k. k\<lparr>rk_eligible := int (length records)\<rparr>))
           (io_bind (embed_records env cfg c records) (\<lambda>matrix.
             io_bind (build_candidates env cfg c records matrix) (\<lambda>(prepared, merges).
               io_then (persist_prepared c prepared merges)
                 (io_then stop_heartbeat (io_then (ensure_active c) (finish_run cfg c ws we))))))))"

definition fresh_run :: "unit mining" where
  "fresh_run w = (Inr (), w\<lparr>mw_counts := empty_counts, mw_lost := False, mw_beat := None\<rparr>)"

definition run_claimed :: "miner_env \<Rightarrow> miner_config \<Rightarrow> run_claim \<Rightarrow> time \<Rightarrow> time \<Rightarrow> run_summary mining" where
  "run_claimed env cfg c ws we =
     io_bind (io_catch (io_then (start_heartbeat cfg c) (mine_records env cfg c ws we))
        (\<lambda>e. io_then stop_heartbeat (fail_pipeline env (Some c) ws we e)))
       (\<lambda>s. io_then stop_heartbeat (io_return s))"

definition skip_reason :: str where
  "skip_reason = ''another log-miner run owns the durable lease''"

definition run_pipeline :: "miner_env \<Rightarrow> miner_config \<Rightarrow> time \<Rightarrow> time \<Rightarrow> run_summary mining" where
  "run_pipeline env cfg ws we = io_then fresh_run (\<lambda>w.
     case on_db (claim_run (mc_lease_name cfg) (mc_lease_ttl cfg) ws we (configuration cfg)) w of
       (Inl e, w1) \<Rightarrow> fail_pipeline env None ws we e w1
     | (Inr None, w1) \<Rightarrow> io_catch
         (io_bind (on_db (record_skipped_run ws we (configuration cfg) skip_reason))
           (\<lambda>run. io_return (run_report (Some run) RunSkipped ws we (Some skip_reason) empty_counts)))
         (fail_pipeline env None ws we) w1
     | (Inr (Some c), w1) \<Rightarrow> run_claimed env cfg c ws we w1)"

definition run_once :: "miner_env \<Rightarrow> miner_config \<Rightarrow> run_summary mining" where
  "run_once env cfg =
     (let we = me_now env; ws = we - days (mc_window_days cfg) in
      io_catch (run_pipeline env cfg ws we)
        (\<lambda>e. io_return (run_report None RunFailed ws we (Some (safe_error_message env e)) (empty_counts\<lparr>rk_error := 1\<rparr>))))"

text \<open>The exit status of the \<open>run\<close> command.\<close>

definition run_command :: "miner_env \<Rightarrow> miner_config \<Rightarrow> int mining" where
  "run_command env cfg = io_bind (run_once env cfg)
     (\<lambda>s. io_return (if sm_status s = RunFailed then 1 else 0))"

section \<open>Every effect of a run\<close>

text \<open>The counts of a run add up.\<close>

definition balanced :: "run_counts \<Rightarrow> bool" where
  "balanced k \<longleftrightarrow> rk_candidate k = rk_promoted k + rk_pending k \<and> 0 \<le> rk_eligible k \<and> 0 \<le> rk_embedded k \<and>
     0 \<le> rk_promoted k \<and> 0 \<le> rk_pending k \<and> 0 \<le> rk_duplicate k \<and> 0 \<le> rk_error k"

text \<open>The steps that a run is made of: what the schedule does, one repository operation of the run itself, a
  provider call, a change of the heartbeat, and a count.\<close>

inductive effect :: "mine_world \<Rightarrow> mine_world \<Rightarrow> bool" where
  elapse: "mw_sched w = (evs, f) # rest \<Longrightarrow> effect w (fold happen evs (w\<lparr>mw_sched := rest\<rparr>))"
| own: "closes_properly x \<Longrightarrow> effect w (w\<lparr>mw_db := miner_step x (mw_db w)\<rparr>)"
| call: "effect w (w\<lparr>mw_calls := n\<rparr>)"
| lease: "effect w (w\<lparr>mw_lost := b\<rparr>)"
| beat: "effect w (w\<lparr>mw_beat := h\<rparr>)"
| tally: "(balanced (mw_counts w) \<Longrightarrow> balanced k) \<Longrightarrow> effect w (w\<lparr>mw_counts := k\<rparr>)"

definition effectful :: "'a mining \<Rightarrow> bool" where
  "effectful m \<longleftrightarrow> (\<forall>w. effect\<^sup>*\<^sup>* w (snd (m w)))"

named_theorems effectful_intros \<open>calls whose effects are steps of a run\<close>

lemma effectfulI: "(\<And>w. effect\<^sup>*\<^sup>* w (snd (m w))) \<Longrightarrow> effectful m"
  by (simp add: effectful_def)

lemma effectfulD: "effectful m \<Longrightarrow> m w = (r, w') \<Longrightarrow> effect\<^sup>*\<^sup>* w w'"
  unfolding effectful_def by (metis snd_conv)

lemma effectful_pure [effectful_intros]:
  "effectful (io_return x)" "effectful (io_raise e)" "effectful (io_lift r)"
  by (simp_all add: effectful_def)

lemma effectful_bind [effectful_intros]:
  assumes "effectful m" "\<And>x. effectful (f x)"
  shows "effectful (io_bind m f)"
proof (rule effectfulI)
  fix w
  obtain r w1 where m: "m w = (r, w1)" by fastforce
  show "effect\<^sup>*\<^sup>* w (snd (io_bind m f w))"
  proof (cases r)
    case (Inr x)
    have "effect\<^sup>*\<^sup>* w1 (snd (f x w1))" using assms(2) by (simp add: effectful_def)
    with effectfulD [OF assms(1) m] m Inr show ?thesis by (simp add: io_bind_def)
  qed (use effectfulD [OF assms(1) m] m in \<open>simp add: io_bind_def\<close>)
qed

lemma effectful_catch [effectful_intros]:
  assumes "effectful m" "\<And>e. effectful (h e)"
  shows "effectful (io_catch m h)"
proof (rule effectfulI)
  fix w
  obtain r w1 where m: "m w = (r, w1)" by fastforce
  show "effect\<^sup>*\<^sup>* w (snd (io_catch m h w))"
  proof (cases r)
    case (Inl e)
    have "effect\<^sup>*\<^sup>* w1 (snd (h e w1))" using assms(2) by (simp add: effectful_def)
    with effectfulD [OF assms(1) m] m Inl show ?thesis by (simp add: io_catch_def)
  qed (use effectfulD [OF assms(1) m] m in \<open>simp add: io_catch_def\<close>)
qed

lemma effectful_cases [effectful_intros]:
  "(b \<Longrightarrow> effectful m) \<Longrightarrow> (\<not> b \<Longrightarrow> effectful m') \<Longrightarrow> effectful (if b then m else m')"
  "effectful m \<Longrightarrow> (\<And>x. effectful (f x)) \<Longrightarrow> effectful (case z of None \<Rightarrow> m | Some x \<Rightarrow> f x)"
  "(\<And>x y. effectful (g x y)) \<Longrightarrow> effectful (case p of (x, y) \<Rightarrow> g x y)"
  by (auto split: option.split prod.split)

lemma settle_effects: "settle w = (f, w1) \<Longrightarrow> effect\<^sup>*\<^sup>* w w1"
  by (auto simp: settle_def split: list.splits intro: effect.elapse)

lemma effectful_on_db:
  assumes "\<And>db. snd (q db) = db \<or> (\<exists>x. closes_properly x \<and> snd (q db) = miner_step x db)"
  shows "effectful (on_db q)"
proof (rule effectfulI)
  fix w
  obtain f w1 where s: "settle w = (f, w1)" by fastforce
  show "effect\<^sup>*\<^sup>* w (snd (on_db q w))"
  proof (cases f)
    case None
    obtain r db' where q: "q (mw_db w1) = (r, db')" by fastforce
    have "effect\<^sup>*\<^sup>* w1 (w1\<lparr>mw_db := db'\<rparr>)"
      using assms [of "mw_db w1"] q by (auto intro: effect.own)
    with settle_effects [OF s] s q None show ?thesis by (simp add: on_db_def)
  qed (use settle_effects [OF s] s in \<open>simp add: on_db_def\<close>)
qed

lemma effectful_read: "(\<And>db. snd (q db) = db) \<Longrightarrow> effectful (on_db q)"
  by (rule effectful_on_db) simp

lemma effectful_step: "closes_properly x \<Longrightarrow> (\<And>db. snd (q db) = miner_step x db) \<Longrightarrow> effectful (on_db q)"
  by (rule effectful_on_db) blast

lemma effectful_reads [effectful_intros]:
  "effectful (on_db (claim_is_active c))"
  "effectful (on_db (fetch_eligible ws we t))"
  "effectful (on_db (load_cached_embeddings fps p m v))"
  "effectful (on_db (source_fingerprint_exists fp))"
  by (rule effectful_read, simp add: claim_is_active_def fetch_eligible_def load_cached_embeddings_def
      source_fingerprint_exists_def)+

lemma effectful_writes [effectful_intros]:
  "effectful (on_db (claim_run name ttl ws we cfg))"
  "effectful (on_db (record_skipped_run ws we cfg reason))"
  "effectful (on_db (store_cached_embeddings c p m v es))"
  "effectful (on_db (merge_candidate_members c fp tids l n q k))"
  "effectful (on_db (persist_candidate c cd))"
  subgoal by (rule effectful_step [of "ClaimOp name ttl ws we cfg"]; simp)
  subgoal by (rule effectful_step [of "SkipOp ws we cfg reason"]; simp)
  subgoal by (rule effectful_step [of "StoreOp c p m v es"]; simp)
  subgoal by (rule effectful_step [of "MergeOp c fp tids l n q k"]; simp)
  subgoal by (rule effectful_step [of "PersistOp c cd"]; simp)
  done

lemma effectful_closing:
  "sm_status s \<noteq> RunRunning \<Longrightarrow> effectful (on_db (finalize_run c s cutoff))"
  "sm_status s \<noteq> RunRunning \<Longrightarrow> effectful (on_db (fail_run c s))"
  subgoal by (rule effectful_step [of "FinalizeOp c s cutoff"]; simp)
  subgoal by (rule effectful_step [of "FailOp c s"]; simp)
  done

lemma effectful_ask [effectful_intros]: "effectful (ask f)"
proof (rule effectfulI)
  fix w
  obtain e w1 where s: "settle w = (e, w1)" by fastforce
  have "effect\<^sup>*\<^sup>* w1 (w1\<lparr>mw_calls := Suc (mw_calls w1)\<rparr>)" by (blast intro: effect.call)
  with settle_effects [OF s] s show "effect\<^sup>*\<^sup>* w (snd (ask f w))" by (simp add: ask_def)
qed

lemma effectful_bump: "(\<And>k. balanced k \<Longrightarrow> balanced (f k)) \<Longrightarrow> effectful (bump f)"
  by (auto simp: effectful_def bump_def intro: effect.tally)

lemma effectful_counts [effectful_intros]:
  "effectful (bump (\<lambda>k. k\<lparr>rk_embedded := int n\<rparr>))"
  "effectful (bump (\<lambda>k. k\<lparr>rk_eligible := int n\<rparr>))"
  "effectful (bump (\<lambda>k. k\<lparr>rk_error := rk_error k + 1\<rparr>))"
  "effectful (bump (\<lambda>k. k\<lparr>rk_duplicate := rk_duplicate k + 1\<rparr>))"
  "effectful (bump (count_persisted cd b))"
  by (rule effectful_bump, simp add: balanced_def count_persisted_def)+

lemma effectful_heartbeat [effectful_intros]:
  "effectful stop_heartbeat" "effectful fresh_run" "effectful (start_heartbeat cfg c)"
proof -
  show "effectful stop_heartbeat" by (auto simp: effectful_def stop_heartbeat_def intro: effect.beat)
  have start: "effect\<^sup>*\<^sup>* w (w\<lparr>mw_lost := b, mw_beat := h\<rparr>)" for w b h
    using effect.lease [of w b] effect.beat [of "w\<lparr>mw_lost := b\<rparr>" h] by (simp add: converse_rtranclp_into_rtranclp)
  show "effectful (start_heartbeat cfg c)" by (auto simp: effectful_def start_heartbeat_def intro: start)
  have zero: "effect\<^sup>*\<^sup>* w (w\<lparr>mw_counts := empty_counts\<rparr>)" for w
    by (rule r_into_rtranclp, rule effect.tally) (simp add: balanced_def empty_counts_def)
  show "effectful fresh_run"
  proof (rule effectfulI)
    fix w
    have "effect\<^sup>*\<^sup>* (w\<lparr>mw_counts := empty_counts\<rparr>) (w\<lparr>mw_counts := empty_counts, mw_lost := False, mw_beat := None\<rparr>)"
      by (rule start)
    with zero [of w] show "effect\<^sup>*\<^sup>* w (snd (fresh_run w))" by (simp add: fresh_run_def)
  qed
qed

lemma effectful_active [effectful_intros]: "effectful (ensure_active c)"
proof (rule effectfulI)
  fix w
  obtain r w1 where a: "on_db (claim_is_active c) w = (r, w1)" by fastforce
  have "effect\<^sup>*\<^sup>* w w1" by (rule effectfulD [OF effectful_reads(1) a])
  then show "effect\<^sup>*\<^sup>* w (snd (ensure_active c w))"
    using a by (auto simp: ensure_active_def split: sum.splits intro: rtranclp.rtrancl_into_rtrancl effect.lease)
qed

lemma effectful_stages [effectful_intros]:
  "effectful (embed_fingerprints env c table fps)"
  "effectful (embed_unique env cfg c table)"
  "effectful (embed_records env cfg c records)"
  "effectful (collect_seeds env cfg c records matrix scopes)"
  "effectful (generate_reference env c s)"
  "effectful (label_seeds env cfg c width seeds)"
  "effectful (build_candidates env cfg c records matrix)"
  "effectful (persist_prepared c prepared merges)"
proof -
  show fps: "effectful (embed_fingerprints env c table fps)" for table fps
    unfolding embed_fingerprints_def by (intro effectful_intros)
  show u: "effectful (embed_unique env cfg c table)" for table
    unfolding embed_unique_def Let_def by (intro effectful_intros fps)
  show "effectful (embed_records env cfg c records)"
    unfolding embed_records_def by (intro effectful_intros u)
  show seeds: "effectful (collect_seeds env cfg c records matrix scopes)" for scopes
    by (induction scopes) (auto simp only: collect_seeds.simps Let_def intro!: effectful_intros)
  show gen: "effectful (generate_reference env c s)" for s
    unfolding generate_reference_def by (intro effectful_intros)
  show lab: "effectful (label_seeds env cfg c width seeds)" for width seeds
  proof (induction seeds)
    case (Cons s ss)
    show ?case unfolding label_seeds.simps Let_def by (intro effectful_intros gen Cons.IH)
  qed (simp only: label_seeds.simps effectful_pure)
  show "effectful (build_candidates env cfg c records matrix)"
    unfolding build_candidates_def by (intro effectful_intros seeds lab)
  have merges: "effectful (persist_merges c gs)" for gs
    by (induction gs) (auto simp only: persist_merges.simps intro!: effectful_intros)
  have cases: "effectful (persist_candidates c cds)" for cds
    by (induction cds) (auto simp only: persist_candidates.simps intro!: effectful_intros)
  show "effectful (persist_prepared c prepared merges)"
    unfolding persist_prepared_def by (intro effectful_intros merges cases)
qed

lemma effectful_finish [effectful_intros]: "effectful (finish_run cfg c ws we)"
proof (rule effectfulI)
  fix w :: mine_world
  define s where "s = run_report (Some (rc_run c)) RunCompleted ws we None (mw_counts w)"
  have "effectful (io_bind (on_db (finalize_run c s (we - days (mc_retention_days cfg)))) (\<lambda>n. io_return (with_purged s n)))"
    by (intro effectful_intros effectful_closing) (simp add: s_def run_report_def)
  then show "effect\<^sup>*\<^sup>* w (snd (finish_run cfg c ws we w))"
    by (simp add: finish_run_def Let_def effectful_def s_def)
qed

lemma effectful_fail [effectful_intros]: "effectful (fail_pipeline env claim ws we e)"
  unfolding fail_pipeline_def
proof (intro effectful_bind effectful_counts effectfulI)
  fix w :: mine_world
  define s where "s = run_report (map_option rc_run claim) RunFailed ws we (Some (safe_error_message env e)) (mw_counts w)"
  have "effectful (io_then (io_catch (io_bind (on_db (fail_run c s)) (\<lambda>_. io_return ())) (\<lambda>_. io_return ())) (io_return s))" for c
    by (intro effectful_intros effectful_closing) (simp add: s_def run_report_def)
  then have "effect\<^sup>*\<^sup>* w (snd (io_then (io_catch (io_bind (on_db (fail_run c s)) (\<lambda>_. io_return ())) (\<lambda>_. io_return ())) (io_return s) w))" for c
    by (simp only: effectful_def)
  then show "effect\<^sup>*\<^sup>* w (snd (let s = run_report (map_option rc_run claim) RunFailed ws we
        (Some (safe_error_message env e)) (mw_counts w)
      in case claim of None \<Rightarrow> (Inr s, w)
         | Some c \<Rightarrow> io_then (io_catch (io_bind (on_db (fail_run c s)) (\<lambda>_. io_return ())) (\<lambda>_. io_return ())) (io_return s) w))"
    unfolding Let_def s_def [symmetric] by (cases claim) simp_all
qed

lemma effectful_mine: "effectful (mine_records env cfg c ws we)"
  unfolding mine_records_def Let_def by (intro effectful_intros)

lemma effectful_run [effectful_intros]: "effectful (run_once env cfg)"
proof -
  have claimed: "effectful (run_claimed env cfg c ws we)" for c ws we
    unfolding run_claimed_def by (intro effectful_intros effectful_mine)
  have "effectful (run_pipeline env cfg ws we)" for ws we
    unfolding run_pipeline_def
  proof (intro effectful_bind effectful_heartbeat effectfulI)
    fix w :: mine_world
    let ?claim = "on_db (claim_run (mc_lease_name cfg) (mc_lease_ttl cfg) ws we (configuration cfg))"
    obtain r w1 where r: "?claim w = (r, w1)" by fastforce
    let ?skip = "io_catch (io_bind (on_db (record_skipped_run ws we (configuration cfg) skip_reason))
        (\<lambda>run. io_return (run_report (Some run) RunSkipped ws we (Some skip_reason) empty_counts)))
      (fail_pipeline env None ws we)"
    let ?rest = "case r of Inl e \<Rightarrow> fail_pipeline env None ws we e | Inr None \<Rightarrow> ?skip | Inr (Some c) \<Rightarrow> run_claimed env cfg c ws we"
    have "effectful ?rest" by (auto split: sum.split option.split intro: effectful_intros claimed)
    then have "effect\<^sup>*\<^sup>* w1 (snd (?rest w1))" by (simp only: effectful_def)
    moreover have "effect\<^sup>*\<^sup>* w w1" by (rule effectfulD [OF effectful_writes(1) r])
    ultimately have "effect\<^sup>*\<^sup>* w (snd (?rest w1))" by simp
    then show "effect\<^sup>*\<^sup>* w (snd (case ?claim w of (Inl e, w1) \<Rightarrow> fail_pipeline env None ws we e w1
        | (Inr None, w1) \<Rightarrow> ?skip w1 | (Inr (Some c), w1) \<Rightarrow> run_claimed env cfg c ws we w1))"
      unfolding r by (cases r) (auto split: option.splits)
  qed
  then show ?thesis unfolding run_once_def Let_def by (intro effectful_intros)
qed

section \<open>A run is a sequence of repository operations\<close>

text \<open>Other workers too close their runs with a final status.\<close>

definition good_sched :: "mine_world \<Rightarrow> bool" where
  "good_sched w \<longleftrightarrow> (\<forall>(evs, f) \<in> set (mw_sched w). \<forall>x. Meanwhile x \<in> set evs \<longrightarrow> closes_properly x)"

definition simulated :: "miner_db \<Rightarrow> miner_db \<Rightarrow> bool" where
  "simulated db db' \<longleftrightarrow> (\<exists>ops. list_all closes_properly ops \<and> db' = fold miner_step ops db)"

lemma simulated_refl [simp]: "simulated db db"
  unfolding simulated_def by (rule exI [of _ "[]"]) simp

lemma simulated_step: "closes_properly x \<Longrightarrow> simulated db (miner_step x db)"
  unfolding simulated_def by (rule exI [of _ "[x]"]) simp

lemma simulated_trans: "simulated a b \<Longrightarrow> simulated b c \<Longrightarrow> simulated a c"
  unfolding simulated_def by (metis fold_append comp_apply list_all_append)

lemma happen_simulated:
  assumes "\<And>x. e = Meanwhile x \<Longrightarrow> closes_properly x"
  shows "simulated (mw_db w) (mw_db (happen e w)) \<and> mw_sched (happen e w) = mw_sched w
    \<and> mw_counts (happen e w) = mw_counts w"
proof (cases e)
  case Beat
  show ?thesis
  proof (cases "mw_beat w")
    case (Some h)
    obtain c ttl where h: "h = (c, ttl)" by fastforce
    obtain r db' where r: "renew_claim c ttl (mw_db w) = (r, db')" by fastforce
    then have "simulated (mw_db w) db'" using simulated_step [of "RenewOp c ttl" "mw_db w"] by simp
    with Some h r Beat show ?thesis by (auto split: sum.split bool.split)
  qed (simp add: Beat)
qed (use assms in \<open>auto intro: simulated_step split: option.split\<close>)

lemma happen_all:
  assumes "\<And>x. Meanwhile x \<in> set evs \<Longrightarrow> closes_properly x"
  shows "simulated (mw_db w) (mw_db (fold happen evs w)) \<and> mw_sched (fold happen evs w) = mw_sched w
    \<and> mw_counts (fold happen evs w) = mw_counts w"
  using assms
proof (induction evs arbitrary: w)
  case (Cons e evs)
  have "simulated (mw_db w) (mw_db (happen e w))" "mw_sched (happen e w) = mw_sched w"
    "mw_counts (happen e w) = mw_counts w"
    using happen_simulated [of e w] Cons.prems by auto
  moreover note Cons.IH [of "happen e w"]
  ultimately show ?case using Cons.prems by (auto intro: simulated_trans)
qed simp

lemma effect_simulated:
  "effect w w' \<Longrightarrow> good_sched w \<Longrightarrow>
     good_sched w' \<and> simulated (mw_db w) (mw_db w') \<and> (balanced (mw_counts w) \<longrightarrow> balanced (mw_counts w'))"
proof (induction rule: effect.induct)
  case (elapse w evs f rest)
  have "simulated (mw_db w) (mw_db (fold happen evs (w\<lparr>mw_sched := rest\<rparr>)))
      \<and> mw_sched (fold happen evs (w\<lparr>mw_sched := rest\<rparr>)) = rest
      \<and> mw_counts (fold happen evs (w\<lparr>mw_sched := rest\<rparr>)) = mw_counts w"
    using happen_all [of evs "w\<lparr>mw_sched := rest\<rparr>"] elapse by (auto simp: good_sched_def)
  then show ?case using elapse by (simp add: good_sched_def)
qed (simp_all add: good_sched_def simulated_step)

lemma effects_simulated:
  assumes "effect\<^sup>*\<^sup>* w w'" "good_sched w"
  shows "good_sched w' \<and> simulated (mw_db w) (mw_db w') \<and> (balanced (mw_counts w) \<longrightarrow> balanced (mw_counts w'))"
  using assms
proof (induction rule: rtranclp_induct)
  case (step y z)
  with effect_simulated [OF step.hyps(2)] show ?case by (auto intro: simulated_trans)
qed simp

text \<open>The invariants of the repository hold along every run.\<close>

definition consistent :: "miner_db \<Rightarrow> bool" where
  "consistent db \<longleftrightarrow> audit_ok db \<and> cases_ok db"

lemma audit_ok_distinct: "audit_ok db \<Longrightarrow> leases_distinct db"
  by (simp add: audit_ok_def)

lemma consistent_simulated: "consistent db \<Longrightarrow> simulated db db' \<Longrightarrow> consistent db'"
  by (auto simp: consistent_def simulated_def intro: run_audit run_cases_ok audit_ok_distinct)

lemma effects_consistent:
  "effect\<^sup>*\<^sup>* w w' \<Longrightarrow> good_sched w \<Longrightarrow> consistent (mw_db w) \<Longrightarrow> consistent (mw_db w') \<and> good_sched w'"
  using effects_simulated consistent_simulated by blast

text \<open>C21. Whatever other workers, the clock, the heartbeat and failing connections do in between, the
  effect of a run on the database is that of a sequence of repository operations each of which closes audit
  rows properly, so the audit rows and the mined cases stay consistent.\<close>
theorem run_is_repository_ops:
  assumes "good_sched w" "consistent (mw_db w)"
  shows "(\<exists>ops. list_all closes_properly ops \<and> mw_db (snd (run_once env cfg w)) = fold miner_step ops (mw_db w))
    \<and> audit_ok (mw_db (snd (run_once env cfg w))) \<and> cases_ok (mw_db (snd (run_once env cfg w)))"
proof -
  have e: "effect\<^sup>*\<^sup>* w (snd (run_once env cfg w))" using effectful_run by (simp add: effectful_def)
  from effects_simulated [OF e assms(1)] effects_consistent [OF e assms] show ?thesis
    by (simp add: simulated_def consistent_def)
qed

section \<open>The outcome of a run\<close>

text \<open>A run of \<open>m\<close> that returns ends with a run of \<open>t\<close>.\<close>

definition ends_with :: "'a mining \<Rightarrow> 'a mining \<Rightarrow> bool" where
  "ends_with m t \<longleftrightarrow> (\<forall>w s w'. m w = (Inr s, w') \<longrightarrow> (\<exists>w1. effect\<^sup>*\<^sup>* w w1 \<and> t w1 = (Inr s, w')))"

lemma ends_with_refl: "ends_with t t"
  unfolding ends_with_def by blast

lemma ends_with_bind:
  assumes "effectful m" "\<And>x. ends_with (f x) t"
  shows "ends_with (io_bind m f) t"
  unfolding ends_with_def
proof (intro allI impI)
  fix w s w' assume "io_bind m f w = (Inr s, w')"
  then obtain x w1 where m: "m w = (Inr x, w1)" "f x w1 = (Inr s, w')" by (auto simp: io_bind_eq_Inr)
  from assms(2) m(2) obtain w2 where "effect\<^sup>*\<^sup>* w1 w2" "t w2 = (Inr s, w')" unfolding ends_with_def by blast
  with effectfulD [OF assms(1) m(1)] show "\<exists>w1. effect\<^sup>*\<^sup>* w w1 \<and> t w1 = (Inr s, w')"
    by (meson rtranclp_trans)
qed

lemma ends_with_pair: "(\<And>x y. ends_with (g x y) t) \<Longrightarrow> ends_with (case p of (x, y) \<Rightarrow> g x y) t"
  by (cases p) simp

lemma mine_records_finish: "ends_with (mine_records env cfg c ws we) (finish_run cfg c ws we)"
  unfolding mine_records_def Let_def
  by (intro ends_with_refl ends_with_bind ends_with_pair effectful_intros)

lemma fail_pipeline_returns:
  obtains s w' where "fail_pipeline env claim ws we e w = (Inr s, w')" "sm_status s = RunFailed"
    "sm_message s = Some (safe_error_message env e)" "sm_run s = map_option rc_run claim"
    "sm_counts s = (mw_counts w)\<lparr>rk_error := rk_error (mw_counts w) + 1\<rparr>"
proof -
  define w1 where "w1 = w\<lparr>mw_counts := (mw_counts w)\<lparr>rk_error := rk_error (mw_counts w) + 1\<rparr>\<rparr>"
  define s where "s = run_report (map_option rc_run claim) RunFailed ws we (Some (safe_error_message env e)) (mw_counts w1)"
  have run: "fail_pipeline env claim ws we e w = (case claim of None \<Rightarrow> (Inr s, w1)
      | Some c \<Rightarrow> io_then (io_catch (io_bind (on_db (fail_run c s)) (\<lambda>_. io_return ())) (\<lambda>_. io_return ())) (io_return s) w1)"
    by (simp only: fail_pipeline_def io_bind_def [of "bump _"] bump_def prod.case sum.case Let_def
        w1_def [symmetric] s_def [symmetric])
  have "\<exists>w'. fail_pipeline env claim ws we e w = (Inr s, w')"
  proof (cases claim)
    case (Some c)
    have "io_total (io_catch (io_bind (on_db (fail_run c s)) (\<lambda>_. io_return ())) (\<lambda>_. io_return ()))"
      by (intro io_total_catch io_total_return)
    then obtain w' where "io_catch (io_bind (on_db (fail_run c s)) (\<lambda>_. io_return ())) (\<lambda>_. io_return ()) w1 = (Inr (), w')"
      by (auto dest!: io_totalD [of _ w1])
    then show ?thesis unfolding run by (simp add: Some io_bind_def [of "io_catch _ _"])
  next
    case None
    then show ?thesis unfolding run by simp
  qed
  then show thesis using that by (auto simp: s_def run_report_def w1_def)
qed

lemma run_claimed_outcome:
  obtains s w' where "run_claimed env cfg c ws we w = (Inr s, w')" "sm_status s = RunFailed" "sm_message s \<noteq> None"
    "\<exists>w1. effect\<^sup>*\<^sup>* w w1 \<and> sm_counts s = (mw_counts w1)\<lparr>rk_error := rk_error (mw_counts w1) + 1\<rparr>"
  | s w' w1 h where "run_claimed env cfg c ws we w = (Inr s, w')" "effect\<^sup>*\<^sup>* w w1" "finish_run cfg c ws we w1 = (Inr s, w'\<lparr>mw_beat := h\<rparr>)"
proof -
  let ?m = "io_then (start_heartbeat cfg c) (mine_records env cfg c ws we)"
  obtain r w1 where r: "?m w = (r, w1)" by fastforce
  show thesis
  proof (cases r)
    case (Inr s)
    have "ends_with ?m (finish_run cfg c ws we)"
      by (intro ends_with_bind effectful_intros mine_records_finish)
    then obtain w0 where w0: "effect\<^sup>*\<^sup>* w w0" "finish_run cfg c ws we w0 = (Inr s, w1)"
      using r Inr unfolding ends_with_def by blast
    have "run_claimed env cfg c ws we w = (Inr s, w1\<lparr>mw_beat := None\<rparr>)"
      using r Inr by (simp add: run_claimed_def io_bind_def [of "io_catch _ _"] io_catch_def io_bind_def [of stop_heartbeat] stop_heartbeat_def)
    then show thesis using that(2) [of s "w1\<lparr>mw_beat := None\<rparr>" w0 "mw_beat w1"] w0 by simp
  next
    case (Inl e)
    have w1: "effect\<^sup>*\<^sup>* w w1"
      by (rule effectfulD [where m = ?m, OF _ r]) (intro effectful_intros effectful_mine)
    let ?w = "w1\<lparr>mw_beat := None\<rparr>"
    obtain s w2 where s: "fail_pipeline env (Some c) ws we e ?w = (Inr s, w2)" "sm_status s = RunFailed"
      "sm_message s = Some (safe_error_message env e)"
      "sm_counts s = (mw_counts ?w)\<lparr>rk_error := rk_error (mw_counts ?w) + 1\<rparr>"
      by (rule fail_pipeline_returns)
    have "run_claimed env cfg c ws we w = (Inr s, w2\<lparr>mw_beat := None\<rparr>)"
      using r Inl s(1) by (simp add: run_claimed_def io_bind_def [of "io_catch _ _"] io_catch_def io_bind_def [of stop_heartbeat] stop_heartbeat_def)
    then show thesis using that(1) s w1 by auto
  qed
qed

lemma finish_run_row:
  assumes "finish_run cfg c ws we w = (Inr s, w')" "consistent (mw_db w)" "good_sched w"
  obtains r where "sm_status s = RunCompleted" "sm_run s = Some (rc_run c)" "sm_message s = None"
    "sm_counts s = (mw_counts w)\<lparr>rk_purged := rk_purged (sm_counts s)\<rparr>"
    "map_of (db_runs (mw_db w')) (rc_run c) = Some r" "rn_status r = RunCompleted" "rn_counts r = sm_counts s"
proof -
  define s0 where "s0 = run_report (Some (rc_run c)) RunCompleted ws we None (mw_counts w)"
  define cutoff where "cutoff = we - days (mc_retention_days cfg)"
  from assms(1) obtain n where n: "on_db (finalize_run c s0 cutoff) w = (Inr n, w')" "s = with_purged s0 n"
    by (auto simp: finish_run_def Let_def s0_def cutoff_def io_bind_eq_Inr)
  obtain f w1 where s: "settle w = (f, w1)" by fastforce
  with n(1) have f: "f = None" by (cases f) (simp_all add: on_db_def)
  have d: "distinct (dict_keys (db_leases (mw_db w1)))"
    using effects_consistent [OF settle_effects [OF s] assms(3,2)]
    by (simp add: consistent_def audit_ok_def leases_distinct_def)
  have fin: "finalize_run c s0 cutoff (mw_db w1) = (Inr n, mw_db w')"
    using n(1) s f by (auto simp: on_db_def split: prod.splits)
  from d have "closed c s (mw_db w1) (mw_db w')"
    by (cases rule: finalize_cases [of "mw_db w1" c s0 cutoff]) (use fin n(2) in auto)
  then obtain r where "map_of (db_runs (mw_db w1)) (rc_run c) = Some r"
    "map_of (db_runs (mw_db w')) (rc_run c) = Some (summarised s (db_clock (mw_db w1)) r)"
    by (auto simp: closed_def map_of_update_row dest!: weak_map_of_SomeI)
  then show thesis
    by (intro that [of "summarised s (db_clock (mw_db w1)) r"])
      (simp_all add: n(2) s0_def run_report_def with_purged_def summarised_def)
qed

text \<open>What a summary says of the audit row in the database it is returned with.\<close>

definition reported :: "run_summary \<Rightarrow> miner_db \<Rightarrow> bool" where
  "reported s db \<longleftrightarrow> (case sm_status s of
     RunRunning \<Rightarrow> False
   | RunFailed \<Rightarrow> sm_message s \<noteq> None \<and> 0 < rk_error (sm_counts s)
   | _ \<Rightarrow> (\<exists>run r. sm_run s = Some run \<and> map_of (db_runs db) run = Some r \<and> rn_status r = sm_status s
       \<and> rn_counts r = sm_counts s \<and> (\<forall>n. \<not> leased db n run)))"

lemma final_row_unleased:
  "audit_ok db \<Longrightarrow> map_of (db_runs db) i = Some r \<Longrightarrow> rn_status r \<noteq> RunRunning \<Longrightarrow> \<not> leased db n i"
  using audit_okD(1) [of db n i] by (auto simp: running_def)

lemma reported_failed: "sm_status s = RunFailed \<Longrightarrow> sm_message s \<noteq> None \<Longrightarrow> balanced k
    \<Longrightarrow> sm_counts s = k\<lparr>rk_error := rk_error k + 1\<rparr> \<Longrightarrow> reported s db \<and> balanced (sm_counts s)"
  by (auto simp: reported_def balanced_def)

lemma run_claimed_reported:
  assumes "consistent (mw_db w)" "good_sched w" "balanced (mw_counts w)"
  obtains s w' where "run_claimed env cfg c ws we w = (Inr s, w')" "reported s (mw_db w')" "balanced (sm_counts s)"
proof (cases rule: run_claimed_outcome [of env cfg c ws we w])
  case (1 s w')
  then obtain w1 where w1: "effect\<^sup>*\<^sup>* w w1" "sm_counts s = (mw_counts w1)\<lparr>rk_error := rk_error (mw_counts w1) + 1\<rparr>" by blast
  have "balanced (mw_counts w1)" using effects_simulated [OF w1(1) assms(2)] assms(3) by blast
  from reported_failed [OF 1(2,3) this w1(2)] 1(1) that show ?thesis by blast
next
  case (2 s w' w1 h)
  have w1: "consistent (mw_db w1)" "good_sched w1" "balanced (mw_counts w1)"
    using effects_consistent [OF 2(2) assms(2,1)] effects_simulated [OF 2(2) assms(2)] assms(3) by blast+
  obtain r where r: "sm_status s = RunCompleted" "sm_run s = Some (rc_run c)" "sm_message s = None"
    "sm_counts s = (mw_counts w1)\<lparr>rk_purged := rk_purged (sm_counts s)\<rparr>"
    "map_of (db_runs (mw_db (w'\<lparr>mw_beat := h\<rparr>))) (rc_run c) = Some r" "rn_status r = RunCompleted" "rn_counts r = sm_counts s"
    using finish_run_row [OF 2(3) w1(1,2)] by blast
  have "audit_ok (mw_db (w'\<lparr>mw_beat := h\<rparr>))"
    using effects_consistent [OF effectfulD [OF effectful_finish 2(3)] w1(2,1)] by (simp add: consistent_def)
  then have "\<not> leased (mw_db w') n (rc_run c)" for n
    using final_row_unleased [of "mw_db w'" "rc_run c" r n] r(5,6) by simp
  then have "reported s (mw_db w')" using r by (auto simp: reported_def)
  moreover have "balanced ((mw_counts w1)\<lparr>rk_purged := rk_purged (sm_counts s)\<rparr>)" using w1(3) by (simp add: balanced_def)
  then have "balanced (sm_counts s)" by (metis r(4))
  ultimately show ?thesis using 2(1) that by blast
qed

text \<open>C8. A run always returns a summary, whatever fails. It is never \<open>running\<close>; the counts add up; a
  completed or skipped summary is what the audit row of its run says in the database, and no lease holds
  that run; a failed one carries a message and a counted error.\<close>
theorem run_once_reports:
  assumes "good_sched w" "consistent (mw_db w)"
  shows "\<exists>s w'. run_once env cfg w = (Inr s, w') \<and> reported s (mw_db w') \<and> balanced (sm_counts s)"
proof -
  define we where "we = me_now env"
  define ws where "ws = we - days (mc_window_days cfg)"
  define w0 where "w0 = w\<lparr>mw_counts := empty_counts, mw_lost := False, mw_beat := None\<rparr>"
  obtain r w1 where claim: "on_db (claim_run (mc_lease_name cfg) (mc_lease_ttl cfg) ws we (configuration cfg)) w0 = (r, w1)"
    by fastforce
  have b0: "balanced (mw_counts w0)" by (simp add: w0_def balanced_def empty_counts_def)
  have w0: "good_sched w0" "consistent (mw_db w0)" using assms by (simp_all add: w0_def good_sched_def)
  have e1: "effect\<^sup>*\<^sup>* w0 w1" by (rule effectfulD [OF effectful_writes(1) claim])
  have w1: "good_sched w1" "consistent (mw_db w1)" "balanced (mw_counts w1)"
    using effects_consistent [OF e1 w0] effects_simulated [OF e1 w0(1)] b0 by blast+
  have failed: "\<exists>s w'. fail_pipeline env None ws we e v = (Inr s, w') \<and> reported s (mw_db w') \<and> balanced (sm_counts s)"
    if "balanced (mw_counts v)" for e v
    by (rule fail_pipeline_returns [of env None ws we e v]) (use reported_failed that in blast)
  have "\<exists>s w'. run_pipeline env cfg ws we w = (Inr s, w') \<and> reported s (mw_db w') \<and> balanced (sm_counts s)"
  proof (cases r)
    case (Inl e)
    with claim failed [OF w1(3)] show ?thesis
      by (simp add: run_pipeline_def io_bind_def [of fresh_run] fresh_run_def w0_def)
  next
    case (Inr x)
    show ?thesis
    proof (cases x)
      case (Some c)
      obtain s w' where "run_claimed env cfg c ws we w1 = (Inr s, w')" "reported s (mw_db w')" "balanced (sm_counts s)"
        by (rule run_claimed_reported [OF w1(2,1,3)])
      with claim Inr Some show ?thesis
        by (simp add: run_pipeline_def io_bind_def [of fresh_run] fresh_run_def w0_def)
    next
      case None
      obtain q w2 where skip: "on_db (record_skipped_run ws we (configuration cfg) skip_reason) w1 = (q, w2)" by fastforce
      have e2: "effect\<^sup>*\<^sup>* w1 w2" by (rule effectfulD [OF effectful_writes(2) skip])
      have w2: "balanced (mw_counts w2)" "audit_ok (mw_db w2)"
        using effects_simulated [OF e2 w1(1)] effects_consistent [OF e2 w1(1,2)] w1(3) by (simp_all add: consistent_def)
      have pipeline: "run_pipeline env cfg ws we w = (case q of Inl e \<Rightarrow> fail_pipeline env None ws we e w2
          | Inr run \<Rightarrow> (Inr (run_report (Some run) RunSkipped ws we (Some skip_reason) empty_counts), w2))"
        using claim Inr None skip by (auto simp: run_pipeline_def io_bind_def fresh_run_def w0_def io_catch_def split: sum.split)
      show ?thesis
      proof (cases q)
        case (Inl e)
        with pipeline failed [OF w2(1)] show ?thesis by simp
      next
        case (Inr run)
        obtain f w3 where s: "settle w1 = (f, w3)" by fastforce
        with skip Inr have "run = db_next (mw_db w3)" and new: "db_runs (mw_db w2) = db_runs (mw_db w3) @ [(run,
            (new_run RunSkipped ws we (configuration cfg))\<lparr>rn_message := Some skip_reason, rn_completed := Some (db_clock (mw_db w3))\<rparr>)]"
          by (cases f; auto simp: on_db_def record_skipped_run_def)+
        moreover have "audit_ok (mw_db w3)" using effects_consistent [OF settle_effects [OF s] w1(1,2)] by (simp add: consistent_def)
        ultimately have "map_of (db_runs (mw_db w3)) run = None" by (auto simp: audit_ok_def map_of_eq_None_iff)
        then obtain x where x: "map_of (db_runs (mw_db w2)) run = Some x" "rn_status x = RunSkipped" "rn_counts x = empty_counts"
          by (simp add: new map_add_def new_run_def)
        have "\<not> leased (mw_db w2) n run" for n using final_row_unleased [OF w2(2) x(1)] x(2) by simp
        with x have "reported (run_report (Some run) RunSkipped ws we (Some skip_reason) empty_counts) (mw_db w2)"
          by (auto simp: reported_def run_report_def)
        then show ?thesis using pipeline Inr by (simp add: run_report_def balanced_def empty_counts_def)
      qed
    qed
  qed
  then show ?thesis by (auto simp: run_once_def Let_def we_def ws_def io_catch_def)
qed

section \<open>Medoids and seeds\<close>

lemma concat_chunks: "0 < n \<Longrightarrow> concat (chunks n xs) = xs"
proof (induction n xs rule: chunks.induct)
  case (1 n xs)
  show ?case
  proof (cases "xs = []")
    case False
    with 1 have "concat (chunks n (drop n xs)) = drop n xs" by blast
    then show ?thesis using False 1(2) by (simp add: chunks.simps [of n xs])
  qed (simp add: chunks.simps)
qed

lemma dot_Cons [simp]: "dot (x # u) (y # v) = x * y + dot u v" "dot [] v = 0" "dot u [] = 0"
  by (simp_all add: dot_def)

lemma dot_self_nonneg: "0 \<le> dot v v"
  by (induction v) simp_all

lemma dot_diff: "length u = length v \<Longrightarrow> dot (vec_diff u v) (vec_diff u v) = dot u u + dot v v - 2 * dot u v"
  by (induction u v rule: list_induct2) (simp_all add: vec_diff_def algebra_simps)

lemma distance_row_euclid:
  assumes "\<forall>u \<in> set vs. length u = length v"
  shows "distance_row vs v = map (\<lambda>u. vec_norm (vec_diff v u)) vs"
proof -
  have "max (dot v v + dot u u - 2 * dot v u) 0 = dot (vec_diff v u) (vec_diff v u)" if "u \<in> set vs" for u
    using dot_diff [of v u] dot_self_nonneg [of "vec_diff v u"] bspec [OF assms that] by simp
  then show ?thesis by (simp add: distance_row_def vec_norm_def)
qed

definition total_distance :: "real list list \<Rightarrow> real list \<Rightarrow> real" where
  "total_distance vs v = (\<Sum>u \<leftarrow> vs. vec_norm (vec_diff v u))"

lemma distance_sums_euclid:
  assumes "\<forall>u \<in> set vs. length u = k"
  shows "distance_sums vs = map (total_distance vs) vs"
proof -
  have "distance_sums vs = map (\<lambda>v. sum_list (distance_row vs v)) (concat (chunks 256 vs))"
    by (simp only: distance_sums_def map_concat)
  also have "\<dots> = map (total_distance vs) vs"
    using assms by (auto simp: concat_chunks distance_row_euclid total_distance_def)
  finally show ?thesis .
qed

lemma takeWhile_stops: "x \<in> set xs \<Longrightarrow> \<not> P x \<Longrightarrow> length (takeWhile P xs) < length xs"
  by (induction xs) auto

lemma argmin_least:
  assumes "xs \<noteq> []"
  shows "argmin xs < length xs" "x \<in> set xs \<Longrightarrow> xs ! argmin xs \<le> x" "j < argmin xs \<Longrightarrow> xs ! argmin xs < xs ! j"
proof -
  let ?P = "\<lambda>x. x \<noteq> Min (set xs)"
  have mem: "Min (set xs) \<in> set xs" using assms by simp
  have l: "length (takeWhile ?P xs) < length xs" by (rule takeWhile_stops [OF mem]) simp
  have at: "xs ! argmin xs = Min (set xs)" using nth_length_takeWhile [OF l] by (simp add: argmin_def)
  show "argmin xs < length xs" using l by (simp add: argmin_def)
  show "x \<in> set xs \<Longrightarrow> xs ! argmin xs \<le> x" by (simp add: at)
  assume "j < argmin xs"
  then have j: "j < length (takeWhile ?P xs)" by (simp add: argmin_def)
  have "takeWhile ?P xs ! j \<in> set (takeWhile ?P xs)" using j by (rule nth_mem)
  then have "xs ! j \<in> set (takeWhile ?P xs)" by (simp only: takeWhile_nth [OF j])
  then have "xs ! j \<in> set xs \<and> xs ! j \<noteq> Min (set xs)" by (rule set_takeWhileD)
  then show "xs ! argmin xs < xs ! j" unfolding at by (metis List.finite_set Min_le order_less_le)
qed

text \<open>The blocked computation from scalar products finds the first vector of least total Euclidean distance.\<close>

lemma select_medoid_least:
  assumes "vs \<noteq> []" "\<forall>v \<in> set vs. length v = k"
  shows "\<exists>m. select_medoid vs = Inr m \<and> m < length vs
    \<and> (\<forall>v \<in> set vs. total_distance vs (vs ! m) \<le> total_distance vs v)
    \<and> (\<forall>j < m. total_distance vs (vs ! m) < total_distance vs (vs ! j))"
proof -
  have ne: "map (total_distance vs) vs \<noteq> []" using assms(1) by simp
  define m where "m = argmin (map (total_distance vs) vs)"
  have l: "m < length vs" using argmin_least(1) [OF ne] by (simp add: m_def)
  have "select_medoid vs = Inr m" using assms(1) by (simp add: select_medoid_def distance_sums_euclid [OF assms(2)] m_def)
  moreover have "total_distance vs (vs ! m) \<le> total_distance vs v" if "v \<in> set vs" for v
    using argmin_least(2) [OF ne, of "total_distance vs v"] that l by (simp add: m_def)
  moreover have "total_distance vs (vs ! m) < total_distance vs (vs ! j)" if "j < m" for j
    using argmin_least(3) [OF ne, of j] that l by (simp add: m_def)
  ultimately show ?thesis using l by blast
qed

lemma pick_examples_length: "0 < m \<Longrightarrow> int (length (pick_examples env m seen rs)) \<le> m"
  by (induction env m seen rs rule: pick_examples.induct) (auto simp: Let_def)

lemma pick_examples_new: "x \<in> set (pick_examples env m seen rs) \<Longrightarrow> normalize_prompt env x \<notin> set seen"
  by (induction env m seen rs rule: pick_examples.induct) (auto simp: Let_def split: if_splits)

lemma pick_examples_distinct: "distinct (map (normalize_prompt env) (pick_examples env m seen rs))"
  by (induction env m seen rs rule: pick_examples.induct) (auto simp: Let_def dest: pick_examples_new)

lemma nearest_examples_facts:
  "int (length (nearest_distinct_examples env rep members records vectors m)) \<le> max 0 m"
  "distinct (map (normalize_prompt env) (nearest_distinct_examples env rep members records vectors m))"
  "x \<in> set (nearest_distinct_examples env rep members records vectors m)
     \<Longrightarrow> normalize_prompt env x \<noteq> normalize_prompt env (ir_prompt (records ! rep))"
proof -
  show "int (length (nearest_distinct_examples env rep members records vectors m)) \<le> max 0 m"
    using pick_examples_length by (auto simp: nearest_distinct_examples_def)
  show "distinct (map (normalize_prompt env) (nearest_distinct_examples env rep members records vectors m))"
    using pick_examples_distinct by (simp add: nearest_distinct_examples_def)
  assume "x \<in> set (nearest_distinct_examples env rep members records vectors m)"
  then show "normalize_prompt env x \<noteq> normalize_prompt env (ir_prompt (records ! rep))"
    by (auto simp: nearest_distinct_examples_def split: if_splits dest: pick_examples_new)
qed

lemma labelled_bound: "i \<in> set (labelled a l) \<longleftrightarrow> i < length (as_labels a) \<and> as_labels a ! i = l"
  by (auto simp: labelled_def)

lemma traverse_Inr: "traverse f xs = Inr ys \<longleftrightarrow> list_all2 (\<lambda>x y. f x = Inr y) xs ys"
  by (induction xs arbitrary: ys) (auto simp: rbind_eq_Inr list_all2_Cons1)

text \<open>What a seed says of the cluster it comes from.\<close>

definition cluster_seed_ok :: "miner_env \<Rightarrow> int \<Rightarrow> interaction_record list \<Rightarrow> real list list \<Rightarrow> assignments \<Rightarrow> int
    \<Rightarrow> candidate_seed \<Rightarrow> bool" where
  "cluster_seed_ok env max_examples records vectors a l s \<longleftrightarrow>
     sd_label s = Some l \<and> \<not> sd_noise s \<and> sd_members s = map (\<lambda>i. records ! i) (labelled a l) \<and>
     (\<exists>rep \<in> set (labelled a l). sd_representative s = records ! rep \<and>
        sd_outlier s = Some (finite_outlier (as_scores a ! rep)) \<and>
        (\<forall>i \<in> set (labelled a l). total_distance (map (\<lambda>i. vectors ! i) (labelled a l)) (vectors ! rep)
            \<le> total_distance (map (\<lambda>i. vectors ! i) (labelled a l)) (vectors ! i))) \<and>
     int (length (sd_examples s)) \<le> max 0 max_examples \<and>
     distinct (map (normalize_prompt env) (ir_prompt (sd_representative s) # sd_examples s))"

lemma cluster_seed_contract:
  assumes "cluster_seed env mx records vectors a l = Inr s" "l \<in> set (as_labels a)"
    "length (as_labels a) = length records" "length vectors = length records" "\<forall>v \<in> set vectors. length v = k"
  shows "cluster_seed_ok env mx records vectors a l s"
proof -
  let ?vs = "map (\<lambda>i. vectors ! i) (labelled a l)"
  have bound: "i < length vectors" if "i \<in> set (labelled a l)" for i
    using that assms(3,4) by (simp add: labelled_bound)
  have "labelled a l \<noteq> []"
  proof -
    obtain i where "i < length (as_labels a)" "as_labels a ! i = l" using assms(2) by (auto simp: in_set_conv_nth)
    then have "i \<in> set (labelled a l)" by (simp add: labelled_bound)
    then show ?thesis by auto
  qed
  then have ne: "?vs \<noteq> []" by simp
  have width: "\<forall>v \<in> set ?vs. length v = k" using assms(5) bound by auto
  obtain m where m: "select_medoid ?vs = Inr m" "m < length ?vs"
    "\<forall>v \<in> set ?vs. total_distance ?vs (?vs ! m) \<le> total_distance ?vs v"
    using select_medoid_least [OF ne width] by blast
  define rep where "rep = labelled a l ! m"
  have rep: "rep \<in> set (labelled a l)" "?vs ! m = vectors ! rep" using m(2) by (simp_all add: rep_def)
  have s: "s = \<lparr>sd_representative = records ! rep, sd_members = map (\<lambda>i. records ! i) (labelled a l),
      sd_examples = nearest_distinct_examples env rep (labelled a l) records vectors mx,
      sd_label = Some l, sd_noise = False, sd_outlier = Some (finite_outlier (as_scores a ! rep))\<rparr>"
    using assms(1) m(1) by (simp add: cluster_seed_def rep_def Let_def rbind_def)
  have least: "total_distance ?vs (vectors ! rep) \<le> total_distance ?vs (vectors ! i)" if "i \<in> set (labelled a l)" for i
    using bspec [OF m(3), of "vectors ! i"] that by (simp add: rep(2))
  have "normalize_prompt env (ir_prompt (records ! rep))
      \<notin> set (map (normalize_prompt env) (nearest_distinct_examples env rep (labelled a l) records vectors mx))"
    using nearest_examples_facts(3) by fastforce
  then show ?thesis
    using rep(1) least nearest_examples_facts(1,2) [of env rep "labelled a l" records vectors mx]
    by (auto simp: cluster_seed_ok_def s)
qed


section \<open>Embedding\<close>

lemma unit_row_norm:
  assumes "0 < vec_norm v"
  shows "vec_norm (unit_row v) = 1"
proof -
  have scaled: "dot (map (\<lambda>x. x / n) u) (map (\<lambda>x. x / n) u) = dot u u / n\<^sup>2" for n and u :: "real list"
    by (induction u) (simp_all add: add_divide_distrib power2_eq_square)
  have "(vec_norm v)\<^sup>2 = dot v v" using dot_self_nonneg by (simp add: vec_norm_def)
  moreover from this have "dot v v \<noteq> 0" using assms by auto
  ultimately show ?thesis
    unfolding unit_row_def vec_norm_def [of "map _ _"] scaled by simp
qed

lemma validate_embeddings_Inr:
  assumes "validate_embeddings vs expected = Inr m"
  shows "m = map (\<lambda>v. unit_row (map the v)) vs" "vs \<noteq> []" "expected = None \<or> expected = Some (length vs)"
    "\<forall>v \<in> set m. vec_norm v = 1" "\<exists>k. 0 < k \<and> (\<forall>v \<in> set m. length v = k)"
proof -
  have w: "list_all (\<lambda>v. length v = length (hd vs)) vs" "vs \<noteq> []" "hd vs \<noteq> []" "expected = None \<or> expected = Some (length vs)"
    and pos: "\<not> list_ex (\<lambda>v. vec_norm v \<le> 0) (map (map the) vs)" and m: "m = map unit_row (map (map the) vs)"
    using assms unfolding validate_embeddings_def Let_def by (simp_all split: if_splits)
  show "m = map (\<lambda>v. unit_row (map the v)) vs" "vs \<noteq> []" "expected = None \<or> expected = Some (length vs)"
    using w(2,4) m by (simp_all add: comp_def)
  show "\<forall>v \<in> set m. vec_norm v = 1" using pos unit_row_norm by (auto simp: m list_ex_iff not_le)
  have "length v = length (hd vs)" if "v \<in> set m" for v
    using that w(1) unfolding m list_all_iff by (auto simp only: set_map unit_row_def length_map)
  then show "\<exists>k. 0 < k \<and> (\<forall>v \<in> set m. length v = k)" using w(3) by blast
qed

definition record_fingerprint :: "miner_env \<Rightarrow> interaction_record \<Rightarrow> str" where
  "record_fingerprint env r = prompt_fingerprint env (normalize_prompt env (ir_prompt r))"

lemma canonical_prompts_fingerprints:
  "canonical_prompts env rs (table, fps) = Inr (table', fps') \<Longrightarrow> fps' = fps @ map (record_fingerprint env) rs"
proof (induction rs arbitrary: table fps)
  case (Cons r rs)
  from Cons.prems obtain table1 where "canonical_prompts env rs (table1, fps @ [record_fingerprint env r]) = Inr (table', fps')"
    by (auto simp: Let_def record_fingerprint_def split: if_splits)
  from Cons.IH [OF this] show ?case by simp
qed simp

text \<open>At most \<open>n\<close> provider calls.\<close>

definition asks :: "nat \<Rightarrow> 'a mining \<Rightarrow> bool" where
  "asks n m \<longleftrightarrow> (\<forall>w. mw_calls (snd (m w)) \<le> mw_calls w + n)"

lemma asksD: "asks n m \<Longrightarrow> m w = (r, w') \<Longrightarrow> mw_calls w' \<le> mw_calls w + n"
  unfolding asks_def by (metis snd_conv)

lemma asks_bind:
  assumes "asks k m" "\<And>x. asks l (f x)"
  shows "asks (k + l) (io_bind m f)"
  unfolding asks_def
proof
  fix w
  obtain r w1 where m: "m w = (r, w1)" by fastforce
  have k: "mw_calls w1 \<le> mw_calls w + k" by (rule asksD [OF assms(1) m])
  show "mw_calls (snd (io_bind m f w)) \<le> mw_calls w + (k + l)"
  proof (cases r)
    case (Inr x)
    have "mw_calls (snd (f x w1)) \<le> mw_calls w1 + l" using assms(2) by (simp add: asks_def)
    with m k Inr show ?thesis by (simp add: io_bind_def)
  qed (use m k in \<open>simp add: io_bind_def\<close>)
qed

lemma asks_free: "asks 0 m \<Longrightarrow> (\<And>x. asks n (f x)) \<Longrightarrow> asks n (io_bind m f)"
  using asks_bind [of 0 m n f] by simp

lemma asks_one: "asks 1 m \<Longrightarrow> (\<And>x. asks n (f x)) \<Longrightarrow> asks (Suc n) (io_bind m f)"
  using asks_bind [of 1 m n f] by simp

lemma asks_pair: "(\<And>x y. asks n (g x y)) \<Longrightarrow> asks n (case p of (x, y) \<Rightarrow> g x y)"
  by (cases p) simp

lemma happen_calls: "mw_calls (fold happen evs w) = mw_calls w"
proof (induction evs arbitrary: w)
  case (Cons e evs)
  have "mw_calls (happen e w) = mw_calls w"
    by (cases e) (auto split: option.split prod.split sum.split bool.split)
  then show ?case by (simp add: Cons.IH)
qed simp

lemma settle_calls: "mw_calls (snd (settle w)) = mw_calls w"
  by (auto simp: settle_def happen_calls split: list.split)

lemma asks_on_db: "asks 0 (on_db q)"
proof -
  have "mw_calls (snd (on_db q w)) = mw_calls w" for w
    using settle_calls [of w] by (auto simp: on_db_def split: prod.split option.split)
  then show ?thesis by (simp add: asks_def)
qed

lemma asks_simple: "asks n (io_return x)" "asks n (io_lift r)" "asks n (bump f)" "asks 1 (ask g)" "asks n (ensure_active c)"
proof -
  show "asks n (io_return x)" "asks n (io_lift r)" "asks n (bump f)" by (simp_all add: asks_def bump_def)
  have "mw_calls (snd (ask g w)) = Suc (mw_calls w)" for w
    using settle_calls [of w] by (cases "settle w") (simp add: ask_def)
  then show "asks 1 (ask g)" by (simp add: asks_def)
  have "mw_calls (snd (ensure_active c w)) \<le> mw_calls w" for w
  proof -
    obtain r w1 where r: "on_db (claim_is_active c) w = (r, w1)" by fastforce
    with asksD [OF asks_on_db r] show ?thesis by (simp add: ensure_active_def split: sum.split)
  qed
  then show "asks n (ensure_active c)" by (simp add: asks_def trans_le_add1)
qed

lemma asks_embed: "asks 1 (embed_fingerprints env c table fps)"
proof (cases "fps = []")
  case False
  have "asks (Suc 0) (embed_fingerprints env c table fps)"
    unfolding embed_fingerprints_def if_not_P [OF False]
    by (rule asks_free, rule asks_simple, rule asks_one, rule asks_simple)
      (intro asks_free asks_simple)
  then show ?thesis by simp
qed (simp add: embed_fingerprints_def asks_def)

lemma asks_embed_unique: "asks (Suc 1) (embed_unique env cfg c table)"
  unfolding embed_unique_def Let_def
proof (rule asks_free [OF asks_simple(5)], rule asks_free [OF asks_on_db], rule asks_one [OF asks_embed])
  fix rows :: "cached_embedding list dict" and fresh :: "real list dict"
  let ?cached = "cached_vectors cfg rows (dict_keys table)"
  let ?missing = "filter (\<lambda>fp. fp \<notin> set (dict_keys ?cached)) (dict_keys table)"
  have "asks (Suc 0) (io_bind (embed_fingerprints env c table (dict_keys ?cached))
      (\<lambda>again. io_return (dict_update again fresh, ?missing @ dict_keys ?cached)))"
    by (intro asks_one asks_embed asks_simple)
  then show "asks 1 (if widths_differ ?cached fresh
      then io_bind (embed_fingerprints env c table (dict_keys ?cached))
        (\<lambda>again. io_return (dict_update again fresh, ?missing @ dict_keys ?cached))
      else io_return (dict_update ?cached fresh, ?missing))"
    by (simp add: asks_def)
qed

lemma asks_embed_records: "asks 2 (embed_records env cfg c records)"
proof -
  have store: "asks 0 (if b then io_return () else io_then (ensure_active c) (on_db q))" for b q
    by (auto intro: asks_simple asks_free asks_on_db)
  have rest: "asks 0 (io_then (if b then io_return () else io_then (ensure_active c) (on_db q))
      (io_then (bump g) (io_lift r)))" for b q g and r :: "'b result"
    by (intro asks_free store asks_simple)
  have "asks (Suc 1 + 0) (io_bind (embed_unique env cfg c table) (\<lambda>(vectors, embedded).
      io_then (if b embedded then io_return () else io_then (ensure_active c) (on_db (q vectors embedded)))
        (io_then (bump (g embedded)) (io_lift (r vectors)))))"
    for table b q g and r :: "real list dict \<Rightarrow> 'b result"
    by (intro asks_bind asks_embed_unique asks_pair rest)
  then have unique: "asks 2 (io_bind (embed_unique env cfg c table) (\<lambda>(vectors, embedded).
      io_then (if b embedded then io_return () else io_then (ensure_active c) (on_db (q vectors embedded)))
        (io_then (bump (g embedded)) (io_lift (r vectors)))))"
    for table b q g and r :: "real list dict \<Rightarrow> 'b result"
    by (simp add: numeral_2_eq_2)
  show ?thesis
  proof (cases "records = []")
    case False
    show ?thesis unfolding embed_records_def if_not_P [OF False]
      by (intro asks_free asks_simple asks_pair unique)
  qed (simp add: embed_records_def asks_simple)
qed

text \<open>Embedding returns one row per record, all of one width and of unit length, the same row for
  records whose prompts agree after normalisation, with at most two provider calls, of which the second
  happens only when the cached width changed.\<close>
theorem embed_records_rows:
  assumes "embed_records env cfg c records w = (Inr m, w')"
  shows "length m = length records \<and> (\<forall>v \<in> set m. vec_norm v = 1) \<and> (\<exists>k. \<forall>v \<in> set m. length v = k)
    \<and> (\<exists>f. m = map (\<lambda>r. f (normalize_prompt env (ir_prompt r))) records)
    \<and> mw_calls w' \<le> mw_calls w + 2"
proof -
  have "mw_calls w' \<le> mw_calls w + 2" by (rule asksD [OF asks_embed_records assms])
  moreover have "length m = length records \<and> (\<forall>v \<in> set m. vec_norm v = 1) \<and> (\<exists>k. \<forall>v \<in> set m. length v = k)
    \<and> (\<exists>f. m = map (\<lambda>r. f (normalize_prompt env (ir_prompt r))) records)"
  proof (cases "records = []")
    case False
    from assms False obtain table fps vectors where t: "canonical_prompts env records ([], []) = Inr (table, fps)"
      and m: "validate_embeddings (map (\<lambda>fp. map Some (the (map_of vectors fp))) fps) (Some (length records)) = Inr m"
      by (auto simp: embed_records_def io_bind_eq_Inr)
    have fps: "fps = map (record_fingerprint env) records" using canonical_prompts_fingerprints [OF t] by simp
    define f where "f p = unit_row (the (map_of vectors (prompt_fingerprint env p)))" for p
    have rows: "m = map (\<lambda>r. f (normalize_prompt env (ir_prompt r))) records"
      using validate_embeddings_Inr(1) [OF m] by (simp add: fps comp_def f_def record_fingerprint_def)
    then have "length m = length records" by simp
    with rows validate_embeddings_Inr(4,5) [OF m] show ?thesis by blast
  qed (use assms in \<open>simp add: embed_records_def\<close>)
  ultimately show ?thesis by blast
qed

section \<open>Prepared cases\<close>

text \<open>A seed groups records of one scope around one of them.\<close>

definition seed_ok :: "interaction_record list \<Rightarrow> candidate_seed \<Rightarrow> bool" where
  "seed_ok records s \<longleftrightarrow> sd_representative s \<in> set (sd_members s) \<and> set (sd_members s) \<subseteq> set records \<and>
     (\<forall>r \<in> set (sd_members s). ir_scope r = ir_scope (sd_representative s))"

lemma select_medoid_bound: "select_medoid vs = Inr m \<Longrightarrow> m < length vs"
proof -
  assume m: "select_medoid vs = Inr m"
  then have ne: "vs \<noteq> []" "m = argmin (distance_sums vs)" by (auto simp: select_medoid_def split: if_splits)
  have "length (distance_sums vs) = length (concat (chunks 256 vs))"
    unfolding distance_sums_def by (induction "chunks 256 vs") (simp_all add: length_concat comp_def)
  then have "length (distance_sums vs) = length vs" by (simp add: concat_chunks)
  then show ?thesis using argmin_least(1) [of "distance_sums vs"] ne by force
qed

lemma cluster_seed_members:
  assumes "cluster_seed env mx records vectors a l = Inr s" "length (as_labels a) = length records"
  shows "sd_representative s \<in> set (sd_members s) \<and> set (sd_members s) \<subseteq> set records"
proof -
  obtain m where m: "select_medoid (map (\<lambda>i. vectors ! i) (labelled a l)) = Inr m"
    and s: "sd_members s = map (\<lambda>i. records ! i) (labelled a l)" "sd_representative s = records ! (labelled a l ! m)"
    using assms(1) by (auto simp: cluster_seed_def Let_def rbind_eq_Inr)
  have "labelled a l ! m \<in> set (labelled a l)" using select_medoid_bound [OF m] by simp
  then have "sd_representative s \<in> set (sd_members s)" by (simp add: s)
  then show ?thesis using assms(2) by (auto simp: s(1) labelled_bound)
qed

lemma build_seeds_members:
  assumes "build_candidate_seeds env records vectors a mn mx = Inr seeds" "s \<in> set seeds"
  shows "sd_representative s \<in> set (sd_members s) \<and> set (sd_members s) \<subseteq> set records"
proof -
  have len: "length (as_labels a) = length records"
    using assms(1) by (auto simp: build_candidate_seeds_def split: if_splits)
  from assms(1) obtain cs where cs: "list_all2 (\<lambda>l s. cluster_seed env mx records vectors a l = Inr s) (cluster_labels a) cs"
    "seeds = cs @ map (noise_seed records a) (take (nat mn) (ranked_noise records a))"
    by (auto simp: build_candidate_seeds_def rbind_eq_Inr traverse_Inr split: if_splits)
  show ?thesis
  proof (cases "s \<in> set cs")
    case True
    then obtain l where "cluster_seed env mx records vectors a l = Inr s"
      using cs(1) by (auto simp: list_all2_conv_all_nth in_set_conv_nth)
    then show ?thesis using len by (rule cluster_seed_members)
  next
    case False
    then obtain i where "i \<in> set (ranked_noise records a)" "s = noise_seed records a i"
      using assms(2) cs(2) by (auto dest: in_set_takeD)
    then show ?thesis using len by (auto simp: noise_seed_def ranked_noise_def labelled_bound)
  qed
qed

lemma collect_seeds_ok:
  "collect_seeds env cfg c records matrix scopes w = (Inr seeds, w') \<Longrightarrow> \<forall>s \<in> set seeds. seed_ok records s"
proof (induction scopes arbitrary: w seeds w')
  case (Cons scope scopes)
  let ?idx = "feature_indices records scope"
  from Cons.prems obtain a seeds1 rest w1 w2 where
    b: "build_candidate_seeds env (map (\<lambda>i. records ! i) ?idx) (map (\<lambda>i. matrix ! i) ?idx) a (mc_max_noise cfg) (mc_max_examples cfg) = Inr seeds1"
    and r: "collect_seeds env cfg c records matrix scopes w1 = (Inr rest, w2)" and s: "seeds = seeds1 @ rest"
    by (auto simp: io_bind_eq_Inr Let_def)
  have idx: "r \<in> set records \<and> ir_scope r = scope" if "r \<in> set (map (\<lambda>i. records ! i) ?idx)" for r
    using that by (auto simp: feature_indices_def)
  have "seed_ok records x" if "x \<in> set seeds1" for x
    using build_seeds_members [OF b that] idx unfolding seed_ok_def by blast
  then show ?case using Cons.IH [OF r] s by auto
qed simp

lemma label_seeds_origin:
  "label_seeds env cfg c width seeds w = (Inr (cds, mgs), w') \<Longrightarrow>
     (\<forall>cd \<in> set cds. \<exists>s \<in> set seeds. \<exists>g. candidate_of_seed cfg width (seed_fingerprint env cfg s) s g = Inr cd)
     \<and> (\<forall>mg \<in> set mgs. \<exists>s \<in> set seeds. mg = merge_of (seed_fingerprint env cfg s) s)"
proof (induction seeds arbitrary: w cds mgs w')
  case (Cons s ss)
  let ?fp = "seed_fingerprint env cfg s"
  from Cons.prems consider
      (known) w1 mgs1 where "label_seeds env cfg c width ss w1 = (Inr (cds, mgs1), w')" "mgs = merge_of ?fp s # mgs1"
    | (failed) w1 where "label_seeds env cfg c width ss w1 = (Inr (cds, mgs), w')"
    | (labelled) w1 g cd cds1 where "candidate_of_seed cfg width ?fp s g = Inr cd"
        "label_seeds env cfg c width ss w1 = (Inr (cds1, mgs), w')" "cds = cd # cds1"
    by (auto simp: io_bind_eq_Inr Let_def split: if_splits option.splits)
  then show ?case
  proof cases
    case known
    with Cons.IH [OF known(1)] show ?thesis by auto
  next
    case failed
    with Cons.IH [OF failed(1)] show ?thesis by auto
  next
    case labelled
    with Cons.IH [OF labelled(2)] show ?thesis by auto
  qed
qed simp

text \<open>Every case that is prepared for persistence satisfies the contract of its table, is about the prompt
  and scope of one of the run's records, carries the fingerprint of exactly that prompt and scope, lists
  members of that scope only, among them its representative, and is promoted exactly if its confidence
  reaches the threshold.\<close>
theorem prepared_cases_gated:
  assumes "build_candidates env cfg c records matrix w = (Inr (prepared, merges), w')" "cd \<in> set prepared"
  shows "valid_case cd \<and> (cd_status cd = Promoted) = (mc_promotion cfg \<le> cd_confidence cd)
    \<and> cd_fingerprint cd = source_fingerprint env (mc_version cfg) (cd_scope cd) (cd_input cd)
    \<and> cd_representative cd \<in> set (cd_members cd)
    \<and> (\<exists>r \<in> set records. ir_trace r = cd_representative cd \<and> ir_scope r = cd_scope cd \<and> ir_prompt r = cd_input cd)
    \<and> (\<forall>t \<in> set (cd_members cd). \<exists>r \<in> set records. ir_trace r = t \<and> ir_scope r = cd_scope cd)"
proof -
  have "records \<noteq> []" using assms by (auto simp: build_candidates_def)
  with assms(1) obtain seeds w1 where
    c: "collect_seeds env cfg c records matrix (feature_scopes records) w = (Inr seeds, w1)"
    and l: "label_seeds env cfg c (length (hd matrix)) seeds w1 = (Inr (prepared, merges), w')"
    by (auto simp: build_candidates_def io_bind_eq_Inr split: if_splits)
  from label_seeds_origin [OF l] assms(2) obtain s g where s: "s \<in> set seeds"
    and cd: "candidate_of_seed cfg (length (hd matrix)) (seed_fingerprint env cfg s) s g = Inr cd" by blast
  have ok: "seed_ok records s" using collect_seeds_ok [OF c] s by blast
  have fields: "cd_scope cd = ir_scope (sd_representative s)" "cd_input cd = ir_prompt (sd_representative s)"
    "cd_representative cd = ir_trace (sd_representative s)" "cd_members cd = map ir_trace (sd_members s)"
    "cd_fingerprint cd = seed_fingerprint env cfg s" "valid_case cd"
    "(cd_status cd = Promoted) = (mc_promotion cfg \<le> cd_confidence cd)"
    using cd by (auto simp: candidate_of_seed_def Let_def split: if_splits)
  have rep: "sd_representative s \<in> set (sd_members s)" "set (sd_members s) \<subseteq> set records"
    and same: "\<And>r. r \<in> set (sd_members s) \<Longrightarrow> ir_scope r = cd_scope cd"
    using ok unfolding seed_ok_def fields(1) by blast+
  show ?thesis
  proof (intro conjI)
    show "cd_fingerprint cd = source_fingerprint env (mc_version cfg) (cd_scope cd) (cd_input cd)"
      by (simp only: fields seed_fingerprint_def)
    show "cd_representative cd \<in> set (cd_members cd)" using rep(1) by (simp only: fields(3,4) set_map imageI)
    show "\<exists>r \<in> set records. ir_trace r = cd_representative cd \<and> ir_scope r = cd_scope cd \<and> ir_prompt r = cd_input cd"
      by (rule bexI [of _ "sd_representative s"]) (use rep fields(1-3) in auto)
    show "\<forall>t \<in> set (cd_members cd). \<exists>r \<in> set records. ir_trace r = t \<and> ir_scope r = cd_scope cd"
      using rep(2) same unfolding fields(4) by (metis image_iff set_map subsetD)
  qed (rule fields)+
qed

section \<open>Examples\<close>

definition ex_reference :: reference_answer where
  "ex_reference = \<lparr>ra_expected = \<lparr>eo_answer = ''a'', eo_criteria = [(''c'', True)], eo_behavior = Answer, eo_pattern = ''p''\<rparr>,
     ra_difficulty = Simple, ra_confidence = 9 / 10\<rparr>"

definition ex_menv :: miner_env where
  "ex_menv = \<lparr>me_nfkc = id, me_sha256 = (\<lambda>_. replicate 64 (CHR ''a'')),
     me_embed = (\<lambda>n xs. Inr (map (\<lambda>_. [Some 1]) xs)), me_generate = (\<lambda>n s p xs. Inr ex_reference),
     me_cluster = hdbscan_cluster 3 (\<lambda>_. Inl (ValueError, ''too few samples'')), me_status = (\<lambda>_. None), me_now = 100\<rparr>"

definition ex_mconfig :: miner_config where
  "ex_mconfig = \<lparr>mc_window_days = 30, mc_retention_days = 30, mc_score_threshold = 4, mc_max_noise = 20,
     mc_max_examples = 3, mc_promotion = 4 / 5, mc_version = ''1.0'', mc_lease_name = ''production-log-miner'',
     mc_lease_ttl = 300, mc_heartbeat = 60, mc_input_version = ''v1'', mc_provider_type = ''E'',
     mc_provider_name = ''e'', mc_model = ''m'', mc_generator_type = ''G'', mc_reference_model = None,
     mc_clustering = []\<rparr>"

definition ex_mworld :: "miner_db \<Rightarrow> (event list \<times> exn option) list \<Rightarrow> mine_world" where
  "ex_mworld db sched = \<lparr>mw_db = db, mw_lost = False, mw_beat = None, mw_sched = sched, mw_calls = 0,
     mw_counts = empty_counts\<rparr>"

text \<open>Another worker claims the lease before this run does, and then the connection is lost.\<close>

definition ex_sched :: "(event list \<times> exn option) list" where
  "ex_sched = [([Meanwhile (ClaimOp ''production-log-miner'' 5 0 10 []), Meanwhile (TickOp 1)], None),
     ([], Some (ConnectionError, ''closed''))]"

lemma ex_mworld_facts: "good_sched (ex_mworld empty_db ex_sched)" "consistent (mw_db (ex_mworld empty_db ex_sched))"
  by (auto simp: good_sched_def ex_mworld_def ex_sched_def consistent_def empty_db_audit empty_db_cases)

lemma run_is_repository_ops_witness:
  "audit_ok (mw_db (snd (run_once ex_menv ex_mconfig (ex_mworld empty_db ex_sched))))"
  using run_is_repository_ops [OF ex_mworld_facts] by blast

lemma run_once_reports_witness:
  "\<exists>s w'. run_once ex_menv ex_mconfig (ex_mworld empty_db ex_sched) = (Inr s, w') \<and> sm_status s \<noteq> RunRunning"
  using run_once_reports [OF ex_mworld_facts, of ex_menv ex_mconfig] by (fastforce simp: reported_def)

definition ex_record :: "str \<Rightarrow> str \<Rightarrow> interaction_record" where
  "ex_record tid prompt = \<lparr>ir_trace = tid, ir_scope = ''rag'', ir_prompt = prompt, ir_fingerprint = None, ir_scores = [],
     ir_min_score = Some 2, ir_status = None, ir_negative = False, ir_created = 5\<rparr>"

definition ex_assignments :: assignments where
  "ex_assignments = \<lparr>as_labels = [0, 0, - 1], as_scores = [Some 0, None, Some 1]\<rparr>"

definition ex_seed_records :: "interaction_record list" where
  "ex_seed_records = [ex_record ''t1'' ''p1'', ex_record ''t2'' ''p2'', ex_record ''t3'' ''p3'']"


lemma on_db_quiet: "mw_sched w = [] \<Longrightarrow> on_db q w = (case q (mw_db w) of (r, db') \<Rightarrow> (r, w\<lparr>mw_db := db'\<rparr>))"
  by (simp add: on_db_def settle_def)

lemma ask_quiet: "mw_sched w = [] \<Longrightarrow> ask f w = (f (mw_calls w), w\<lparr>mw_calls := Suc (mw_calls w)\<rparr>)"
  by (simp add: ask_def settle_def)

lemma active_quiet:
  "mw_sched w = [] \<Longrightarrow> \<not> mw_lost w \<Longrightarrow> owns c (mw_db w) \<Longrightarrow> ensure_active c w = (Inr (), w)"
  by (simp add: ensure_active_def on_db_quiet claim_is_active_def)

lemma ex_embed: "\<exists>m w'. embed_records ex_menv ex_mconfig ex_claim [ex_record ''t1'' ''p1''] (ex_mworld ex_claimed []) = (Inr m, w')"
proof -
  let ?fp = "replicate 64 (CHR ''a'')"
  have cache: "db_cache ex_claimed = []" by code_simp
  have unit: "validate_embeddings [[Some 1]] (Some (Suc 0)) = Inr [[1]]"
    by (simp add: validate_embeddings_def unit_row_def vec_norm_def)
  have t: "canonical_prompts ex_menv [ex_record ''t1'' ''p1''] ([], []) = Inr ([(?fp, ''p1'')], [?fp])"
    by code_simp
  have env: "me_embed ex_menv n xs = Inr (map (\<lambda>_. [Some 1]) xs)" for n xs by (simp add: ex_menv_def)
  have fence: "assert_claim ex_claim ex_claimed = (Inr (), ex_claimed)" by (simp add: assert_claim_def ex_claimed_facts(2))
  show ?thesis
    by (simp add: embed_records_def t io_bind_def embed_unique_def Let_def active_quiet on_db_quiet ask_quiet env
      ex_mworld_def ex_claimed_facts(2) load_cached_embeddings_def cache group_rows_def rbind_def cached_vectors_def
      cached_vector_def embed_fingerprints_def unit widths_differ_def store_cached_embeddings_def owned_transaction
      transaction_def fence bump_def dict_update_def del: canonical_prompts.simps)
qed

lemma embed_records_rows_witness:
  "\<exists>m w'. embed_records ex_menv ex_mconfig ex_claim [ex_record ''t1'' ''p1''] (ex_mworld ex_claimed []) = (Inr m, w')
     \<and> length m = 1 \<and> mw_calls w' \<le> 2"
proof -
  obtain m w' where run: "embed_records ex_menv ex_mconfig ex_claim [ex_record ''t1'' ''p1''] (ex_mworld ex_claimed []) = (Inr m, w')"
    using ex_embed by blast
  with embed_records_rows [OF run] show ?thesis by (simp add: ex_mworld_def)
qed

lemma ex_prepared: "\<exists>cd w'. build_candidates ex_menv ex_mconfig ex_claim [ex_record ''t1'' ''p1''] [[1]] (ex_mworld ex_claimed [])
    = (Inr ([cd], []), w')"
proof -
  let ?r = "ex_record ''t1'' ''p1''"
  let ?s = "\<lparr>sd_representative = ?r, sd_members = [?r], sd_examples = [], sd_label = None, sd_noise = True, sd_outlier = Some 1\<rparr>"
  have scopes: "feature_scopes [?r] = [''rag'']" "feature_indices [?r] ''rag'' = [0]" by code_simp+
  have a: "me_cluster ex_menv [[1]] = Inr \<lparr>as_labels = [- 1], as_scores = [Some 1]\<rparr>"
    by (simp add: ex_menv_def hdbscan_cluster_def)
  have s: "build_candidate_seeds ex_menv [?r] [[1]] \<lparr>as_labels = [- 1], as_scores = [Some 1]\<rparr> 20 3 = Inr [?s]"
    by (simp add: build_candidate_seeds_def cluster_labels_def ranked_noise_def labelled_def noise_seed_def finite_outlier_def rbind_def)
  have lim: "mc_max_noise ex_mconfig = 20" "mc_max_examples ex_mconfig = 3" by (simp_all add: ex_mconfig_def)
  have g: "me_generate ex_menv n x y z = Inr ex_reference" for n x y z by (simp add: ex_menv_def)
  have new: "source_fingerprint_exists fp ex_claimed = (Inr False, ex_claimed)" for fp
  proof -
    have "db_candidates ex_claimed = []" "db_golden ex_claimed = []" by (code_simp, code_simp)
    then show ?thesis by (simp add: source_fingerprint_exists_def)
  qed
  have "\<exists>cd. candidate_of_seed ex_mconfig 1 (seed_fingerprint ex_menv ex_mconfig ?s) ?s ex_reference = Inr cd"
    by (simp add: candidate_of_seed_def Let_def valid_case_def valid_expected_def ex_reference_def ex_record_def
        seed_fingerprint_def source_fingerprint_def ex_menv_def)
  then obtain cd where cd: "candidate_of_seed ex_mconfig (Suc 0) (seed_fingerprint ex_menv ex_mconfig ?s) ?s ex_reference = Inr cd"
    by auto
  show ?thesis
    by (simp add: build_candidates_def scopes a s lim io_bind_def Let_def active_quiet on_db_quiet ask_quiet ex_mworld_def
        ex_claimed_facts(2) new generate_reference_def io_catch_def g cd)
qed

lemma prepared_cases_gated_witness:
  "\<exists>cd w'. build_candidates ex_menv ex_mconfig ex_claim [ex_record ''t1'' ''p1''] [[1]] (ex_mworld ex_claimed [])
     = (Inr ([cd], []), w') \<and> cd_scope cd = ''rag'' \<and> cd_representative cd \<in> set (cd_members cd)"
proof -
  obtain cd w' where run: "build_candidates ex_menv ex_mconfig ex_claim [ex_record ''t1'' ''p1''] [[1]] (ex_mworld ex_claimed [])
     = (Inr ([cd], []), w')" using ex_prepared by blast
  have "cd \<in> set [cd]" by simp
  from prepared_cases_gated [OF run this] run show ?thesis by (simp add: ex_record_def)
qed

end
