(* ===== verification/Regex.thy ===== *)
theory Regex
  imports Prelude
begin

text \<open>
  Python's \<open>re\<close>, as far as the repository uses it: a backtracking matcher that returns the ways to match in
  the order in which Python tries them, \<open>search\<close>, \<open>finditer\<close>, \<open>fullmatch\<close> and \<open>sub\<close> on top of it, and the
  declarative meaning of a pattern, which the matcher decides.
\<close>

section \<open>Patterns\<close>

text \<open>The text before the position, last character first; the text from the position on; the named groups.\<close>

type_synonym position = "str \<times> str \<times> str dict"

datatype regex =
    RSet "char \<Rightarrow> bool"
  | REps
  | RSeq regex regex
  | RAlt regex regex
  | RStar bool regex
  | RGroup str regex
  | RAssert "str \<Rightarrow> str \<Rightarrow> bool"

text \<open>A repetition tries a further round only if the last one consumed something, and it prefers more rounds
  if it is greedy.\<close>

function (sequential) matches :: "regex \<Rightarrow> position \<Rightarrow> position list" where
  "matches (RSet p) (pre, s, g) = (case s of [] \<Rightarrow> [] | c # cs \<Rightarrow> if p c then [(c # pre, cs, g)] else [])"
| "matches REps q = [q]"
| "matches (RSeq a b) q = concat (map (matches b) (matches a q))"
| "matches (RAlt a b) q = matches a q @ matches b q"
| "matches (RStar greedy r) (pre, s, g) =
     (let more = concat (map (\<lambda>(pre', s', g'). if length s' < length s then matches (RStar greedy r) (pre', s', g') else [])
            (matches r (pre, s, g)))
      in if greedy then more @ [(pre, s, g)] else (pre, s, g) # more)"
| "matches (RGroup n r) (pre, s, g) =
     map (\<lambda>(pre', s', g'). (pre', s', dict_set n (take (length s - length s') s) g')) (matches r (pre, s, g))"
| "matches (RAssert p) (pre, s, g) = (if p pre s then [(pre, s, g)] else [])"
  by pat_completeness auto

termination
  by (relation "measures [\<lambda>(r, q). size r, \<lambda>(r, q). length (fst (snd q))]") auto

declare matches.simps(5) [simp del]

section \<open>Searching\<close>

text \<open>The first match at or after a position: the position where it starts and the one where it ends. After an
  empty match the next one must not be empty where it starts at once.\<close>

fun search_from :: "bool \<Rightarrow> regex \<Rightarrow> str \<Rightarrow> str \<Rightarrow> (position \<times> position) option" where
  "search_from adv r pre s = (case filter (\<lambda>(p', s', g'). adv \<longrightarrow> length s' < length s) (matches r (pre, s, [])) of
     q # _ \<Rightarrow> Some ((pre, s, []), q)
   | [] \<Rightarrow> (case s of [] \<Rightarrow> None | c # cs \<Rightarrow> search_from False r (c # pre) cs))"

declare search_from.simps [simp del]

definition re_search :: "regex \<Rightarrow> str \<Rightarrow> str dict option" where
  "re_search r s = map_option (\<lambda>(q, (pre, rest, g)). g) (search_from False r [] s)"

definition re_match :: "regex \<Rightarrow> str \<Rightarrow> str dict option" where
  "re_match r s = (case matches r ([], s, []) of [] \<Rightarrow> None | (pre, rest, g) # _ \<Rightarrow> Some g)"

definition re_fullmatch :: "regex \<Rightarrow> str \<Rightarrow> str dict option" where
  "re_fullmatch r s = (case filter (\<lambda>(pre, rest, g). rest = []) (matches r ([], s, [])) of
     [] \<Rightarrow> None | (pre, rest, g) # _ \<Rightarrow> Some g)"

text \<open>The matches from left to right that do not overlap: \<open>segments\<close> splits a text into the pieces between the
  matches, the matches and their groups, and the rest.\<close>

function segments :: "bool \<Rightarrow> regex \<Rightarrow> str \<Rightarrow> str \<Rightarrow> (str \<times> str \<times> str dict) list \<times> str" where
  "segments adv r pre s = (case search_from adv r pre s of
     None \<Rightarrow> ([], s)
   | Some ((p1, s1, g1), (p2, s2, g2)) \<Rightarrow>
       if length s2 < length s \<or> length s2 = length s \<and> \<not> adv \<and> s1 = s2
       then (case segments (s1 = s2) r p2 s2 of (ms, tail) \<Rightarrow>
              ((take (length s - length s1) s, take (length s1 - length s2) s1, g2) # ms, tail))
       else ([], s))"
  by pat_completeness auto

termination
  by (relation "measures [\<lambda>(adv, r, pre, s). length s, \<lambda>(adv, r, pre, s). if adv then 0 else 1]") auto

declare segments.simps [simp del]

definition re_finditer :: "regex \<Rightarrow> str \<Rightarrow> (str \<times> str dict) list" where
  "re_finditer r s = map (\<lambda>(skipped, m, g). (m, g)) (fst (segments False r [] s))"

definition re_sub :: "regex \<Rightarrow> (str \<Rightarrow> str dict \<Rightarrow> str) \<Rightarrow> str \<Rightarrow> str" where
  "re_sub r f s = (case segments False r [] s of (ms, tail) \<Rightarrow>
     concat (map (\<lambda>(skipped, m, g). skipped @ f m g) ms) @ tail)"

definition group :: "str \<Rightarrow> str dict \<Rightarrow> str" where
  "group n g = (case map_of g n of None \<Rightarrow> [] | Some x \<Rightarrow> x)"

section \<open>Building patterns\<close>

definition word_char :: "char \<Rightarrow> bool" where
  "word_char c \<longleftrightarrow> (let n = (of_char c :: nat) in (48 \<le> n \<and> n \<le> 57) \<or> (65 \<le> n \<and> n \<le> 90) \<or> n = 95
     \<or> (97 \<le> n \<and> n \<le> 122) \<or> n \<in> {170, 178, 179, 181, 185, 186, 188, 189, 190}
     \<or> (192 \<le> n \<and> n \<noteq> 215 \<and> n \<noteq> 247))"

lemma word_char_code [code]: "word_char c \<longleftrightarrow> is_digit c \<or> is_upper_az c \<or> is_lower_az c \<or> c = CHR ''_'' \<or>
    (case c of Char b0 b1 b2 b3 b4 b5 b6 b7 \<Rightarrow> b7 \<and> (if b6 then \<not> (b4 \<and> \<not> b3 \<and> b2 \<and> b1 \<and> b0) else b5 \<and>
      (\<not> b4 \<and> b3 \<and> \<not> b2 \<and> b1 \<and> \<not> b0 \<or> b4 \<and> \<not> b3 \<and> (\<not> b2 \<and> b1 \<or> b2 \<and> \<not> b1 \<and> b0) \<or>
       b4 \<and> b3 \<and> (\<not> b2 \<and> \<not> b1 \<and> b0 \<or> \<not> b2 \<and> b1 \<and> \<not> b0 \<or> b2 \<and> \<not> (b1 \<and> b0)))))"
proof (cases c)
  case (Char b0 b1 b2 b3 b4 b5 b6 b7)
  show ?thesis unfolding Char
  by (cases b0; cases b1; cases b2; cases b3; cases b4; cases b5; cases b6; cases b7) (simp_all add: is_digit_def is_upper_az_def is_lower_az_def word_char_def)
qed

definition word_at :: "str \<Rightarrow> bool" where
  "word_at s \<longleftrightarrow> (case s of [] \<Rightarrow> False | c # _ \<Rightarrow> word_char c)"

abbreviation r_chr :: "char \<Rightarrow> regex" where "r_chr c \<equiv> RSet (\<lambda>x. x = c)"
abbreviation r_ichr :: "char \<Rightarrow> regex" where "r_ichr c \<equiv> RSet (\<lambda>x. lower_char x = lower_char c)"
abbreviation r_of :: "str \<Rightarrow> regex" where "r_of cs \<equiv> RSet (\<lambda>x. x \<in> set cs)"
abbreviation r_not :: "str \<Rightarrow> regex" where "r_not cs \<equiv> RSet (\<lambda>x. x \<notin> set cs)"
abbreviation r_digit :: regex where "r_digit \<equiv> RSet is_digit"
abbreviation r_space :: regex where "r_space \<equiv> RSet is_space"

text \<open>The dot.\<close>

abbreviation r_any :: regex where "r_any \<equiv> RSet (\<lambda>x. x \<noteq> CHR 0x0A)"

fun r_seq :: "regex list \<Rightarrow> regex" where
  "r_seq [] = REps"
| "r_seq [r] = r"
| "r_seq (r # rs) = RSeq r (r_seq rs)"

fun r_alt :: "regex list \<Rightarrow> regex" where
  "r_alt [] = RSet (\<lambda>_. False)"
| "r_alt [r] = r"
| "r_alt (r # rs) = RAlt r (r_alt rs)"

definition r_text :: "str \<Rightarrow> regex" where
  "r_text s = r_seq (map r_chr s)"

definition r_itext :: "str \<Rightarrow> regex" where
  "r_itext s = r_seq (map r_ichr s)"

abbreviation r_many :: "regex \<Rightarrow> regex" where "r_many r \<equiv> RStar True r"
abbreviation r_many_lazy :: "regex \<Rightarrow> regex" where "r_many_lazy r \<equiv> RStar False r"
abbreviation r_some :: "regex \<Rightarrow> regex" where "r_some r \<equiv> RSeq r (RStar True r)"
abbreviation r_some_lazy :: "regex \<Rightarrow> regex" where "r_some_lazy r \<equiv> RSeq r (RStar False r)"
abbreviation r_opt :: "regex \<Rightarrow> regex" where "r_opt r \<equiv> RAlt r REps"

fun r_times :: "nat \<Rightarrow> regex \<Rightarrow> regex" where
  "r_times 0 r = REps"
| "r_times (Suc n) r = RSeq r (r_times n r)"

text \<open>Between \<open>k\<close> and \<open>k + n\<close> rounds, more preferred.\<close>

fun r_upto :: "nat \<Rightarrow> regex \<Rightarrow> regex" where
  "r_upto 0 r = REps"
| "r_upto (Suc n) r = RAlt (RSeq r (r_upto n r)) REps"

definition r_between :: "nat \<Rightarrow> nat \<Rightarrow> regex \<Rightarrow> regex" where
  "r_between k m r = RSeq (r_times k r) (r_upto (m - k) r)"

definition r_least :: "nat \<Rightarrow> regex \<Rightarrow> regex" where
  "r_least k r = RSeq (r_times k r) (r_many r)"

abbreviation r_bound :: regex where "r_bound \<equiv> RAssert (\<lambda>pre s. word_at pre \<noteq> word_at s)"
abbreviation r_not_after :: "(char \<Rightarrow> bool) \<Rightarrow> regex" where
  "r_not_after p \<equiv> RAssert (\<lambda>pre s. pre = [] \<or> \<not> p (hd pre))"
abbreviation r_not_before :: "(char \<Rightarrow> bool) \<Rightarrow> regex" where
  "r_not_before p \<equiv> RAssert (\<lambda>pre s. s = [] \<or> \<not> p (hd s))"

text \<open>The dollar sign, and both anchors under \<open>re.MULTILINE\<close>.\<close>

abbreviation r_end :: regex where "r_end \<equiv> RAssert (\<lambda>pre s. s = [] \<or> s = [CHR 0x0A])"
abbreviation r_line_start :: regex where "r_line_start \<equiv> RAssert (\<lambda>pre s. pre = [] \<or> hd pre = CHR 0x0A)"
abbreviation r_line_end :: regex where "r_line_end \<equiv> RAssert (\<lambda>pre s. s = [] \<or> hd s = CHR 0x0A)"
abbreviation r_start :: regex where "r_start \<equiv> RAssert (\<lambda>pre s. pre = [])"

section \<open>What a pattern means\<close>

text \<open>The declarative meaning: how a position may advance, whatever the order of the attempts.\<close>

inductive advances :: "regex \<Rightarrow> position \<Rightarrow> position \<Rightarrow> bool" where
  set: "p c \<Longrightarrow> advances (RSet p) (pre, c # s, g) (c # pre, s, g)"
| eps: "advances REps q q"
| seq: "advances a q q1 \<Longrightarrow> advances b q1 q2 \<Longrightarrow> advances (RSeq a b) q q2"
| left: "advances a q q1 \<Longrightarrow> advances (RAlt a b) q q1"
| right: "advances b q q1 \<Longrightarrow> advances (RAlt a b) q q1"
| stop: "advances (RStar greedy r) q q"
| round: "advances r (pre, s, g) (pre1, s1, g1) \<Longrightarrow> length s1 < length s \<Longrightarrow>
    advances (RStar greedy r) (pre1, s1, g1) q2 \<Longrightarrow> advances (RStar greedy r) (pre, s, g) q2"
| group: "advances r (pre, s, g) (pre1, s1, g1) \<Longrightarrow>
    advances (RGroup n r) (pre, s, g) (pre1, s1, dict_set n (take (length s - length s1) s) g1)"
| assertion: "p pre s \<Longrightarrow> advances (RAssert p) (pre, s, g) (pre, s, g)"

inductive_cases advances_cases:
  "advances (RSet p) q q'" "advances REps q q'" "advances (RSeq a b) q q'" "advances (RAlt a b) q q'"
  "advances (RStar greedy r) q q'" "advances (RGroup n r) q q'" "advances (RAssert p) q q'"

lemma matches_star: "q' \<in> set (matches (RStar greedy r) (pre, s, g)) \<longleftrightarrow> q' = (pre, s, g) \<or>
    (\<exists>pre1 s1 g1. (pre1, s1, g1) \<in> set (matches r (pre, s, g)) \<and> length s1 < length s
       \<and> q' \<in> set (matches (RStar greedy r) (pre1, s1, g1)))"
proof -
  let ?f = "\<lambda>(pre', s', g'). if length s' < length s then matches (RStar greedy r) (pre', s', g') else []"
  have "q' \<in> set (concat (map ?f (matches r (pre, s, g)))) \<longleftrightarrow>
      (\<exists>pre1 s1 g1. (pre1, s1, g1) \<in> set (matches r (pre, s, g)) \<and> length s1 < length s
        \<and> q' \<in> set (matches (RStar greedy r) (pre1, s1, g1)))"
    by (fastforce split: if_splits)
  then show ?thesis unfolding matches.simps(5) [of greedy r pre s g] Let_def by auto
qed

lemma matches_sound: "q' \<in> set (matches r q) \<Longrightarrow> advances r q q'"
proof (induction r q arbitrary: q' rule: matches.induct)
  case (3 a b q)
  from 3(3) obtain q1 where q1: "q1 \<in> set (matches a q)" "q' \<in> set (matches b q1)"
    unfolding matches.simps set_concat set_map by blast
  then show ?case using 3(1) 3(2) [OF q1(1)] by (blast intro: advances.seq)
next
  case (5 greedy r pre s g)
  from 5(3) show ?case unfolding matches_star [of q' greedy r pre s g]
  proof (elim disjE exE conjE)
    fix pre1 s1 g1 assume m: "(pre1, s1, g1) \<in> set (matches r (pre, s, g))" "length s1 < length s"
      "q' \<in> set (matches (RStar greedy r) (pre1, s1, g1))"
    have "advances r (pre, s, g) (pre1, s1, g1)" by (rule 5(1) [OF m(1)])
    moreover have "advances (RStar greedy r) (pre1, s1, g1) q'" by (rule 5(2) [OF m(1) refl refl m(2,3)])
    ultimately show ?thesis using m(2) by (blast intro: advances.round)
  qed (simp add: advances.stop)
qed (auto intro: advances.intros split: list.splits if_splits)

lemma matches_complete: "advances r q q' \<Longrightarrow> q' \<in> set (matches r q)"
proof (induction rule: advances.induct)
  case (stop greedy r q)
  show ?case
  proof (cases q)
    case (fields pre s g)
    show ?thesis unfolding fields matches_star [of "(pre, s, g)" greedy r pre s g] by blast
  qed
next
  case (round r pre s g pre1 s1 g1 greedy q2)
  then show ?case unfolding matches_star [of q2 greedy r pre s g] by blast
next
  case (group r pre s g pre1 s1 g1 n)
  then show ?case by force
qed auto

theorem matches_advances: "q' \<in> set (matches r q) \<longleftrightarrow> advances r q q'"
  using matches_sound matches_complete by blast

section \<open>What searching finds\<close>

lemma advances_moves: "advances r q q' \<Longrightarrow> \<exists>m. fst (snd q) = m @ fst (snd q') \<and> fst q' = rev m @ fst q"
  by (induction rule: advances.induct) auto

lemma advances_consumes: "advances r (pre, s, g) (pre', s', g') \<Longrightarrow> \<exists>m. s = m @ s' \<and> pre' = rev m @ pre"
  using advances_moves by fastforce

lemma matches_consumes: "(pre', s', g') \<in> set (matches r (pre, s, g)) \<Longrightarrow> \<exists>m. s = m @ s' \<and> pre' = rev m @ pre"
  using matches_sound advances_consumes by blast

text \<open>No match starts at a position.\<close>

definition no_match :: "regex \<Rightarrow> str \<Rightarrow> str \<Rightarrow> bool" where
  "no_match r pre s \<longleftrightarrow> (\<forall>q. \<not> advances r (pre, s, []) q)"

lemma no_match_matches: "no_match r pre s \<longleftrightarrow> matches r (pre, s, []) = []"
proof -
  have "matches r (pre, s, []) = [] \<longleftrightarrow> (\<forall>q. q \<notin> set (matches r (pre, s, [])))" by (cases "matches r (pre, s, [])") auto
  then show ?thesis by (simp add: no_match_def matches_advances)
qed

text \<open>No match starts inside a piece of the text.\<close>

definition no_match_in :: "regex \<Rightarrow> str \<Rightarrow> str \<Rightarrow> str \<Rightarrow> bool" where
  "no_match_in r pre piece rest \<longleftrightarrow> (\<forall>u v. piece = u @ v \<longrightarrow> v \<noteq> [] \<longrightarrow> no_match r (rev u @ pre) (v @ rest))"

lemma no_match_in_Nil [simp]: "no_match_in r pre [] rest"
  by (simp add: no_match_in_def)

lemma no_match_in_Cons:
  "no_match_in r pre (c # piece) rest \<longleftrightarrow> no_match r pre (c # piece @ rest) \<and> no_match_in r (c # pre) piece rest"
proof
  assume all: "no_match_in r pre (c # piece) rest"
  have "no_match r (rev u @ c # pre) (v @ rest)" if "piece = u @ v" "v \<noteq> []" for u v
    using all that unfolding no_match_in_def by (metis append_Cons append_assoc append_Nil rev.simps(2))
  moreover have "no_match r (rev [] @ pre) ((c # piece) @ rest)"
    using all unfolding no_match_in_def by (metis append_Nil list.distinct(1))
  ultimately show "no_match r pre (c # piece @ rest) \<and> no_match_in r (c # pre) piece rest"
    by (simp add: no_match_in_def)
next
  assume split: "no_match r pre (c # piece @ rest) \<and> no_match_in r (c # pre) piece rest"
  show "no_match_in r pre (c # piece) rest"
    unfolding no_match_in_def
  proof (intro allI impI)
    fix u v assume uv: "c # piece = u @ v" "v \<noteq> []"
    show "no_match r (rev u @ pre) (v @ rest)"
    proof (cases u)
      case Nil
      with uv split show ?thesis by auto
    next
      case (Cons d u')
      with uv have "d = c" "piece = u' @ v" by simp_all
      with uv(2) split Cons show ?thesis by (simp add: no_match_in_def)
    qed
  qed
qed

lemma search_from_None: "search_from False r pre s = None \<Longrightarrow> no_match_in r pre s [] \<and> no_match r (rev s @ pre) []"
proof (induction s arbitrary: pre)
  case Nil
  then show ?case by (auto simp: search_from.simps [of False r pre "[]"] no_match_matches split: list.splits)
next
  case (Cons c cs)
  from Cons.prems have "matches r (pre, c # cs, []) = []" "search_from False r (c # pre) cs = None"
    by (auto simp: search_from.simps [of False r pre "c # cs"] split: list.splits)
  with Cons.IH [of "c # pre"] show ?case by (simp add: no_match_in_Cons no_match_matches)
qed

lemma search_from_Some:
  "search_from False r pre s = Some ((p1, s1, g1), q) \<Longrightarrow>
     g1 = [] \<and> q \<in> set (matches r (p1, s1, [])) \<and> (\<exists>sk. s = sk @ s1 \<and> p1 = rev sk @ pre \<and> no_match_in r pre sk s1)"
proof (induction s arbitrary: pre)
  case Nil
  then show ?case by (auto simp: search_from.simps [of False r pre "[]"] split: list.splits)
next
  case (Cons c cs)
  show ?case
  proof (cases "matches r (pre, c # cs, [])")
    case Nil
    with Cons.prems have "search_from False r (c # pre) cs = Some ((p1, s1, g1), q)"
      by (simp add: search_from.simps [of False r pre "c # cs"])
    from Cons.IH [OF this] obtain sk where sk: "g1 = []" "q \<in> set (matches r (p1, s1, []))" "cs = sk @ s1"
      "p1 = rev sk @ c # pre" "no_match_in r (c # pre) sk s1" by blast
    with Nil have "no_match_in r pre (c # sk) s1" by (simp add: no_match_in_Cons no_match_matches)
    with sk show ?thesis by (intro conjI exI [of _ "c # sk"]) simp_all
  next
    case (Cons q' qs)
    with Cons.prems show ?thesis by (simp add: search_from.simps [of False r pre "c # cs"])
  qed
qed

text \<open>A cut of a text along a pattern: kept pieces in which no match starts, and matches between them.\<close>

inductive cut :: "regex \<Rightarrow> str \<Rightarrow> (str \<times> str \<times> str dict) list \<Rightarrow> str \<Rightarrow> bool" where
  rest: "no_match_in r pre s [] \<Longrightarrow> cut r pre [] s"
| found: "no_match_in r pre sk (m @ s) \<Longrightarrow> advances r (rev sk @ pre, m @ s, []) (rev m @ rev sk @ pre, s, g) \<Longrightarrow> m \<noteq> [] \<Longrightarrow>
    cut r (rev m @ rev sk @ pre) ms tail \<Longrightarrow> s = concat (map (\<lambda>(a, b, g). a @ b) ms) @ tail \<Longrightarrow> cut r pre ((sk, m, g) # ms) tail"

text \<open>The least number of characters a match has; patterns that match no empty text.\<close>

fun min_length :: "regex \<Rightarrow> nat" where
  "min_length (RSet p) = 1"
| "min_length REps = 0"
| "min_length (RSeq a b) = min_length a + min_length b"
| "min_length (RAlt a b) = min (min_length a) (min_length b)"
| "min_length (RStar g r) = 0"
| "min_length (RGroup n r) = min_length r"
| "min_length (RAssert p) = 0"

lemma advances_min_length: "advances r q q' \<Longrightarrow> length (fst (snd q')) + min_length r \<le> length (fst (snd q))"
  by (induction rule: advances.induct) auto

definition consuming :: "regex \<Rightarrow> bool" where
  "consuming r \<longleftrightarrow> (\<forall>q q'. advances r q q' \<longrightarrow> length (fst (snd q')) < length (fst (snd q)))"

lemma consuming_min: "0 < min_length r \<Longrightarrow> consuming r"
  unfolding consuming_def using advances_min_length by fastforce

lemma consumingD: "consuming r \<Longrightarrow> advances r (p, s, g) (p', s', g') \<Longrightarrow> length s' < length s"
  unfolding consuming_def by (metis fst_conv snd_conv)

lemma consuming_search:
  assumes "consuming r"
  shows "search_from adv r pre s = search_from False r pre s"
proof -
  have "filter (\<lambda>(p', s', g'). adv \<longrightarrow> length s' < length s) (matches r (pre, s, [])) = matches r (pre, s, [])"
    using consumingD [OF assms] by (auto simp: filter_id_conv dest!: matches_sound)
  then show ?thesis by (simp add: search_from.simps [of _ r pre s])
qed

lemma segments_cut:
  assumes "consuming r" "segments adv r pre s = (ms, tail)"
  shows "cut r pre ms tail \<and> s = concat (map (\<lambda>(a, b, g). a @ b) ms) @ tail"
  using assms(2)
proof (induction s arbitrary: adv pre ms tail rule: length_induct)
  case (1 s)
  show ?case
  proof (cases "search_from False r pre s")
    case None
    with 1(2) search_from_None [OF None] show ?thesis
      unfolding segments.simps [of adv r pre s] consuming_search [OF assms(1), of adv] None by (auto intro: cut.rest)
  next
    case (Some x)
    obtain p1 s1 g1 p2 s2 g2 where x: "x = ((p1, s1, g1), (p2, s2, g2))" by (cases x) auto
    from search_from_Some [OF Some [unfolded x]] obtain sk where sk: "g1 = []" "(p2, s2, g2) \<in> set (matches r (p1, s1, []))"
      "s = sk @ s1" "p1 = rev sk @ pre" "no_match_in r pre sk s1" by blast
    from matches_consumes [OF sk(2)] obtain m where m: "s1 = m @ s2" "p2 = rev m @ p1" by blast
    have adv: "advances r (p1, s1, []) (p2, s2, g2)" by (rule matches_sound [OF sk(2)])
    then have "length s2 < length s1" by (rule consumingD [OF assms(1)])
    then have ne: "m \<noteq> []" using m(1) by auto
    obtain ms' tail' where seg: "segments (s1 = s2) r p2 s2 = (ms', tail')" by fastforce
    have len: "length s2 < length s" using sk(3) m(1) ne by simp
    with 1(1) seg have IH: "cut r p2 ms' tail'" "s2 = concat (map (\<lambda>(a, b, g). a @ b) ms') @ tail'" by blast+
    have "take (length s - length s1) s = sk" "take (length s1 - length s2) s1 = m" using sk(3) m(1) ne by simp_all
    then have "ms = (sk, m, g2) # ms' \<and> tail = tail'"
      using 1(2) len unfolding segments.simps [of adv r pre s] consuming_search [OF assms(1), of adv] Some x by (simp add: seg)
    moreover have "cut r pre ((sk, m, g2) # ms') tail'"
      by (rule cut.found) (use IH ne adv sk m in simp_all)
    ultimately show ?thesis using IH(2) sk(3) m(1) by simp
  qed
qed

lemma re_sub_cut:
  assumes "consuming r"
  obtains ms tail where "cut r [] ms tail" "s = concat (map (\<lambda>(a, m, g). a @ m) ms) @ tail"
    "re_sub r f s = concat (map (\<lambda>(a, m, g). a @ f m g) ms) @ tail"
proof -
  obtain ms tail where seg: "segments False r [] s = (ms, tail)" by fastforce
  from segments_cut [OF assms seg] have "cut r [] ms tail" "s = concat (map (\<lambda>(a, m, g). a @ m) ms) @ tail" by simp_all
  then show thesis by (rule that) (simp add: re_sub_def seg)
qed

lemma re_sub_unmatched:
  assumes "consuming r" "no_match_in r [] s []"
  shows "re_sub r f s = s"
proof -
  obtain ms tail where c: "cut r [] ms tail" "s = concat (map (\<lambda>(a, m, g). a @ m) ms) @ tail"
    "re_sub r f s = concat (map (\<lambda>(a, m, g). a @ f m g) ms) @ tail" by (rule re_sub_cut [OF assms(1)])
  from c(1) show ?thesis
  proof cases
    case rest
    with c show ?thesis by simp
  next
    case (found sk m s' g ms')
    have "\<not> no_match r (rev sk) (m @ s')" using found(3) by (auto simp: no_match_def)
    moreover have "s = sk @ m @ s'" using c(2) found by simp
    ultimately show ?thesis using assms(2) found(4) by (auto simp: no_match_in_def)
  qed
qed

section \<open>What groups hold\<close>

fun groupless :: "regex \<Rightarrow> bool" where
  "groupless (RSeq a b) \<longleftrightarrow> groupless a \<and> groupless b"
| "groupless (RAlt a b) \<longleftrightarrow> groupless a \<and> groupless b"
| "groupless (RStar g r) \<longleftrightarrow> groupless r"
| "groupless (RGroup n r) \<longleftrightarrow> False"
| "groupless r \<longleftrightarrow> True"

lemma advances_groupless: "advances r q q' \<Longrightarrow> groupless r \<Longrightarrow> snd (snd q') = snd (snd q)"
  by (induction rule: advances.induct) auto

lemma advances_group:
  assumes "advances (RGroup n r) (pre, s, g) (pre', s', g')" "groupless r"
  shows "\<exists>m. s = m @ s' \<and> pre' = rev m @ pre \<and> g' = dict_set n m g"
proof -
  from assms(1) obtain g1 where r: "advances r (pre, s, g) (pre', s', g1)" "g' = dict_set n (take (length s - length s') s) g1"
    by (auto elim: advances_cases)
  from advances_groupless [OF r(1) assms(2)] have "g1 = g" by simp
  with advances_consumes [OF r(1)] r(2) show ?thesis by auto
qed

text \<open>Whether a group can be set, and the pattern of a group that is always set.\<close>

fun sets :: "str \<Rightarrow> regex \<Rightarrow> bool" where
  "sets n (RSeq a b) \<longleftrightarrow> sets n a \<or> sets n b"
| "sets n (RAlt a b) \<longleftrightarrow> sets n a \<or> sets n b"
| "sets n (RStar g r) \<longleftrightarrow> sets n r"
| "sets n (RGroup k r) \<longleftrightarrow> k = n \<or> sets n r"
| "sets n r \<longleftrightarrow> False"

fun named :: "str \<Rightarrow> regex \<Rightarrow> regex option" where
  "named n (RSeq a b) = (if sets n b then named n b else named n a)"
| "named n (RGroup k r) = (if k = n \<and> groupless r then Some r else None)"
| "named n r = None"

lemma advances_not_sets: "advances r q q' \<Longrightarrow> \<not> sets n r \<Longrightarrow> map_of (snd (snd q')) n = map_of (snd (snd q)) n"
  by (induction rule: advances.induct) auto

text \<open>A text that a pattern matches somewhere.\<close>

definition matches_text :: "regex \<Rightarrow> str \<Rightarrow> bool" where
  "matches_text r m \<longleftrightarrow> (\<exists>p s g g'. advances r (p, m @ s, g) (rev m @ p, s, g'))"

lemma advances_matches_text: "advances r (p, s, g) (p', s', g') \<Longrightarrow> s = m @ s' \<Longrightarrow> matches_text r m"
  using advances_consumes unfolding matches_text_def by fastforce

lemma named_matches:
  "named n r = Some r' \<Longrightarrow> advances r q q' \<Longrightarrow> \<exists>m. map_of (snd (snd q')) n = Some m \<and> matches_text r' m"
proof (induction r arbitrary: q q')
  case (RSeq a b)
  from RSeq.prems(2) obtain q1 where q1: "advances a q q1" "advances b q1 q'" by (auto elim: advances_cases)
  show ?case
  proof (cases "sets n b")
    case True
    with RSeq q1 show ?thesis by simp
  next
    case False
    with RSeq q1 advances_not_sets [OF q1(2) False] show ?thesis by simp
  qed
next
  case (RGroup k r)
  then have k: "k = n" "groupless r" "r' = r" by (auto split: if_splits)
  obtain p s g p' s' g' where q: "q = (p, s, g)" "q' = (p', s', g')" by (metis prod_cases3)
  from RGroup.prems(2) [unfolded q] obtain g1 where r: "advances r (p, s, g) (p', s', g1)"
    "g' = dict_set k (take (length s - length s') s) g1" by (auto elim: advances_cases)
  from advances_consumes [OF r(1)] obtain m where "s = m @ s'" by blast
  with r k advances_matches_text [OF r(1)] show ?case by (simp add: q)
qed simp_all

text \<open>All characters of a match satisfy a predicate.\<close>

fun only :: "(char \<Rightarrow> bool) \<Rightarrow> regex \<Rightarrow> bool" where
  "only P (RSet p) \<longleftrightarrow> (\<forall>c. p c \<longrightarrow> P c)"
| "only P (RSeq a b) \<longleftrightarrow> only P a \<and> only P b"
| "only P (RAlt a b) \<longleftrightarrow> only P a \<and> only P b"
| "only P (RStar g r) \<longleftrightarrow> only P r"
| "only P (RGroup n r) \<longleftrightarrow> only P r"
| "only P r \<longleftrightarrow> True"

lemma advances_only: "advances r q q' \<Longrightarrow> only P r \<Longrightarrow> \<exists>m. fst (snd q) = m @ fst (snd q') \<and> (\<forall>c\<in>set m. P c)"
proof (induction rule: advances.induct)
  case (seq a q q1 b q2)
  then obtain m n where "fst (snd q) = m @ fst (snd q1)" "\<forall>c\<in>set m. P c" "fst (snd q1) = n @ fst (snd q2)" "\<forall>c\<in>set n. P c" by auto
  then show ?case by (intro exI [of _ "m @ n"]) auto
next
  case (round r pre s g pre1 s1 g1 greedy q2)
  then obtain m n where "s = m @ s1" "\<forall>c\<in>set m. P c" "s1 = n @ fst (snd q2)" "\<forall>c\<in>set n. P c" by auto
  then show ?case by (intro exI [of _ "m @ n"]) auto
qed auto

lemma matches_text_only: "matches_text r m \<Longrightarrow> only P r \<Longrightarrow> \<forall>c\<in>set m. P c"
  unfolding matches_text_def using advances_only by fastforce

lemma matches_text_min: "matches_text r m \<Longrightarrow> min_length r \<le> length m"
  unfolding matches_text_def using advances_min_length by fastforce

lemma matches_text_seqD: "matches_text (RSeq a b) m \<Longrightarrow> \<exists>x y. m = x @ y \<and> matches_text a x \<and> matches_text b y"
proof -
  assume "matches_text (RSeq a b) m"
  then obtain p s g g2 q where q: "advances a (p, m @ s, g) q" "advances b q (rev m @ p, s, g2)"
    unfolding matches_text_def by (auto elim: advances_cases)
  obtain p1 s1 g1 where q1: "q = (p1, s1, g1)" by (cases q)
  from advances_consumes [OF q(1) [unfolded q1]] obtain x where x: "m @ s = x @ s1" by blast
  from advances_consumes [OF q(2) [unfolded q1]] obtain y where y: "s1 = y @ s" by blast
  from x y have "m = x @ y" by simp
  with advances_matches_text [OF q(1) [unfolded q1] x] advances_matches_text [OF q(2) [unfolded q1] y] show ?thesis by blast
qed

lemma matches_text_alt: "matches_text (RAlt a b) m \<longleftrightarrow> matches_text a m \<or> matches_text b m"
  unfolding matches_text_def by (blast elim: advances_cases intro: advances.left advances.right)

lemma matches_text_eps [simp]: "matches_text REps m \<longleftrightarrow> m = []"
  unfolding matches_text_def by (auto elim!: advances_cases) (blast intro: advances.eps)

lemma matches_text_set: "matches_text (RSet p) m \<longleftrightarrow> (\<exists>c. m = [c] \<and> p c)"
  unfolding matches_text_def by (auto elim!: advances_cases) (blast intro: advances.set)

lemma re_search_advances: "re_search r s = Some g \<Longrightarrow> \<exists>q q'. advances r q q' \<and> snd (snd q') = g"
  unfolding re_search_def using search_from_Some matches_sound by fastforce

lemma cut_advances: "cut r pre ms tail \<Longrightarrow> (sk, m, g) \<in> set ms \<Longrightarrow>
    \<exists>q q'. advances r q q' \<and> snd (snd q') = g \<and> m \<noteq> [] \<and> matches_text r m"
proof (induction rule: cut.induct)
  case (found r pre sk' m' s g' ms tail)
  then show ?case using advances_matches_text by fastforce
qed simp

lemma re_finditer_advances:
  assumes "consuming r" "(m, g) \<in> set (re_finditer r s)"
  shows "\<exists>q q'. advances r q q' \<and> snd (snd q') = g"
proof -
  obtain ms tail where seg: "segments False r [] s = (ms, tail)" by fastforce
  with assms(2) obtain sk where "(sk, m, g) \<in> set ms" by (auto simp: re_finditer_def)
  with cut_advances segments_cut [OF assms(1) seg] show ?thesis by blast
qed

end
