(* ===== verification/Redactor.thy ===== *)
theory Redactor
  imports ProdLogs Regex
begin

text \<open>
  The prompt redactor of \<open>services-runtime/src/tracing/production_logs.py\<close>: the built-in patterns, the credential
  assignments, IPv6 addresses as the standard library's \<open>ipaddress\<close> parses them, and the patterns of a deployment,
  which are parameters, since they are given as text.
\<close>

section \<open>Patterns\<close>

abbreviation alnum :: "char \<Rightarrow> bool" where
  "alnum c \<equiv> is_lower_az c \<or> is_upper_az c \<or> is_digit c"

abbreviation r_sep :: regex where "r_sep \<equiv> r_opt (r_of '' .-'')"

definition bearer_rx :: regex where
  "bearer_rx = r_seq [r_bound, r_opt (r_seq [r_itext ''authorization'', r_many r_space, r_chr CHR '':'', r_many r_space]),
     r_itext ''bearer'', r_some r_space, r_least 8 (RSet (\<lambda>c. alnum c \<or> c \<in> set ''._~+/=-''))]"

definition api_key_rx :: regex where
  "api_key_rx = r_seq [r_bound, r_alt [r_text ''sk'', r_text ''pk''], r_chr CHR ''-'', r_opt (r_text ''proj-''),
     r_least 12 (RSet (\<lambda>c. alnum c \<or> c \<in> set ''_-'')), r_bound]"

definition plus_phone_rx :: regex where
  "plus_phone_rx = r_seq [r_not_after word_char, r_chr CHR ''+'', RSet (\<lambda>c. is_digit c \<and> c \<noteq> CHR ''0''),
     r_between 9 14 r_digit, r_not_before word_char]"

definition area_code_rx :: regex where
  "area_code_rx = r_seq [r_opt (r_chr CHR ''(''), r_times 3 r_digit, r_opt (r_chr CHR '')''), r_sep]"

definition phone_rx :: regex where
  "phone_rx = r_seq [r_not_after word_char, r_opt (r_seq [r_chr CHR ''1'', r_sep]), area_code_rx,
     r_times 3 r_digit, r_sep, r_times 4 r_digit, r_not_before word_char]"

definition payment_rx :: regex where
  "payment_rx = r_seq [r_not_after is_digit, r_between 12 18 (RSeq r_digit (r_opt (r_of '' -''))), r_digit, r_not_before is_digit]"

definition ssn_rx :: regex where
  "ssn_rx = r_seq [r_not_after is_digit, r_times 3 r_digit, r_of ''- '', r_times 2 r_digit, r_of ''- '', r_times 4 r_digit,
     r_not_before is_digit]"

definition ein_rx :: regex where
  "ein_rx = r_seq [r_not_after is_digit, r_times 2 r_digit, r_chr CHR ''-'', r_times 7 r_digit, r_not_before is_digit]"

definition email_rx :: regex where
  "email_rx = r_seq [r_bound, r_some (RSet (\<lambda>c. alnum c \<or> c \<in> set ''._%+-'')), r_chr CHR ''@'',
     r_some (RSet (\<lambda>c. alnum c \<or> c \<in> set ''.-'')), r_chr CHR ''.'', r_least 2 (RSet (\<lambda>c. is_lower_az c \<or> is_upper_az c)), r_bound]"

definition octet_rx :: regex where
  "octet_rx = r_alt [RSeq (r_text ''25'') (RSet (\<lambda>c. c \<in> set ''012345'')),
     r_seq [r_chr CHR ''2'', RSet (\<lambda>c. c \<in> set ''01234''), r_digit],
     r_seq [r_opt (r_chr CHR ''1''), r_opt r_digit, r_digit]]"

definition ipv4_rx :: regex where
  "ipv4_rx = RSeq (r_times 3 (RSeq octet_rx (r_chr CHR ''.''))) octet_rx"

definition ip_rx :: regex where
  "ip_rx = r_seq [r_bound, ipv4_rx, r_bound]"

definition spaced_phone_rx :: regex where
  "spaced_phone_rx = r_seq [r_not_after word_char,
     r_opt (r_seq [r_opt (r_chr CHR ''+''), r_between 1 3 r_digit, r_sep]), area_code_rx,
     r_times 3 r_digit, r_of '' .-'', r_times 4 r_digit, r_not_before word_char]"

definition built_ins :: "(str \<times> regex) list" where
  "built_ins = [(''CREDENTIAL'', bearer_rx), (''CREDENTIAL'', api_key_rx), (''PHONE'', plus_phone_rx), (''PHONE'', phone_rx),
     (''PAYMENT'', payment_rx), (''GOVERNMENT_ID'', ssn_rx), (''GOVERNMENT_ID'', ein_rx), (''EMAIL'', email_rx),
     (''IP_ADDRESS'', ip_rx), (''PHONE'', spaced_phone_rx)]"

definition secret_name_rx :: regex where
  "secret_name_rx = (let sep = r_opt (r_of ''-_ '') in
     r_alt [r_seq [r_itext ''api'', sep, r_itext ''key''], r_seq [r_itext ''access'', sep, r_itext ''token''],
       r_seq [r_itext ''client'', sep, r_itext ''secret''], r_itext ''password'', r_itext ''passwd'', r_itext ''secret''])"

definition quoted_rx :: "char \<Rightarrow> regex" where
  "quoted_rx q = r_seq [r_chr q, r_many (RAlt (RSeq (r_chr (CHR 0x5C)) r_any) (r_not [q, CHR 0x5C, CHR 0x0D, CHR 0x0A])), r_chr q]"

definition assignment_rx :: regex where
  "assignment_rx = RSeq
     (RGroup ''prefix'' (r_seq [r_alt [r_seq [r_chr CHR 0x22, secret_name_rx, r_chr CHR 0x22],
         r_seq [r_chr CHR 0x27, secret_name_rx, r_chr CHR 0x27], r_seq [r_bound, secret_name_rx, r_bound]],
       r_many r_space, r_of '':='', r_many r_space]))
     (RGroup ''value'' (r_alt [quoted_rx CHR 0x22, quoted_rx CHR 0x27,
       r_least 4 (RSet (\<lambda>c. \<not> is_space c \<and> c \<notin> set '',;}]''))]))"

abbreviation hex_char :: "char \<Rightarrow> bool" where
  "hex_char c \<equiv> is_digit c \<or> lower_char c \<in> set ''abcdef''"

abbreviation v6_edge :: "char \<Rightarrow> bool" where
  "v6_edge c \<equiv> alnum c \<or> c \<in> set ''_:''"

definition v6_head_rx :: regex where
  "v6_head_rx = RSeq (r_not_after v6_edge) (r_between 2 7 (RSeq (r_upto 4 (RSet hex_char)) (r_chr CHR '':'')))"

definition ipv6_rx :: regex where
  "ipv6_rx = r_seq [v6_head_rx, r_upto 4 (RSet hex_char), r_not_before v6_edge]"

definition ipv4_in_6_rx :: regex where
  "ipv4_in_6_rx = r_seq [v6_head_rx, ipv4_rx, r_not_before v6_edge]"

section \<open>Addresses\<close>

text \<open>\<open>ipaddress.IPv4Address\<close> and \<open>IPv6Address\<close> as predicates: whether the text is an address. The candidates hold
  neither a scope nor a slash.\<close>

definition ipv4_octet :: "str \<Rightarrow> bool" where
  "ipv4_octet o1 \<longleftrightarrow> o1 \<noteq> [] \<and> list_all is_digit o1 \<and> length o1 \<le> 3 \<and> (o1 = ''0'' \<or> hd o1 \<noteq> CHR ''0'') \<and> digits_value o1 \<le> 255"

definition ipv4_address :: "str \<Rightarrow> bool" where
  "ipv4_address s \<longleftrightarrow> (let os = split_on CHR ''.'' s in length os = 4 \<and> list_all ipv4_octet os)"

text \<open>The last part may be a dotted IPv4 address, which counts as two parts.\<close>

definition v6_parts :: "str \<Rightarrow> str list option" where
  "v6_parts s = (let parts = split_on CHR '':'' s in
     if length parts < 3 then None
     else if CHR ''.'' \<in> set (last parts)
     then (if ipv4_address (last parts) then Some (butlast parts @ [''0'', ''0'']) else None)
     else Some parts)"

definition hextet :: "str \<Rightarrow> bool" where
  "hextet p \<longleftrightarrow> p \<noteq> [] \<and> list_all hex_char p \<and> length p \<le> 4"

definition v6_layout :: "str list \<Rightarrow> bool" where
  "v6_layout parts \<longleftrightarrow> (let n = length parts; skips = filter (\<lambda>i. parts ! i = []) [1..<n - 1] in
     n \<le> 9 \<and>
     (case skips of
        [] \<Rightarrow> n = 8 \<and> list_all hextet parts
      | [i] \<Rightarrow>
          (let hi = (if hd parts = [] then i - 1 else i);
               lo = (if last parts = [] then n - i - 2 else n - i - 1)
           in (hd parts = [] \<longrightarrow> hi = 0) \<and> (last parts = [] \<longrightarrow> lo = 0) \<and> hi + lo < 8 \<and>
              list_all hextet (take hi parts) \<and> list_all hextet (drop (n - lo) parts))
      | _ \<Rightarrow> False))"

definition ipv6_address :: "str \<Rightarrow> bool" where
  "ipv6_address s \<longleftrightarrow> (case v6_parts s of None \<Rightarrow> False | Some parts \<Rightarrow> v6_layout parts)"

section \<open>Redaction\<close>

definition marker :: "str \<Rightarrow> str" where
  "marker label = ''[REDACTED_'' @ label @ '']''"

definition masked :: "str \<Rightarrow> str" where
  "masked v = (let mk = marker ''CREDENTIAL'' in if v \<noteq> [] \<and> hd v \<in> {CHR 0x22, CHR 0x27} then [hd v] @ mk @ [hd v] else mk)"

definition replace_assignment :: "str \<Rightarrow> str dict \<Rightarrow> str" where
  "replace_assignment m g = group ''prefix'' g @ masked (group ''value'' g)"

definition replace_ipv6 :: "str \<Rightarrow> str dict \<Rightarrow> str" where
  "replace_ipv6 m g = (if ipv6_address m then marker ''IP_ADDRESS'' else m)"

text \<open>A rule: its pattern and what replaces a match.\<close>

type_synonym rule = "regex \<times> (str \<Rightarrow> str dict \<Rightarrow> str)"

definition apply_rule :: "rule \<Rightarrow> str \<Rightarrow> str" where
  "apply_rule r s = re_sub (fst r) (snd r) s"

text \<open>A pattern of the deployment is ignored if it is invalid, which is \<open>None\<close>, or matches the empty text.\<close>

fun custom_rules :: "regex option list \<Rightarrow> rule list" where
  "custom_rules [] = []"
| "custom_rules (None # rs) = custom_rules rs"
| "custom_rules (Some r # rs) = (if re_match r [] \<noteq> None then custom_rules rs
     else (r, \<lambda>m g. marker ''CUSTOM'') # custom_rules rs)"

definition redactor_rules :: "regex option list \<Rightarrow> rule list" where
  "redactor_rules custom = (assignment_rx, replace_assignment) # (ipv4_in_6_rx, replace_ipv6) # (ipv6_rx, replace_ipv6)
     # map (\<lambda>(label, r). (r, \<lambda>m g. marker label)) built_ins @ custom_rules custom"

definition redact :: "regex option list \<Rightarrow> str \<Rightarrow> str" where
  "redact custom prompt = fold apply_rule (redactor_rules custom) prompt"

section \<open>What redaction does\<close>

text \<open>Every built-in pattern consumes text, so substitution is a cut of the text along the pattern.\<close>

lemma rules_min_length: "list_all (\<lambda>r. 0 < min_length (fst r)) (redactor_rules [])"
  by code_simp

lemma rule_consuming: "r \<in> set (redactor_rules []) \<Longrightarrow> consuming (fst r)"
  using rules_min_length consuming_min by (fastforce simp: list_all_iff)

lemma assignment_match:
  assumes "advances assignment_rx (pre, m @ s, []) (pre', s, g)"
  shows "m = group ''prefix'' g @ group ''value'' g"
proof -
  obtain r1 r2 where r: "assignment_rx = RSeq (RGroup ''prefix'' r1) (RGroup ''value'' r2)" "groupless r1 \<and> groupless r2"
    by (simp add: assignment_rx_def secret_name_rx_def quoted_rx_def r_itext_def r_least_def eval_nat_numeral Let_def)
  from assms [unfolded r(1)] obtain q where q: "advances (RGroup ''prefix'' r1) (pre, m @ s, []) q"
    "advances (RGroup ''value'' r2) q (pre', s, g)" by (auto elim: advances_cases)
  obtain p1 s1 g1 where q1: "q = (p1, s1, g1)" by (cases q)
  from advances_group [OF q(1) [unfolded q1]] r(2) obtain m1 where m1: "m @ s = m1 @ s1" "g1 = dict_set ''prefix'' m1 []" by auto
  from advances_group [OF q(2) [unfolded q1]] r(2) obtain m2 where m2: "s1 = m2 @ s" "g = dict_set ''value'' m2 g1" by auto
  from m1 m2 show ?thesis by (simp add: group_def)
qed

lemma apply_rule_cut:
  assumes "r \<in> set (redactor_rules [])"
  shows "\<exists>ms tail. cut (fst r) [] ms tail \<and> s = concat (map (\<lambda>(a, m, g). a @ m) ms) @ tail \<and>
    apply_rule r s = concat (map (\<lambda>(a, m, g). a @ snd r m g) ms) @ tail"
proof -
  obtain ms tail where "cut (fst r) [] ms tail" "s = concat (map (\<lambda>(a, m, g). a @ m) ms) @ tail"
    "re_sub (fst r) (snd r) s = concat (map (\<lambda>(a, m, g). a @ snd r m g) ms) @ tail"
    by (rule re_sub_cut [OF rule_consuming [OF assms]])
  then show ?thesis unfolding apply_rule_def by blast
qed

lemma apply_rule_unmatched: "r \<in> set (redactor_rules []) \<Longrightarrow> no_match_in (fst r) [] s [] \<Longrightarrow> apply_rule r s = s"
  unfolding apply_rule_def by (rule re_sub_unmatched [OF rule_consuming])

lemma fold_unmatched:
  "set rs \<subseteq> set (redactor_rules []) \<Longrightarrow> \<forall>r\<in>set rs. no_match_in (fst r) [] s [] \<Longrightarrow> fold apply_rule rs s = s"
  by (induction rs) (simp_all add: apply_rule_unmatched)


lemma cut_assignment: "cut assignment_rx pre ms tail \<Longrightarrow> \<forall>(a, m, g)\<in>set ms. m = group ''prefix'' g @ group ''value'' g"
proof (induction assignment_rx pre ms tail rule: cut.induct)
  case (found pre sk m s g ms tail)
  from assignment_match [OF found(2)] found(5) show ?case by simp
qed simp


lemma plain_text_unmatched: "\<forall>r\<in>set (redactor_rules []). no_match_in (fst r) [] ''Total: 42 EUR'' []"
proof -
  have "list_all (\<lambda>r. search_from False (fst r) [] ''Total: 42 EUR'' = None) (redactor_rules [])" by code_simp
  then show ?thesis using search_from_None by (fastforce simp: list_all_iff)
qed


lemma redact_example: "redact [] ''api_key = 'abc' from joe@x.org'' = ''api_key = '[REDACTED_CREDENTIAL]' from [REDACTED_EMAIL]''"
  by code_simp


text \<open>The names of credentials need a word boundary on both sides, which an underscore is not.\<close>

lemma redact_misses_prefixed_names: "redact [] ''DB_PASSWORD=hunter22'' = ''DB_PASSWORD=hunter22''"
  by code_simp

end
