(* ===== verification/Difflib.thy ===== *)
theory Difflib
  imports Prelude "HOL-Library.Sublist"
begin

text \<open>
  \<open>difflib.SequenceMatcher(None, a, b).ratio()\<close>, as \<open>services-runtime/src/ingestion/ocr.py\<close> uses it on two texts:
  the characters that are too popular to start a block, the longest matching block, its extension over popular
  characters, and the recursion to both sides of it. The number it counts is the length of a common subsequence.
\<close>

section \<open>Matching blocks\<close>

text \<open>A character of \<open>b\<close> is popular if \<open>b\<close> is long and it makes up more than about one percent of it.\<close>

definition popular :: "str \<Rightarrow> char \<Rightarrow> bool" where
  "popular b c \<longleftrightarrow> 200 \<le> length b \<and> length b div 100 + 1 < count_list b c"

text \<open>The lengths of the blocks that end at one character of \<open>a\<close> and each character of \<open>b\<close>, from those one
  character earlier.\<close>

fun next_row :: "(char \<Rightarrow> bool) \<Rightarrow> char \<Rightarrow> nat \<Rightarrow> str \<Rightarrow> nat list \<Rightarrow> nat list" where
  "next_row pop c diagonal (d # b) (l # ls) = (if c = d \<and> \<not> pop d then Suc diagonal else 0) # next_row pop c l b ls"
| "next_row pop c diagonal b ls = []"

fun best_in_row :: "nat \<Rightarrow> nat \<Rightarrow> nat list \<Rightarrow> nat \<times> nat \<times> nat \<Rightarrow> nat \<times> nat \<times> nat" where
  "best_in_row i j [] best = best"
| "best_in_row i j (k # ks) (bi, bj, bk) =
     best_in_row i (Suc j) ks (if bk < k then (Suc i - k, Suc j - k, k) else (bi, bj, bk))"

fun scan_rows :: "(char \<Rightarrow> bool) \<Rightarrow> str \<Rightarrow> nat \<Rightarrow> nat list \<Rightarrow> str \<Rightarrow> nat \<times> nat \<times> nat \<Rightarrow> nat \<times> nat \<times> nat" where
  "scan_rows pop b i row [] best = best"
| "scan_rows pop b i row (c # a) best =
     (let row' = next_row pop c 0 b row in scan_rows pop b (Suc i) row' a (best_in_row i 0 row' best))"

fun extend_left :: "str \<Rightarrow> str \<Rightarrow> nat \<Rightarrow> nat \<Rightarrow> nat \<Rightarrow> nat \<times> nat \<times> nat" where
  "extend_left a b (Suc i) (Suc j) k = (if a ! i = b ! j then extend_left a b i j (Suc k) else (Suc i, Suc j, k))"
| "extend_left a b i j k = (i, j, k)"

fun common_prefix :: "str \<Rightarrow> str \<Rightarrow> nat" where
  "common_prefix (c # s) (d # t) = (if c = d then Suc (common_prefix s t) else 0)"
| "common_prefix s t = 0"

text \<open>\<open>find_longest_match\<close>: where the block starts in \<open>a\<close> and \<open>b\<close>, and its length.\<close>

definition longest_match :: "(char \<Rightarrow> bool) \<Rightarrow> str \<Rightarrow> str \<Rightarrow> nat \<times> nat \<times> nat" where
  "longest_match pop a b =
     (case scan_rows pop b 0 (replicate (length b) 0) a (0, 0, 0) of (i, j, k) \<Rightarrow>
      case extend_left a b i j k of (i, j, k) \<Rightarrow> (i, j, k + common_prefix (drop (i + k) a) (drop (j + k) b)))"

section \<open>The longest block\<close>

text \<open>The block of characters that are not popular and end at \<open>i\<close> and \<open>j\<close>.\<close>

fun run :: "(char \<Rightarrow> bool) \<Rightarrow> str \<Rightarrow> str \<Rightarrow> nat \<Rightarrow> nat \<Rightarrow> nat" where
  "run pop a b i j = (if a ! i = b ! j \<and> \<not> pop (b ! j)
     then Suc (case (i, j) of (Suc i', Suc j') \<Rightarrow> run pop a b i' j' | _ \<Rightarrow> 0) else 0)"

declare run.simps [simp del]

lemma length_next_row [simp]: "length (next_row pop c p b ls) = min (length b) (length ls)"
  by (induction pop c p b ls rule: next_row.induct) simp_all

lemma nth_next_row: "j < length b \<Longrightarrow> length ls = length b \<Longrightarrow> next_row pop c p b ls ! j =
    (if c = b ! j \<and> \<not> pop (b ! j) then Suc (case j of 0 \<Rightarrow> p | Suc j' \<Rightarrow> ls ! j') else 0)"
  by (induction pop c p b ls arbitrary: j rule: next_row.induct) (auto simp: nth_Cons split: nat.splits)

definition row_of :: "(char \<Rightarrow> bool) \<Rightarrow> str \<Rightarrow> str \<Rightarrow> nat \<Rightarrow> nat list" where
  "row_of pop a b i = map (\<lambda>j. case i of 0 \<Rightarrow> 0 | Suc i' \<Rightarrow> run pop a b i' j) [0..<length b]"

lemma next_row_of: "i < length a \<Longrightarrow> next_row pop (a ! i) 0 b (row_of pop a b i) = row_of pop a b (Suc i)"
  by (rule nth_equalityI)
    (auto simp: row_of_def nth_next_row run.simps [of pop a b i] less_imp_diff_less split: nat.splits)

text \<open>Where the search has been, and that a triple is the first longest block there.\<close>

definition seen :: "str \<Rightarrow> nat \<Rightarrow> nat \<Rightarrow> nat \<Rightarrow> nat \<Rightarrow> bool" where
  "seen b i j i' j' \<longleftrightarrow> (i' < i \<and> j' < length b) \<or> (i' = i \<and> j' < j)"

definition first_longest :: "(char \<Rightarrow> bool) \<Rightarrow> str \<Rightarrow> str \<Rightarrow> nat \<Rightarrow> nat \<Rightarrow> nat \<times> nat \<times> nat \<Rightarrow> bool" where
  "first_longest pop a b i j q \<longleftrightarrow> (case q of (bi, bj, bk) \<Rightarrow>
     (\<forall>i' j'. seen b i j i' j' \<longrightarrow> run pop a b i' j' \<le> bk) \<and>
     (if bk = 0 then bi = 0 \<and> bj = 0
      else \<exists>ei ej. seen b i j ei ej \<and> run pop a b ei ej = bk \<and> bi = Suc ei - bk \<and> bj = Suc ej - bk \<and>
        (\<forall>i' j'. seen b ei ej i' j' \<longrightarrow> run pop a b i' j' < bk)))"

lemma seen_Suc: "seen b i (Suc j) i' j' \<longleftrightarrow> seen b i j i' j' \<or> (i' = i \<and> j' = j)"
  by (auto simp: seen_def)

lemma first_longest_step:
  assumes "first_longest pop a b i j (bi, bj, bk)"
  shows "first_longest pop a b i (Suc j)
    (if bk < run pop a b i j then (Suc i - run pop a b i j, Suc j - run pop a b i j, run pop a b i j) else (bi, bj, bk))"
proof (cases "bk < run pop a b i j")
  case True
  from assms have le: "\<forall>i' j'. seen b i j i' j' \<longrightarrow> run pop a b i' j' \<le> bk" by (simp add: first_longest_def)
  with True have less: "\<forall>i' j'. seen b i j i' j' \<longrightarrow> run pop a b i' j' < run pop a b i j" by (meson le_less_trans)
  then have "\<forall>i' j'. seen b i (Suc j) i' j' \<longrightarrow> run pop a b i' j' \<le> run pop a b i j"
    by (auto simp: seen_Suc intro: less_imp_le)
  moreover have "seen b i (Suc j) i j" by (simp add: seen_Suc)
  moreover have "run pop a b i j \<noteq> 0" using True by simp
  ultimately show ?thesis using True less unfolding first_longest_def by (simp, blast)
next
  case False
  have "\<forall>i' j'. seen b i (Suc j) i' j' \<longrightarrow> run pop a b i' j' \<le> bk"
    using False assms by (auto simp: first_longest_def seen_Suc)
  then show ?thesis using False assms unfolding first_longest_def by (auto simp: seen_Suc split: if_splits)
qed

lemma first_longest_row:
  "first_longest pop a b i j q \<Longrightarrow> j \<le> length b \<Longrightarrow>
     first_longest pop a b i (length b) (best_in_row i j (map (run pop a b i) [j..<length b]) q)"
proof (induction "length b - j" arbitrary: j q)
  case 0
  then show ?case by simp
next
  case (Suc n)
  obtain bi bj bk where q: "q = (bi, bj, bk)" by (cases q)
  from Suc(2) have "[j..<length b] = j # [Suc j..<length b]" by (simp add: upt_conv_Cons)
  moreover have "n = length b - Suc j" "Suc j \<le> length b" using Suc(2) by simp_all
  ultimately show ?case using Suc(1) [OF _ first_longest_step [OF Suc(3) [unfolded q]]] by (simp add: q)
qed

lemma first_longest_next: "first_longest pop a b i (length b) q \<Longrightarrow> first_longest pop a b (Suc i) 0 q"
proof -
  have eq: "seen b i (length b) = seen b (Suc i) 0" by (auto simp: fun_eq_iff seen_def less_Suc_eq)
  show "first_longest pop a b i (length b) q \<Longrightarrow> ?thesis" unfolding first_longest_def eq .
qed

lemma first_longest_scan:
  "first_longest pop a b i 0 q \<Longrightarrow> i \<le> length a \<Longrightarrow>
     first_longest pop a b (length a) 0 (scan_rows pop b i (row_of pop a b i) (drop i a) q)"
proof (induction "length a - i" arbitrary: i q)
  case 0
  then show ?case by simp
next
  case (Suc n)
  then have i: "i < length a" "n = length a - Suc i" "Suc i \<le> length a" by simp_all
  from i(1) have d: "drop i a = a ! i # drop (Suc i) a" by (simp add: Cons_nth_drop_Suc)
  have row: "row_of pop a b (Suc i) = map (run pop a b i) [0..<length b]" by (simp add: row_of_def)
  from first_longest_next [OF first_longest_row [OF Suc(3)]]
  have "first_longest pop a b (Suc i) 0 (best_in_row i 0 (row_of pop a b (Suc i)) q)" by (simp add: row)
  from Suc(1) [OF i(2) this i(3)] show ?case by (simp add: d next_row_of i(1) Let_def)
qed

lemma scan_rows_first_longest:
  "first_longest pop a b (length a) 0 (scan_rows pop b 0 (replicate (length b) 0) a (0, 0, 0))"
proof -
  have "first_longest pop a b 0 0 (0, 0, 0)" by (simp add: first_longest_def seen_def)
  from first_longest_scan [OF this] have "first_longest pop a b (length a) 0 (scan_rows pop b 0 (row_of pop a b 0) a (0, 0, 0))" by simp
  moreover have "row_of pop a b 0 = replicate (length b) 0" by (simp add: row_of_def map_replicate_const)
  ultimately show ?thesis by simp
qed

section \<open>What a block is\<close>

definition same_block :: "str \<Rightarrow> str \<Rightarrow> nat \<Rightarrow> nat \<Rightarrow> nat \<Rightarrow> bool" where
  "same_block a b i j k \<longleftrightarrow> i + k \<le> length a \<and> j + k \<le> length b \<and> take k (drop i a) = take k (drop j b)"

lemma run_le: "run pop a b i j \<le> Suc i \<and> run pop a b i j \<le> Suc j"
  by (induction pop a b i j rule: run.induct) (subst (1 2) run.simps, auto split: nat.splits)

lemma run_nth: "t < run pop a b i j \<Longrightarrow> a ! (i - t) = b ! (j - t) \<and> \<not> pop (b ! (j - t))"
proof (induction pop a b i j arbitrary: t rule: run.induct)
  case (1 pop a b i j)
  show ?case
  proof (cases "a ! i = b ! j \<and> \<not> pop (b ! j)")
    case True
    show ?thesis
    proof (cases t)
      case 0
      with True show ?thesis by simp
    next
      case (Suc t')
      with 1(2) True obtain i' j' where "i = Suc i'" "j = Suc j'" "t' < run pop a b i' j'"
        by (subst (asm) run.simps) (auto split: nat.splits)
      with 1(1) [OF True refl] True Suc show ?thesis by simp
    qed
  next
    case False
    with 1(2) show ?thesis by (subst (asm) run.simps) simp
  qed
qed

lemma run_block:
  assumes "i < length a" "j < length b"
  shows "same_block a b (Suc i - run pop a b i j) (Suc j - run pop a b i j) (run pop a b i j)"
proof -
  let ?k = "run pop a b i j"
  have le: "?k \<le> Suc i" "?k \<le> Suc j" using run_le by blast+
  have "take ?k (drop (Suc i - ?k) a) = take ?k (drop (Suc j - ?k) b)"
  proof (rule nth_equalityI)
    fix t assume "t < length (take ?k (drop (Suc i - ?k) a))"
    then have t: "t < ?k" by simp
    then have "?k - 1 - t < ?k" by simp
    from run_nth [OF this] have "a ! (i - (?k - 1 - t)) = b ! (j - (?k - 1 - t))" by blast
    moreover have "i - (?k - 1 - t) = Suc i - ?k + t" "j - (?k - 1 - t) = Suc j - ?k + t" using le t by linarith+
    ultimately show "take ?k (drop (Suc i - ?k) a) ! t = take ?k (drop (Suc j - ?k) b) ! t"
      using t le assms by simp
  qed (use le assms in simp)
  with le assms show ?thesis by (simp add: same_block_def)
qed

lemma scan_block: "scan_rows pop b 0 (replicate (length b) 0) a (0, 0, 0) = (i, j, k) \<Longrightarrow> same_block a b i j k"
  using scan_rows_first_longest [of pop a b] run_block [of _ a _ b pop]
  by (auto simp: first_longest_def same_block_def seen_def split: if_splits)

lemma extend_left_block:
  "same_block a b i j k \<Longrightarrow> extend_left a b i j k = (i', j', k') \<Longrightarrow>
     same_block a b i' j' k' \<and> k \<le> k' \<and> i' + k' = i + k \<and> j' + k' = j + k"
proof (induction a b i j k rule: extend_left.induct)
  case (1 a b i j k)
  show ?case
  proof (cases "a ! i = b ! j")
    case True
    from 1(2) have "Suc (i + k) \<le> length a" "Suc (j + k) \<le> length b" by (simp_all add: same_block_def)
    then have "drop i a = a ! i # drop (Suc i) a" "drop j b = b ! j # drop (Suc j) b" by (simp_all add: Cons_nth_drop_Suc)
    with True 1(2) have "same_block a b i j (Suc k)" by (simp add: same_block_def)
    with 1(1) 1(3) True show ?thesis by auto
  qed (use 1 in simp)
qed simp_all

lemma common_prefix_take: "take (common_prefix s t) s = take (common_prefix s t) t"
  by (induction s t rule: common_prefix.induct) simp_all

lemma common_prefix_le: "common_prefix s t \<le> length s \<and> common_prefix s t \<le> length t"
  by (induction s t rule: common_prefix.induct) simp_all

lemma longest_match_block: "longest_match pop a b = (i, j, k) \<Longrightarrow> same_block a b i j k"
proof -
  assume lm: "longest_match pop a b = (i, j, k)"
  obtain i1 j1 k1 where s: "scan_rows pop b 0 (replicate (length b) 0) a (0, 0, 0) = (i1, j1, k1)" by (metis prod_cases3)
  obtain i2 j2 k2 where e: "extend_left a b i1 j1 k1 = (i2, j2, k2)" by (metis prod_cases3)
  from extend_left_block [OF scan_block [OF s] e] have b: "same_block a b i2 j2 k2" by blast
  let ?c = "common_prefix (drop (i2 + k2) a) (drop (j2 + k2) b)"
  have "take (k2 + ?c) (drop i2 a) = take (k2 + ?c) (drop j2 b)"
    using b common_prefix_take [of "drop (i2 + k2) a" "drop (j2 + k2) b"]
    by (simp add: take_add same_block_def add.commute)
  then have "same_block a b i2 j2 (k2 + ?c)"
    using b common_prefix_le [of "drop (i2 + k2) a" "drop (j2 + k2) b"] by (simp add: same_block_def; linarith)
  moreover from lm have "i = i2" "j = j2" "k = k2 + ?c" by (auto simp: longest_match_def s e)
  ultimately show ?thesis by simp
qed


section \<open>The ratio\<close>

text \<open>The sum of the lengths of the matching blocks.\<close>

function matched :: "(char \<Rightarrow> bool) \<Rightarrow> str \<Rightarrow> str \<Rightarrow> nat" where
  "matched pop a b = (case longest_match pop a b of (i, j, k) \<Rightarrow>
     if k = 0 then 0
     else k + (if 0 < i \<and> 0 < j then matched pop (take i a) (take j b) else 0)
       + (if i + k < length a \<and> j + k < length b then matched pop (drop (i + k) a) (drop (j + k) b) else 0))"
  by pat_completeness auto

termination
  by (relation "measure (\<lambda>(pop, a, b). length a)") (auto dest!: longest_match_block [OF sym] simp: same_block_def)

declare matched.simps [simp del]

definition ratio :: "str \<Rightarrow> str \<Rightarrow> rat" where
  "ratio a b = (if length a + length b = 0 then 1
     else 2 * of_nat (matched (popular b) a b) / of_nat (length a + length b))"

lemma matched_subseq: "\<exists>s. subseq s a \<and> subseq s b \<and> length s = matched pop a b"
proof (induction pop a b rule: matched.induct)
  case (1 pop a b)
  obtain i j k where lm: "longest_match pop a b = (i, j, k)" by (metis prod_cases3)
  from longest_match_block [OF lm] have b: "i + k \<le> length a" "j + k \<le> length b" "take k (drop i a) = take k (drop j b)"
    by (simp_all add: same_block_def)
  show ?case
  proof (cases "k = 0")
    case True
    then show ?thesis by (intro exI [of _ "[]"]) (simp add: matched.simps [of pop a b] lm)
  next
    case False
    have "\<exists>s. subseq s (take i a) \<and> subseq s (take j b) \<and>
        length s = (if 0 < i \<and> 0 < j then matched pop (take i a) (take j b) else 0)"
      using 1(1) [OF lm [symmetric] refl False] by (cases "0 < i \<and> 0 < j") auto
    then obtain l where l: "subseq l (take i a)" "subseq l (take j b)"
      "length l = (if 0 < i \<and> 0 < j then matched pop (take i a) (take j b) else 0)" by blast
    have "\<exists>s. subseq s (drop (i + k) a) \<and> subseq s (drop (j + k) b) \<and> length s =
        (if i + k < length a \<and> j + k < length b then matched pop (drop (i + k) a) (drop (j + k) b) else 0)"
      using 1(2) [OF lm [symmetric] refl False] by (cases "i + k < length a \<and> j + k < length b") auto
    then obtain r where r: "subseq r (drop (i + k) a)" "subseq r (drop (j + k) b)" "length r =
        (if i + k < length a \<and> j + k < length b then matched pop (drop (i + k) a) (drop (j + k) b) else 0)" by blast
    have a: "a = take i a @ take k (drop i a) @ drop (i + k) a"
      by (metis add.commute append_take_drop_id drop_drop)
    have bb: "b = take j b @ take k (drop i a) @ drop (j + k) b"
      unfolding b(3) by (metis add.commute append_take_drop_id drop_drop)
    let ?s = "l @ take k (drop i a) @ r"
    have "subseq ?s a" by (subst a) (intro list_emb_append_mono l r subseq_order.refl)
    moreover have "subseq ?s b" by (subst bb) (intro list_emb_append_mono l r subseq_order.refl)
    moreover have "length ?s = matched pop a b" using False b(1) l(3) r(3) by (simp add: matched.simps [of pop a b] lm)
    ultimately show ?thesis by blast
  qed
qed

lemma matched_le: "matched pop a b \<le> length a \<and> matched pop a b \<le> length b"
  using matched_subseq [of a b pop] list_emb_length by fastforce

text \<open>A text against itself: the first longest block lies on the diagonal, and it extends to the whole text.\<close>

lemma run_self: "run pop a a i j \<le> run pop a a i i \<and> run pop a a i j \<le> run pop a a j j"
proof (induction i arbitrary: j)
  case 0
  show ?case by (subst (1 2 3 4) run.simps) simp
next
  case (Suc i)
  show ?case
  proof (cases j)
    case 0
    then show ?thesis by (subst (1 2 3 4) run.simps) simp
  next
    case (Suc j')
    with Suc.IH [of j'] show ?thesis by (subst (1 2 3 4) run.simps) simp
  qed
qed

lemma scan_self: "scan_rows pop a 0 (replicate (length a) 0) a (0, 0, 0) = (i, j, k) \<Longrightarrow> i = j"
proof -
  assume s: "scan_rows pop a 0 (replicate (length a) 0) a (0, 0, 0) = (i, j, k)"
  show "i = j"
  proof (cases "k = 0")
    case True
    with s scan_rows_first_longest [of pop a a] show ?thesis by (simp add: first_longest_def)
  next
    case False
    with s scan_rows_first_longest [of pop a a] obtain ei ej where e: "seen a (length a) 0 ei ej"
      "run pop a a ei ej = k" "i = Suc ei - k" "j = Suc ej - k" "\<forall>i' j'. seen a ei ej i' j' \<longrightarrow> run pop a a i' j' < k"
      by (auto simp: first_longest_def)
    have "\<not> seen a ei ej ei ei" "\<not> seen a ei ej ej ej" using e(2,5) run_self [of pop a ei ej] by (auto simp: not_less [symmetric])
    with e(1) have "ei = ej" by (auto simp: seen_def)
    with e(3,4) show ?thesis by simp
  qed
qed

lemma extend_left_self: "extend_left a a i i k = (0, 0, i + k)"
  by (induction i arbitrary: k) simp_all

lemma common_prefix_self [simp]: "common_prefix s s = length s"
  by (induction s) simp_all

lemma longest_match_self: "longest_match pop a a = (0, 0, length a)"
proof -
  obtain i j k where s: "scan_rows pop a 0 (replicate (length a) 0) a (0, 0, 0) = (i, j, k)" by (metis prod_cases3)
  from scan_self [OF s] have "i = j" .
  moreover from scan_block [OF s] have "i + k \<le> length a" by (simp add: same_block_def)
  ultimately show ?thesis by (simp add: longest_match_def s extend_left_self)
qed

lemma matched_self [simp]: "matched pop a a = length a"
  by (simp add: matched.simps [of pop a a] longest_match_self)

lemma ratio_alt: "a \<noteq> [] \<or> b \<noteq> [] \<Longrightarrow>
    ratio a b = of_nat (2 * matched (popular b) a b) / of_nat (length a + length b)"
  by (auto simp: ratio_def)

theorem ratio_bounds: "0 \<le> ratio a b \<and> ratio a b \<le> 1"
proof (cases "a = [] \<and> b = []")
  case False
  then have r: "ratio a b = of_nat (2 * matched (popular b) a b) / of_nat (length a + length b)" by (intro ratio_alt) auto
  have "2 * matched (popular b) a b \<le> length a + length b" using matched_le [of "popular b" a b] by linarith
  then have "(of_nat (2 * matched (popular b) a b) :: rat) \<le> of_nat (length a + length b)" by (rule of_nat_mono)
  moreover have "(0 :: rat) < of_nat (length a + length b)" using False by (simp only: of_nat_0_less_iff) auto
  ultimately show ?thesis unfolding r by (simp only: divide_le_eq_1_pos) simp
qed (simp add: ratio_def)

theorem ratio_one: "ratio a b = 1 \<longleftrightarrow> a = b"
proof (cases "a = [] \<and> b = []")
  case False
  then have r: "ratio a b = of_nat (2 * matched (popular b) a b) / of_nat (length a + length b)" by (intro ratio_alt) auto
  show ?thesis
  proof
    assume one: "ratio a b = 1"
    have "(of_nat (length a + length b) :: rat) \<noteq> 0" using False by (simp only: of_nat_eq_0_iff) auto
    with one have "(of_nat (2 * matched (popular b) a b) :: rat) = of_nat (length a + length b)"
      using r by (simp only: divide_eq_1_iff)
    then have "2 * matched (popular b) a b = length a + length b" by (simp only: of_nat_eq_iff)
    with matched_le [of "popular b" a b] have m: "matched (popular b) a b = length a" "length a = length b" by linarith+
    from matched_subseq [of a b "popular b"] obtain s where "subseq s a" "subseq s b" "length s = matched (popular b) a b" by blast
    with m have "s = a" "s = b" by (metis subseq_same_length)+
    then show "a = b" by simp
  next
    assume "a = b"
    with False show "ratio a b = 1" by (simp add: ratio_def)
  qed
qed (simp add: ratio_def)


text \<open>If all common characters are popular, only a common prefix can match.\<close>

lemma longest_match_popular:
  assumes "\<forall>c\<in>set a \<inter> set b. pop c"
  shows "longest_match pop a b = (0, 0, common_prefix a b)"
proof -
  obtain i j k where s: "scan_rows pop b 0 (replicate (length b) 0) a (0, 0, 0) = (i, j, k)" by (metis prod_cases3)
  have "run pop a b i' j' = 0" if "seen b (length a) 0 i' j'" for i' j'
  proof -
    from that have "i' < length a" "j' < length b" by (auto simp: seen_def)
    then have "a ! i' = b ! j' \<longrightarrow> pop (b ! j')" using assms nth_mem by (metis IntI)
    then show ?thesis by (subst run.simps) simp
  qed
  with s scan_rows_first_longest [of pop a b] have "k = 0 \<and> i = 0 \<and> j = 0"
    by (auto simp: first_longest_def split: if_splits)
  then show ?thesis by (simp add: longest_match_def s)
qed

lemma ratio_popular:
  assumes "\<forall>c\<in>set a \<inter> set b. popular b c" "common_prefix a b = 0" "a \<noteq> []"
  shows "ratio a b = 0"
  using assms by (simp add: ratio_def matched.simps [of "popular b" a b] longest_match_popular)

end
