(* ===== verification/Invoice.thy ===== *)
theory Invoice
  imports Regex
begin

text \<open>
  \<open>services-runtime/src/ingestion/extraction.py\<close> and \<open>validation.py\<close>: the offline invoice parser with its repairs of
  OCR text, the choice between it and the language model, and the arithmetic check of an extraction.
  A currency sign outside Latin-1 does not occur here, characters being code points below 256.
\<close>

section \<open>Amounts\<close>

definition sub_const :: "regex \<Rightarrow> str \<Rightarrow> str \<Rightarrow> str" where
  "sub_const r replacement s = re_sub r (\<lambda>m g. replacement) s"

definition currency_noise :: "char \<Rightarrow> bool" where
  "currency_noise c \<longleftrightarrow> c = CHR '','' \<or> c = CHR ''$'' \<or> c = CHR 0xA3 \<or> is_space c \<or> c = CHR ''_''"

definition clean_amount :: "str \<Rightarrow> str" where
  "clean_amount raw =
     (let cleaned = sub_const (RSet currency_noise) [] raw;
          cleaned = map (\<lambda>c. if c = CHR '':'' then CHR ''.'' else c) cleaned
      in strip_by (\<lambda>c. c = CHR ''.'') (sub_const (r_some (r_chr CHR ''.'')) ''.'' cleaned))"

definition ocr_float :: "str \<Rightarrow> rat result" where
  "ocr_float raw = (case parse_float (clean_amount raw) of
     None \<Rightarrow> Inl (ValueError, ''could not convert string to float'') | Some x \<Rightarrow> Inr x)"

section \<open>Repairs of OCR text\<close>

definition group_dot :: "str \<Rightarrow> str \<Rightarrow> str dict \<Rightarrow> str" where
  "group_dot start m g = start @ group ''1'' g @ ''.'' @ group ''2'' g"

definition invoice_id_gap :: regex where
  "invoice_id_gap = r_seq [r_itext ''INVOICE'', r_some (RSet (\<lambda>c. c = CHR '','' \<or> c = CHR ''_'' \<or> is_space c)), r_itext ''ID'']"

definition lineitem_gap :: regex where
  "lineitem_gap = r_seq [r_itext ''LINE'', r_many r_space, r_itext ''ITEM'', r_many r_space, r_chr CHR '':'']"

definition broken_description :: regex where
  "broken_description = r_seq [r_ichr CHR ''d'', r_many r_space, r_opt (r_ichr CHR ''e''), r_many r_space, r_itext ''scription'']"

definition qty_l :: regex where
  "qty_l = r_seq [r_itext ''qty'', r_many r_space, r_chr CHR ''='', r_many r_space, r_ichr CHR ''l'', r_bound]"

definition dots_between :: regex where
  "dots_between = r_seq [RGroup ''1'' r_digit, r_some (r_chr CHR ''.''), RGroup ''2'' r_digit]"

definition colon_cents :: "str \<Rightarrow> regex" where
  "colon_cents key = r_seq [r_itext key, r_chr CHR ''='', RGroup ''1'' (r_some r_digit), r_chr CHR '':'',
     RGroup ''2'' (r_times 2 r_digit), r_bound]"

definition underscore_cents :: regex where
  "underscore_cents = r_seq [r_itext ''total'', r_chr CHR ''='', RGroup ''1'' (r_some r_digit), r_chr CHR ''_'', r_many r_space,
     RGroup ''2'' (r_some (RSet (\<lambda>c. is_digit c \<or> c = CHR ''.'')))]"

definition description_sign :: regex where
  "description_sign = r_seq [r_itext ''description'', r_many r_space, r_of ''-='']"

definition normalize_ocr_text :: "str \<Rightarrow> str" where
  "normalize_ocr_text t =
     (let t = sub_const (RSet (\<lambda>c. 127 < (of_char c :: nat))) [] t;
          t = sub_const invoice_id_gap ''INVOICE_ID'' t;
          t = sub_const lineitem_gap ''LINEITEM:'' t;
          t = sub_const broken_description ''description'' t;
          t = sub_const qty_l ''qty=1'' t;
          t = re_sub dots_between (group_dot []) t;
          t = re_sub (colon_cents ''unit'') (group_dot ''unit='') t;
          t = re_sub (colon_cents ''total'') (group_dot ''total='') t;
          t = re_sub underscore_cents (group_dot ''total='') t;
          t = sub_const description_sign ''description='' t
      in sub_const (r_some (r_of [CHR '' '', CHR 0x09])) '' '' t)"

section \<open>Line items\<close>

definition amount_rx :: regex where
  "amount_rx = RSeq (r_some r_digit) (r_opt (RSeq (r_of ''.:'') (r_some r_digit)))"

definition line_rx :: regex where
  "line_rx = r_seq [r_itext ''LINEITEM'', r_many r_space, r_opt (r_chr CHR '':''), r_many r_space,
     r_itext ''description'', r_many r_space, r_chr CHR ''='', r_many r_space, RGroup ''description'' (r_some_lazy r_any), r_some r_space,
     r_itext ''qty'', r_many r_space, r_chr CHR ''='', r_many r_space,
     RGroup ''qty'' (r_some (RSet (\<lambda>c. lower_char c = CHR ''l'' \<or> is_digit c))), r_some r_space,
     r_itext ''unit'', r_many r_space, r_chr CHR ''='', r_many r_space, RGroup ''unit'' amount_rx,
     RAlt (r_seq [r_many r_space, r_opt (r_chr CHR ''.''), r_many r_space])
       (RSeq (r_some r_space) (r_many_lazy (RSet (\<lambda>c. \<not> is_digit c \<and> c \<noteq> CHR ''='')))),
     r_itext ''total'', r_many r_space, r_chr CHR ''='', r_many r_space, RGroup ''total'' amount_rx]"

definition cell_rx :: regex where
  "cell_rx = r_some (RSet (\<lambda>c. is_digit c \<or> c = CHR ''.'' \<or> c = CHR '',''))"

definition pipe_rx :: regex where
  "pipe_rx = r_seq [r_line_start, RGroup ''description'' (r_some (RSet (\<lambda>c. c \<noteq> CHR ''|''))), r_chr CHR ''|'', r_many r_space,
     RGroup ''qty'' (r_some r_digit), r_many r_space, r_chr CHR ''|'', r_many r_space, RGroup ''unit'' cell_rx, r_many r_space,
     r_chr CHR ''|'', r_many r_space, RGroup ''total'' cell_rx]"

definition one_for_l :: "char \<Rightarrow> char" where
  "one_for_l c = (if c = CHR ''l'' \<or> c = CHR ''L'' then CHR ''1'' else c)"

definition line_item :: "str \<Rightarrow> str \<Rightarrow> str dict \<Rightarrow> pyval dict result" where
  "line_item desc qty g =
     (case parse_int qty of None \<Rightarrow> Inl (ValueError, ''invalid literal for int()'') | Some q \<Rightarrow>
      rbind (ocr_float (group ''unit'' g)) (\<lambda>unit. rbind (ocr_float (group ''total'' g)) (\<lambda>total.
        Inr [(''description'', PStr desc), (''quantity'', PInt q), (''unit_price'', PFloat unit), (''total'', PFloat total)])))"

fun primary_items :: "(str \<times> str dict) list \<Rightarrow> pyval dict list result" where
  "primary_items [] = Inr []"
| "primary_items ((m, g) # ms) =
     rbind (line_item (strip (group ''description'' g)) (map one_for_l (group ''qty'' g)) g)
       (\<lambda>x. rbind (primary_items ms) (\<lambda>xs. Inr (x # xs)))"

definition header_cell :: "str \<Rightarrow> bool" where
  "header_cell desc \<longleftrightarrow> lower desc \<in> {''description'', ''item'', ''lineitem'', ''line item'', []}"

fun pipe_items :: "(str \<times> str dict) list \<Rightarrow> pyval dict list result" where
  "pipe_items [] = Inr []"
| "pipe_items ((m, g) # ms) =
     (let desc = strip (group ''description'' g)
      in if header_cell desc then pipe_items ms
         else rbind (line_item desc (group ''qty'' g) g) (\<lambda>x. rbind (pipe_items ms) (\<lambda>xs. Inr (x # xs))))"

definition extract_line_items :: "str \<Rightarrow> pyval dict list result" where
  "extract_line_items t = rbind (primary_items (re_finditer line_rx t)) (\<lambda>items.
     if items \<noteq> [] then Inr items else pipe_items (re_finditer pipe_rx t))"

section \<open>Extraction\<close>

record extraction =
  ex_vendor :: str
  ex_invoice_id :: str
  ex_items :: "pyval dict list"
  ex_tax :: rat
  ex_total :: rat

definition vendor_rx :: regex where
  "vendor_rx = r_seq [r_itext ''VENDOR'', r_many r_space, r_opt (r_chr CHR '':''), r_many r_space, RGroup ''1'' (r_some_lazy r_any),
     RAlt (r_chr CHR 0x0A) r_end]"

definition invoice_id_rx :: regex where
  "invoice_id_rx = r_seq [r_itext ''INVOICE'', r_opt (r_chr CHR ''_''), r_itext ''ID'', r_many r_space, r_opt (r_chr CHR '':''), r_many r_space,
     RGroup ''1'' (r_some (RSet (\<lambda>c. is_lower_az c \<or> is_upper_az c \<or> is_digit c \<or> c = CHR ''-'')))]"

definition labelled_amount :: "regex \<Rightarrow> str \<Rightarrow> regex" where
  "labelled_amount edge label = r_seq [edge, r_itext label, r_many r_space, r_opt (r_chr CHR '':''), r_many r_space, r_opt (r_chr CHR ''$''),
     RGroup ''1'' (r_seq [r_some (RSet (\<lambda>c. is_digit c \<or> c = CHR '','')), r_opt (r_chr CHR ''.''), r_many r_digit])]"

definition tax_rx :: regex where
  "tax_rx = labelled_amount r_bound ''TAX''"

definition total_rx :: regex where
  "total_rx = labelled_amount (r_not_after word_char) ''TOTAL''"

definition found_text :: "regex \<Rightarrow> str \<Rightarrow> str" where
  "found_text r t = (case re_search r t of None \<Rightarrow> ''UNKNOWN'' | Some g \<Rightarrow> strip (group ''1'' g))"

definition found_amount :: "regex \<Rightarrow> str \<Rightarrow> rat result" where
  "found_amount r t = (case re_search r t of None \<Rightarrow> Inr 0 | Some g \<Rightarrow> ocr_float (group ''1'' g))"

definition extract_with_regex :: "str \<Rightarrow> extraction result" where
  "extract_with_regex s =
     (let t = normalize_ocr_text s
      in rbind (found_amount tax_rx t) (\<lambda>tax. rbind (found_amount total_rx t) (\<lambda>total.
         rbind (extract_line_items t) (\<lambda>items.
         Inr \<lparr>ex_vendor = found_text vendor_rx t, ex_invoice_id = found_text invoice_id_rx t, ex_items = items,
           ex_tax = tax, ex_total = total\<rparr>))))"

definition score_of :: "extraction \<Rightarrow> nat" where
  "score_of e = (if ex_vendor e \<noteq> ''UNKNOWN'' then 10 else 0) + (if ex_invoice_id e \<noteq> ''UNKNOWN'' then 10 else 0)
     + length (ex_items e) * 20 + (if 0 < ex_tax e then 5 else 0) + (if 0 < ex_total e then 5 else 0)"

definition score_parseable_text :: "str \<Rightarrow> nat result" where
  "score_parseable_text t = rbind (extract_with_regex t) (\<lambda>e. Inr (score_of e))"

text \<open>The language model is consulted exactly when a key is configured; its failure is not repaired offline.\<close>

definition extract_structured :: "bool \<Rightarrow> (str \<Rightarrow> ('w, extraction) io) \<Rightarrow> str \<Rightarrow> ('w, extraction \<times> bool) io" where
  "extract_structured llm_available extract_with_llm t =
     (if llm_available then io_bind (extract_with_llm t) (\<lambda>e. io_return (e, True))
      else io_bind (io_lift (extract_with_regex t)) (\<lambda>e. io_return (e, False)))"

section \<open>Validation\<close>

record validation =
  va_passed :: bool
  va_computed :: rat
  va_delta :: rat
  va_tolerance :: rat

definition item_total :: "pyval dict \<Rightarrow> pyval" where
  "item_total item = (case map_of item ''total'' of None \<Rightarrow> PInt 0 | Some v \<Rightarrow> v)"

fun line_total :: "rat \<Rightarrow> pyval dict list \<Rightarrow> rat" where
  "line_total acc [] = acc"
| "line_total acc (item # items) =
     (case py_float (item_total item) of None \<Rightarrow> line_total acc items | Some x \<Rightarrow> line_total (acc + x) items)"

definition default_tolerance :: rat where
  "default_tolerance = 2 / 100"

definition validate_invoice_totals :: "extraction \<Rightarrow> rat \<Rightarrow> validation" where
  "validate_invoice_totals e tolerance =
     (let computed = py_round (line_total 0 (ex_items e) + ex_tax e) 6;
          delta = \<bar>computed - ex_total e\<bar>
      in \<lparr>va_passed = (delta \<le> tolerance), va_computed = py_round computed 4, va_delta = py_round delta 4, va_tolerance = tolerance\<rparr>)"

section \<open>Amounts parse\<close>

lemma segments_set:
  assumes "segments adv (RSet p) pre s = (ms, tail)"
  shows "concat (map (\<lambda>(skipped, m, g). skipped @ concat (map h m)) ms) @ tail = concat (map (\<lambda>c. if p c then h c else [c]) s)"
proof -
  have cons: "consuming (RSet p)" by (simp add: consuming_min)
  have free: "no_match_in (RSet p) pre sk rest \<Longrightarrow> concat (map (\<lambda>c. if p c then h c else [c]) sk) = sk" for pre sk rest
    by (induction sk arbitrary: pre) (auto simp: no_match_in_Cons no_match_matches)
  from segments_cut [OF cons assms] have c: "cut (RSet p) pre ms tail" "s = concat (map (\<lambda>(a, b, g). a @ b) ms) @ tail" by simp_all
  from c show ?thesis
  proof (induction "RSet p" pre ms tail arbitrary: s rule: cut.induct)
    case (rest pre s')
    then show ?case using free by simp
  next
    case (found pre sk m s' g ms tail)
    from found(2) have "matches_text (RSet p) m" by (rule advances_matches_text) simp
    then have "concat (map (\<lambda>c. if p c then h c else [c]) m) = concat (map h m)" by (auto simp: matches_text_set)
    with found(5) [OF found(6)] free [OF found(1)] found(6,7) show ?case by simp
  qed
qed

lemma re_sub_set: "re_sub (RSet p) (\<lambda>m g. concat (map h m)) s = concat (map (\<lambda>c. if p c then h c else [c]) s)"
  using segments_set [of False p "[]" s _ _ h] by (auto simp: re_sub_def split: prod.splits)

lemma sub_const_drop: "sub_const (RSet p) [] s = filter (\<lambda>c. \<not> p c) s"
proof -
  have "sub_const (RSet p) [] s = concat (map (\<lambda>c. if p c then [] else [c]) s)"
    using re_sub_set [of p "\<lambda>c. []" s] by (simp add: sub_const_def concat_eq_Nil_conv [THEN iffD2])
  moreover have "concat (map (\<lambda>c. if p c then [] else [c]) s) = filter (\<lambda>c. \<not> p c) s" by (induction s) simp_all
  ultimately show ?thesis by simp
qed

lemma sub_dots_single:
  assumes "count_list s CHR ''.'' \<le> 1"
  shows "sub_const (r_some (r_chr CHR ''.'')) ''.'' s = s"
proof -
  let ?r = "r_some (r_chr CHR ''.'')"
  have "consuming ?r" by (simp add: consuming_min)
  then obtain ms tail where c: "cut ?r [] ms tail" "s = concat (map (\<lambda>(a, m, g). a @ m) ms) @ tail"
    "re_sub ?r (\<lambda>m g. ''.'') s = concat (map (\<lambda>(a, m, g). a @ ''.'') ms) @ tail" by (rule re_sub_cut)
  have "m = ''.''" if "(sk, m, g) \<in> set ms" for sk m g
  proof -
    from cut_advances [OF c(1) that] have m: "m \<noteq> []" "matches_text ?r m" by blast+
    then have dots: "\<forall>x\<in>set m. x = CHR ''.''" by (intro matches_text_only [of ?r]) auto
    from split_list [OF that] obtain u v where "ms = u @ (sk, m, g) # v" by blast
    with c(2) assms have "count_list m CHR ''.'' \<le> 1" by simp
    moreover have "count_list m CHR ''.'' = length m" using dots by (induction m) simp_all
    ultimately show ?thesis using m(1) dots by (cases m) auto
  qed
  then have "map (\<lambda>(a, m, g). a @ ''.'') ms = map (\<lambda>(a, m, g). a @ m) ms" by auto
  with c show ?thesis by (simp add: sub_const_def)
qed

lemma digit_facts: "is_digit c \<Longrightarrow> \<not> currency_noise c \<and> c \<noteq> CHR '':'' \<and> c \<noteq> CHR ''.'' \<and> \<not> is_space c"
  by (cases c rule: char.exhaust) (auto simp: currency_noise_def is_digit_code is_space_code)

text \<open>Digits with thousands separators, and an optional separator of cents.\<close>

definition plain_amount :: "str \<Rightarrow> bool" where
  "plain_amount m \<longleftrightarrow> (\<exists>x y. (m = x \<or> m = x @ ''.'' @ y \<or> m = x @ '':'' @ y) \<and>
     (\<forall>c\<in>set x. is_digit c \<or> c = CHR '','') \<and> (\<forall>c\<in>set y. is_digit c))"

lemma strip_by_all: "\<forall>c\<in>set s. \<not> p c \<Longrightarrow> strip_by p s = s"
proof (cases "s = []")
  case False
  moreover assume "\<forall>c\<in>set s. \<not> p c"
  ultimately show ?thesis using hd_in_set [OF False] last_in_set [OF False] by (intro strip_by_id) blast+
qed (simp add: strip_by_def lstrip_by_def rstrip_by_def)

lemma strip_edge_dots:
  assumes "\<forall>c\<in>set x. c \<noteq> CHR ''.''" "\<forall>c\<in>set y. c \<noteq> CHR ''.''"
  shows "strip_by (\<lambda>c. c = CHR ''.'') (x @ ''.'' @ y) = (if x = [] then y else if y = [] then x else x @ ''.'' @ y)"
proof -
  have l: "lstrip_by (\<lambda>c. c = CHR ''.'') (x @ ''.'' @ y) = (if x = [] then y else x @ ''.'' @ y)"
    using assms by (cases x; cases y) (auto simp: lstrip_by_def)
  have r: "rstrip_by (\<lambda>c. c = CHR ''.'') (x @ ''.'') = x"
    using assms(1) by (cases x rule: rev_cases) (auto simp: rstrip_by_def)
  have id: "rstrip_by (\<lambda>c. c = CHR ''.'') z = z" if "z = [] \<or> last z \<noteq> CHR ''.''" for z
    using that by (cases "z = []") (auto simp: rstrip_by_id rstrip_by_empty)
  have "y \<noteq> [] \<Longrightarrow> last (x @ ''.'' @ y) \<noteq> CHR ''.''" "y \<noteq> [] \<Longrightarrow> last y \<noteq> CHR ''.''" using assms(2) by auto
  with l r id show ?thesis by (auto simp: strip_by_def)
qed

lemma parse_float_digits:
  assumes "\<forall>c\<in>set x. is_digit c" "x \<noteq> []"
  shows "parse_float x = Some (of_nat (digits_value x))"
proof -
  have "strip x = x" using assms digit_facts by (simp add: strip_def strip_by_all)
  moreover have "hd x \<noteq> CHR ''-''" "hd x \<noteq> CHR ''+''" using assms is_digit_code by (metis hd_in_set)+
  ultimately show ?thesis using assms by (cases x) (auto simp: parse_float_def parse_unsigned_float_def Let_def dropWhile_eq_Nil_conv [THEN iffD2]
        takeWhile_eq_all_conv [THEN iffD2])
qed

lemma parse_float_cents:
  assumes "\<forall>c\<in>set x. is_digit c" "x \<noteq> []" "\<forall>c\<in>set y. is_digit c"
  shows "parse_float (x @ ''.'' @ y) = Some (of_nat (digits_value (x @ y)) / 10 ^ length y)"
proof -
  have dot: "\<not> is_space CHR ''.''" "\<not> is_digit CHR ''.''" by code_simp+
  have "strip (x @ ''.'' @ y) = x @ ''.'' @ y" using assms digit_facts dot by (auto simp: strip_def intro!: strip_by_all)
  moreover have "hd x \<noteq> CHR ''-''" "hd x \<noteq> CHR ''+''" using assms is_digit_code by (metis hd_in_set)+
  moreover have "takeWhile is_digit (x @ ''.'' @ y) = x" "dropWhile is_digit (x @ ''.'' @ y) = ''.'' @ y"
    using assms(1) dot by (simp_all add: takeWhile_append dropWhile_append)
  ultimately show ?thesis using assms(2,3)
    by (cases x) (auto simp: parse_float_def parse_unsigned_float_def Let_def dropWhile_eq_Nil_conv [THEN iffD2]
        takeWhile_eq_all_conv [THEN iffD2])
qed

lemma clean_plain_amount:
  assumes "plain_amount m"
  shows "\<exists>x y. (clean_amount m = x \<or> x \<noteq> [] \<and> y \<noteq> [] \<and> clean_amount m = x @ ''.'' @ y) \<and> (\<forall>c\<in>set x. is_digit c) \<and>
    (\<forall>c\<in>set y. is_digit c) \<and> (clean_amount m = [] \<longleftrightarrow> (\<forall>c\<in>set m. \<not> is_digit c))"
proof -
  from assms obtain x y where m: "m = x \<or> m = x @ ''.'' @ y \<or> m = x @ '':'' @ y"
    "\<forall>c\<in>set x. is_digit c \<or> c = CHR '',''" "\<forall>c\<in>set y. is_digit c" unfolding plain_amount_def by blast
  let ?x = "filter is_digit x" and ?noise = "filter (\<lambda>c. \<not> currency_noise c)" and ?colon = "map (\<lambda>c. if c = CHR '':'' then CHR ''.'' else c)"
  have signs: "currency_noise CHR '',''" "\<not> currency_noise CHR ''.''" "\<not> currency_noise CHR '':''" "\<not> is_digit CHR '',''"
    "\<not> is_digit CHR ''.''" "\<not> is_digit CHR '':''" by code_simp+
  have keep: "?noise x = ?x" using m(2) signs digit_facts by (intro filter_cong) auto
  have x: "\<forall>c\<in>set ?x. is_digit c" by simp
  have nodot: "(\<forall>c\<in>set z. c \<noteq> CHR ''.'') \<and> ?colon z = z \<and> ?noise z = z" if z: "\<forall>c\<in>set z. is_digit c" for z
  proof (intro conjI)
    show "\<forall>c\<in>set z. c \<noteq> CHR ''.''" using z digit_facts by blast
    show "?colon z = z" using z digit_facts by (intro map_idI) auto
    show "?noise z = z" using z digit_facts by (intro filter_True) blast
  qed
  then have count: "count_list z CHR ''.'' = 0" if "\<forall>c\<in>set z. is_digit c" for z using that by (metis count_list_0_iff)
  show ?thesis
  proof (cases "m = x")
    case True
    have "?colon (?noise m) = ?x" unfolding True keep using nodot [OF x] by blast
    moreover have "count_list ?x CHR ''.'' \<le> 1" using count [OF x] by linarith
    moreover have "strip_by (\<lambda>c. c = CHR ''.'') ?x = ?x" using nodot [OF x] by (intro strip_by_all) blast
    ultimately have "clean_amount m = ?x" unfolding clean_amount_def sub_const_drop Let_def by (simp only: sub_dots_single)
    with True show ?thesis by (intro exI [of _ ?x] exI [of _ "[]"]) (auto simp: filter_empty_conv)
  next
    case False
    have y: "?noise y = y" "?colon y = y" "?colon ?x = ?x" using nodot [OF x] nodot [OF m(3)] by blast+
    from False m(1) have "?noise m = ?noise x @ ''.'' @ ?noise y \<or> ?noise m = ?noise x @ '':'' @ ?noise y" using signs by auto
    then have "?colon (?noise m) = ?colon ?x @ ''.'' @ ?colon y" unfolding keep y(1) by (elim disjE) simp_all
    then have "?colon (?noise m) = ?x @ ''.'' @ y" unfolding y(2,3) .
    moreover have "count_list (?x @ ''.'' @ y) CHR ''.'' \<le> 1" using count [OF x] count [OF m(3)] by simp
    ultimately have "clean_amount m = strip_by (\<lambda>c. c = CHR ''.'') (?x @ ''.'' @ y)"
      unfolding clean_amount_def sub_const_drop Let_def by (simp only: sub_dots_single)
    then have c: "clean_amount m = (if ?x = [] then y else if y = [] then ?x else ?x @ ''.'' @ y)"
      using strip_edge_dots [of ?x y] nodot [OF x] nodot [OF m(3)] by presburger
    have digits: "(\<forall>c\<in>set m. \<not> is_digit c) \<longleftrightarrow> ?x = [] \<and> y = []"
      using False m(1,3) signs by (cases y) (auto simp: filter_empty_conv)
    show ?thesis
    proof (cases "?x = []")
      case True
      with c digits m(3) show ?thesis by (intro exI [of _ y] exI [of _ "[]"]) simp
    next
      case xs: False
      with c digits m(3) show ?thesis by (intro exI [of _ ?x] exI [of _ y]) auto
    qed
  qed
qed

text \<open>Such an amount is read unless it has no digit at all.\<close>

lemma ocr_float_plain:
  assumes "plain_amount m"
  shows "if \<forall>c\<in>set m. \<not> is_digit c then ocr_float m = Inl (ValueError, ''could not convert string to float'')
    else \<exists>x\<ge>0. ocr_float m = Inr x"
proof -
  from clean_plain_amount [OF assms] obtain x y where c: "clean_amount m = x \<or> x \<noteq> [] \<and> y \<noteq> [] \<and> clean_amount m = x @ ''.'' @ y"
    "\<forall>c\<in>set x. is_digit c" "\<forall>c\<in>set y. is_digit c" "clean_amount m = [] \<longleftrightarrow> (\<forall>c\<in>set m. \<not> is_digit c)" by blast
  show ?thesis
  proof (cases "clean_amount m = []")
    case True
    have "parse_float [] = None" by code_simp
    with True c(4) show ?thesis by (simp add: ocr_float_def)
  next
    case False
    then have "\<exists>v\<ge>0. parse_float (clean_amount m) = Some v"
      using c(1-3) parse_float_digits [of x] parse_float_cents [of x y] by auto
    with False c(4) show ?thesis by (auto simp: ocr_float_def)
  qed
qed


section \<open>What the patterns capture\<close>

lemma digits_match: "matches_text (r_some r_digit) m \<Longrightarrow> m \<noteq> [] \<and> (\<forall>c\<in>set m. is_digit c)"
  using matches_text_only [of "r_some r_digit" m is_digit] matches_text_min [of "r_some r_digit" m] by auto

lemma amount_match: "matches_text amount_rx m \<Longrightarrow> plain_amount m \<and> \<not> (\<forall>c\<in>set m. \<not> is_digit c)"
proof -
  assume "matches_text amount_rx m"
  from matches_text_seqD [OF this [unfolded amount_rx_def]] obtain x y where
    xy: "m = x @ y" "matches_text (r_some r_digit) x" "matches_text (r_opt (RSeq (r_of ''.:'') (r_some r_digit))) y" by blast
  from digits_match [OF xy(2)] have x: "x \<noteq> []" "\<forall>c\<in>set x. is_digit c" by blast+
  from xy(3) have "y = [] \<or> matches_text (RSeq (r_of ''.:'') (r_some r_digit)) y"
    unfolding matches_text_alt matches_text_eps by blast
  then have "y = [] \<or> (\<exists>z. (y = ''.'' @ z \<or> y = '':'' @ z) \<and> (\<forall>c\<in>set z. is_digit c))"
  proof (elim disjE)
    assume "matches_text (RSeq (r_of ''.:'') (r_some r_digit)) y"
    from matches_text_seqD [OF this] obtain a z where "y = a @ z" "matches_text (r_of ''.:'') a" "matches_text (r_some r_digit) z" by blast
    with digits_match [of z] show ?thesis by (auto simp: matches_text_set)
  qed simp
  with x xy(1) have "plain_amount m" unfolding plain_amount_def by blast
  moreover have "hd x \<in> set m \<and> is_digit (hd x)" using x xy(1) by simp
  ultimately show ?thesis by blast
qed

lemma labelled_match: "matches_text (r_seq [r_some (RSet (\<lambda>c. is_digit c \<or> c = CHR '','')), r_opt (r_chr CHR ''.''), r_many r_digit]) m \<Longrightarrow>
    plain_amount m"
proof -
  let ?d = "RSet (\<lambda>c. is_digit c \<or> c = CHR '','')"
  assume "matches_text (r_seq [r_some ?d, r_opt (r_chr CHR ''.''), r_many r_digit]) m"
  then have "matches_text (RSeq (r_some ?d) (RSeq (r_opt (r_chr CHR ''.'')) (r_many r_digit))) m" by simp
  from matches_text_seqD [OF this] obtain x w where x: "m = x @ w" "matches_text (r_some ?d) x"
    "matches_text (RSeq (r_opt (r_chr CHR ''.'')) (r_many r_digit)) w" by blast
  from matches_text_seqD [OF x(3)] obtain d y where y: "w = d @ y" "d = [] \<or> d = ''.''" "matches_text (r_many r_digit) y"
    by (auto simp: matches_text_alt matches_text_set)
  have xs: "\<forall>c\<in>set x. is_digit c \<or> c = CHR '',''" by (rule matches_text_only [OF x(2)]) simp
  have ys: "\<forall>c\<in>set y. is_digit c" by (rule matches_text_only [OF y(3)]) simp
  from y(2) show ?thesis
  proof
    assume "d = []"
    with x(1) y(1) have "m = x @ y" by simp
    moreover have "\<forall>c\<in>set (x @ y). is_digit c \<or> c = CHR '',''" using xs ys by auto
    ultimately show ?thesis unfolding plain_amount_def by (metis empty_iff empty_set)
  next
    assume "d = ''.''"
    with x(1) y(1) have "m = x @ ''.'' @ y" by simp
    with xs ys show ?thesis unfolding plain_amount_def by blast
  qed
qed

lemma parse_digits_all: "\<forall>c\<in>set s. is_digit c \<Longrightarrow> s \<noteq> [] \<or> b \<Longrightarrow> \<exists>n. parse_digits acc b s = Some n"
  by (induction acc b s rule: parse_digits.induct) auto

lemma parse_int_digits:
  assumes "\<forall>c\<in>set s. is_digit c" "s \<noteq> []"
  shows "\<exists>n. parse_int s = Some (int n)"
proof -
  have "strip s = s" using assms digit_facts by (simp add: strip_def strip_by_all)
  moreover obtain c r where s: "s = c # r" using assms(2) by (cases s) auto
  moreover have "c \<noteq> CHR ''-''" "c \<noteq> CHR ''+''" using assms s is_digit_code by auto
  moreover obtain n where "parse_digits 0 False s = Some n" using parse_digits_all assms by blast
  ultimately show ?thesis by (simp add: parse_int_def)
qed

lemma line_rx_groups: "named ''unit'' line_rx = Some amount_rx" "named ''total'' line_rx = Some amount_rx"
  "named ''qty'' line_rx = Some (r_some (RSet (\<lambda>c. lower_char c = CHR ''l'' \<or> is_digit c)))" "consuming line_rx"
  by (simp_all add: line_rx_def r_itext_def amount_rx_def consuming_min)

lemma pipe_rx_groups: "named ''qty'' pipe_rx = Some (r_some r_digit)" "consuming pipe_rx"
  by (simp_all add: pipe_rx_def cell_rx_def consuming_min)

lemma total_rx_groups: "rx \<in> {tax_rx, total_rx} \<Longrightarrow>
    named ''1'' rx = Some (r_seq [r_some (RSet (\<lambda>c. is_digit c \<or> c = CHR '','')), r_opt (r_chr CHR ''.''), r_many r_digit])"
  by (auto simp: tax_rx_def total_rx_def labelled_amount_def r_itext_def)

lemma group_matches: "advances r q q' \<Longrightarrow> named n r = Some r' \<Longrightarrow> matches_text r' (group n (snd (snd q')))"
  using named_matches by (fastforce simp: group_def)

text \<open>The items the parser produces.\<close>

definition numeric_item :: "pyval dict \<Rightarrow> bool" where
  "numeric_item item \<longleftrightarrow> (\<exists>d q u t. item = [(''description'', PStr d), (''quantity'', PInt q), (''unit_price'', PFloat u), (''total'', PFloat t)])"

lemma line_item_numeric: "line_item d q g = Inr item \<Longrightarrow> numeric_item item"
  by (auto simp: line_item_def rbind_eq_Inr numeric_item_def split: option.splits)

lemma one_for_l_digit: "lower_char c = CHR ''l'' \<or> is_digit c \<Longrightarrow> is_digit (one_for_l c)"
  by (cases c rule: char.exhaust) (auto simp: one_for_l_def is_digit_code lower_char_code split: if_splits)

lemma line_row_parses:
  assumes "(m, g) \<in> set (re_finditer line_rx t)"
  shows "\<exists>item. line_item d (map one_for_l (group ''qty'' g)) g = Inr item"
proof -
  from re_finditer_advances [OF line_rx_groups(4) assms] obtain q q' where a: "advances line_rx q q'" "snd (snd q') = g" by blast
  from a group_matches [OF a(1)] line_rx_groups have gs: "matches_text amount_rx (group ''unit'' g)" "matches_text amount_rx (group ''total'' g)"
    "matches_text (r_some (RSet (\<lambda>c. lower_char c = CHR ''l'' \<or> is_digit c))) (group ''qty'' g)" by blast+
  have "\<forall>c\<in>set (group ''qty'' g). lower_char c = CHR ''l'' \<or> is_digit c" by (rule matches_text_only [OF gs(3)]) simp
  moreover have "group ''qty'' g \<noteq> []" using matches_text_min [OF gs(3)] by auto
  ultimately have "\<exists>n. parse_int (map one_for_l (group ''qty'' g)) = Some (int n)"
    by (intro parse_int_digits) (auto simp: one_for_l_digit)
  moreover have "\<exists>x. ocr_float (group ''unit'' g) = Inr x" "\<exists>x. ocr_float (group ''total'' g) = Inr x"
    using ocr_float_plain amount_match gs(1,2) by metis+
  ultimately show ?thesis by (auto simp: line_item_def)
qed

lemma primary_items_parse: "set ms \<subseteq> set (re_finditer line_rx t) \<Longrightarrow>
    \<exists>items. primary_items ms = Inr items \<and> length items = length ms \<and> list_all numeric_item items"
proof (induction ms)
  case (Cons x ms)
  obtain m g where x: "x = (m, g)" by (cases x)
  from Cons x obtain item where "line_item (strip (group ''description'' g)) (map one_for_l (group ''qty'' g)) g = Inr item"
    using line_row_parses by fastforce
  moreover from this have "numeric_item item" by (rule line_item_numeric)
  moreover from Cons obtain items where "primary_items ms = Inr items" "length items = length ms" "list_all numeric_item items" by auto
  ultimately show ?case by (simp add: x)
qed simp

definition bad_pipe_row :: "str dict \<Rightarrow> bool" where
  "bad_pipe_row g \<longleftrightarrow> \<not> header_cell (strip (group ''description'' g)) \<and>
     (parse_float (clean_amount (group ''unit'' g)) = None \<or> parse_float (clean_amount (group ''total'' g)) = None)"

lemma pipe_items_cases: "set ms \<subseteq> set (re_finditer pipe_rx t) \<Longrightarrow>
    if \<exists>(m, g)\<in>set ms. bad_pipe_row g then pipe_items ms = Inl (ValueError, ''could not convert string to float'')
    else \<exists>items. pipe_items ms = Inr items \<and> list_all numeric_item items"
proof (induction ms)
  case (Cons x ms)
  obtain m g where x: "x = (m, g)" by (cases x)
  from Cons.prems x have "(m, g) \<in> set (re_finditer pipe_rx t)" by simp
  from re_finditer_advances [OF pipe_rx_groups(2) this] obtain q q' where "advances pipe_rx q q'" "snd (snd q') = g" by blast
  with group_matches pipe_rx_groups(1) have "matches_text (r_some r_digit) (group ''qty'' g)" by blast
  then obtain n where n: "parse_int (group ''qty'' g) = Some (int n)" using digits_match parse_int_digits by blast
  let ?e = "Inl (ValueError, ''could not convert string to float'')"
  let ?row = "line_item (strip (group ''description'' g)) (group ''qty'' g) g"
  have row: "\<not> header_cell (strip (group ''description'' g)) \<Longrightarrow> if bad_pipe_row g then ?row = ?e else \<exists>item. ?row = Inr item"
    by (auto simp: line_item_def n bad_pipe_row_def ocr_float_def split: option.splits)
  have IH: "if \<exists>(m, g)\<in>set ms. bad_pipe_row g then pipe_items ms = ?e
    else \<exists>items. pipe_items ms = Inr items \<and> list_all numeric_item items" using Cons by simp
  show ?case
  proof (cases "header_cell (strip (group ''description'' g))")
    case True
    with IH show ?thesis by (simp add: x bad_pipe_row_def)
  next
    case False
    with IH row [OF False] line_item_numeric show ?thesis
      by (cases "bad_pipe_row g"; cases "\<exists>(m, g)\<in>set ms. bad_pipe_row g") (fastforce simp: x)+
  qed
qed simp


text \<open>What the reader of a label returns.\<close>

lemma found_amount_cases:
  assumes "rx \<in> {tax_rx, total_rx}"
  shows "if \<exists>g. re_search rx t = Some g \<and> (\<forall>c\<in>set (group ''1'' g). \<not> is_digit c)
    then found_amount rx t = Inl (ValueError, ''could not convert string to float'') else \<exists>x\<ge>0. found_amount rx t = Inr x"
proof (cases "re_search rx t")
  case None
  then show ?thesis by (simp add: found_amount_def)
next
  case (Some g)
  from re_search_advances [OF Some] obtain q q' where "advances rx q q'" "snd (snd q') = g" by blast
  with group_matches total_rx_groups [OF assms] labelled_match have "plain_amount (group ''1'' g)" by blast
  from ocr_float_plain [OF this] Some show ?thesis by (simp add: found_amount_def)
qed

lemma extract_line_items_cases:
  "if re_finditer line_rx t = [] \<and> (\<exists>(m, g)\<in>set (re_finditer pipe_rx t). bad_pipe_row g)
   then extract_line_items t = Inl (ValueError, ''could not convert string to float'')
   else \<exists>items. extract_line_items t = Inr items \<and> list_all numeric_item items \<and>
     (re_finditer line_rx t \<noteq> [] \<longrightarrow> length items = length (re_finditer line_rx t))"
proof -
  obtain items where p: "primary_items (re_finditer line_rx t) = Inr items" "length items = length (re_finditer line_rx t)"
    "list_all numeric_item items" using primary_items_parse [of "re_finditer line_rx t" t] by blast
  show ?thesis
  proof (cases "re_finditer line_rx t = []")
    case True
    with p pipe_items_cases [of "re_finditer pipe_rx t" t] show ?thesis by (simp add: extract_line_items_def)
  next
    case False
    with p show ?thesis by (auto simp: extract_line_items_def)
  qed
qed

lemma three_steps_fail:
  assumes "if a then x = Inl err else \<exists>v. x = Inr v" "if b then y = Inl err else \<exists>v. y = Inr v"
    "if c then z = Inl err else \<exists>v. z = Inr v"
  shows "rbind x (\<lambda>u. rbind y (\<lambda>v. rbind z (\<lambda>w. Inr (f u v w)))) = Inl e \<longleftrightarrow> e = err \<and> (a \<or> b \<or> c)"
  using assms by (cases a; cases b; cases c) auto

text \<open>When the offline parser fails: exactly if the text after \<open>TAX\<close> or \<open>TOTAL\<close> has separators but no digit, or if
  the document has no line item in the canonical form and a row of the table has a cell that is not a number. A row in
  the canonical form never makes it fail, and the failure is a \<open>ValueError\<close>.\<close>
theorem extract_with_regex_fails:
  "extract_with_regex s = Inl e \<longleftrightarrow> e = (ValueError, ''could not convert string to float'') \<and>
     (let t = normalize_ocr_text s
      in (\<exists>rx\<in>{tax_rx, total_rx}. \<exists>g. re_search rx t = Some g \<and> (\<forall>c\<in>set (group ''1'' g). \<not> is_digit c)) \<or>
         re_finditer line_rx t = [] \<and> (\<exists>(m, g)\<in>set (re_finditer pipe_rx t). bad_pipe_row g))"
proof -
  let ?t = "normalize_ocr_text s" and ?e = "(ValueError, ''could not convert string to float'')"
  let ?no = "\<lambda>rx. \<exists>g. re_search rx ?t = Some g \<and> (\<forall>c\<in>set (group ''1'' g). \<not> is_digit c)"
  let ?bad = "re_finditer line_rx ?t = [] \<and> (\<exists>(m, g)\<in>set (re_finditer pipe_rx ?t). bad_pipe_row g)"
  have tax: "if ?no tax_rx then found_amount tax_rx ?t = Inl ?e else \<exists>x\<ge>0. found_amount tax_rx ?t = Inr x"
    by (rule found_amount_cases) simp
  have total: "if ?no total_rx then found_amount total_rx ?t = Inl ?e else \<exists>x\<ge>0. found_amount total_rx ?t = Inr x"
    by (rule found_amount_cases) simp
  have items: "if ?bad then extract_line_items ?t = Inl ?e else \<exists>items. extract_line_items ?t = Inr items"
    using extract_line_items_cases [of ?t] by (auto split: if_splits)
  have "extract_with_regex s = Inl e \<longleftrightarrow> e = ?e \<and> (?no tax_rx \<or> ?no total_rx \<or> ?bad)"
    unfolding extract_with_regex_def Let_def by (rule three_steps_fail [OF _ _ items]) (use tax total in \<open>auto split: if_splits\<close>)
  then show ?thesis by (simp add: Let_def)
qed

lemma line_total_sum: "list_all numeric_item items \<Longrightarrow>
    line_total acc items = acc + (\<Sum>item\<leftarrow>items. case item_total item of PFloat x \<Rightarrow> x | _ \<Rightarrow> 0)"
  by (induction acc items rule: line_total.induct) (auto simp: numeric_item_def item_total_def)

lemma extract_with_regex_items: "extract_with_regex s = Inr ext \<Longrightarrow> list_all numeric_item (ex_items ext)"
  using extract_line_items_cases [of "normalize_ocr_text s"]
  by (auto simp: extract_with_regex_def Let_def rbind_eq_Inr split: if_splits)

text \<open>Validation of an invoice that the offline parser read: no line total is skipped, the verdict follows the exact
  sum of the line totals and the tax up to the rounding of half a millionth, and the reported delta is rounded to four
  places.\<close>
theorem validation_exact:
  assumes "extract_with_regex s = Inr ext"
    and "exact = (\<Sum>item\<leftarrow>ex_items ext. case item_total item of PFloat x \<Rightarrow> x | _ \<Rightarrow> 0) + ex_tax ext"
    and "v = validate_invoice_totals ext tol"
  shows "(\<bar>exact - ex_total ext\<bar> \<le> tol - 1 / (2 * 10 ^ 6) \<longrightarrow> va_passed v) \<and>
    (va_passed v \<longrightarrow> \<bar>exact - ex_total ext\<bar> \<le> tol + 1 / (2 * 10 ^ 6)) \<and>
    \<bar>va_delta v - \<bar>exact - ex_total ext\<bar>\<bar> \<le> 1 / (2 * 10 ^ 4) + 1 / (2 * 10 ^ 6) \<and> va_tolerance v = tol"
proof -
  let ?c = "py_round exact 6"
  have exact: "line_total 0 (ex_items ext) + ex_tax ext = exact"
    using line_total_sum [OF extract_with_regex_items [OF assms(1)], of 0] assms(2) by simp
  have v: "v = \<lparr>va_passed = (\<bar>?c - ex_total ext\<bar> \<le> tol), va_computed = py_round ?c 4,
      va_delta = py_round \<bar>?c - ex_total ext\<bar> 4, va_tolerance = tol\<rparr>"
    by (simp add: assms(3) validate_invoice_totals_def exact Let_def)
  have "\<bar>?c - exact\<bar> \<le> 1 / (2 * 10 ^ 6)" by (rule py_round_error)
  moreover have "\<bar>py_round \<bar>?c - ex_total ext\<bar> 4 - \<bar>?c - ex_total ext\<bar>\<bar> \<le> 1 / (2 * 10 ^ 4)" by (rule py_round_error)
  ultimately show ?thesis unfolding v validation.simps by (intro conjI impI; linarith)
qed


section \<open>Examples\<close>

definition ex_table :: str where
  "ex_table = ''nut | 2 | 1.50 | 3.00'' @ [CHR 0x0A] @ ''TAX 0.25'' @ [CHR 0x0A] @ ''TOTAL: 3.26''"

definition ex_table_read :: extraction where
  "ex_table_read = \<lparr>ex_vendor = ''UNKNOWN'', ex_invoice_id = ''UNKNOWN'',
     ex_items = [[(''description'', PStr ''nut''), (''quantity'', PInt 2), (''unit_price'', PFloat (3 / 2)), (''total'', PFloat 3)]],
     ex_tax = 1 / 4, ex_total = 326 / 100\<rparr>"

lemma ex_table_reads: "extract_with_regex ex_table = Inr ex_table_read"
  by code_simp

theorem validation_exact_witness:
  "va_passed (validate_invoice_totals ex_table_read (2 / 100)) \<and> va_tolerance (validate_invoice_totals ex_table_read (2 / 100)) = 2 / 100"
proof -
  have "\<bar>13 / 4 - ex_total ex_table_read\<bar> \<le> 2 / 100 - 1 / (2 * 10 ^ 6)" by (simp add: ex_table_read_def)
  moreover have "13 / 4 = (\<Sum>item\<leftarrow>ex_items ex_table_read. case item_total item of PFloat x \<Rightarrow> x | _ \<Rightarrow> 0) + ex_tax ex_table_read"
    by (simp add: ex_table_read_def item_total_def)
  ultimately show ?thesis using validation_exact [OF ex_table_reads _ refl, of "13 / 4" "2 / 100"] by blast
qed

lemma ex_lone_separator: "\<exists>g. re_search tax_rx (normalize_ocr_text ''TAX ,'') = Some g \<and> (\<forall>c\<in>set (group ''1'' g). \<not> is_digit c)"
proof -
  have "(case re_search tax_rx (normalize_ocr_text ''TAX ,'') of None \<Rightarrow> False | Some g \<Rightarrow> list_all (\<lambda>c. \<not> is_digit c) (group ''1'' g))"
    by code_simp
  then show ?thesis by (auto simp: list_all_iff split: option.splits)
qed

theorem extract_with_regex_fails_witness:
  "extract_with_regex ''TAX ,'' = Inl (ValueError, ''could not convert string to float'')"
  using extract_with_regex_fails [of "''TAX ,''"] ex_lone_separator by (auto simp: Let_def)

end
