(* ===== verification/Ingestion.thy ===== *)
theory Ingestion
  imports Difflib Invoice Retrieval
begin

text \<open>
  Document ingestion, \<open>services-runtime/src/ingestion/ocr.py\<close>, \<open>processor.py\<close> and \<open>indexing.py\<close>: the two OCR engines
  and how their disagreement is measured, the choice among the candidates of a page, the escalation to a vision model,
  the whole document transaction, and the chunks a document is indexed as. The engines, the image operations, the
  loaders, the clock and the language models are parameters; a call of theirs may raise and may change the world.
\<close>

section \<open>Engines\<close>

text \<open>The process-wide EasyOCR reader: not tried yet, permanently unavailable, or there.\<close>

datatype reader = NotLoaded | Unavailable | Loaded

record 'w ocr_world =
  ow_reader :: reader
  ow_command :: str
  ow_host :: 'w

text \<open>A detection: the top left corner of its box, the text and the confidence.\<close>

record detection =
  dt_x :: rat
  dt_y :: rat
  dt_text :: str
  dt_conf :: rat

record ocr_settings =
  oc_tesseract_cmd :: str
  oc_easyocr_enabled :: bool
  oc_variance_threshold :: rat
  oc_llm_available :: bool

record ('w, 'img) engines =
  en_image_data :: "'img \<Rightarrow> ('w, pyval list) io"
  en_image_string :: "'img \<Rightarrow> ('w, str) io"
  en_load_reader :: "('w, unit) io"
  en_readtext :: "'img \<Rightarrow> ('w, detection list) io"

definition on_host :: "('w, 'a) io \<Rightarrow> ('w ocr_world, 'a) io" where
  "on_host m w = (case m (ow_host w) of (r, h) \<Rightarrow> (r, w\<lparr>ow_host := h\<rparr>))"

definition put_reader :: "reader \<Rightarrow> ('w ocr_world, unit) io" where
  "put_reader r w = (Inr (), w\<lparr>ow_reader := r\<rparr>)"

definition get_reader :: "('w ocr_world, reader) io" where
  "get_reader w = (Inr (ow_reader w), w)"

definition get_easyocr_reader :: "ocr_settings \<Rightarrow> ('w, 'img) engines \<Rightarrow> ('w ocr_world, bool) io" where
  "get_easyocr_reader cfg en =
     (if \<not> oc_easyocr_enabled cfg then io_return False
      else io_bind get_reader (\<lambda>r.
        io_then (if r = NotLoaded
                 then io_catch (io_then (on_host (en_load_reader en)) (put_reader Loaded)) (\<lambda>_. put_reader Unavailable)
                 else io_return ())
          (io_bind get_reader (\<lambda>r. io_return (r \<noteq> Unavailable)))))"

definition configure_tesseract :: "ocr_settings \<Rightarrow> ('w ocr_world, unit) io" where
  "configure_tesseract cfg w = (Inr (), if oc_tesseract_cmd cfg \<noteq> [] then w\<lparr>ow_command := oc_tesseract_cmd cfg\<rparr> else w)"

text \<open>The confidences that count: integers, or texts of digits, that are not negative. \<open>str.isdigit\<close> also accepts
  superscripts, which \<open>int\<close> refuses.\<close>

definition digit_like :: "char \<Rightarrow> bool" where
  "digit_like c \<longleftrightarrow> is_digit c \<or> (of_char c :: nat) \<in> {178, 179, 185}"

fun confidence :: "pyval \<Rightarrow> int option result" where
  "confidence (PInt i) = Inr (if 0 \<le> i then Some i else None)"
| "confidence (PStr s) =
     (let d = lstrip_by (\<lambda>c. c = CHR ''-'') s
      in if d = [] \<or> \<not> list_all digit_like d then Inr None
         else case parse_int s of None \<Rightarrow> Inl (ValueError, ''invalid literal for int()'')
            | Some i \<Rightarrow> Inr (if 0 \<le> i then Some i else None))"
| "confidence _ = Inr None"

fun confidences :: "pyval list \<Rightarrow> int list result" where
  "confidences [] = Inr []"
| "confidences (v # vs) = rbind (confidence v) (\<lambda>c. rbind (confidences vs) (\<lambda>cs.
     Inr (case c of None \<Rightarrow> cs | Some i \<Rightarrow> i # cs)))"

definition run_tesseract :: "ocr_settings \<Rightarrow> ('w, 'img) engines \<Rightarrow> 'img \<Rightarrow> ('w ocr_world, str \<times> rat) io" where
  "run_tesseract cfg en img =
     io_then (configure_tesseract cfg)
       (io_bind (on_host (en_image_data en img)) (\<lambda>data.
        io_bind (io_lift (confidences data)) (\<lambda>confs.
        let mean = (if confs = [] then 0 else of_int (sum_list confs) / of_nat (length confs))
        in io_bind (on_host (en_image_string en img)) (\<lambda>s. io_return (strip s, mean)))))"

text \<open>Detections in reading order; a vertical gap of more than fifteen pixels starts a line. The lines are built in
  reverse, the last one first.\<close>

fun add_lines :: "(rat \<times> str) list list \<Rightarrow> rat option \<Rightarrow> detection list \<Rightarrow> (rat \<times> str) list list" where
  "add_lines ls y [] = ls"
| "add_lines ls y (d # ds) =
     (if (case y of None \<Rightarrow> True | Some y \<Rightarrow> 15 < \<bar>dt_y d - y\<bar>)
      then add_lines ([(dt_x d, dt_text d)] # ls) (Some (dt_y d)) ds
      else add_lines ((hd ls @ [(dt_x d, dt_text d)]) # tl ls) y ds)"

definition easyocr_lines :: "detection list \<Rightarrow> (rat \<times> str) list list" where
  "easyocr_lines ds = rev (add_lines [] None (sort_key (\<lambda>d. (dt_y d, dt_x d)) ds))"

definition easyocr_results_to_text :: "detection list \<Rightarrow> str" where
  "easyocr_results_to_text ds = join [CHR 0x0A] (map (\<lambda>line. join '' '' (map snd (sort line))) (easyocr_lines ds))"

definition run_easyocr :: "ocr_settings \<Rightarrow> ('w, 'img) engines \<Rightarrow> 'img \<Rightarrow> ('w ocr_world, str option \<times> rat) io" where
  "run_easyocr cfg en img =
     io_bind (get_easyocr_reader cfg en) (\<lambda>available.
       if \<not> available then io_return (None, 0)
       else io_catch
         (io_bind (on_host (en_readtext en img)) (\<lambda>ds.
            if ds = [] then io_return (Some [], 0)
            else let mean = sum_list (map dt_conf ds) / of_nat (length ds)
                 in io_return (Some (easyocr_results_to_text ds), mean * 100)))
         (\<lambda>_. io_return (None, 0)))"

section \<open>The choice among candidates\<close>

definition compute_variance :: "str \<Rightarrow> str \<Rightarrow> rat" where
  "compute_variance t1 t2 = (if t1 = [] \<and> t2 = [] then 0 else if t1 = [] \<or> t2 = [] then 1 else 1 - ratio t1 t2)"

text \<open>A candidate: text, confidence, engine.\<close>

type_synonym candidate = "str \<times> rat \<times> str"

text \<open>\<open>max\<close> with a key: the first of the largest.\<close>

fun first_max :: "('a \<times> 'k::linorder) \<Rightarrow> ('a \<times> 'k) list \<Rightarrow> 'a" where
  "first_max best [] = fst best"
| "first_max best (x # xs) = first_max (if snd best < snd x then x else best) xs"

fun scored :: "candidate list \<Rightarrow> (candidate \<times> nat \<times> rat) list result" where
  "scored [] = Inr []"
| "scored (c # cs) = rbind (score_parseable_text (fst c)) (\<lambda>n. rbind (scored cs) (\<lambda>xs. Inr ((c, n, fst (snd c)) # xs)))"

definition pick_best_candidate :: "ocr_settings \<Rightarrow> candidate list \<Rightarrow> rat \<Rightarrow> candidate result" where
  "pick_best_candidate cfg cs variance =
     (if variance \<le> oc_variance_threshold cfg
      then Inr (let xs = map (\<lambda>c. (c, fst (snd c))) cs in first_max (hd xs) (tl xs))
      else rbind (scored cs) (\<lambda>xs. Inr (first_max (hd xs) (tl xs))))"

definition run_dual_ocr :: "ocr_settings \<Rightarrow> ('w, 'img) engines \<Rightarrow> 'img \<Rightarrow> ('w ocr_world, str \<times> rat \<times> rat \<times> str) io" where
  "run_dual_ocr cfg en img =
     io_bind (run_tesseract cfg en img) (\<lambda>(tess, tess_conf).
     io_bind (run_easyocr cfg en img) (\<lambda>(easy, easy_conf).
       case easy of
         None \<Rightarrow> io_return (tess, 0, tess_conf, ''tesseract'')
       | Some easy \<Rightarrow>
           (let variance = compute_variance tess easy
            in io_bind (io_lift (pick_best_candidate cfg [(tess, tess_conf, ''tesseract''), (easy, easy_conf, ''easyocr'')] variance))
                 (\<lambda>(best, conf, label). io_return (best, variance, conf, label)))))"

definition drop_raw :: "str \<Rightarrow> str" where
  "drop_raw label = (if label = ''tesseract_raw'' then ''tesseract'' else if label = ''easyocr_raw'' then ''easyocr'' else label)"

definition fallback_candidates :: "str \<times> rat \<Rightarrow> str option \<times> rat \<Rightarrow> str \<times> rat \<Rightarrow> str option \<times> rat \<Rightarrow> candidate list" where
  "fallback_candidates tp ep tr er =
     [(fst tp, snd tp, ''tesseract'')]
     @ (case fst ep of None \<Rightarrow> [] | Some t \<Rightarrow> [(t, snd ep, ''easyocr'')])
     @ [(fst tr, snd tr, ''tesseract_raw'')]
     @ (case fst er of None \<Rightarrow> [] | Some t \<Rightarrow> [(t, snd er, ''easyocr_raw'')])"

text \<open>The score in the debug message is computed whether or not the message is written.\<close>

definition run_dual_ocr_with_fallback ::
    "ocr_settings \<Rightarrow> ('w, 'img) engines \<Rightarrow> 'img \<Rightarrow> 'img \<Rightarrow> ('w ocr_world, str \<times> rat \<times> rat \<times> str) io" where
  "run_dual_ocr_with_fallback cfg en page raw =
     io_bind (run_tesseract cfg en page) (\<lambda>tp.
     io_bind (run_easyocr cfg en page) (\<lambda>ep.
     io_bind (run_tesseract cfg en raw) (\<lambda>tr.
     io_bind (run_easyocr cfg en raw) (\<lambda>er.
       let candidates = fallback_candidates tp ep tr er;
           variance = (case fst ep of Some t \<Rightarrow> compute_variance (fst tp) t | None \<Rightarrow> compute_variance (fst tp) (fst tr))
       in io_bind (io_lift (pick_best_candidate cfg candidates variance)) (\<lambda>(best, conf, label).
          io_bind (io_lift (score_parseable_text best)) (\<lambda>_.
          io_return (best, variance, conf, drop_raw label)))))))"

section \<open>The document transaction\<close>

record ('w, 'img, 'page) doc_deps =
  dd_engines :: "('w, 'img) engines"
  dd_load_pdf :: "str \<Rightarrow> ('w, 'page list) io"
  dd_load_image :: "str \<Rightarrow> ('w, 'page) io"
  dd_preprocess :: "'page list \<Rightarrow> ('w, 'img list) io"
  dd_grayscale :: "'page \<Rightarrow> ('w, 'img) io"
  dd_vision :: "'img \<Rightarrow> ('w, str) io"
  dd_extract_llm :: "str \<Rightarrow> ('w, extraction) io"
  dd_clock :: "('w, rat) io"

text \<open>\<open>filename.lower().rsplit(".", 1)[-1]\<close> of a name with a dot.\<close>

definition file_suffix :: "str \<Rightarrow> str" where
  "file_suffix name = (if CHR ''.'' \<in> set name then last (split_on CHR ''.'' (lower name)) else [])"

definition load_pages :: "('w, 'img, 'page) doc_deps \<Rightarrow> str \<Rightarrow> str \<Rightarrow> ('w ocr_world, 'page list) io" where
  "load_pages d file_bytes name =
     (if file_suffix name = ''pdf'' then on_host (dd_load_pdf d file_bytes)
      else io_bind (on_host (dd_load_image d file_bytes)) (\<lambda>p. io_return [p]))"

text \<open>Text, variance, whether the vision model was used, and the engine.\<close>

type_synonym page_result = "str \<times> rat \<times> bool \<times> str"

definition ocr_page :: "ocr_settings \<Rightarrow> ('w, 'img, 'page) doc_deps \<Rightarrow> 'img \<Rightarrow> 'img \<Rightarrow> ('w ocr_world, page_result) io" where
  "ocr_page cfg d page raw =
     io_bind (if oc_llm_available cfg then run_dual_ocr cfg (dd_engines d) page
              else run_dual_ocr_with_fallback cfg (dd_engines d) page raw) (\<lambda>(best, variance, conf, label).
       if oc_variance_threshold cfg < variance \<and> oc_llm_available cfg
       then io_catch (io_bind (on_host (dd_vision d page)) (\<lambda>t. io_return (t, variance, True, ''vision_llm'')))
              (\<lambda>_. io_return (best, variance, False, label))
       else io_return (best, variance, False, label))"

fun ocr_pages :: "ocr_settings \<Rightarrow> ('w, 'img, 'page) doc_deps \<Rightarrow> ('page \<times> 'img) list \<Rightarrow> ('w ocr_world, page_result list) io" where
  "ocr_pages cfg d [] = io_return []"
| "ocr_pages cfg d ((page, img) # ps) =
     io_bind (on_host (dd_grayscale d page)) (\<lambda>raw.
     io_bind (ocr_page cfg d img raw) (\<lambda>r.
     io_bind (ocr_pages cfg d ps) (\<lambda>rs. io_return (r # rs))))"

text \<open>The worst variance and the engine of the page that has it.\<close>

fun worst_page :: "rat \<times> str \<Rightarrow> page_result list \<Rightarrow> rat \<times> str" where
  "worst_page best [] = best"
| "worst_page best ((t, variance, vision, engine) # rs) =
     worst_page (if fst best < variance then (variance, engine) else best) rs"

record ingest_response =
  ig_extraction :: extraction
  ig_engine :: str
  ig_variance :: rat
  ig_vision :: bool
  ig_llm :: bool
  ig_validation :: validation
  ig_time_ms :: rat
  ig_page_count :: nat

record processed_document =
  pd_response :: ingest_response
  pd_page_texts :: "str list"

definition document_of :: "nat \<Rightarrow> page_result list \<Rightarrow> extraction \<times> bool \<Rightarrow> rat \<Rightarrow> processed_document" where
  "document_of page_count results x elapsed =
     (case worst_page (0, ''tesseract'') results of (variance, engine) \<Rightarrow>
       \<lparr>pd_response = \<lparr>ig_extraction = fst x, ig_engine = engine, ig_variance = py_round variance 4,
          ig_vision = (\<exists>r\<in>set results. fst (snd (snd r))), ig_llm = snd x,
          ig_validation = validate_invoice_totals (fst x) default_tolerance,
          ig_time_ms = py_round (elapsed * 1000) 2, ig_page_count = page_count\<rparr>,
        pd_page_texts = map fst results\<rparr>)"

definition process_document_with_pages ::
    "ocr_settings \<Rightarrow> ('w, 'img, 'page) doc_deps \<Rightarrow> str \<Rightarrow> str \<Rightarrow> ('w ocr_world, processed_document) io" where
  "process_document_with_pages cfg d file_bytes name =
     io_bind (on_host (dd_clock d)) (\<lambda>t_start.
     io_bind (load_pages d file_bytes name) (\<lambda>pages.
     io_bind (on_host (dd_preprocess d pages)) (\<lambda>imgs.
     io_bind (ocr_pages cfg d (zip pages imgs)) (\<lambda>results.
     io_bind (extract_structured (oc_llm_available cfg) (\<lambda>t. on_host (dd_extract_llm d t))
       (join [CHR 0x0A, CHR 0x0A] (map fst results))) (\<lambda>x.
     io_bind (on_host (dd_clock d)) (\<lambda>t_end.
     io_return (document_of (length pages) results x (t_end - t_start))))))))"

definition process_document :: "ocr_settings \<Rightarrow> ('w, 'img, 'page) doc_deps \<Rightarrow> str \<Rightarrow> str \<Rightarrow> ('w ocr_world, ingest_response) io" where
  "process_document cfg d file_bytes name =
     io_bind (process_document_with_pages cfg d file_bytes name) (\<lambda>p. io_return (pd_response p))"

section \<open>Chunks\<close>

definition page_chunk :: "str \<Rightarrow> str \<Rightarrow> nat \<Rightarrow> str \<Rightarrow> text_chunk" where
  "page_chunk doc source n t = \<lparr>ch_id = doc @ '':page:'' @ nat_text n, ch_text = strip t, ch_source = source,
     ch_metadata = [(''document_id'', PStr doc), (''filename'', PStr source), (''page_number'', PInt (int n))]\<rparr>"

definition build_document_chunks :: "(str \<Rightarrow> str) \<Rightarrow> str \<Rightarrow> str \<Rightarrow> str list \<Rightarrow> str \<times> text_chunk list" where
  "build_document_chunks sha256 file_bytes name pages =
     (let doc = sha256 file_bytes;
          source = (if strip name = [] then ''upload'' else strip name)
      in (doc, map (\<lambda>(n, t). page_chunk doc source n t) (filter (\<lambda>(n, t). strip t \<noteq> []) (enumerate 1 pages))))"

section \<open>Variance\<close>


text \<open>Two long texts that differ in the first character only get the largest variance, since every other character is
  popular and may not start a block.\<close>

lemma variance_of_repetition:
  assumes "200 \<le> n" "c \<noteq> d" "c \<noteq> x" "d \<noteq> x"
  shows "compute_variance (c # replicate n x) (d # replicate n x) = 1"
proof -
  have "Suc n div 100 + 1 < n" using assms(1) by linarith
  moreover have "count_list (replicate n x) x = n" by (induction n) simp_all
  ultimately have "popular (d # replicate n x) x" using assms(1,4) by (simp add: popular_def)
  then have "ratio (c # replicate n x) (d # replicate n x) = 0" using assms by (intro ratio_popular) auto
  then show ?thesis by (simp add: compute_variance_def)
qed

section \<open>Which failures surface\<close>

definition fails_in :: "exn set \<Rightarrow> ('w, 'a) io \<Rightarrow> bool" where
  "fails_in E m \<longleftrightarrow> (\<forall>w e w'. m w = (Inl e, w') \<longrightarrow> e \<in> E)"

lemma fails_in_bind [intro]: "fails_in E m \<Longrightarrow> (\<And>x. fails_in E (f x)) \<Longrightarrow> fails_in E (io_bind m f)"
  unfolding fails_in_def io_bind_eq_Inl by blast

lemma fails_in_return [simp, intro]: "fails_in E (io_return x)"
  by (simp add: fails_in_def)

lemma fails_in_catch [intro]: "(\<And>e. fails_in E (h e)) \<Longrightarrow> fails_in E (io_catch m h)"
  by (auto simp: fails_in_def io_catch_def split: prod.splits sum.splits)

lemma fails_in_lift: "fails_in E (io_lift r) \<longleftrightarrow> (\<forall>e. r = Inl e \<longrightarrow> e \<in> E)"
  by (simp add: fails_in_def)

lemma fails_in_host [intro]: "io_total m \<Longrightarrow> fails_in E (on_host m)"
proof -
  assume total: "io_total m"
  have "\<exists>x w'. on_host m w = (Inr x, w')" for w
    using io_totalD [OF total, of "ow_host w"] by (auto simp: on_host_def)
  then show ?thesis unfolding fails_in_def by (metis Inl_Inr_False fst_conv)
qed

lemma fails_in_state [simp, intro]: "fails_in E (put_reader r)" "fails_in E get_reader" "fails_in E (configure_tesseract cfg)"
  by (simp_all add: fails_in_def put_reader_def get_reader_def configure_tesseract_def)

lemma fails_in_if [intro]: "(b \<Longrightarrow> fails_in E m) \<Longrightarrow> (\<not> b \<Longrightarrow> fails_in E n) \<Longrightarrow> fails_in E (if b then m else n)"
  by simp

lemma fails_in_pair [intro]: "(\<And>x y. fails_in E (f x y)) \<Longrightarrow> fails_in E (case p of (x, y) \<Rightarrow> f x y)"
  by (cases p) simp

lemma fails_in_option [intro]: "fails_in E m \<Longrightarrow> (\<And>x. fails_in E (f x)) \<Longrightarrow> fails_in E (case q of None \<Rightarrow> m | Some x \<Rightarrow> f x)"
  by (cases q) simp_all

lemmas fails_rules = fails_in_bind fails_in_return fails_in_catch fails_in_state fails_in_if fails_in_pair fails_in_option

abbreviation parser_error :: exn where
  "parser_error \<equiv> (ValueError, ''could not convert string to float'')"

lemma parser_error: "extract_with_regex t = Inl e \<Longrightarrow> e = parser_error"
proof -
  have "\<exists>items. primary_items (re_finditer line_rx u) = Inr items" for u
    using primary_items_parse [of "re_finditer line_rx u" u] by blast
  moreover assume "extract_with_regex t = Inl e"
  ultimately show ?thesis
    using found_amount_cases [of tax_rx "normalize_ocr_text t"] found_amount_cases [of total_rx "normalize_ocr_text t"]
      extract_line_items_cases [of "normalize_ocr_text t"]
    unfolding extract_with_regex_def Let_def
    by (auto simp: rbind_def split: sum.splits if_splits)
qed

lemma score_error: "score_parseable_text t = Inl e \<Longrightarrow> e = parser_error"
  using parser_error by (auto simp: score_parseable_text_def rbind_def split: sum.splits)

lemma scored_error: "scored cs = Inl e \<Longrightarrow> e = parser_error"
  by (induction cs) (auto simp: rbind_def split: sum.splits dest: score_error)

lemma pick_error: "pick_best_candidate cfg cs v = Inl e \<Longrightarrow> e = parser_error"
  using scored_error by (auto simp: pick_best_candidate_def rbind_def split: sum.splits if_splits)

lemma confidences_ints: "\<exists>cs. confidences (map PInt is) = Inr cs"
  by (induction "is") auto

definition tesseract_works :: "('w, 'img) engines \<Rightarrow> bool" where
  "tesseract_works en \<longleftrightarrow> (\<forall>img w. \<exists>is w'. en_image_data en img w = (Inr (map PInt is), w')) \<and> (\<forall>img. io_total (en_image_string en img))"

lemma run_tesseract_works:
  assumes "tesseract_works en"
  shows "fails_in {} (run_tesseract cfg en img)"
proof -
  have data: "fails_in {} (io_bind (on_host (en_image_data en img)) (\<lambda>data. io_bind (io_lift (confidences data)) f))"
    if "\<And>x. fails_in {} (f x)" for f :: "int list \<Rightarrow> ('a ocr_world, str \<times> rat) io"
    unfolding fails_in_def
  proof (intro allI impI)
    fix w e w' assume run: "io_bind (on_host (en_image_data en img)) (\<lambda>data. io_bind (io_lift (confidences data)) f) w = (Inl e, w')"
    obtain "is" h where "en_image_data en img (ow_host w) = (Inr (map PInt is), h)"
      using assms unfolding tesseract_works_def by blast
    moreover obtain cs where "confidences (map PInt is) = Inr cs" using confidences_ints by blast
    ultimately have "f cs (w\<lparr>ow_host := h\<rparr>) = (Inl e, w')" using run by (simp add: io_bind_def on_host_def)
    with that [of cs] show "e \<in> {}" unfolding fails_in_def by blast
  qed
  moreover have "fails_in {} (on_host (en_image_string en img))"
    using assms unfolding tesseract_works_def by (intro fails_in_host) blast
  ultimately show ?thesis unfolding run_tesseract_def Let_def
    by (intro fails_in_bind [OF fails_in_state(3)] data) (rule fails_in_bind [OF _ fails_in_return])
qed

lemma fails_in_mono: "fails_in E m \<Longrightarrow> E \<subseteq> F \<Longrightarrow> fails_in F m"
  unfolding fails_in_def by blast

lemma run_easyocr_never_fails: "fails_in E (run_easyocr cfg en img)"
  unfolding run_easyocr_def get_easyocr_reader_def Let_def by (intro fails_rules)

lemma fails_in_pick: "fails_in {parser_error} (io_lift (pick_best_candidate cfg cs v))"
  using pick_error by (auto simp: fails_in_lift)

lemma fails_in_score: "fails_in {parser_error} (io_lift (score_parseable_text t))"
  using score_error by (auto simp: fails_in_lift)

lemma ocr_page_fails:
  assumes "tesseract_works (dd_engines d)"
  shows "fails_in {parser_error} (ocr_page cfg d page raw)"
proof -
  have t: "fails_in {parser_error} (run_tesseract cfg (dd_engines d) img)" for img
    by (rule fails_in_mono [OF run_tesseract_works [OF assms]]) simp
  have "fails_in {parser_error} (run_dual_ocr cfg (dd_engines d) page)"
    unfolding run_dual_ocr_def Let_def by (intro fails_rules t run_easyocr_never_fails fails_in_pick)
  moreover have "fails_in {parser_error} (run_dual_ocr_with_fallback cfg (dd_engines d) page raw)"
    unfolding run_dual_ocr_with_fallback_def
    Let_def by (intro fails_rules t run_easyocr_never_fails fails_in_pick fails_in_score)
  ultimately show ?thesis unfolding ocr_page_def by (intro fails_rules)
qed

lemma ocr_pages_fails:
  assumes "tesseract_works (dd_engines d)" "\<And>p. io_total (dd_grayscale d p)"
  shows "fails_in {parser_error} (ocr_pages cfg d ps)"
proof (induction ps)
  case (Cons p ps)
  obtain page img where "p = (page, img)" by (cases p)
  moreover from this Cons have "fails_in {parser_error} (ocr_pages cfg d ps)" by blast
  ultimately show ?case by (simp only: ocr_pages.simps) (intro fails_rules fails_in_host ocr_page_fails assms)
qed (simp only: ocr_pages.simps, rule fails_in_return)

definition host_works :: "('w, 'img, 'page) doc_deps \<Rightarrow> bool" where
  "host_works d \<longleftrightarrow> tesseract_works (dd_engines d) \<and> io_total (dd_clock d) \<and> (\<forall>b. io_total (dd_load_pdf d b)) \<and>
     (\<forall>b. io_total (dd_load_image d b)) \<and> (\<forall>ps. io_total (dd_preprocess d ps)) \<and> (\<forall>p. io_total (dd_grayscale d p))"

text \<open>C27. While the loaders, the image operations, Tesseract and the language model's extraction work, nothing that
  EasyOCR or the vision model does fails a document: the only failure left is the offline parser's, which runs when the
  engines disagree or no language model is configured.\<close>
theorem only_the_parser_fails:
  assumes "host_works d" "\<And>t. io_total (dd_extract_llm d t)"
    and "process_document_with_pages cfg d file_bytes name w = (Inl e, w')"
  shows "e = parser_error"
proof -
  have "fails_in {parser_error} (load_pages d file_bytes name)"
    using assms(1) unfolding load_pages_def host_works_def by (intro fails_rules fails_in_host) blast+
  moreover have "fails_in {parser_error} (ocr_pages cfg d ps)" for ps
    using assms(1) unfolding host_works_def by (intro ocr_pages_fails) blast+
  moreover have "fails_in {parser_error} (extract_structured b (\<lambda>t. on_host (dd_extract_llm d t)) t)" for b t
    unfolding extract_structured_def
    by (intro fails_rules fails_in_host assms(2)) (simp only: fails_in_lift, use parser_error in blast)
  moreover have "fails_in {parser_error} (on_host (dd_clock d))" "fails_in {parser_error} (on_host (dd_preprocess d ps))" for ps
    using assms(1) unfolding host_works_def by (intro fails_in_host; blast)+
  ultimately have "fails_in {parser_error} (process_document_with_pages cfg d file_bytes name)"
    unfolding process_document_with_pages_def by (intro fails_rules)
  with assms(3) show ?thesis unfolding fails_in_def by blast
qed


section \<open>What a processed document is\<close>

definition gives :: "('a \<Rightarrow> bool) \<Rightarrow> ('w, 'a) io \<Rightarrow> bool" where
  "gives P m \<longleftrightarrow> (\<forall>w x w'. m w = (Inr x, w') \<longrightarrow> P x)"

lemma gives_bind: "gives Q m \<Longrightarrow> (\<And>x. Q x \<Longrightarrow> gives P (f x)) \<Longrightarrow> gives P (io_bind m f)"
  unfolding gives_def io_bind_eq_Inr by blast

lemma gives_any: "gives (\<lambda>_. True) m"
  by (simp add: gives_def)

lemma gives_return: "P x \<Longrightarrow> gives P (io_return x)"
  by (simp add: gives_def)

lemma gives_lift: "(\<And>x. r = Inr x \<Longrightarrow> P x) \<Longrightarrow> gives P (io_lift r)"
  by (simp add: gives_def)

lemma gives_catch: "gives P m \<Longrightarrow> (\<And>e. gives P (h e)) \<Longrightarrow> gives P (io_catch m h)"
  by (auto simp: gives_def io_catch_def split: prod.splits sum.splits)

lemma gives_if: "(b \<Longrightarrow> gives P m) \<Longrightarrow> (\<not> b \<Longrightarrow> gives P n) \<Longrightarrow> gives P (if b then m else n)"
  by simp

lemma gives_pair: "(\<And>x y. p = (x, y) \<Longrightarrow> gives P (f x y)) \<Longrightarrow> gives P (case p of (x, y) \<Rightarrow> f x y)"
  by (cases p) simp

lemma gives_option: "(q = None \<Longrightarrow> gives P m) \<Longrightarrow> (\<And>x. q = Some x \<Longrightarrow> gives P (f x)) \<Longrightarrow> gives P (case q of None \<Rightarrow> m | Some x \<Rightarrow> f x)"
  by (cases q) simp_all

text \<open>The chosen candidate is one of them, and no other has a larger key.\<close>

lemma first_max_max: "\<exists>k. (first_max best xs, k) \<in> set (best # xs) \<and> (\<forall>x\<in>set (best # xs). snd x \<le> k)"
proof (induction best xs rule: first_max.induct)
  case (1 best)
  show ?case by (cases best) auto
next
  case (2 best x xs)
  then show ?case by (auto split: if_splits)
qed

lemma first_max_in: "first_max best xs \<in> fst ` set (best # xs)"
  using first_max_max [of best xs] by (metis fst_conv image_eqI)

lemma scored_fst: "scored cs = Inr xs \<Longrightarrow> map fst xs = cs"
  by (induction cs arbitrary: xs) (auto simp: rbind_eq_Inr)

lemma pick_best_in: "pick_best_candidate cfg cs v = Inr c \<Longrightarrow> cs \<noteq> [] \<Longrightarrow> c \<in> set cs"
proof -
  assume pick: "pick_best_candidate cfg cs v = Inr c" and ne: "cs \<noteq> []"
  have "\<exists>xs :: (candidate \<times> rat) list. map fst xs = cs \<and> c = first_max (hd xs) (tl xs)"
    if "v \<le> oc_variance_threshold cfg"
    using pick that by (intro exI [of _ "map (\<lambda>c. (c, fst (snd c))) cs"]) (auto simp: pick_best_candidate_def Let_def comp_def)
  moreover have "\<exists>xs :: (candidate \<times> nat \<times> rat) list. map fst xs = cs \<and> c = first_max (hd xs) (tl xs)"
    if "\<not> v \<le> oc_variance_threshold cfg"
    using pick that scored_fst by (auto simp: pick_best_candidate_def rbind_eq_Inr)
  moreover have "first_max (hd xs) (tl xs) \<in> set cs" if "map fst xs = cs" for xs :: "(candidate \<times> 'k::linorder) list"
  proof -
    have "xs \<noteq> []" using that ne by auto
    then have "hd xs # tl xs = xs" by simp
    with first_max_in [of "hd xs" "tl xs"] that show ?thesis by (metis set_map)
  qed
  ultimately show ?thesis by (metis (no_types))
qed

definition engine_ok :: "str \<Rightarrow> bool" where
  "engine_ok e \<longleftrightarrow> e = ''tesseract'' \<or> e = ''easyocr''"

definition page_ok :: "ocr_settings \<Rightarrow> page_result \<Rightarrow> bool" where
  "page_ok cfg r \<longleftrightarrow> (case r of (t, v, vision, engine) \<Rightarrow> 0 \<le> v \<and> v \<le> 1 \<and>
     (if vision then oc_llm_available cfg \<and> oc_variance_threshold cfg < v \<and> engine = ''vision_llm'' else engine_ok engine))"

lemma variance_bounds: "0 \<le> compute_variance t1 t2 \<and> compute_variance t1 t2 \<le> 1"
  using ratio_bounds [of t1 t2] by (simp add: compute_variance_def)

abbreviation ocr_ok :: "str \<times> rat \<times> rat \<times> str \<Rightarrow> bool" where
  "ocr_ok r \<equiv> case r of (t, v, c, engine) \<Rightarrow> 0 \<le> v \<and> v \<le> 1 \<and> engine_ok engine"

lemma gives_pick: "cs \<noteq> [] \<Longrightarrow> gives (\<lambda>c. c \<in> set cs) (io_lift (pick_best_candidate cfg cs v))"
  by (intro gives_lift pick_best_in)

lemma run_dual_ocr_ok: "gives ocr_ok (run_dual_ocr cfg en img)"
  unfolding run_dual_ocr_def Let_def
proof (rule gives_bind [OF gives_any], rule gives_pair, rule gives_bind [OF gives_any], rule gives_pair, rule gives_option)
  fix tess tess_conf easy_conf and easy :: str
  show "gives ocr_ok (io_bind (io_lift (pick_best_candidate cfg [(tess, tess_conf, ''tesseract''), (easy, easy_conf, ''easyocr'')]
      (compute_variance tess easy))) (\<lambda>(best, conf, label). io_return (best, compute_variance tess easy, conf, label)))"
    by (rule gives_bind [OF gives_pick]) (use variance_bounds in \<open>auto intro!: gives_return simp del: io_simps simp: engine_ok_def\<close>)
qed (rule gives_return, simp add: engine_ok_def)

lemma fallback_candidates_engines: "(t, c, e) \<in> set (fallback_candidates tp ep tr er) \<Longrightarrow> engine_ok (drop_raw e)"
  by (auto simp: fallback_candidates_def engine_ok_def drop_raw_def split: option.splits)

lemma fallback_candidates_ne: "fallback_candidates tp ep tr er \<noteq> []"
  by (simp add: fallback_candidates_def)

lemma run_dual_ocr_with_fallback_ok: "gives ocr_ok (run_dual_ocr_with_fallback cfg en page raw)"
  unfolding run_dual_ocr_with_fallback_def Let_def
proof (rule gives_bind [OF gives_any], rule gives_bind [OF gives_any], rule gives_bind [OF gives_any], rule gives_bind [OF gives_any])
  fix tp ep tr er
  let ?cs = "fallback_candidates tp ep tr er"
  let ?v = "case fst ep of None \<Rightarrow> compute_variance (fst tp) (fst tr) | Some t \<Rightarrow> compute_variance (fst tp) t"
  have v: "0 \<le> ?v \<and> ?v \<le> 1" using variance_bounds by (simp split: option.splits)
  show "gives ocr_ok (io_bind (io_lift (pick_best_candidate cfg ?cs ?v)) (\<lambda>(best, conf, label).
      io_bind (io_lift (score_parseable_text best)) (\<lambda>_. io_return (best, ?v, conf, drop_raw label))))"
  proof (rule gives_bind [OF gives_pick [OF fallback_candidates_ne]], intro gives_pair gives_bind [OF gives_any] gives_return)
    fix c best y conf label assume "c \<in> set ?cs" "c = (best, y)" "y = (conf, label)"
    with fallback_candidates_engines v show "ocr_ok (best, ?v, conf, drop_raw label)" by blast
  qed
qed

lemma ocr_page_ok: "gives (page_ok cfg) (ocr_page cfg d page raw)"
  unfolding ocr_page_def
proof (rule gives_bind [where Q = ocr_ok])
  show "gives ocr_ok (if oc_llm_available cfg then run_dual_ocr cfg (dd_engines d) page
      else run_dual_ocr_with_fallback cfg (dd_engines d) page raw)"
    by (intro gives_if run_dual_ocr_ok run_dual_ocr_with_fallback_ok)
next
  fix x assume x: "ocr_ok x"
  obtain best variance conf label where x1: "x = (best, variance, conf, label)" by (metis prod_cases4)
  let ?keep = "io_return (best, variance, False, label)"
  have keep: "page_ok cfg (best, variance, False, label)" using x by (simp add: x1 page_ok_def)
  have "gives (page_ok cfg) (if oc_variance_threshold cfg < variance \<and> oc_llm_available cfg
      then io_catch (io_bind (on_host (dd_vision d page)) (\<lambda>t. io_return (t, variance, True, ''vision_llm''))) (\<lambda>_. ?keep) else ?keep)"
  proof (intro gives_if gives_catch gives_bind [OF gives_any] gives_return keep)
    fix t assume "oc_variance_threshold cfg < variance \<and> oc_llm_available cfg"
    then show "page_ok cfg (t, variance, True, ''vision_llm'')" using x by (simp add: x1 page_ok_def)
  qed
  then show "gives (page_ok cfg) (case x of (best, variance, conf, label) \<Rightarrow>
      if oc_variance_threshold cfg < variance \<and> oc_llm_available cfg
      then io_catch (io_bind (on_host (dd_vision d page)) (\<lambda>t. io_return (t, variance, True, ''vision_llm'')))
        (\<lambda>_. io_return (best, variance, False, label))
      else io_return (best, variance, False, label))"
    by (simp only: x1 prod.case)
qed

lemma ocr_pages_ok: "gives (\<lambda>rs. list_all (page_ok cfg) rs \<and> length rs = length ps) (ocr_pages cfg d ps)"
proof (induction ps)
  case Nil
  show ?case by (simp only: ocr_pages.simps) (intro gives_return, simp)
next
  case (Cons p ps)
  obtain page img where p: "p = (page, img)" by (cases p)
  show ?case unfolding p ocr_pages.simps
    by (rule gives_bind [OF gives_any], rule gives_bind [OF ocr_page_ok], rule gives_bind [OF Cons], rule gives_return) simp
qed

lemma worst_page_ok:
  assumes "list_all (page_ok cfg) rs" "worst_page (v0, e0) rs = (v, e)"
  shows "v0 \<le> v \<and> (\<forall>r\<in>set rs. fst (snd r) \<le> v) \<and> (v = v0 \<and> e = e0 \<or> (\<exists>r\<in>set rs. fst (snd r) = v \<and> snd (snd (snd r)) = e))"
  using assms by (induction "(v0, e0)" rs arbitrary: v0 e0 rule: worst_page.induct) (fastforce split: if_splits)+

text \<open>A processed document: every loaded page counts and, preprocessed, has a text; the reported variance is the
  largest one, between 0 and 1, and the engine the one of a page that has it; the vision model is only reported if it is
  configured and some page called for it; the extraction is the parser's on the joined text if no model is configured;
  and the validation is the extraction's.\<close>
theorem process_document_result:
  assumes "process_document_with_pages cfg d file_bytes name w = (Inr p, w')"
  shows "let r = pd_response p in \<exists>results. list_all (page_ok cfg) results \<and> pd_page_texts p = map fst results \<and>
     length results \<le> ig_page_count r \<and> 0 \<le> ig_variance r \<and> ig_variance r \<le> 1 \<and>
     (\<exists>v. ig_variance r = py_round v 4 \<and> (\<forall>q\<in>set results. fst (snd q) \<le> v) \<and>
        (v = 0 \<and> ig_engine r = ''tesseract'' \<or> (\<exists>q\<in>set results. fst (snd q) = v \<and> snd (snd (snd q)) = ig_engine r))) \<and>
     (ig_vision r \<longleftrightarrow> (\<exists>q\<in>set results. fst (snd (snd q)))) \<and> (ig_vision r \<longrightarrow> oc_llm_available cfg) \<and>
     ig_llm r = oc_llm_available cfg \<and>
     (\<not> oc_llm_available cfg \<longrightarrow> extract_with_regex (join [CHR 0x0A, CHR 0x0A] (pd_page_texts p)) = Inr (ig_extraction r)) \<and>
     ig_validation r = validate_invoice_totals (ig_extraction r) default_tolerance"
proof -
  let ?sep = "[CHR 0x0A, CHR 0x0A]"
  define good where "good = (\<lambda>p. \<exists>n rs x t. p = document_of n rs x t \<and> list_all (page_ok cfg) rs \<and> length rs \<le> n \<and>
     snd x = oc_llm_available cfg \<and> (\<not> oc_llm_available cfg \<longrightarrow> extract_with_regex (join ?sep (map fst rs)) = Inr (fst x)))"
  have x: "gives (\<lambda>x. snd x = oc_llm_available cfg \<and> (\<not> oc_llm_available cfg \<longrightarrow> extract_with_regex t = Inr (fst x)))
      (extract_structured (oc_llm_available cfg) f t)" for f :: "str \<Rightarrow> ('a ocr_world, extraction) io" and t
    unfolding extract_structured_def
    by (intro gives_if, rule gives_bind [OF gives_any], rule gives_return, simp,
        rule gives_bind [OF gives_lift [where P = "\<lambda>e. extract_with_regex t = Inr e"]], simp, rule gives_return, simp)
  have "gives good (process_document_with_pages cfg d file_bytes name)"
    unfolding process_document_with_pages_def
  proof (rule gives_bind [OF gives_any], rule gives_bind [OF gives_any], rule gives_bind [OF gives_any],
      rule gives_bind [OF ocr_pages_ok], rule gives_bind [OF x], rule gives_bind [OF gives_any], rule gives_return)
    fix start fin :: rat and pages :: "'c list" and imgs :: "'b list" and rs x
    assume "list_all (page_ok cfg) rs \<and> length rs = length (zip pages imgs)"
      "snd x = oc_llm_available cfg \<and> (\<not> oc_llm_available cfg \<longrightarrow> extract_with_regex (join ?sep (map fst rs)) = Inr (fst x))"
    then show "good (document_of (length pages) rs x (fin - start))"
      unfolding good_def by (intro exI [of _ "length pages"] exI [of _ rs] exI [of _ x] exI [of _ "fin - start"]) simp
  qed
  with assms have "good p" unfolding gives_def by blast
  then obtain n rs x t where p: "p = document_of n rs x t" and rs: "list_all (page_ok cfg) rs" "length rs \<le> n"
    and sx: "snd x = oc_llm_available cfg" "\<not> oc_llm_available cfg \<longrightarrow> extract_with_regex (join ?sep (map fst rs)) = Inr (fst x)"
    unfolding good_def by blast
  obtain v e where worst: "worst_page (0, ''tesseract'') rs = (v, e)" by fastforce
  from worst_page_ok [OF rs(1) worst] have wv: "0 \<le> v" "\<forall>q\<in>set rs. fst (snd q) \<le> v"
    "v = 0 \<and> e = ''tesseract'' \<or> (\<exists>q\<in>set rs. fst (snd q) = v \<and> snd (snd (snd q)) = e)" by blast+
  have "v \<le> 1" using wv(3) rs(1) by (auto simp: list_all_iff page_ok_def)
  then have bounds: "0 \<le> py_round v 4 \<and> py_round v 4 \<le> 1" using wv(1) by (simp add: py_round_nonneg py_round_le_1)
  have vision: "(\<exists>q\<in>set rs. fst (snd (snd q))) \<longrightarrow> oc_llm_available cfg"
    using rs(1) by (fastforce simp: list_all_iff page_ok_def)
  show ?thesis unfolding p document_of_def worst prod.case Let_def
    by (rule exI [of _ rs]) (use rs wv bounds vision sx in \<open>auto intro!: exI [of _ v]\<close>)
qed


section \<open>Re-ingesting a document\<close>

lemma chunk_ids: "map ch_id (snd (build_document_chunks h b name pages)) =
    map (\<lambda>(n, t). h b @ '':page:'' @ nat_text n) (filter (\<lambda>(n, t). strip t \<noteq> []) (enumerate 1 pages))"
  by (auto simp: build_document_chunks_def page_chunk_def Let_def comp_def)

lemma distinct_chunk_ids: "distinct (map ch_id (snd (build_document_chunks h b name pages)))"
proof -
  have "inj_on (\<lambda>(n, t). h b @ '':page:'' @ nat_text n) (set (enumerate 1 pages))"
    by (auto simp: inj_on_def in_set_enumerate_eq)
  moreover have "distinct (filter (\<lambda>(n, t). strip t \<noteq> []) (enumerate 1 pages))" by (intro distinct_filter distinct_enumerate)
  ultimately show ?thesis unfolding chunk_ids distinct_map by (auto intro: inj_on_subset)
qed

lemma chunk_count: "length (snd (build_document_chunks h b name pages)) = length (filter (\<lambda>t. strip t \<noteq> []) pages)"
proof -
  have "length (filter (\<lambda>(n, t). strip t \<noteq> []) (enumerate 1 pages)) = length (filter (\<lambda>t. strip t \<noteq> []) (map snd (enumerate 1 pages)))"
    by (simp add: filter_map comp_def case_prod_unfold del: map_snd_enumerate)
  then show ?thesis by (simp add: build_document_chunks_def Let_def)
qed


section \<open>An example document\<close>

definition ex_engines :: "(unit, str) engines" where
  "ex_engines = \<lparr>en_image_data = (\<lambda>i. io_return (map PInt [90, -1])), en_image_string = (\<lambda>i. io_return i),
     en_load_reader = io_raise (OtherException ''ImportError'', []), en_readtext = (\<lambda>i. io_return [])\<rparr>"

definition ex_doc :: "(unit, str, str) doc_deps" where
  "ex_doc = \<lparr>dd_engines = ex_engines, dd_load_pdf = (\<lambda>b. io_return [b]), dd_load_image = (\<lambda>b. io_return b),
     dd_preprocess = (\<lambda>ps. io_return ps), dd_grayscale = (\<lambda>p. io_return p), dd_vision = (\<lambda>i. io_raise (RuntimeError, [])),
     dd_extract_llm = (\<lambda>t. io_return ex_table_read), dd_clock = io_return 0\<rparr>"

definition ex_settings :: "bool \<Rightarrow> ocr_settings" where
  "ex_settings llm = \<lparr>oc_tesseract_cmd = [], oc_easyocr_enabled = True, oc_variance_threshold = 15 / 100, oc_llm_available = llm\<rparr>"

definition ex_ocr_world :: "unit ocr_world" where
  "ex_ocr_world = \<lparr>ow_reader = NotLoaded, ow_command = [], ow_host = ()\<rparr>"

lemma ex_host_works: "host_works ex_doc"
  by (auto simp: host_works_def tesseract_works_def ex_doc_def ex_engines_def io_total_def intro!: exI [of _ "[90, -1]"])

lemma ex_offline_fails: "process_document_with_pages (ex_settings False) ex_doc ''TAX ,'' ''scan.png'' ex_ocr_world =
    (Inl parser_error, ex_ocr_world\<lparr>ow_reader := Unavailable\<rparr>)"
proof -
  have suffix: "file_suffix ''scan.png'' \<noteq> ''pdf''" by code_simp
  have same: "compute_variance t t = 0" for t by (simp add: compute_variance_def ratio_one)
  have stripped: "strip ''TAX ,'' = ''TAX ,''" by code_simp
  have score: "score_parseable_text ''TAX ,'' = Inl parser_error" by code_simp
  show ?thesis
    by (simp add: process_document_with_pages_def ex_doc_def ex_engines_def ex_settings_def ex_ocr_world_def load_pages_def suffix
        io_bind_def on_host_def ocr_page_def run_dual_ocr_with_fallback_def run_tesseract_def configure_tesseract_def
        run_easyocr_def get_easyocr_reader_def get_reader_def put_reader_def io_catch_def stripped same score
        fallback_candidates_def pick_best_candidate_def)
qed

theorem only_the_parser_fails_witness:
  "\<exists>e w'. process_document_with_pages (ex_settings False) ex_doc ''TAX ,'' ''scan.png'' ex_ocr_world = (Inl e, w') \<and> e = parser_error"
proof (intro exI conjI)
  show "parser_error = parser_error"
    by (rule only_the_parser_fails [OF ex_host_works _ ex_offline_fails]) (simp add: ex_doc_def io_total_def)
qed (rule ex_offline_fails)

lemma ex_online_document: "process_document_with_pages (ex_settings True) ex_doc ''BILL'' ''Scan.PDF'' ex_ocr_world =
    (Inr \<lparr>pd_response = \<lparr>ig_extraction = ex_table_read, ig_engine = ''tesseract'', ig_variance = 0, ig_vision = False, ig_llm = True,
        ig_validation = validate_invoice_totals ex_table_read default_tolerance, ig_time_ms = 0, ig_page_count = 1\<rparr>,
      pd_page_texts = [''BILL'']\<rparr>, ex_ocr_world\<lparr>ow_reader := Unavailable\<rparr>)"
proof -
  have suffix: "file_suffix ''Scan.PDF'' = ''pdf''" by code_simp
  have stripped: "strip ''BILL'' = ''BILL''" by code_simp
  show ?thesis
    by (simp add: process_document_with_pages_def ex_doc_def ex_engines_def ex_settings_def ex_ocr_world_def load_pages_def suffix
        io_bind_def on_host_def ocr_page_def run_dual_ocr_def run_tesseract_def configure_tesseract_def extract_structured_def
        run_easyocr_def get_easyocr_reader_def get_reader_def put_reader_def io_catch_def stripped document_of_def py_round_def round_half_even_def)
qed

theorem process_document_result_witness:
  "\<exists>results. list_all (page_ok (ex_settings True)) results \<and> [''BILL''] = map fst results"
  using process_document_result [OF ex_online_document] by (auto simp: Let_def)


section \<open>Where a good reading is lost\<close>

text \<open>If the engines disagree, every candidate is scored by the offline parser, even with a language model configured, so
  one candidate that the parser fails on fails the page before the vision model is asked.\<close>

lemma disagreement_needs_the_parser:
  "oc_variance_threshold cfg < v \<Longrightarrow> c \<in> set cs \<Longrightarrow> extract_with_regex (fst c) = Inl e \<Longrightarrow>
     pick_best_candidate cfg cs v = Inl parser_error"
proof -
  assume v: "oc_variance_threshold cfg < v" and c: "c \<in> set cs" "extract_with_regex (fst c) = Inl e"
  have "\<exists>e. scored cs = Inl e" using c
  proof (induction cs)
    case (Cons x xs)
    then show ?case
      by (cases "score_parseable_text (fst x)"; cases "scored xs") (auto simp: score_parseable_text_def)
  qed simp
  then obtain e' where "scored cs = Inl e'" by blast
  with scored_error v show ?thesis by (auto simp: pick_best_candidate_def)
qed

text \<open>A document whose pages all have variance 0 is reported as read by Tesseract, whichever engine was chosen.\<close>

lemma no_variance_names_tesseract: "\<forall>r\<in>set rs. fst (snd r) = 0 \<Longrightarrow> worst_page (0, e) rs = (0, e)"
  by (induction rs) auto

end
