(* ===== verification/HttpApi.thy ===== *)
theory HttpApi
  imports Orchestrator Redactor Ingestion
begin

text \<open>
  The HTTP boundary of the runtime, \<open>services-runtime/src/main.py\<close> and \<open>chat/completions.py\<close>: what a request has to
  look like, what each route calls, which failure becomes which status, and the lazily created objects that the
  requests share. FastAPI's coercion of query, form and numeric fields, the OpenAI client and the environment are
  parameters.
\<close>

section \<open>Replies\<close>

text \<open>\<open>HTTPException\<close> with its status and detail; a request body that the declared types refuse is FastAPI's own 422;
  an exception the route does not catch is a 500.\<close>

datatype 'a reply = Ok 'a | HttpError nat str | Unprocessable | InternalError exn

section \<open>Executing a task\<close>

datatype execution_scope = ScopeRag | ScopeTextToSql | ScopeAgentOrchestrator

fun scope_value :: "execution_scope \<Rightarrow> str" where
  "scope_value ScopeRag = ''rag''"
| "scope_value ScopeTextToSql = ''text_to_sql''"
| "scope_value ScopeAgentOrchestrator = ''agent_orchestrator''"

definition parse_scope :: "str \<Rightarrow> execution_scope option" where
  "parse_scope s = find (\<lambda>c. scope_value c = s) [ScopeRag, ScopeTextToSql, ScopeAgentOrchestrator]"

record session_controls =
  sc_session_id :: "str option"
  sc_rag_top_k :: "int option"

record execution_request =
  er_user_id :: str
  er_scope :: execution_scope
  er_query :: str
  er_context :: "session_controls option"

text \<open>A text field with bounds on its length, which are checked before the text is trimmed; blank texts are refused.\<close>

definition bounded_text :: "nat \<Rightarrow> pyval \<Rightarrow> str option" where
  "bounded_text bound v = (case v of
     PStr s \<Rightarrow> if length s < 1 \<or> bound < length s then None
              else if strip s = [] then None else Some (strip s)
   | _ \<Rightarrow> None)"

fun obind :: "'a option \<Rightarrow> ('a \<Rightarrow> 'b option) \<Rightarrow> 'b option" where
  "obind None f = None"
| "obind (Some x) f = f x"

text \<open>A field that may be absent or null.\<close>

definition optional_field :: "(pyval \<Rightarrow> 'a option) \<Rightarrow> pyval dict \<Rightarrow> str \<Rightarrow> 'a option option" where
  "optional_field parse d k = (case map_of d k of None \<Rightarrow> Some None | Some PNone \<Rightarrow> Some None | Some v \<Rightarrow> map_option Some (parse v))"

definition required_field :: "(pyval \<Rightarrow> 'a option) \<Rightarrow> pyval dict \<Rightarrow> str \<Rightarrow> 'a option" where
  "required_field parse d k = obind (map_of d k) parse"

definition no_extra :: "str list \<Rightarrow> pyval dict \<Rightarrow> bool" where
  "no_extra ks d \<longleftrightarrow> set (dict_keys d) \<subseteq> set ks"

definition top_k_field :: "(pyval \<Rightarrow> int option) \<Rightarrow> pyval \<Rightarrow> int option" where
  "top_k_field lax_int v = obind (lax_int v) (\<lambda>i. if 1 \<le> i \<and> i \<le> 20 then Some i else None)"

definition parse_controls :: "(pyval \<Rightarrow> int option) \<Rightarrow> pyval \<Rightarrow> session_controls option" where
  "parse_controls lax_int v = (case v of
     PDict d \<Rightarrow>
       (if \<not> no_extra [''session_id'', ''rag_top_k''] d then None
        else obind (optional_field (bounded_text 128) d ''session_id'') (\<lambda>sid.
             obind (optional_field (top_k_field lax_int) d ''rag_top_k'') (\<lambda>k.
             Some \<lparr>sc_session_id = sid, sc_rag_top_k = k\<rparr>)))
   | _ \<Rightarrow> None)"

definition scope_field :: "pyval \<Rightarrow> execution_scope option" where
  "scope_field v = (case v of PStr s \<Rightarrow> parse_scope s | _ \<Rightarrow> None)"

definition parse_execution_request :: "(pyval \<Rightarrow> int option) \<Rightarrow> pyval \<Rightarrow> execution_request option" where
  "parse_execution_request lax_int v = (case v of
     PDict d \<Rightarrow>
       (if \<not> no_extra [''user_id'', ''feature_scope'', ''payload_query'', ''session_context''] d then None
        else obind (required_field (bounded_text 128) d ''user_id'') (\<lambda>user.
             obind (required_field scope_field d ''feature_scope'') (\<lambda>scope.
             obind (required_field (bounded_text 16384) d ''payload_query'') (\<lambda>query.
             obind (optional_field (parse_controls lax_int) d ''session_context'') (\<lambda>ctx.
             Some \<lparr>er_user_id = user, er_scope = scope, er_query = query, er_context = ctx\<rparr>)))))
   | _ \<Rightarrow> None)"

text \<open>\<open>model_dump(exclude_none=True)\<close>.\<close>

definition dump_controls :: "session_controls \<Rightarrow> pyval dict" where
  "dump_controls c = (case sc_session_id c of None \<Rightarrow> [] | Some s \<Rightarrow> [(''session_id'', PStr s)])
     @ (case sc_rag_top_k c of None \<Rightarrow> [] | Some k \<Rightarrow> [(''rag_top_k'', PInt k)])"

definition orchestration_request :: "execution_request \<Rightarrow> request" where
  "orchestration_request r = \<lparr>rq_user_id = er_user_id r, rq_feature_scope = scope_value (er_scope r), rq_query = er_query r,
     rq_context = map_option dump_controls (er_context r)\<rparr>"

definition execute_route :: "'w deps \<Rightarrow> (pyval \<Rightarrow> int option) \<Rightarrow> pyval \<Rightarrow> 'w \<Rightarrow> orc_result reply \<times> 'w" where
  "execute_route d lax_int body w = (case parse_execution_request lax_int body of
     None \<Rightarrow> (Unprocessable, w)
   | Some r \<Rightarrow> (case run_orchestration d (orchestration_request r) w of
       (Inl e, w') \<Rightarrow> (HttpError 502 ''CoreMesh execution failed.'', w')
     | (Inr res, w') \<Rightarrow> (Ok res, w')))"

section \<open>Reading traces\<close>

record trace_query =
  tq_limit :: int
  tq_offset :: int
  tq_status :: "str option"
  tq_trigger :: "failure_trigger option"
  tq_category :: "failure_category option"

definition trace_query_ok :: "trace_query \<Rightarrow> bool" where
  "trace_query_ok q \<longleftrightarrow> 1 \<le> tq_limit q \<and> tq_limit q \<le> 100 \<and> 0 \<le> tq_offset q \<and>
     (case tq_status q of None \<Rightarrow> True | Some s \<Rightarrow> length s \<le> 64)"

record trace_page =
  tp_items :: "trace_summary list"
  tp_total :: int
  tp_limit :: int
  tp_offset :: int

text \<open>The subclasses of \<open>OSError\<close>, and of \<open>ValueError\<close>, among the exceptions of the development.\<close>

definition os_error :: "exn_class \<Rightarrow> bool" where
  "os_error c \<longleftrightarrow> c \<in> {OSError, TimeoutError, ConnectionError, OtherException ''FileNotFoundError'', OtherException ''PermissionError''}"

definition value_error :: "exn_class \<Rightarrow> bool" where
  "value_error c \<longleftrightarrow> c \<in> {ValueError, ValidationError, OtherException ''UnicodeError'', OtherException ''JSONDecodeError''}"

definition list_failure :: "exn_class \<Rightarrow> bool" where
  "list_failure c \<longleftrightarrow> os_error c \<or> value_error c \<or> c = OtherException ''sqlite3.Error''"

definition read_failure :: "exn_class \<Rightarrow> bool" where
  "read_failure c \<longleftrightarrow> os_error c \<or> c \<in> {OtherException ''UnicodeError'', ValidationError}"

text \<open>The registry may also raise itself, which is the first argument.\<close>

definition list_traces_route ::
    "exn option \<Rightarrow> registry_row list option \<Rightarrow> trace_query \<Rightarrow> trace_page reply" where
  "list_traces_route fault registry q =
     (if \<not> trace_query_ok q then Unprocessable
      else case (case fault of Some e \<Rightarrow> Inl e | None \<Rightarrow>
          list_traces registry (tq_limit q) (tq_offset q) (tq_status q) (tq_trigger q) (tq_category q)) of
        Inl e \<Rightarrow> if list_failure (fst e) then HttpError 503 ''Forensic trace registry is unavailable.'' else InternalError e
      | Inr (items, n) \<Rightarrow> Ok \<lparr>tp_items = items, tp_total = n, tp_limit = tq_limit q, tp_offset = tq_offset q\<rparr>)"

definition trace_id_rx :: regex where
  "trace_id_rx = r_seq [r_start, r_times 32 (RSet (\<lambda>c. is_digit c \<or> c \<in> set ''abcdef'')), r_end]"

definition get_trace_route :: "exn option \<Rightarrow> store \<Rightarrow> str \<Rightarrow> artifact reply" where
  "get_trace_route fault st tid =
     (if re_fullmatch trace_id_rx tid = None then HttpError 422 ''trace_id must be 32 lowercase hexadecimal characters.''
      else case (case fault of Some e \<Rightarrow> Inl e | None \<Rightarrow> get_trace tid st) of
        Inr a \<Rightarrow> Ok a
      | Inl e \<Rightarrow> if fst e = OtherException ''FileNotFoundError'' then HttpError 404 ''Forensic trace not found.''
                 else if read_failure (fst e) then HttpError 503 ''Forensic trace artifact is unavailable.''
                 else InternalError e)"

section \<open>Chat completions\<close>

record chat_message =
  cm_role :: str
  cm_content :: pyval

record chat_request =
  cr_model :: str
  cr_messages :: "chat_message list"
  cr_temperature :: "rat option"

fun content_ok :: "pyval \<Rightarrow> bool" where
  "content_ok (PStr s) = True"
| "content_ok (PSeq xs) = True"
| "content_ok (PDict d) = True"
| "content_ok PNone = True"
| "content_ok _ = False"

definition text_field :: "pyval \<Rightarrow> str option" where
  "text_field v = (case v of PStr s \<Rightarrow> Some s | _ \<Rightarrow> None)"

definition parse_message :: "pyval \<Rightarrow> chat_message option" where
  "parse_message v = (case v of
     PDict d \<Rightarrow> obind (required_field text_field d ''role'') (\<lambda>role.
       let content = get_or_none d ''content'' in
       if content_ok content then Some \<lparr>cm_role = role, cm_content = content\<rparr> else None)
   | _ \<Rightarrow> None)"

definition parse_messages :: "pyval \<Rightarrow> chat_message list option" where
  "parse_messages v = (case v of PSeq xs \<Rightarrow> if xs = [] then None else those (map parse_message xs) | _ \<Rightarrow> None)"

definition parse_chat_request :: "(pyval \<Rightarrow> rat option) \<Rightarrow> pyval dict \<Rightarrow> chat_request option" where
  "parse_chat_request lax_float d =
     obind (case map_of d ''model'' of None \<Rightarrow> Some ''gpt-4o-mini'' | Some v \<Rightarrow> text_field v) (\<lambda>model.
     obind (required_field parse_messages d ''messages'') (\<lambda>ms.
     obind (optional_field lax_float d ''temperature'') (\<lambda>t.
     Some \<lparr>cr_model = model, cr_messages = ms, cr_temperature = t\<rparr>)))"

definition nonblank :: "str \<Rightarrow> str list" where
  "nonblank s = (if strip s = [] then [] else [strip s])"

fun content_part :: "pyval \<Rightarrow> str list" where
  "content_part (PStr s) = nonblank s"
| "content_part (PDict d) = (case map_of d ''text'' of Some (PStr s) \<Rightarrow> nonblank s | _ \<Rightarrow> [])"
| "content_part _ = []"

fun message_text :: "pyval \<Rightarrow> str option" where
  "message_text (PStr s) = (if strip s = [] then None else Some (strip s))"
| "message_text (PSeq xs) = (let parts = concat (map content_part xs) in if parts = [] then None else Some (join [CHR 0x0A] parts))"
| "message_text _ = None"

fun first_user_text :: "chat_message list \<Rightarrow> str option" where
  "first_user_text [] = None"
| "first_user_text (m # ms) = (if cm_role m \<noteq> ''user'' then first_user_text ms
     else case message_text (cm_content m) of Some t \<Rightarrow> Some t | None \<Rightarrow> first_user_text ms)"

definition extract_last_user_text :: "chat_message list \<Rightarrow> str result" where
  "extract_last_user_text ms = (case first_user_text (rev ms) of
     None \<Rightarrow> Inl (ValueError, ''messages must include a non-empty user content string'') | Some t \<Rightarrow> Inr t)"

record chat_settings =
  cs_stub_env :: str
  cs_openai_key :: str

definition stub_enabled :: "chat_settings \<Rightarrow> bool" where
  "stub_enabled c = (let raw = lower (strip (cs_stub_env c)) in
     if raw \<in> {''1'', ''true'', ''yes'', ''on''} then True
     else if raw \<in> {''0'', ''false'', ''no'', ''off''} then False
     else strip (cs_openai_key c) = [])"

definition stub_response :: "str \<Rightarrow> str \<Rightarrow> pyval dict" where
  "stub_response model user_text =
     [(''id'', PStr ''chatcmpl-coremesh-stub''), (''object'', PStr ''chat.completion''), (''model'', PStr model),
      (''choices'', PSeq [PDict [(''index'', PInt 0),
         (''message'', PDict [(''role'', PStr ''assistant''), (''content'', PStr (''coremesh-chat-stub: '' @ user_text))]),
         (''finish_reason'', PStr ''stop'')]]),
      (''usage'', PDict [(''prompt_tokens'', PInt 0), (''completion_tokens'', PInt 0), (''total_tokens'', PInt 0)])]"

text \<open>The provider call gets the model, the messages without null contents and the temperature if there is one.\<close>

definition dump_message :: "chat_message \<Rightarrow> pyval dict" where
  "dump_message m = (''role'', PStr (cm_role m)) # (if cm_content m = PNone then [] else [(''content'', cm_content m)])"

definition openai_kwargs :: "chat_request \<Rightarrow> pyval dict" where
  "openai_kwargs r = [(''model'', PStr (cr_model r)), (''messages'', PSeq (map (\<lambda>m. PDict (dump_message m)) (cr_messages r)))]
     @ (case cr_temperature r of None \<Rightarrow> [] | Some t \<Rightarrow> [(''temperature'', PFloat t)])"

definition build_chat_completion ::
    "chat_settings \<Rightarrow> (pyval dict \<Rightarrow> ('w, pyval dict) io) \<Rightarrow> chat_request \<Rightarrow> ('w, pyval dict) io" where
  "build_chat_completion c openai r =
     io_bind (io_lift (extract_last_user_text (cr_messages r))) (\<lambda>t.
       if stub_enabled c then io_return (stub_response (cr_model r) t)
       else if strip (cs_openai_key c) = [] then io_return (stub_response (cr_model r) t)
       else openai (openai_kwargs r))"

text \<open>The detail of a validation error is pydantic's list of errors, which is not modelled.\<close>

definition chat_route ::
    "chat_settings \<Rightarrow> (pyval \<Rightarrow> rat option) \<Rightarrow> (pyval dict \<Rightarrow> ('w, pyval dict) io) \<Rightarrow> pyval \<Rightarrow> 'w \<Rightarrow> pyval dict reply \<times> 'w" where
  "chat_route c lax_float openai body w = (case body of
     PDict d \<Rightarrow> (case parse_chat_request lax_float d of
         None \<Rightarrow> (HttpError 400 ''validation'', w)
       | Some r \<Rightarrow> (case build_chat_completion c openai r w of
           (Inr res, w') \<Rightarrow> (Ok res, w')
         | (Inl e, w') \<Rightarrow> (if value_error (fst e) then HttpError 400 (exn_message e)
                          else HttpError 502 (''Chat completion failed: '' @ exn_message e), w')))
   | _ \<Rightarrow> (Unprocessable, w))"

definition health_route :: "pyval dict" where
  "health_route = [(''status'', PStr ''ok''), (''service'', PStr ''coremesh-runtime'')]"

section \<open>Ingesting a document\<close>

record 'w app_world =
  aw_reader :: reader
  aw_command :: str
  aw_sparse :: sparse_index
  aw_hydrated :: bool
  aw_host :: 'w

definition on_ocr :: "('w ocr_world, 'a) io \<Rightarrow> ('w app_world, 'a) io" where
  "on_ocr m w = (case m \<lparr>ow_reader = aw_reader w, ow_command = aw_command w, ow_host = aw_host w\<rparr> of (r, o1) \<Rightarrow>
     (r, w\<lparr>aw_reader := ow_reader o1, aw_command := ow_command o1, aw_host := ow_host o1\<rparr>))"

definition retriever_of :: "'w app_world \<Rightarrow> 'w retriever" where
  "retriever_of w = \<lparr>rv_sparse = aw_sparse w, rv_hydrated = aw_hydrated w, rv_world = aw_host w\<rparr>"

definition on_retriever :: "('w retriever, 'a) io \<Rightarrow> ('w app_world, 'a) io" where
  "on_retriever m w = (case m (retriever_of w) of (r, v) \<Rightarrow>
     (r, w\<lparr>aw_sparse := rv_sparse v, aw_hydrated := rv_hydrated v, aw_host := rv_world v\<rparr>))"

definition on_app :: "('w, 'a) io \<Rightarrow> ('w app_world, 'a) io" where
  "on_app m w = (case m (aw_host w) of (r, h) \<Rightarrow> (r, w\<lparr>aw_host := h\<rparr>))"

definition allowed_content_types :: "str list" where
  "allowed_content_types = [''application/pdf'', ''image/png'', ''image/jpeg'', ''image/tiff'', ''image/bmp'', ''image/webp'']"

record upload =
  up_content_type :: "str option"
  up_filename :: "str option"
  up_bytes :: str

definition upload_name :: "upload \<Rightarrow> str" where
  "upload_name u = (case up_filename u of None \<Rightarrow> ''upload'' | Some n \<Rightarrow> if n = [] then ''upload'' else n)"

text \<open>The response with the document identifier and the number of chunks if it was indexed.\<close>

type_synonym ingest_reply = "ingest_response \<times> (str \<times> nat) option"

definition index_document ::
    "('w, 'v) rag_deps \<Rightarrow> ('w, unit) io \<Rightarrow> (str \<Rightarrow> str) \<Rightarrow> upload \<Rightarrow> processed_document \<Rightarrow> 'w app_world
       \<Rightarrow> ingest_reply reply \<times> 'w app_world" where
  "index_document rag make_retriever sha256 u p w =
     (case build_document_chunks sha256 (up_bytes u) (upload_name u) (pd_page_texts p) of (doc, chunks) \<Rightarrow>
       if chunks = [] then (HttpError 422 ''Document contains no indexable text.'', w)
       else case io_then (on_app make_retriever) (on_retriever (index_chunks rag chunks)) w of
         (Inl e, w') \<Rightarrow> (HttpError 503 ''RAG indexing dependencies are unavailable.'', w')
       | (Inr _, w') \<Rightarrow> (Ok (pd_response p, Some (doc, length chunks)), w'))"

definition ingest_route ::
    "ocr_settings \<Rightarrow> ('w, 'img, 'page) doc_deps \<Rightarrow> ('w, 'v) rag_deps \<Rightarrow> ('w, unit) io \<Rightarrow> (str \<Rightarrow> str) \<Rightarrow> upload \<Rightarrow> bool
       \<Rightarrow> 'w app_world \<Rightarrow> ingest_reply reply \<times> 'w app_world" where
  "ingest_route cfg d rag make_retriever sha256 u index_for_rag w =
     (if (case up_content_type u of None \<Rightarrow> True | Some c \<Rightarrow> c \<notin> set allowed_content_types)
      then (HttpError 415 ''Unsupported content type'', w)
      else if up_bytes u = [] then (HttpError 400 ''Uploaded file is empty.'', w)
      else case on_ocr (process_document_with_pages cfg d (up_bytes u) (upload_name u)) w of
        (Inl e, w') \<Rightarrow> (HttpError 422 (''Document processing failed: '' @ exn_message e), w')
      | (Inr p, w') \<Rightarrow> if index_for_rag then index_document rag make_retriever sha256 u p w'
                        else (Ok (pd_response p, None), w'))"

section \<open>Lazily created objects\<close>

text \<open>\<open>get_rag_retriever\<close> and \<open>get_orchestrator_dependencies\<close>: the attribute is read without the lock, and again under it,
  before an object is made and stored. A thread may be anywhere in between. Objects are numbers.\<close>

datatype place =
    Outside | Missed | Entered | Creating | Created nat | Leaving nat | Got nat | Failed

record 't lazy_state =
  lz_attribute :: "nat option"
  lz_holder :: "'t option"
  lz_made :: nat
  lz_place :: "'t \<Rightarrow> place"

abbreviation goes :: "'t lazy_state \<Rightarrow> 't \<Rightarrow> place \<Rightarrow> 't lazy_state" where
  "goes s t p \<equiv> s\<lparr>lz_place := (lz_place s)(t := p)\<rparr>"

inductive lazy_step :: "'t lazy_state \<Rightarrow> 't lazy_state \<Rightarrow> bool" where
  hit: "lz_place s t = Outside \<Longrightarrow> lz_attribute s = Some x \<Longrightarrow> lazy_step s (goes s t (Got x))"
| miss: "lz_place s t = Outside \<Longrightarrow> lz_attribute s = None \<Longrightarrow> lazy_step s (goes s t Missed)"
| lock: "lz_place s t = Missed \<Longrightarrow> lz_holder s = None \<Longrightarrow> lazy_step s (goes (s\<lparr>lz_holder := Some t\<rparr>) t Entered)"
| late: "lz_place s t = Entered \<Longrightarrow> lz_attribute s = Some x \<Longrightarrow> lazy_step s (goes s t (Leaving x))"
| create: "lz_place s t = Entered \<Longrightarrow> lz_attribute s = None \<Longrightarrow> lazy_step s (goes s t Creating)"
| made: "lz_place s t = Creating \<Longrightarrow> lazy_step s (goes (s\<lparr>lz_made := Suc (lz_made s)\<rparr>) t (Created (lz_made s)))"
| fails: "lz_place s t = Creating \<Longrightarrow> lazy_step s (goes (s\<lparr>lz_holder := None\<rparr>) t Failed)"
| store: "lz_place s t = Created x \<Longrightarrow> lazy_step s (goes (s\<lparr>lz_attribute := Some x\<rparr>) t (Leaving x))"
| unlock: "lz_place s t = Leaving x \<Longrightarrow> lazy_step s (goes (s\<lparr>lz_holder := None\<rparr>) t (Got x))"
| again: "lz_place s t \<in> {Got x, Failed} \<Longrightarrow> lazy_step s (goes s t Outside)"

definition lazy_start :: "'t lazy_state" where
  "lazy_start = \<lparr>lz_attribute = None, lz_holder = None, lz_made = 0, lz_place = (\<lambda>t. Outside)\<rparr>"

inductive lazy_reachable :: "'t lazy_state \<Rightarrow> bool" where
  start: "lazy_reachable lazy_start"
| step: "lazy_reachable s \<Longrightarrow> lazy_step s s' \<Longrightarrow> lazy_reachable s'"

section \<open>Requests are typed\<close>

lemma length_strip: "length (strip s) \<le> length s"
proof -
  have "length (rstrip_by p u) \<le> length u" for p and u :: str
    by (simp add: rstrip_by_def) (metis length_dropWhile_le length_rev)
  then show ?thesis unfolding strip_def strip_by_def lstrip_by_def by (meson le_trans length_dropWhile_le)
qed

lemma obind_eq_Some [simp]: "obind m f = Some y \<longleftrightarrow> (\<exists>x. m = Some x \<and> f x = Some y)"
  by (cases m) auto

definition clean_text :: "nat \<Rightarrow> str \<Rightarrow> bool" where
  "clean_text bound s \<longleftrightarrow> s \<noteq> [] \<and> strip s = s \<and> length s \<le> bound"

lemma bounded_text_clean: "bounded_text n v = Some s \<Longrightarrow> clean_text n s"
  by (auto simp: bounded_text_def clean_text_def not_less split: pyval.splits if_splits intro: le_trans [OF length_strip])

lemma bounded_text_id: "clean_text n s \<Longrightarrow> bounded_text n (PStr s) = Some s"
  by (cases s) (auto simp: bounded_text_def clean_text_def)

text \<open>What the declared types promise of a request, and the body a client sends for one.\<close>

definition valid_controls :: "session_controls \<Rightarrow> bool" where
  "valid_controls c \<longleftrightarrow> (\<forall>s. sc_session_id c = Some s \<longrightarrow> clean_text 128 s) \<and> (\<forall>k. sc_rag_top_k c = Some k \<longrightarrow> 1 \<le> k \<and> k \<le> 20)"

definition valid_request :: "execution_request \<Rightarrow> bool" where
  "valid_request r \<longleftrightarrow> clean_text 128 (er_user_id r) \<and> clean_text 16384 (er_query r) \<and>
     (case er_context r of None \<Rightarrow> True | Some c \<Rightarrow> valid_controls c)"

definition request_body :: "execution_request \<Rightarrow> pyval" where
  "request_body r = PDict [(''user_id'', PStr (er_user_id r)), (''feature_scope'', PStr (scope_value (er_scope r))),
     (''payload_query'', PStr (er_query r)),
     (''session_context'', case er_context r of None \<Rightarrow> PNone | Some c \<Rightarrow> PDict (dump_controls c))]"

lemma parse_scope_value [simp]: "parse_scope (scope_value s) = Some s"
  by (cases s) (simp_all add: parse_scope_def)

lemma required_field_clean: "required_field (bounded_text n) d k = Some s \<Longrightarrow> clean_text n s"
  using bounded_text_clean by (auto simp: required_field_def)

lemma optional_field_Some: "optional_field parse d k = Some (Some x) \<Longrightarrow> \<exists>v. parse v = Some x"
  by (auto simp: optional_field_def split: option.splits pyval.splits)

lemma parse_controls_eq: "parse_controls lax v = Some c \<longleftrightarrow> (\<exists>d. v = PDict d \<and> no_extra [''session_id'', ''rag_top_k''] d \<and>
    optional_field (bounded_text 128) d ''session_id'' = Some (sc_session_id c) \<and>
    optional_field (top_k_field lax) d ''rag_top_k'' = Some (sc_rag_top_k c))"
  by (cases v; cases c) (auto simp: parse_controls_def)

lemma parse_execution_request_eq: "parse_execution_request lax v = Some r \<longleftrightarrow> (\<exists>d. v = PDict d \<and>
    no_extra [''user_id'', ''feature_scope'', ''payload_query'', ''session_context''] d \<and>
    required_field (bounded_text 128) d ''user_id'' = Some (er_user_id r) \<and>
    required_field scope_field d ''feature_scope'' = Some (er_scope r) \<and>
    required_field (bounded_text 16384) d ''payload_query'' = Some (er_query r) \<and>
    optional_field (parse_controls lax) d ''session_context'' = Some (er_context r))"
  by (cases v; cases r) (auto simp: parse_execution_request_def)

lemma parse_controls_valid: "parse_controls lax v = Some c \<Longrightarrow> valid_controls c"
proof -
  have "top_k_field lax u = Some k \<Longrightarrow> 1 \<le> k \<and> k \<le> 20" for u k by (auto simp: top_k_field_def split: if_splits)
  then show "parse_controls lax v = Some c \<Longrightarrow> valid_controls c"
    unfolding parse_controls_eq valid_controls_def using optional_field_Some bounded_text_clean by metis
qed

lemma parse_controls_dump:
  assumes "\<And>i. lax (PInt i) = Some i" "valid_controls c"
  shows "parse_controls lax (PDict (dump_controls c)) = Some c"
proof -
  have "optional_field (bounded_text 128) (dump_controls c) ''session_id'' = Some (sc_session_id c)"
    using assms(2) by (auto simp: dump_controls_def optional_field_def valid_controls_def bounded_text_id split: option.splits)
  moreover have "optional_field (top_k_field lax) (dump_controls c) ''rag_top_k'' = Some (sc_rag_top_k c)"
    using assms by (auto simp: dump_controls_def optional_field_def valid_controls_def top_k_field_def split: option.splits)
  moreover have "no_extra [''session_id'', ''rag_top_k''] (dump_controls c)"
    by (auto simp: no_extra_def dump_controls_def split: option.splits)
  ultimately show ?thesis by (simp add: parse_controls_eq)
qed

lemma parse_request_body:
  assumes "\<And>i. lax (PInt i) = Some i" "valid_request r"
  shows "parse_execution_request lax (request_body r) = Some r"
proof -
  have "\<exists>d. request_body r = PDict d \<and> no_extra [''user_id'', ''feature_scope'', ''payload_query'', ''session_context''] d \<and>
      map_of d ''user_id'' = Some (PStr (er_user_id r)) \<and> map_of d ''feature_scope'' = Some (PStr (scope_value (er_scope r))) \<and>
      map_of d ''payload_query'' = Some (PStr (er_query r)) \<and>
      map_of d ''session_context'' = Some (case er_context r of None \<Rightarrow> PNone | Some c \<Rightarrow> PDict (dump_controls c))"
    by (simp add: request_body_def no_extra_def)
  then obtain d where d: "request_body r = PDict d" "no_extra [''user_id'', ''feature_scope'', ''payload_query'', ''session_context''] d"
    "map_of d ''user_id'' = Some (PStr (er_user_id r))" "map_of d ''feature_scope'' = Some (PStr (scope_value (er_scope r)))"
    "map_of d ''payload_query'' = Some (PStr (er_query r))"
    "map_of d ''session_context'' = Some (case er_context r of None \<Rightarrow> PNone | Some c \<Rightarrow> PDict (dump_controls c))" by blast
  have "optional_field (parse_controls lax) d ''session_context'' = Some (er_context r)"
  proof (cases "er_context r")
    case None
    then show ?thesis using d(6) by (simp add: optional_field_def)
  next
    case (Some c)
    with assms(2) have "valid_controls c" by (simp add: valid_request_def)
    from parse_controls_dump [of lax, OF assms(1) this] Some d(6) show ?thesis by (simp add: optional_field_def)
  qed
  with d assms(2) show ?thesis
    by (simp add: parse_execution_request_eq required_field_def scope_field_def bounded_text_id valid_request_def)
qed

lemma parse_request_valid:
  assumes "parse_execution_request lax body = Some r"
  shows "valid_request r"
proof -
  from assms obtain d where d: "required_field (bounded_text 128) d ''user_id'' = Some (er_user_id r)"
    "required_field (bounded_text 16384) d ''payload_query'' = Some (er_query r)"
    "optional_field (parse_controls lax) d ''session_context'' = Some (er_context r)" unfolding parse_execution_request_eq by blast
  have "valid_controls c" if "er_context r = Some c" for c
    using optional_field_Some [of "parse_controls lax" d] d(3) that parse_controls_valid by metis
  then have "case er_context r of None \<Rightarrow> True | Some c \<Rightarrow> valid_controls c" by (simp split: option.splits)
  with required_field_clean [OF d(1)] required_field_clean [OF d(2)] show ?thesis by (simp add: valid_request_def)
qed


section \<open>One shared object\<close>

definition inside :: "place \<Rightarrow> bool" where
  "inside p \<longleftrightarrow> (case p of Entered \<Rightarrow> True | Creating \<Rightarrow> True | Created _ \<Rightarrow> True | Leaving _ \<Rightarrow> True | _ \<Rightarrow> False)"

lemma inside_simps [simp]: "inside Entered" "inside Creating" "inside (Created x)" "inside (Leaving x)"
  "\<not> inside Outside" "\<not> inside Missed" "\<not> inside (Got x)" "\<not> inside Failed"
  by (simp_all add: inside_def)

definition lazy_inv :: "'t lazy_state \<Rightarrow> bool" where
  "lazy_inv s \<longleftrightarrow> (\<forall>t. inside (lz_place s t) \<longleftrightarrow> lz_holder s = Some t) \<and>
     (\<forall>t x. lz_place s t = Got x \<or> lz_place s t = Leaving x \<longrightarrow> lz_attribute s = Some x) \<and>
     (\<forall>t x. lz_place s t = Creating \<or> lz_place s t = Created x \<longrightarrow> lz_attribute s = None)"

inductive_cases lazy_stepE: "lazy_step s s'"

lemma lazy_inv_step: "lazy_step s s' \<Longrightarrow> lazy_inv s \<Longrightarrow> lazy_inv s'"
proof (induction rule: lazy_step.induct)
  case (store s t x)
  have alone: "\<not> inside (lz_place s u)" if "u \<noteq> t" for u
    using store that unfolding lazy_inv_def by (metis inside_simps(3) option.inject)
  have none: "lz_attribute s = None" using store unfolding lazy_inv_def by blast
  have "lz_place s u \<noteq> Got y \<and> lz_place s u \<noteq> Leaving y" for u y
    using store(2) none unfolding lazy_inv_def by (metis option.distinct(1))
  moreover have "lz_place s u \<noteq> Creating \<and> lz_place s u \<noteq> Created y" if "u \<noteq> t" for u y
    using alone [OF that] by auto
  ultimately show ?case using store unfolding lazy_inv_def by auto
qed (auto simp: lazy_inv_def split: if_splits, (metis inside_simps option.inject)+)


lemma lazy_reachable_inv: "lazy_reachable s \<Longrightarrow> lazy_inv s"
proof (induction rule: lazy_reachable.induct)
  case start
  show ?case by (simp add: lazy_inv_def lazy_start_def)
next
  case (step s s')
  then show ?case using lazy_inv_step by blast
qed

lemma lazy_attribute_stays: "lazy_step s s' \<Longrightarrow> lazy_inv s \<Longrightarrow> lz_attribute s = Some x \<Longrightarrow> lz_attribute s' = Some x"
  by (induction rule: lazy_step.induct) (auto simp: lazy_inv_def)

lemma lazy_run:
  assumes "lazy_step\<^sup>*\<^sup>* s s'" "lazy_inv s"
  shows "lazy_inv s' \<and> (\<forall>x. lz_attribute s = Some x \<longrightarrow> lz_attribute s' = Some x)"
  using assms
proof (induction rule: rtranclp_induct)
  case (step u v)
  then show ?case using lazy_inv_step lazy_attribute_stays by blast
qed simp

lemma lazy_progress: "lazy_inv s \<Longrightarrow> \<exists>s'. lazy_step s s'"
proof (cases "lz_holder s")
  case None
  fix t assume inv: "lazy_inv s"
  with None have "\<not> inside (lz_place s t)" for t by (simp add: lazy_inv_def)
  with None show ?thesis
    by (cases "lz_place s t"; cases "lz_attribute s") (auto simp: inside_def intro: lazy_step.intros)
next
  case (Some t)
  assume inv: "lazy_inv s"
  with Some have "inside (lz_place s t)" by (simp add: lazy_inv_def)
  then show ?thesis
    by (cases "lz_place s t"; cases "lz_attribute s") (auto intro: lazy_step.intros)
qed


section \<open>Executing\<close>


section \<open>Trace identifiers\<close>

lemma advances_times_set:
  "advances (r_times n (RSet p)) (pre, s, g) (pre', s', g') \<longleftrightarrow>
     (\<exists>m. length m = n \<and> (\<forall>c\<in>set m. p c) \<and> s = m @ s' \<and> pre' = rev m @ pre \<and> g' = g)"
proof (induction n arbitrary: pre s)
  case 0
  show ?case by (auto elim: advances_cases intro: advances.eps)
next
  case (Suc n)
  have step: "advances (r_times (Suc n) (RSet p)) (pre, s, g) (pre', s', g') \<longleftrightarrow>
      (\<exists>c u. s = c # u \<and> p c \<and> advances (r_times n (RSet p)) (c # pre, u, g) (pre', s', g'))"
    by (fastforce elim!: advances_cases intro: advances.seq advances.set)
  show ?case unfolding step Suc.IH
  proof
    assume "\<exists>m. length m = Suc n \<and> (\<forall>c\<in>set m. p c) \<and> s = m @ s' \<and> pre' = rev m @ pre \<and> g' = g"
    then obtain m where m: "length m = Suc n" "\<forall>c\<in>set m. p c" "s = m @ s'" "pre' = rev m @ pre" "g' = g" by blast
    then obtain c u where "m = c # u" by (cases m) auto
    with m show "\<exists>c u. s = c # u \<and> p c \<and> (\<exists>m. length m = n \<and> (\<forall>c\<in>set m. p c) \<and> u = m @ s' \<and> pre' = rev m @ c # pre \<and> g' = g)"
      by auto
  next
    assume "\<exists>c u. s = c # u \<and> p c \<and> (\<exists>m. length m = n \<and> (\<forall>c\<in>set m. p c) \<and> u = m @ s' \<and> pre' = rev m @ c # pre \<and> g' = g)"
    then obtain c u m where "s = c # u" "p c" "length m = n" "\<forall>c\<in>set m. p c" "u = m @ s'" "pre' = rev m @ c # pre" "g' = g" by blast
    then show "\<exists>m. length m = Suc n \<and> (\<forall>c\<in>set m. p c) \<and> s = m @ s' \<and> pre' = rev m @ pre \<and> g' = g"
      by (intro exI [of _ "c # m"]) simp
  qed
qed

definition trace_id :: "str \<Rightarrow> bool" where
  "trace_id tid \<longleftrightarrow> length tid = 32 \<and> (\<forall>c\<in>set tid. is_digit c \<or> c \<in> set ''abcdef'')"

lemma re_fullmatch_iff: "re_fullmatch r s \<noteq> None \<longleftrightarrow> (\<exists>pre g. advances r ([], s, []) (pre, [], g))"
proof -
  have "re_fullmatch r s \<noteq> None \<longleftrightarrow> (\<exists>q\<in>set (matches r ([], s, [])). fst (snd q) = [])"
    by (auto simp: re_fullmatch_def filter_empty_conv case_prod_beta split: list.splits dest!: filter_eq_ConsD)
  also have "\<dots> \<longleftrightarrow> (\<exists>pre g. (pre, [], g) \<in> set (matches r ([], s, [])))" by force
  finally show ?thesis unfolding matches_advances .
qed

lemma trace_id_rx_iff: "re_fullmatch trace_id_rx tid \<noteq> None \<longleftrightarrow> trace_id tid"
proof -
  let ?p = "\<lambda>c. is_digit c \<or> c \<in> set ''abcdef''"
  have "(\<exists>pre g. advances trace_id_rx ([], tid, []) (pre, [], g)) \<longleftrightarrow>
      (\<exists>pre g. advances (r_times 32 (RSet ?p)) ([], tid, []) (pre, [], g))"
    unfolding trace_id_rx_def r_seq.simps by (fastforce elim!: advances_cases intro: advances.seq advances.assertion)
  then show ?thesis unfolding re_fullmatch_iff advances_times_set trace_id_def by auto
qed

text \<open>C32. Reading a trace: the store is only asked for 32 lowercase hexadecimal digits, so for nothing that could name another
  file; every other identifier, of whatever shape, gets the same answer from any store. Then the answer is the artifact,
  404 if there is none, and 503 or 500 if the file cannot be read.\<close>
theorem get_trace_route_contract:
  "get_trace_route fault st tid =
     (if \<not> (length tid = 32 \<and> (\<forall>c\<in>set tid. is_digit c \<or> c \<in> set ''abcdef''))
      then HttpError 422 ''trace_id must be 32 lowercase hexadecimal characters.''
      else case fault of
        None \<Rightarrow> (case map_of (st_files st) tid of None \<Rightarrow> HttpError 404 ''Forensic trace not found.'' | Some a \<Rightarrow> Ok a)
      | Some e \<Rightarrow> if fst e = OtherException ''FileNotFoundError'' then HttpError 404 ''Forensic trace not found.''
                  else if read_failure (fst e) then HttpError 503 ''Forensic trace artifact is unavailable.'' else InternalError e)"
proof (cases "trace_id tid")
  case True
  with trace_id_rx_iff have "re_fullmatch trace_id_rx tid \<noteq> None" by blast
  with True show ?thesis unfolding trace_id_def by (auto simp: get_trace_route_def get_trace_def split: option.splits)
next
  case False
  with trace_id_rx_iff have "re_fullmatch trace_id_rx tid = None" by blast
  with False show ?thesis unfolding trace_id_def by (auto simp: get_trace_route_def)
qed


section \<open>Chat\<close>

lemma join_parts_nonblank: "ps \<noteq> [] \<Longrightarrow> hd ps \<noteq> [] \<Longrightarrow> join sep ps \<noteq> []"
  by (induction sep ps rule: join.induct) auto

lemma nonblank_parts: "p \<in> set (content_part v) \<Longrightarrow> p \<noteq> []"
  by (cases v) (auto simp: nonblank_def split: option.splits pyval.splits if_splits)

lemma message_text_nonempty: "message_text v = Some t \<Longrightarrow> t \<noteq> []"
proof (cases v)
  case (PSeq xs)
  let ?ps = "concat (map content_part xs)"
  assume "message_text v = Some t"
  with PSeq have t: "?ps \<noteq> []" "t = join [CHR 0x0A] ?ps" by (auto simp: Let_def split: if_splits)
  from hd_in_set [OF t(1)] have "\<exists>x\<in>set xs. hd ?ps \<in> set (content_part x)" unfolding set_concat set_map by blast
  then have "hd ?ps \<noteq> []" using nonblank_parts by blast
  with join_parts_nonblank [OF t(1)] show ?thesis unfolding t(2) by blast
qed (auto split: if_splits)

lemma first_user_text_None:
  "first_user_text ms = None \<longleftrightarrow> (\<forall>m\<in>set ms. cm_role m = ''user'' \<longrightarrow> message_text (cm_content m) = None)"
  by (induction ms) (auto split: option.splits)

lemma first_user_text_Some:
  "first_user_text ms = Some t \<longleftrightarrow> (\<exists>us m vs. ms = us @ m # vs \<and> cm_role m = ''user'' \<and> message_text (cm_content m) = Some t \<and>
     (\<forall>u\<in>set us. cm_role u = ''user'' \<longrightarrow> message_text (cm_content u) = None))"
proof (induction ms)
  case (Cons m ms)
  show ?case
  proof (cases "cm_role m = ''user'' \<and> message_text (cm_content m) \<noteq> None")
    case True
    then show ?thesis by (auto simp: Cons_eq_append_conv intro: exI [of _ "[]"])
  next
    case False
    then have step: "first_user_text (m # ms) = first_user_text ms" by (auto split: option.splits)
    show ?thesis unfolding step Cons
    proof
      assume "\<exists>us n vs. ms = us @ n # vs \<and> cm_role n = ''user'' \<and> message_text (cm_content n) = Some t \<and>
        (\<forall>u\<in>set us. cm_role u = ''user'' \<longrightarrow> message_text (cm_content u) = None)"
      then obtain us n vs where "ms = us @ n # vs" "cm_role n = ''user''" "message_text (cm_content n) = Some t"
        "\<forall>u\<in>set us. cm_role u = ''user'' \<longrightarrow> message_text (cm_content u) = None" by blast
      with False show "\<exists>us n vs. m # ms = us @ n # vs \<and> cm_role n = ''user'' \<and> message_text (cm_content n) = Some t \<and>
        (\<forall>u\<in>set us. cm_role u = ''user'' \<longrightarrow> message_text (cm_content u) = None)"
        by (intro exI [of _ "m # us"] exI [of _ n] exI [of _ vs]) auto
    next
      assume "\<exists>us n vs. m # ms = us @ n # vs \<and> cm_role n = ''user'' \<and> message_text (cm_content n) = Some t \<and>
        (\<forall>u\<in>set us. cm_role u = ''user'' \<longrightarrow> message_text (cm_content u) = None)"
      then obtain us n vs where u: "m # ms = us @ n # vs" "cm_role n = ''user''" "message_text (cm_content n) = Some t"
        "\<forall>u\<in>set us. cm_role u = ''user'' \<longrightarrow> message_text (cm_content u) = None" by blast
      with False obtain us' where "us = m # us'" "ms = us' @ n # vs" by (cases us) auto
      with u show "\<exists>us n vs. ms = us @ n # vs \<and> cm_role n = ''user'' \<and> message_text (cm_content n) = Some t \<and>
        (\<forall>u\<in>set us. cm_role u = ''user'' \<longrightarrow> message_text (cm_content u) = None)" by auto
    qed
  qed
qed simp

text \<open>A chat request without a provider key, or in stub mode, is answered without calling the provider: with the stub
  that echoes the text of the last user message that has any, trimmed and not empty, or with a 400 if there is none.\<close>
theorem chat_stub_contract:
  assumes "parse_chat_request lax d = Some r" "stub_enabled c \<or> strip (cs_openai_key c) = []"
  shows "\<exists>rep. (\<forall>openai w. chat_route c lax openai (PDict d) w = (rep, w)) \<and>
    (if \<exists>m\<in>set (cr_messages r). cm_role m = ''user'' \<and> message_text (cm_content m) \<noteq> None
     then \<exists>us m vs t. cr_messages r = us @ m # vs \<and> cm_role m = ''user'' \<and> message_text (cm_content m) = Some t \<and> t \<noteq> [] \<and>
       (\<forall>v\<in>set vs. cm_role v = ''user'' \<longrightarrow> message_text (cm_content v) = None) \<and> rep = Ok (stub_response (cr_model r) t)
     else rep = HttpError 400 ''messages must include a non-empty user content string'')"
proof (cases "first_user_text (rev (cr_messages r))")
  case None
  have "\<not> (\<exists>m\<in>set (cr_messages r). cm_role m = ''user'' \<and> message_text (cm_content m) \<noteq> None)"
    using None unfolding first_user_text_None by auto
  moreover have "\<forall>openai w. chat_route c lax openai (PDict d) w =
      (HttpError 400 ''messages must include a non-empty user content string'', w)"
    using assms(1) None by (simp add: chat_route_def build_chat_completion_def extract_last_user_text_def io_bind_def value_error_def)
  ultimately show ?thesis by auto
next
  case (Some t)
  have ans: "\<forall>openai w. chat_route c lax openai (PDict d) w = (Ok (stub_response (cr_model r) t), w)"
    using assms Some by (auto simp: chat_route_def build_chat_completion_def extract_last_user_text_def io_bind_def)
  from Some obtain us m vs where u: "rev (cr_messages r) = us @ m # vs" "cm_role m = ''user''" "message_text (cm_content m) = Some t"
    "\<forall>u\<in>set us. cm_role u = ''user'' \<longrightarrow> message_text (cm_content u) = None" unfolding first_user_text_Some by blast
  from u(1) have ms: "cr_messages r = rev vs @ m # rev us" by (simp add: rev_swap)
  have some: "\<exists>m\<in>set (cr_messages r). cm_role m = ''user'' \<and> message_text (cm_content m) \<noteq> None" using u(2,3) ms by auto
  have "\<exists>us m vs t'. cr_messages r = us @ m # vs \<and> cm_role m = ''user'' \<and> message_text (cm_content m) = Some t' \<and> t' \<noteq> [] \<and>
      (\<forall>v\<in>set vs. cm_role v = ''user'' \<longrightarrow> message_text (cm_content v) = None) \<and>
      Ok (stub_response (cr_model r) t) = Ok (stub_response (cr_model r) t')"
    by (intro exI [of _ "rev vs"] exI [of _ m] exI [of _ "rev us"] exI [of _ t])
      (use u(2-4) ms message_text_nonempty [OF u(3)] in simp)
  with ans some show ?thesis by (intro exI [of _ "Ok (stub_response (cr_model r) t)"]) (simp only: if_True simp_thms)
qed

section \<open>Ingesting\<close>

lemma index_chunks_upserts:
  assumes "index_chunks rag cs r = (Inr u, r')" "cs \<noteq> []"
  shows "\<exists>i. rv_sparse r' = sparse_upsert cs i"
proof -
  from assms obtain r1 r2 where "put_sparse (sparse_upsert cs) r1 = (Inr (), r2)" "mark_hydrated r2 = (Inr u, r')"
    by (auto simp: index_chunks_def io_bind_eq_Inr)
  then show ?thesis by (auto simp: put_sparse_def mark_hydrated_def)
qed

lemma upserted_chunk:
  assumes "distinct (map ch_id cs)" "c \<in> set cs"
  shows "index_contents (sparse_upsert cs i) (ch_id c) = Some c"
proof -
  have "chunk_map cs (ch_id c) = Some c"
    using assms unfolding chunk_map_def by (intro map_of_is_SomeI) (auto simp: rev_map [symmetric] comp_def)
  then show ?thesis by (rule bm25.lookup_new)
qed

lemma on_ocr_keeps: "aw_sparse (snd (on_ocr m w)) = aw_sparse w \<and> aw_hydrated (snd (on_ocr m w)) = aw_hydrated w"
  by (simp add: on_ocr_def split: prod.splits)



section \<open>Examples\<close>

definition ex_lax_int :: "pyval \<Rightarrow> int option" where
  "ex_lax_int v = (case v of PInt i \<Rightarrow> Some i | _ \<Rightarrow> None)"

definition ex_execution :: execution_request where
  "ex_execution = \<lparr>er_user_id = ''u'', er_scope = ScopeRag, er_query = ''policy'', er_context = None\<rparr>"

lemma ex_execution_valid: "valid_request ex_execution"
proof -
  have "strip ''u'' = ''u''" "strip ''policy'' = ''policy''" by code_simp+
  then show ?thesis by (simp add: valid_request_def clean_text_def ex_execution_def)
qed



definition ex_lazy :: "nat \<Rightarrow> bool lazy_state" where
  "ex_lazy n = (let s1 = goes lazy_start True Missed; s2 = goes (s1\<lparr>lz_holder := Some True\<rparr>) True Entered;
     s3 = goes s2 True Creating; s4 = goes (s3\<lparr>lz_made := 1\<rparr>) True (Created 0);
     s5 = goes (s4\<lparr>lz_attribute := Some 0\<rparr>) True (Leaving 0); s6 = goes (s5\<lparr>lz_holder := None\<rparr>) True (Got 0)
   in if n = 6 then s6 else goes s6 False (Got 0))"

lemma ex_lazy_reachable: "lazy_reachable (ex_lazy 6)"
proof -
  let ?s1 = "goes lazy_start True Missed" and ?s0 = "lazy_start :: bool lazy_state"
  let ?s2 = "goes (?s1\<lparr>lz_holder := Some True\<rparr>) True Entered"
  let ?s3 = "goes ?s2 True Creating"
  let ?s4 = "goes (?s3\<lparr>lz_made := Suc (lz_made ?s3)\<rparr>) True (Created (lz_made ?s3))"
  let ?s5 = "goes (?s4\<lparr>lz_attribute := Some 0\<rparr>) True (Leaving 0)"
  let ?s6 = "goes (?s5\<lparr>lz_holder := None\<rparr>) True (Got 0)"
  have "lazy_step ?s0 ?s1" by (rule lazy_step.miss) (simp_all add: lazy_start_def)
  from lazy_reachable.step [OF lazy_reachable.start this] have r1: "lazy_reachable ?s1" .
  have "lazy_step ?s1 ?s2" by (rule lazy_step.lock) (simp_all add: lazy_start_def)
  from lazy_reachable.step [OF r1 this] have r2: "lazy_reachable ?s2" .
  have "lazy_step ?s2 ?s3" by (rule lazy_step.create) (simp_all add: lazy_start_def)
  from lazy_reachable.step [OF r2 this] have r3: "lazy_reachable ?s3" .
  have "lazy_step ?s3 ?s4" by (rule lazy_step.made) simp
  from lazy_reachable.step [OF r3 this] have r4: "lazy_reachable ?s4" .
  have "lazy_step ?s4 ?s5" by (rule lazy_step.store) (simp add: lazy_start_def)
  from lazy_reachable.step [OF r4 this] have r5: "lazy_reachable ?s5" .
  have "lazy_step ?s5 ?s6" by (rule lazy_step.unlock) simp
  from lazy_reachable.step [OF r5 this] have "lazy_reachable ?s6" .
  then show ?thesis by (simp add: ex_lazy_def Let_def lazy_start_def)
qed


theorem get_trace_route_contract_witness:
  "get_trace_route None \<lparr>st_files = [], st_registry = []\<rparr> ''../../etc/passwd'' =
     HttpError 422 ''trace_id must be 32 lowercase hexadecimal characters.''"
  by (subst get_trace_route_contract) simp

definition ex_chat :: chat_request where
  "ex_chat = \<lparr>cr_model = ''gpt-4o-mini'', cr_messages = [\<lparr>cm_role = ''user'', cm_content = PStr '' hi ''\<rparr>,
     \<lparr>cm_role = ''assistant'', cm_content = PStr ''yes''\<rparr>], cr_temperature = None\<rparr>"

definition ex_chat_body :: "pyval dict" where
  "ex_chat_body = [(''messages'', PSeq [PDict [(''role'', PStr ''user''), (''content'', PStr '' hi '')],
     PDict [(''role'', PStr ''assistant''), (''content'', PStr ''yes'')]])]"

lemma ex_chat_parses: "parse_chat_request (\<lambda>v. None) ex_chat_body = Some ex_chat"
  by (simp add: parse_chat_request_def ex_chat_body_def ex_chat_def required_field_def optional_field_def parse_messages_def
      parse_message_def text_field_def get_or_none_def)

theorem chat_stub_contract_witness:
  "\<exists>rep. \<forall>openai w. chat_route \<lparr>cs_stub_env = [], cs_openai_key = []\<rparr> (\<lambda>v. None) openai (PDict ex_chat_body) (w :: unit) = (rep, w)"
proof -
  have "strip (cs_openai_key \<lparr>cs_stub_env = [], cs_openai_key = []\<rparr>) = []" by (simp add: text_simps)
  from chat_stub_contract [where 'a = unit, OF ex_chat_parses disjI2 [OF this]] show ?thesis by blast
qed

definition ex_rag_deps :: "(unit, unit) rag_deps" where
  "ex_rag_deps = \<lparr>rd_embed = (\<lambda>ts. io_return (map (\<lambda>_. ()) ts)), rd_index = (\<lambda>cs vs. io_return ()), rd_query = (\<lambda>v n. io_return []),
     rd_load = None, rd_rerank = (\<lambda>q cs. io_return []), rd_okapi = None\<rparr>"

definition ex_upload :: upload where
  "ex_upload = \<lparr>up_content_type = Some ''application/pdf'', up_filename = Some ''Scan.PDF'', up_bytes = ''BILL''\<rparr>"

definition ex_app_world :: "unit app_world" where
  "ex_app_world = \<lparr>aw_reader = NotLoaded, aw_command = [], aw_sparse = empty_index, aw_hydrated = False, aw_host = ()\<rparr>"


end
