(* ===== verification/PyValues.thy ===== *)
theory PyValues
  imports Prelude
begin

text \<open>
  Python's operations on decoded JSON, which the evaluation and training tools compare, print and sort: \<open>==\<close>, \<open>str\<close>, \<open>repr\<close>,
  \<open>json.dumps\<close>, \<open>set\<close> and \<open>sorted\<close>. The shortest decimal text of a \<open>float\<close> is a parameter; the texts of errors raised
  by the interpreter itself are not modelled.
\<close>

section \<open>Equality\<close>

text \<open>\<open>True == 1 == 1.0\<close>; dictionaries are equal when they bind the same keys to equal values.\<close>

fun number_of :: "pyval \<Rightarrow> rat option" where
  "number_of (PBool b) = Some (if b then 1 else 0)"
| "number_of (PInt i) = Some (of_int i)"
| "number_of (PFloat x) = Some x"
| "number_of _ = None"

fun py_eq :: "pyval \<Rightarrow> pyval \<Rightarrow> bool"
  and py_eq_list :: "pyval list \<Rightarrow> pyval list \<Rightarrow> bool"
  and py_eq_items :: "pyval dict \<Rightarrow> pyval dict \<Rightarrow> bool" where
  "py_eq PNone w = (w = PNone)"
| "py_eq (PBool b) w = (number_of w = Some (if b then 1 else 0))"
| "py_eq (PInt i) w = (number_of w = Some (of_int i))"
| "py_eq (PFloat x) w = (number_of w = Some x)"
| "py_eq (PStr s) w = (w = PStr s)"
| "py_eq (PBytes s) w = (w = PBytes s)"
| "py_eq (PSeq xs) w = (case w of PSeq ys \<Rightarrow> py_eq_list xs ys | _ \<Rightarrow> False)"
| "py_eq (PDict d) w = (case w of PDict e \<Rightarrow> length d = length e \<and> py_eq_items d e | _ \<Rightarrow> False)"
| "py_eq_list [] ys = (ys = [])"
| "py_eq_list (x # xs) ys = (case ys of [] \<Rightarrow> False | y # ys' \<Rightarrow> py_eq x y \<and> py_eq_list xs ys')"
| "py_eq_items [] e = True"
| "py_eq_items ((k, v) # d) e = (case map_of e k of None \<Rightarrow> False | Some v' \<Rightarrow> py_eq v v' \<and> py_eq_items d e)"

text \<open>The values a JSON text can decode to: every dictionary has distinct keys.\<close>

fun json_value :: "pyval \<Rightarrow> bool" where
  "json_value (PSeq xs) = (\<forall>x \<in> set xs. json_value x)"
| "json_value (PDict d) = (distinct (dict_keys d) \<and> (\<forall>p \<in> set d. json_value (snd p)))"
| "json_value (PBytes _) = False"
| "json_value _ = True"

lemma py_eq_items_iff: "py_eq_items d e \<longleftrightarrow> (\<forall>(k, v) \<in> set d. \<exists>v'. map_of e k = Some v' \<and> py_eq v v')"
  by (induction d) (auto split: option.splits)

lemma py_eq_list_iff: "py_eq_list xs ys \<longleftrightarrow> list_all2 py_eq xs ys"
  by (induction xs arbitrary: ys) (auto simp: list_all2_Cons1 split: list.splits)

lemma py_eq_refl: "json_value v \<Longrightarrow> py_eq v v"
proof (induction v rule: json_value.induct)
  case (1 xs)
  then show ?case by (auto simp: py_eq_list_iff list_all2_same)
next
  case (2 d)
  then show ?case by (fastforce simp: py_eq_items_iff)
qed auto

lemma py_eq_str [simp]: "py_eq v (PStr s) \<longleftrightarrow> v = PStr s"
  by (cases v) auto

section \<open>Texts\<close>

text \<open>\<open>repr\<close> of a string: double quotes only around a text with an apostrophe and no double quote.\<close>

definition repr_char :: "char \<Rightarrow> char \<Rightarrow> str" where
  "repr_char q c = (let n = (of_char c :: nat) in
     if c = q \<or> n = 92 then [CHR 0x5C, c]
     else if n = 9 then [CHR 0x5C, CHR ''t'']
     else if n = 10 then [CHR 0x5C, CHR ''n'']
     else if n = 13 then [CHR 0x5C, CHR ''r'']
     else if n < 32 \<or> (127 \<le> n \<and> n \<le> 160) \<or> n = 173
       then [CHR 0x5C, CHR ''x'', hex_digit (n div 16), hex_digit (n mod 16)]
     else [c])"

definition repr_text :: "str \<Rightarrow> str" where
  "repr_text s = (let q = (if CHR 0x27 \<in> set s \<and> CHR 0x22 \<notin> set s then CHR 0x22 else CHR 0x27)
     in q # concat (map (repr_char q) s) @ [q])"

fun py_repr :: "(rat \<Rightarrow> str) \<Rightarrow> pyval \<Rightarrow> str" where
  "py_repr fr PNone = ''None''"
| "py_repr fr (PBool b) = (if b then ''True'' else ''False'')"
| "py_repr fr (PInt i) = int_text i"
| "py_repr fr (PFloat x) = fr x"
| "py_repr fr (PStr s) = repr_text s"
| "py_repr fr (PBytes s) = CHR ''b'' # repr_text s"
| "py_repr fr (PSeq xs) = ''['' @ join '', '' (map (py_repr fr) xs) @ '']''"
| "py_repr fr (PDict d) = ''{'' @ join '', '' (map (\<lambda>p. repr_text (fst p) @ '': '' @ py_repr fr (snd p)) d) @ ''}''"

definition py_str :: "(rat \<Rightarrow> str) \<Rightarrow> pyval \<Rightarrow> str" where
  "py_str fr v = (case v of PStr s \<Rightarrow> s | _ \<Rightarrow> py_repr fr v)"

lemma py_str_text [simp]: "py_str fr (PStr s) = s"
  by (simp add: py_str_def)

text \<open>\<open>json.dumps(v)\<close> with its default separators.\<close>

fun json_dumps :: "(rat \<Rightarrow> str) \<Rightarrow> pyval \<Rightarrow> str" where
  "json_dumps fr PNone = ''null''"
| "json_dumps fr (PBool b) = (if b then ''true'' else ''false'')"
| "json_dumps fr (PInt i) = int_text i"
| "json_dumps fr (PFloat x) = fr x"
| "json_dumps fr (PStr s) = json_text s"
| "json_dumps fr (PBytes s) = []"
| "json_dumps fr (PSeq xs) = ''['' @ join '', '' (map (json_dumps fr) xs) @ '']''"
| "json_dumps fr (PDict d) = ''{'' @ join '', '' (map (\<lambda>p. json_text (fst p) @ '': '' @ json_dumps fr (snd p)) d) @ ''}''"

text \<open>\<open>a or b\<close>.\<close>

definition py_or :: "pyval \<Rightarrow> pyval \<Rightarrow> pyval" where
  "py_or a b = (if truthy a then a else b)"

section \<open>Sets of values\<close>

fun hashable :: "pyval \<Rightarrow> bool" where
  "hashable (PSeq _) = False"
| "hashable (PDict _) = False"
| "hashable _ = True"

definition member_of :: "pyval \<Rightarrow> pyval list \<Rightarrow> bool" where
  "member_of v vs \<longleftrightarrow> list_ex (py_eq v) vs"

text \<open>\<open>set(vs)\<close> keeps the first of several equal values.\<close>

definition value_set :: "pyval list \<Rightarrow> pyval list result" where
  "value_set vs = (if list_all hashable vs then Inr (rev (fold (\<lambda>v acc. if member_of v acc then acc else v # acc) vs []))
     else Inl (TypeError, ''unhashable type''))"

definition text_of :: "pyval \<Rightarrow> str option" where
  "text_of v = (case v of PStr s \<Rightarrow> Some s | _ \<Rightarrow> None)"

text \<open>\<open>sorted\<close> of a set: numbers or strings, but not both.\<close>

definition sorted_values :: "pyval list \<Rightarrow> pyval list result" where
  "sorted_values vs = (if length vs \<le> 1 then Inr vs
     else if list_all (\<lambda>v. number_of v \<noteq> None) vs then Inr (sort_key (\<lambda>v. the (number_of v)) vs)
     else if list_all (\<lambda>v. text_of v \<noteq> None) vs then Inr (sort_key (\<lambda>v. the (text_of v)) vs)
     else Inl (TypeError, ''unorderable types''))"

lemma py_eq_hashable: "hashable v \<Longrightarrow> py_eq v w \<longleftrightarrow> number_of v = number_of w \<and> (number_of v = None \<longrightarrow> v = w)"
  by (cases v; cases w) auto

lemma member_of_insert:
  assumes "hashable v" "hashable a" "member_of a acc" "py_eq v a"
  shows "member_of v acc"
proof -
  obtain w where w: "w \<in> set acc" "py_eq a w" using assms(3) unfolding member_of_def list_ex_iff by blast
  have "py_eq v w" using assms(4) w(2) unfolding py_eq_hashable [OF assms(1)] py_eq_hashable [OF assms(2)] by metis
  with w(1) show ?thesis unfolding member_of_def list_ex_iff by blast
qed

lemma member_of_value_set:
  assumes "value_set vs = Inr s" "hashable v" shows "member_of v s \<longleftrightarrow> member_of v vs"
proof -
  have "member_of v (fold (\<lambda>v acc. if member_of v acc then acc else v # acc) vs acc) \<longleftrightarrow> member_of v vs \<or> member_of v acc"
    if "list_all hashable vs" for vs acc
    using that
  proof (induction vs arbitrary: acc)
    case Nil
    then show ?case by (simp add: member_of_def)
  next
    case (Cons a vs)
    have cons: "member_of v (a # xs) \<longleftrightarrow> py_eq v a \<or> member_of v xs" for xs by (simp add: member_of_def)
    show ?case using Cons member_of_insert [OF assms(2), of a acc] by (auto simp: cons)
  qed
  then show ?thesis using assms(1) by (auto simp: value_set_def member_of_def split: if_splits)
qed

section \<open>Numbers\<close>

text \<open>\<open>f"{x:.2f}"\<close>; a negative number keeps its sign when it rounds to zero.\<close>

definition fixed2_unsigned :: "rat \<Rightarrow> str" where
  "fixed2_unsigned x = (let n = nat (round_half_even (x * 100)) in
     nat_text (n div 100) @ ''.'' @ [char_of (48 + n div 10 mod 10), char_of (48 + n mod 10)])"

definition fixed2 :: "rat \<Rightarrow> str" where
  "fixed2 x = (if x < 0 then CHR ''-'' # fixed2_unsigned (- x) else fixed2_unsigned x)"

text \<open>The multiples of a millionth: what \<open>round(x, 6)\<close> returns.\<close>

definition millionths :: "rat \<Rightarrow> bool" where
  "millionths x \<longleftrightarrow> (\<exists>i. x = of_int i / 10 ^ 6)"

lemma millionths_round [simp]: "millionths (py_round x 6)"
  by (auto simp: millionths_def py_round_def)

lemma py_round_millionths [simp]: "millionths x \<Longrightarrow> py_round x 6 = x"
  by (auto simp: millionths_def py_round_def)

lemma millionths_diff [simp]: "millionths x \<Longrightarrow> millionths y \<Longrightarrow> millionths (x - y)"
  by (auto simp: millionths_def diff_divide_distrib [symmetric]) (metis of_int_diff)

lemma millionths_0 [simp]: "millionths 0"
  by (auto simp: millionths_def intro: exI [of _ 0])

lemma millionths_pos: "millionths x \<Longrightarrow> 1 / 10 ^ 12 < x \<longleftrightarrow> 0 < x"
proof -
  assume "millionths x"
  then obtain i where x: "x = of_int i / 10 ^ 6" by (auto simp: millionths_def)
  show ?thesis
  proof (cases "0 < i")
    case True
    then have "(1 :: rat) \<le> of_int i" by simp
    then show ?thesis using True by (simp add: x field_simps)
  next
    case False
    then have "(of_int i :: rat) \<le> 0" by simp
    then have "x \<le> 0" by (simp add: x divide_nonpos_pos)
    then show ?thesis by (simp add: not_less order_trans [where y = 0])
  qed
qed

section \<open>Mapping with effects\<close>

fun result_map :: "('a \<Rightarrow> 'b result) \<Rightarrow> 'a list \<Rightarrow> 'b list result" where
  "result_map f [] = Inr []"
| "result_map f (x # xs) = rbind (f x) (\<lambda>y. rbind (result_map f xs) (\<lambda>ys. Inr (y # ys)))"

fun io_map :: "('a \<Rightarrow> ('w, 'b) io) \<Rightarrow> 'a list \<Rightarrow> ('w, 'b list) io" where
  "io_map f [] = io_return []"
| "io_map f (x # xs) = io_bind (f x) (\<lambda>y. io_bind (io_map f xs) (\<lambda>ys. io_return (y # ys)))"

lemma result_map_Inr: "result_map f xs = Inr ys \<longleftrightarrow> list_all2 (\<lambda>x y. f x = Inr y) xs ys"
  by (induction xs arbitrary: ys) (auto simp: rbind_eq_Inr list_all2_Cons1)

lemma io_map_Inr: "io_map f xs w = (Inr ys, w') \<Longrightarrow> list_all2 (\<lambda>x y. \<exists>w1 w2. f x w1 = (Inr y, w2)) xs ys"
proof (induction xs arbitrary: w ys)
  case (Cons x xs)
  then obtain y w1 zs where "f x w = (Inr y, w1)" "io_map f xs w1 = (Inr zs, w')" "ys = y # zs"
    by (auto simp: io_bind_eq_Inr)
  with Cons.IH show ?case by auto
qed simp

end
