(* ===== verification/Regression.thy ===== *)
theory Regression
  imports PyValues HttpApi Sandbox
begin

text \<open>
  The evaluation half of \<open>analytics-workers/src/model_regression/runner.py\<close>: the golden cases the CI seeds, their table, the
  request sent for a case, the three ways to score a reply, and the report. The gateway, the OpenAI judge, the clocks, UUIDs
  and hashes, JSON parsing and the decimal text of floats are parameters. The next theory holds the comparison of reports.
\<close>

section \<open>Golden cases\<close>

definition no_golden_cases :: "str \<Rightarrow> exn" where
  "no_golden_cases s = (OtherException ''NoGoldenCasesError'', s)"

definition unsupported_mode :: "str \<Rightarrow> exn" where
  "unsupported_mode s = (OtherException ''UnsupportedScoringModeError'', s)"

definition scoring_error :: "str \<Rightarrow> exn" where
  "scoring_error s = (OtherException ''ScoringConfigurationError'', s)"

text \<open>\<open>RegressionRunnerError\<close> and its subclasses.\<close>

definition runner_error :: "exn_class \<Rightarrow> bool" where
  "runner_error c \<longleftrightarrow> c \<in> OtherException ` {''RegressionRunnerError'', ''NoGoldenCasesError'',
     ''UnsupportedScoringModeError'', ''ScoringConfigurationError''}"

record golden_case =
  gc_id :: str
  gc_fingerprint :: "str option"
  gc_scope :: str
  gc_input :: str
  gc_expected :: "pyval dict"
  gc_difficulty :: str
  gc_origin :: str

definition case_key :: "golden_case \<Rightarrow> str" where
  "case_key c = (case gc_fingerprint c of Some f \<Rightarrow> if f = [] then gc_id c else f | None \<Rightarrow> gc_id c)"

text \<open>A row of \<open>golden_datasets\<close>; a JSONB column holds a value.\<close>

record dataset_row =
  dr_id :: str
  dr_scope :: str
  dr_input :: str
  dr_expected :: pyval
  dr_difficulty :: str
  dr_origin :: str
  dr_fingerprint :: "str option"
  dr_provenance :: pyval

definition default_path :: str where
  "default_path = ''/v1/chat/completions''"

definition chat_stub_prompt :: str where
  "chat_stub_prompt = ''Ping CoreMesh chat path.''"

definition chat_stub_expected_json :: pyval where
  "chat_stub_expected_json = PDict [(''id'', PStr ''chatcmpl-coremesh-stub''), (''object'', PStr ''chat.completion''),
     (''model'', PStr ''gpt-4o-mini''),
     (''choices'', PSeq [PDict [(''index'', PInt 0),
        (''message'', PDict [(''role'', PStr ''assistant''), (''content'', PStr (''coremesh-chat-stub: '' @ chat_stub_prompt))]),
        (''finish_reason'', PStr ''stop'')]]),
     (''usage'', PDict [(''prompt_tokens'', PInt 0), (''completion_tokens'', PInt 0), (''total_tokens'', PInt 0)])]"

definition criterion :: "str \<Rightarrow> pyval" where
  "criterion s = PDict [(''description'', PStr s), (''required'', PBool True)]"

definition chat_request_config :: "str \<Rightarrow> rat \<Rightarrow> pyval" where
  "chat_request_config prompt temperature = PDict [(''method'', PStr ''POST''), (''path'', PStr default_path),
     (''json'', PDict [(''model'', PStr ''client-selected-model''),
        (''messages'', PSeq [PDict [(''role'', PStr ''user''), (''content'', PStr prompt)]]),
        (''temperature'', PFloat temperature)])]"

definition simple_prompt :: str where
  "simple_prompt = ''Reformat this contact into JSON with name and phone fields: Ada Lovelace, 555-0100.''"

definition complex_prompt :: str where
  "complex_prompt = ''Analyze this Go concurrency bug, debug the root cause, and compare two safe fixes with tradeoffs:''
     @ [CHR 0x0A, CHR 0x60, CHR 0x60, CHR 0x60] @ ''go'' @ [CHR 0x0A] @ ''func worker(ch chan int) { close(ch); ch <- 1 }''
     @ [CHR 0x0A, CHR 0x60, CHR 0x60, CHR 0x60]"

definition routing_expectation :: "str \<Rightarrow> str \<Rightarrow> str \<Rightarrow> pyval" where
  "routing_expectation tier model policy = PDict [(''X-CoreMesh-Autopilot-Tier'', PStr tier),
     (''X-CoreMesh-Routed-Model'', PStr model), (''X-CoreMesh-Cache-Policy'', PStr policy)]"

definition seed_provenance :: pyval where
  "seed_provenance = PDict [(''ci_seed'', PBool True), (''seed_version'', PStr ''model-regression-ci-v1'')]"

text \<open>\<open>uuid5\<close> in the URL namespace and SHA-256 in hexadecimal are parameters.\<close>

definition seed_cases :: "(str \<Rightarrow> str) \<Rightarrow> (str \<Rightarrow> str) \<Rightarrow> dataset_row list" where
  "seed_cases uuid5 sha256 =
    [\<lparr>dr_id = uuid5 ''coremesh:model-regression-ci:simple-routing'', dr_scope = ''gateway_autopilot'', dr_input = simple_prompt,
       dr_expected = PDict [(''reference_answer'', PStr ''The gateway routes a simple request to the tier-1 model.''),
         (''validation_criteria'', PSeq [criterion ''Autopilot classifies the request as tier-1.'',
            criterion ''Semantic cache is allowed for the simple request.'']),
         (''expected_behavior'', PStr ''answer''), (''failure_pattern'', PStr ''Simple prompts should not be over-routed.''),
         (''scoring'', PDict [(''mode'', PStr ''headers''), (''request'', chat_request_config simple_prompt (1 / 5)),
            (''expect'', routing_expectation ''tier-1'' ''gpt-4o-mini'' ''allow'')])],
       dr_difficulty = ''simple'', dr_origin = ''human_curated'', dr_fingerprint = Some (sha256 ''ci:simple-routing:v1''),
       dr_provenance = seed_provenance\<rparr>,
     \<lparr>dr_id = uuid5 ''coremesh:model-regression-ci:complex-routing'', dr_scope = ''gateway_autopilot'', dr_input = complex_prompt,
       dr_expected = PDict [(''reference_answer'', PStr ''The gateway routes complex/debugging requests to tier-3.''),
         (''validation_criteria'', PSeq [criterion ''Autopilot classifies the request as tier-3.'',
            criterion ''Complex requests bypass semantic cache lookup.'']),
         (''expected_behavior'', PStr ''answer''), (''failure_pattern'', PStr ''Complex prompts should not be routed to the cheap tier.''),
         (''scoring'', PDict [(''mode'', PStr ''headers''), (''request'', chat_request_config complex_prompt (1 / 5)),
            (''expect'', routing_expectation ''tier-3'' ''gpt-4o'' ''bypass'')])],
       dr_difficulty = ''hard'', dr_origin = ''human_curated'', dr_fingerprint = Some (sha256 ''ci:complex-routing:v1''),
       dr_provenance = seed_provenance\<rparr>,
     \<lparr>dr_id = uuid5 ''coremesh:model-regression-ci:chat-stub-output'', dr_scope = ''runtime_chat'', dr_input = chat_stub_prompt,
       dr_expected = PDict [(''reference_answer'', PStr ''Runtime returns the deterministic chat stub body.''),
         (''validation_criteria'', PSeq [criterion ''Gateway reaches runtime /v1/chat/completions.'']),
         (''expected_behavior'', PStr ''answer''),
         (''failure_pattern'', PStr ''Chat path must not 404 or return a non-stub body in CI.''),
         (''scoring'', PDict [(''mode'', PStr ''exact_json''), (''expected_json'', chat_stub_expected_json),
            (''request'', chat_request_config chat_stub_prompt 0)])],
       dr_difficulty = ''simple'', dr_origin = ''human_curated'', dr_fingerprint = Some (sha256 ''ci:chat-stub-output:v1''),
       dr_provenance = seed_provenance\<rparr>]"

text \<open>The upsert on the primary key; the unique index on the fingerprint is not its arbiter, so a fingerprint that another
  case has is an error.\<close>

definition upsert_row :: "dataset_row \<Rightarrow> dataset_row list \<Rightarrow> dataset_row list result" where
  "upsert_row r t =
     (if list_ex (\<lambda>q. dr_id q \<noteq> dr_id r \<and> dr_fingerprint r \<noteq> None \<and> dr_fingerprint q = dr_fingerprint r) t
      then Inl (OtherException ''IntegrityError'', ''golden_datasets_source_fingerprint_uq'')
      else Inr (if list_ex (\<lambda>q. dr_id q = dr_id r) t then map (\<lambda>q. if dr_id q = dr_id r then r else q) t else t @ [r]))"

fun upsert_rows :: "dataset_row list \<Rightarrow> dataset_row list \<Rightarrow> dataset_row list result" where
  "upsert_rows [] t = Inr t"
| "upsert_rows (r # rs) t = rbind (upsert_row r t) (upsert_rows rs)"

text \<open>One transaction.\<close>

definition seed_golden_cases :: "(str \<Rightarrow> str) \<Rightarrow> (str \<Rightarrow> str) \<Rightarrow> (dataset_row list, nat) io" where
  "seed_golden_cases uuid5 sha256 t = (case upsert_rows (seed_cases uuid5 sha256) t of
     Inl e \<Rightarrow> (Inl e, t) | Inr t' \<Rightarrow> (Inr (length (seed_cases uuid5 sha256)), t'))"

definition normalize_expected_output :: "(str \<Rightarrow> str + pyval) \<Rightarrow> pyval \<Rightarrow> pyval dict result" where
  "normalize_expected_output loads raw =
     rbind (case raw of PStr s \<Rightarrow> map_sum (\<lambda>m. (OtherException ''JSONDecodeError'', m)) id (loads s) | _ \<Rightarrow> Inr raw) (\<lambda>v.
       case v of PDict d \<Rightarrow> Inr d | _ \<Rightarrow> Inl (scoring_error ''expected_output must be a JSON object''))"

definition row_case :: "(str \<Rightarrow> str + pyval) \<Rightarrow> dataset_row \<Rightarrow> golden_case result" where
  "row_case loads r = rbind (normalize_expected_output loads (dr_expected r)) (\<lambda>d.
     Inr \<lparr>gc_id = dr_id r,
       gc_fingerprint = (case dr_fingerprint r of Some f \<Rightarrow> if f = [] then None else Some (strip f) | None \<Rightarrow> None),
       gc_scope = dr_scope r, gc_input = dr_input r, gc_expected = d, gc_difficulty = dr_difficulty r, gc_origin = dr_origin r\<rparr>)"

text \<open>The order of the query, with texts compared by code points.\<close>

definition row_order :: "dataset_row \<Rightarrow> str \<times> str \<times> str" where
  "row_order r = (dr_scope r, (case dr_fingerprint r of None \<Rightarrow> [] | Some f \<Rightarrow> f), dr_id r)"

definition load_golden_cases :: "(str \<Rightarrow> str + pyval) \<Rightarrow> dataset_row list \<Rightarrow> golden_case list result" where
  "load_golden_cases loads t = result_map (row_case loads) (sort_key row_order t)"

section \<open>Requests\<close>

definition scoring_config :: "(rat \<Rightarrow> str) \<Rightarrow> golden_case \<Rightarrow> pyval dict result" where
  "scoring_config fr c = (case get_or_none (gc_expected c) ''scoring'' of
     PNone \<Rightarrow> Inr [(''mode'', PStr ''llm_judge'')]
   | PDict raw \<Rightarrow>
       (let mode = strip (py_str fr (py_or (get_or_none raw ''mode'') (PStr ''llm_judge'')))
        in if mode = [] then Inl (scoring_error (''case '' @ case_key c @ '' has empty scoring mode''))
           else Inr (dict_set ''mode'' (PStr mode) raw))
   | _ \<Rightarrow> Inl (scoring_error (''case '' @ case_key c @ '' has non-object expected_output.scoring'')))"

definition case_url :: "str \<Rightarrow> str \<Rightarrow> str" where
  "case_url gateway path = rstrip_by (\<lambda>c. c = CHR ''/'') gateway @ (if prefix ''/'' path then path else ''/'' @ path)"

record http_call =
  hc_url :: str
  hc_method :: str
  hc_headers :: "str dict"
  hc_data :: "str option"

definition request_headers :: "(rat \<Rightarrow> str) \<Rightarrow> golden_case \<Rightarrow> pyval dict \<Rightarrow> str dict" where
  "request_headers fr c configured = dict_update
     [(''Content-Type'', ''application/json''), (''X-Team-ID'', ''model-regression-ci''), (''X-User-ID'', case_key c)]
     (map (\<lambda>(k, v). (k, py_str fr v)) configured)"

definition default_body :: "golden_case \<Rightarrow> pyval" where
  "default_body c = PDict [(''model'', PStr ''client-selected-model''),
     (''messages'', PSeq [PDict [(''role'', PStr ''user''), (''content'', PStr (gc_input c))]]), (''temperature'', PFloat (1 / 5))]"

definition request_payload ::
    "(rat \<Rightarrow> str) \<Rightarrow> golden_case \<Rightarrow> pyval dict \<Rightarrow> (str \<times> str \<times> str dict \<times> str option) result" where
  "request_payload fr c config = (case py_or (get_or_none config ''request'') (PDict []) of
     PDict q \<Rightarrow>
       (let method = upper (py_str fr (py_or (get_or_none q ''method'') (PStr ''POST'')));
            path = py_str fr (py_or (get_or_none q ''path'') (PStr default_path))
        in case py_or (get_or_none q ''headers'') (PDict []) of
             PDict configured \<Rightarrow>
               (let headers = request_headers fr c configured
                in if method \<in> {''GET'', ''HEAD''} then Inr (method, path, headers, None)
                   else (let body = (case get_or_none q ''json'' of PNone \<Rightarrow> default_body c | v \<Rightarrow> v)
                         in Inr (method, path, headers, Some (json_dumps fr body))))
           | _ \<Rightarrow> Inl (scoring_error (''case '' @ case_key c @ '' has non-object request.headers'')))
   | _ \<Rightarrow> Inl (scoring_error (''case '' @ case_key c @ '' has non-object scoring.request'')))"

text \<open>What opening the URL comes to: a response, an \<open>HTTPError\<close>, which carries one too, or another \<open>URLError\<close> with the text of
  its reason. Bodies are bytes. Any other exception is raised.\<close>

datatype http_outcome =
    Response int "(str \<times> str) list" str
  | HttpFailure int "(str \<times> str) list" str
  | UrlFailure str

record http_result =
  hr_status :: pyval
  hr_headers :: "str dict"
  hr_body :: str
  hr_latency :: rat

record judge_verdict =
  jv_passed :: bool
  jv_score :: rat
  jv_rationale :: str

record 'w runner_env =
  rv_urlopen :: "http_call \<Rightarrow> rat \<Rightarrow> ('w, http_outcome) io"
  rv_clock :: "('w, rat) io"
  rv_decode :: "str \<Rightarrow> str"
  rv_loads :: "str \<Rightarrow> str + pyval"
  rv_float_text :: "rat \<Rightarrow> str"
  rv_judge :: "str \<Rightarrow> str \<Rightarrow> pyval dict \<Rightarrow> ('w, judge_verdict) io"
  rv_uuid :: "('w, str) io"
  rv_now :: "('w, str) io"

fun normalize_outcome :: "(str \<Rightarrow> str) \<Rightarrow> http_outcome \<Rightarrow> rat \<Rightarrow> http_result" where
  "normalize_outcome decode (Response n hs b) t = \<lparr>hr_status = PInt n, hr_headers = dict_update [] hs, hr_body = decode b, hr_latency = t\<rparr>"
| "normalize_outcome decode (HttpFailure n hs b) t = \<lparr>hr_status = PInt n, hr_headers = dict_update [] hs, hr_body = decode b, hr_latency = t\<rparr>"
| "normalize_outcome decode (UrlFailure r) t = \<lparr>hr_status = PStr (''error:'' @ r), hr_headers = [], hr_body = [], hr_latency = t\<rparr>"

definition send_gateway_request ::
    "'w runner_env \<Rightarrow> str \<Rightarrow> golden_case \<Rightarrow> pyval dict \<Rightarrow> rat \<Rightarrow> ('w, http_result \<times> str) io" where
  "send_gateway_request e gateway c config timeout =
     io_bind (io_lift (request_payload (rv_float_text e) c config)) (\<lambda>(method, path, headers, data).
     io_bind (rv_clock e) (\<lambda>t0.
     io_bind (rv_urlopen e \<lparr>hc_url = case_url gateway path, hc_method = method, hc_headers = headers, hc_data = data\<rparr> timeout) (\<lambda>o1.
     io_bind (rv_clock e) (\<lambda>t1.
     io_return (normalize_outcome (rv_decode e) o1 ((t1 - t0) * 1000), path)))))"

section \<open>Scoring\<close>

record outcome =
  oc_passed :: bool
  oc_score :: rat
  oc_failures :: "str list"
  oc_mode :: str
  oc_path :: str
  oc_status :: pyval
  oc_latency :: rat
  oc_details :: "pyval dict"

text \<open>The first header with the name, up to case, or the empty text.\<close>

definition header :: "str dict \<Rightarrow> str \<Rightarrow> str" where
  "header hs name = (case find (\<lambda>(k, v). lower k = lower name) hs of None \<Rightarrow> [] | Some (k, v) \<Rightarrow> v)"

text \<open>\<open>isinstance(statuses, int)\<close> includes booleans.\<close>

definition expected_statuses :: "golden_case \<Rightarrow> pyval dict \<Rightarrow> pyval list option result" where
  "expected_statuses c config = (let v = py_or (get_or_none config ''status'') (get_or_none config ''expected_status'') in case v of
     PInt i \<Rightarrow> Inr (Some [v])
   | PBool b \<Rightarrow> Inr (Some [v])
   | PSeq vs \<Rightarrow> map_sum id Some (value_set vs)
   | PNone \<Rightarrow> Inr None
   | _ \<Rightarrow> Inl (scoring_error (''case '' @ case_key c @ '' has invalid expected status'')))"

definition status_failures :: "(rat \<Rightarrow> str) \<Rightarrow> pyval \<Rightarrow> pyval list option \<Rightarrow> str list result" where
  "status_failures fr st allowed = (case allowed of
     None \<Rightarrow> Inr []
   | Some vs \<Rightarrow> if member_of st vs then Inr []
       else rbind (sorted_values vs) (\<lambda>ws. Inr [''status '' @ py_repr fr st @ '', want one of '' @ py_repr fr (PSeq ws)]))"

definition header_failures :: "(rat \<Rightarrow> str) \<Rightarrow> str dict \<Rightarrow> pyval dict \<Rightarrow> str list" where
  "header_failures fr hs expected = concat (map (\<lambda>(name, wanted).
     if header hs name \<noteq> py_str fr wanted
     then [name @ '': '' @ repr_text (header hs name) @ '', want '' @ py_repr fr wanted] else []) expected)"

definition actual_headers :: "str dict \<Rightarrow> pyval dict \<Rightarrow> pyval dict" where
  "actual_headers hs expected = map (\<lambda>(name, wanted). (name, PStr (header hs name))) expected"

definition by_failures :: "str \<Rightarrow> str list \<Rightarrow> http_result \<Rightarrow> str \<Rightarrow> pyval dict \<Rightarrow> outcome" where
  "by_failures mode failures r path details = \<lparr>oc_passed = (failures = []), oc_score = (if failures = [] then 1 else 0),
     oc_failures = failures, oc_mode = mode, oc_path = path, oc_status = hr_status r, oc_latency = hr_latency r, oc_details = details\<rparr>"

definition score_headers :: "(rat \<Rightarrow> str) \<Rightarrow> golden_case \<Rightarrow> pyval dict \<Rightarrow> http_result \<Rightarrow> str \<Rightarrow> outcome result" where
  "score_headers fr c config r path =
     (case py_or (py_or (get_or_none config ''expect'') (get_or_none config ''headers'')) (PDict []) of
        PDict expected \<Rightarrow> rbind (expected_statuses c config) (\<lambda>allowed.
          if expected = [] \<and> allowed = None
          then Inl (scoring_error (''case '' @ case_key c @ '' headers scoring needs headers or status''))
          else rbind (status_failures fr (hr_status r) allowed) (\<lambda>fs.
            Inr (by_failures ''headers'' (fs @ header_failures fr (hr_headers r) expected) r path
              [(''expected_headers'', PDict expected), (''actual_headers'', PDict (actual_headers (hr_headers r) expected))])))
      | _ \<Rightarrow> Inl (scoring_error (''case '' @ case_key c @ '' has non-object headers expectations'')))"

definition expected_json :: "golden_case \<Rightarrow> pyval dict \<Rightarrow> pyval option" where
  "expected_json c config = (case map_of config ''expected_json'' of Some v \<Rightarrow> Some v | None \<Rightarrow> map_of (gc_expected c) ''expected_json'')"

definition score_exact_json :: "(str \<Rightarrow> str + pyval) \<Rightarrow> golden_case \<Rightarrow> pyval dict \<Rightarrow> http_result \<Rightarrow> str \<Rightarrow> outcome result" where
  "score_exact_json loads c config r path = (case expected_json c config of
     None \<Rightarrow> Inl (scoring_error (''case '' @ case_key c @ '' exact_json scoring needs expected_json''))
   | Some expected \<Rightarrow>
       (let (actual, failures) = (case loads (hr_body r) of
              Inl msg \<Rightarrow> (PNone, [''response body is not JSON: '' @ msg])
            | Inr v \<Rightarrow> (v, if py_eq v expected then [] else [''response JSON did not exactly match expected_json'']))
        in Inr (by_failures ''exact_json'' failures r path [(''expected_json'', expected), (''actual_json'', actual)])))"

text \<open>\<open>OpenAIJudge\<close>: refuses a blank key when it is built, and puts the case and the reply to the model. The SDK validates
  the answer as a \<open>JudgeVerdict\<close>.\<close>

definition get_default :: "pyval dict \<Rightarrow> str \<Rightarrow> pyval \<Rightarrow> pyval" where
  "get_default d k v = (case map_of d k of None \<Rightarrow> v | Some w \<Rightarrow> w)"

definition validate_verdict :: "judge_verdict \<Rightarrow> judge_verdict result" where
  "validate_verdict v = (if 0 \<le> jv_score v \<and> jv_score v \<le> 1 \<and> jv_rationale v \<noteq> [] then Inr v
     else Inl (ValidationError, ''JudgeVerdict''))"

definition judge_payload :: "golden_case \<Rightarrow> str \<Rightarrow> pyval dict \<Rightarrow> pyval dict" where
  "judge_payload c output config = [(''feature_scope'', PStr (gc_scope c)), (''user_input'', PStr (gc_input c)),
     (''model_output'', PStr output), (''reference_answer'', get_default (gc_expected c) ''reference_answer'' (PStr [])),
     (''validation_criteria'', get_default (gc_expected c) ''validation_criteria'' (PSeq [])),
     (''expected_behavior'', get_default (gc_expected c) ''expected_behavior'' (PStr ''answer'')),
     (''failure_pattern'', get_default (gc_expected c) ''failure_pattern'' (PStr [])),
     (''pass_threshold'', get_default config ''pass_threshold'' (PFloat (4 / 5)))]"

definition openai_judge ::
    "'w runner_env \<Rightarrow> str \<Rightarrow> str \<Rightarrow> (golden_case \<Rightarrow> str \<Rightarrow> pyval dict \<Rightarrow> ('w, judge_verdict) io) result" where
  "openai_judge e api_key model =
     (if strip api_key = [] then Inl (scoring_error ''OPENAI_API_KEY is required for llm_judge scoring rows'')
      else Inr (\<lambda>c output config. io_bind (rv_judge e api_key model (judge_payload c output config)) (\<lambda>v. io_lift (validate_verdict v))))"

definition to_float :: "pyval \<Rightarrow> rat result" where
  "to_float v = (case py_float v of Some x \<Rightarrow> Inr x
     | None \<Rightarrow> (case v of PStr _ \<Rightarrow> Inl (ValueError, ''could not convert string to float'')
         | _ \<Rightarrow> Inl (TypeError, ''float() argument must be a string or a real number'')))"

definition score_llm_judge ::
    "(golden_case \<Rightarrow> str \<Rightarrow> pyval dict \<Rightarrow> ('w, judge_verdict) io) \<Rightarrow> golden_case \<Rightarrow> pyval dict \<Rightarrow> http_result \<Rightarrow> str \<Rightarrow> ('w, outcome) io" where
  "score_llm_judge judge c config r path =
     io_bind (io_lift (to_float (get_default config ''pass_threshold'' (PFloat (4 / 5))))) (\<lambda>threshold.
     io_bind (judge c (hr_body r) config) (\<lambda>v.
       let passed = (jv_passed v \<and> threshold \<le> jv_score v)
       in io_return \<lparr>oc_passed = passed, oc_score = jv_score v, oc_failures = (if passed then [] else [jv_rationale v]),
            oc_mode = ''llm_judge'', oc_path = path, oc_status = hr_status r, oc_latency = hr_latency r,
            oc_details = [(''judge_model'', get_or_none config ''judge_model''), (''pass_threshold'', PFloat threshold),
              (''rationale'', PStr (jv_rationale v))]\<rparr>))"

record case_report =
  ca_id :: str
  ca_fingerprint :: "str option"
  ca_key :: str
  ca_scope :: str
  ca_difficulty :: str
  ca_origin :: str
  ca_mode :: str
  ca_passed :: bool
  ca_score :: rat
  ca_status :: pyval
  ca_latency :: rat
  ca_path :: str
  ca_failures :: "str list"
  ca_details :: "pyval dict"

definition case_payload :: "golden_case \<Rightarrow> outcome \<Rightarrow> case_report" where
  "case_payload c o1 = \<lparr>ca_id = gc_id c, ca_fingerprint = gc_fingerprint c, ca_key = case_key c, ca_scope = gc_scope c,
     ca_difficulty = gc_difficulty c, ca_origin = gc_origin c, ca_mode = oc_mode o1, ca_passed = oc_passed o1,
     ca_score = py_round (oc_score o1) 6, ca_status = oc_status o1, ca_latency = py_round (oc_latency o1) 2,
     ca_path = oc_path o1, ca_failures = oc_failures o1, ca_details = oc_details o1\<rparr>"

record 'w run_args =
  ra_gateway :: str
  ra_timeout :: rat
  ra_api_key :: str
  ra_judge_model :: str
  ra_judge :: "(golden_case \<Rightarrow> str \<Rightarrow> pyval dict \<Rightarrow> ('w, judge_verdict) io) option"

definition score_case :: "'w runner_env \<Rightarrow> 'w run_args \<Rightarrow> golden_case \<Rightarrow> pyval dict \<Rightarrow> str \<Rightarrow> http_result \<Rightarrow> str \<Rightarrow> ('w, outcome) io" where
  "score_case e a c config mode r path =
     (if mode = ''headers'' then io_lift (score_headers (rv_float_text e) c config r path)
      else if mode = ''exact_json'' then io_lift (score_exact_json (rv_loads e) c config r path)
      else if mode = ''llm_judge'' then
        io_bind (case ra_judge a of Some j \<Rightarrow> io_return j
                 | None \<Rightarrow> io_lift (openai_judge e (ra_api_key a)
                     (py_str (rv_float_text e) (py_or (get_or_none config ''judge_model'') (PStr (ra_judge_model a))))))
          (\<lambda>j. score_llm_judge j c config r path)
      else io_raise (unsupported_mode (''case '' @ case_key c @ '' requested unsupported scoring mode '' @ repr_text mode)))"

definition evaluate_case :: "'w runner_env \<Rightarrow> 'w run_args \<Rightarrow> golden_case \<Rightarrow> ('w, case_report) io" where
  "evaluate_case e a c =
     io_bind (io_lift (scoring_config (rv_float_text e) c)) (\<lambda>config.
     let mode = py_str (rv_float_text e) (get_or_none config ''mode'') in
     io_bind (send_gateway_request e (ra_gateway a) c config (ra_timeout a)) (\<lambda>(r, path).
     io_bind (score_case e a c config mode r path) (\<lambda>o1. io_return (case_payload c o1))))"

section \<open>Reports\<close>

record metrics =
  mt_count :: nat
  mt_passed :: nat
  mt_failed :: nat
  mt_accuracy :: rat
  mt_pass_rate :: rat

definition metric_summary :: "case_report list \<Rightarrow> metrics" where
  "metric_summary rs =
     (let n = length rs; passed = length (filter ca_passed rs); score_sum = sum_list (map ca_score rs)
      in \<lparr>mt_count = n, mt_passed = passed, mt_failed = n - passed,
          mt_accuracy = (if n \<noteq> 0 then py_round (score_sum / of_nat n) 6 else 0),
          mt_pass_rate = (if n \<noteq> 0 then py_round (of_nat passed / of_nat n) 6 else 0)\<rparr>)"

record report =
  rp_schema :: str
  rp_run_id :: str
  rp_generated :: str
  rp_label :: str
  rp_revision :: str
  rp_gateway :: str
  rp_summary :: metrics
  rp_scopes :: "(str \<times> metrics) list"
  rp_cases :: "case_report list"

text \<open>\<open>by_scope\<close>: the results of each scope, scopes in the order in which they are first seen.\<close>

definition group_by_scope :: "case_report list \<Rightarrow> (str \<times> case_report list) list" where
  "group_by_scope rs = dict_group ca_scope rs"

definition build_report :: "'w runner_env \<Rightarrow> 'w run_args \<Rightarrow> str \<Rightarrow> str \<Rightarrow> golden_case list \<Rightarrow> ('w, report) io" where
  "build_report e a label revision cs =
     (if cs = [] then io_raise (no_golden_cases ''golden_datasets contains no rows'')
      else io_bind (io_map (evaluate_case e a) cs) (\<lambda>rs.
        io_bind (rv_uuid e) (\<lambda>u. io_bind (rv_now e) (\<lambda>now.
        io_return \<lparr>rp_schema = ''coremesh-model-regression-report-v1'', rp_run_id = u, rp_generated = now, rp_label = label,
          rp_revision = revision, rp_gateway = ra_gateway a, rp_summary = metric_summary rs,
          rp_scopes = map (\<lambda>(s, xs). (s, metric_summary xs)) (sort_key fst (group_by_scope rs)), rp_cases = rs\<rparr>))))"

section \<open>Scoring by headers\<close>

lemma header_failures_Nil: "header_failures fr hs expected = [] \<longleftrightarrow> (\<forall>(name, wanted) \<in> set expected. header hs name = py_str fr wanted)"
  by (fastforce simp: header_failures_def split: if_splits)

lemma status_failures_Nil: "status_failures fr st allowed = Inr fs \<Longrightarrow>
    fs = [] \<longleftrightarrow> (case allowed of None \<Rightarrow> True | Some vs \<Rightarrow> member_of st vs)"
  by (auto simp: status_failures_def rbind_eq_Inr split: option.splits if_splits)

lemma by_failures_simps [simp]: "oc_passed (by_failures m fs r p ds) = (fs = [])" "oc_score (by_failures m fs r p ds) = (if fs = [] then 1 else 0)"
  "oc_failures (by_failures m fs r p ds) = fs" "oc_mode (by_failures m fs r p ds) = m"
  by (simp_all add: by_failures_def)

text \<open>The statuses a row allows, and whether a reply's status is one of them.\<close>

definition status_allowed :: "pyval dict \<Rightarrow> pyval \<Rightarrow> bool" where
  "status_allowed config st \<longleftrightarrow> (case py_or (get_or_none config ''status'') (get_or_none config ''expected_status'') of
     PSeq vs \<Rightarrow> member_of st vs | PNone \<Rightarrow> True | v \<Rightarrow> py_eq st v)"

lemma expected_statuses_allowed:
  assumes "expected_statuses c config = Inr allowed" "hashable st"
  shows "(case allowed of None \<Rightarrow> True | Some vs \<Rightarrow> member_of st vs) \<longleftrightarrow> status_allowed config st"
  using assms(1) member_of_value_set [OF _ assms(2)]
  by (auto simp: expected_statuses_def status_allowed_def Let_def map_sum_eq_Inr member_of_def split: pyval.splits)

lemma score_headers_passes:
  assumes "score_headers fr c config r path = Inr out" "hashable (hr_status r)"
    "py_or (py_or (get_or_none config ''expect'') (get_or_none config ''headers'')) (PDict []) = PDict expected"
  shows "oc_passed out \<longleftrightarrow> status_allowed config (hr_status r) \<and> (\<forall>(name, wanted) \<in> set expected. header (hr_headers r) name = py_str fr wanted)"
    "oc_score out = (if oc_passed out then 1 else 0)" "oc_passed out \<longleftrightarrow> oc_failures out = []" "oc_mode out = ''headers''"
proof -
  from assms(1,3) obtain allowed fs ds where a: "expected_statuses c config = Inr allowed"
      "status_failures fr (hr_status r) allowed = Inr fs" "out = by_failures ''headers'' (fs @ header_failures fr (hr_headers r) expected) r path ds"
    by (auto simp: score_headers_def rbind_eq_Inr split: if_splits)
  from status_failures_Nil [OF a(2)] expected_statuses_allowed [OF a(1) assms(2)]
  show "oc_passed out \<longleftrightarrow> status_allowed config (hr_status r) \<and> (\<forall>(name, wanted) \<in> set expected. header (hr_headers r) name = py_str fr wanted)"
    by (simp add: a(3) header_failures_Nil)
qed (use assms in \<open>auto simp: score_headers_def rbind_eq_Inr split: if_splits\<close>)

lemma scored_by_headers:
  assumes "score_headers fr c config r path = Inr out"
  shows "oc_mode out = ''headers'' \<and> (oc_passed out \<longleftrightarrow> oc_failures out = []) \<and> oc_score out = (if oc_passed out then 1 else 0)"
  using assms by (auto simp: score_headers_def rbind_eq_Inr split: if_splits pyval.splits)

lemma scored_by_json:
  assumes "score_exact_json loads c config r path = Inr out"
  shows "oc_mode out = ''exact_json'' \<and> (oc_passed out \<longleftrightarrow> oc_failures out = []) \<and> oc_score out = (if oc_passed out then 1 else 0)"
  using assms by (auto simp: score_exact_json_def split: option.splits prod.splits)

lemma exact_json_passes:
  assumes "score_exact_json loads c config r path = Inr out"
  shows "oc_passed out \<longleftrightarrow> (\<exists>v x. loads (hr_body r) = Inr v \<and> expected_json c config = Some x \<and> py_eq v x)"
  using assms by (auto simp: score_exact_json_def split: option.splits prod.splits sum.splits if_splits)

lemma scored_by_judge:
  assumes "score_llm_judge j c config r path w = (Inr out, w')"
  shows "oc_mode out = ''llm_judge'' \<and> (oc_passed out \<longrightarrow> oc_failures out = []) \<and>
    (\<exists>v w1 w2 t. j c (hr_body r) config w1 = (Inr v, w2) \<and> to_float (get_default config ''pass_threshold'' (PFloat (4 / 5))) = Inr t \<and>
       oc_score out = jv_score v \<and> (oc_passed out \<longleftrightarrow> jv_passed v \<and> t \<le> jv_score v))"
  using assms by (force simp: score_llm_judge_def io_bind_eq_Inr Let_def)

lemma openai_judge_valid:
  assumes "openai_judge e key model = Inr j" "j c out config w1 = (Inr v, w2)"
  shows "0 \<le> jv_score v \<and> jv_score v \<le> 1 \<and> jv_rationale v \<noteq> [] \<and> strip key \<noteq> []"
  using assms by (auto simp: openai_judge_def io_bind_eq_Inr validate_verdict_def split: if_splits)

section \<open>One case\<close>

lemma evaluate_case_cases:
  assumes "evaluate_case e a c w = (Inr r, w')"
  obtains config res path out w1 w2 where "scoring_config (rv_float_text e) c = Inr config"
    "score_case e a c config (py_str (rv_float_text e) (get_or_none config ''mode'')) res path w1 = (Inr out, w2)" "r = case_payload c out"
proof -
  from assms obtain config res path out w1 w2 w3 where "scoring_config (rv_float_text e) c = Inr config"
    "score_case e a c config (py_str (rv_float_text e) (get_or_none config ''mode'')) res path w1 = (Inr out, w2)"
    "io_return (case_payload c out) w2 = (Inr r, w3)"
    unfolding evaluate_case_def Let_def by (auto simp: io_bind_eq_Inr)
  then show ?thesis by (intro that) auto
qed

lemma score_case_outcome:
  assumes "score_case e a c config mode r path w = (Inr out, w')"
  shows "oc_mode out = mode \<and> mode \<in> {''headers'', ''exact_json'', ''llm_judge''} \<and> (oc_passed out \<longrightarrow> oc_failures out = []) \<and>
    (mode \<noteq> ''llm_judge'' \<longrightarrow> oc_score out = (if oc_passed out then 1 else 0)) \<and>
    (ra_judge a = None \<longrightarrow> 0 \<le> oc_score out \<and> oc_score out \<le> 1)"
proof -
  consider "mode = ''headers''" | "mode = ''exact_json''" | "mode = ''llm_judge''"
    | "mode \<noteq> ''headers''" "mode \<noteq> ''exact_json''" "mode \<noteq> ''llm_judge''" by blast
  then show ?thesis
  proof cases
    case 1
    with assms have "score_headers (rv_float_text e) c config r path = Inr out" by (simp add: score_case_def)
    from scored_by_headers [OF this] 1 show ?thesis by simp
  next
    case 2
    with assms have "score_exact_json (rv_loads e) c config r path = Inr out" by (simp add: score_case_def)
    from scored_by_json [OF this] 2 show ?thesis by simp
  next
    case 3
    with assms obtain j w1 where j: "score_llm_judge j c config r path w1 = (Inr out, w')"
      and made: "ra_judge a = None \<Longrightarrow> \<exists>m. openai_judge e (ra_api_key a) m = Inr j"
      by (force simp: score_case_def io_bind_eq_Inr split: option.splits)
    from scored_by_judge [OF j] obtain v w2 w3 where v: "j c (hr_body r) config w2 = (Inr v, w3)" "oc_score out = jv_score v"
      and mode: "oc_mode out = ''llm_judge''" "oc_passed out \<longrightarrow> oc_failures out = []" by blast
    have "ra_judge a = None \<longrightarrow> 0 \<le> oc_score out \<and> oc_score out \<le> 1"
      using made openai_judge_valid [of e "ra_api_key a" _ j c "hr_body r" config w2 v w3] v by metis
    with mode 3 show ?thesis by simp
  next
    case 4
    with assms show ?thesis by (simp add: score_case_def)
  qed
qed

text \<open>What the report says of a case.\<close>

definition sound_entry :: "golden_case \<Rightarrow> case_report \<Rightarrow> bool" where
  "sound_entry c r \<longleftrightarrow> ca_id r = gc_id c \<and> ca_key r = case_key c \<and> ca_scope r = gc_scope c \<and>
     ca_mode r \<in> {''headers'', ''exact_json'', ''llm_judge''} \<and> (ca_passed r \<longrightarrow> ca_failures r = []) \<and>
     0 \<le> ca_score r \<and> ca_score r \<le> 1 \<and> (ca_mode r \<noteq> ''llm_judge'' \<longrightarrow> ca_score r = (if ca_passed r then 1 else 0))"

lemma py_round_0_1 [simp]: "py_round 0 n = 0" "py_round 1 n = 1"
proof -
  have "round_half_even (10 ^ n) = 10 ^ n" using round_half_even_of_int [of "10 ^ n"] by simp
  then show "py_round 1 n = 1" by (simp add: py_round_def)
  show "py_round 0 n = 0" using round_half_even_of_int [of 0] by (simp add: py_round_def)
qed

lemma evaluate_case_sound:
  assumes "evaluate_case e a c w = (Inr r, w')" "ra_judge a = None"
  shows "sound_entry c r"
proof (rule evaluate_case_cases [OF assms(1)])
  fix config res path out w1 w2
  assume out: "score_case e a c config (py_str (rv_float_text e) (get_or_none config ''mode'')) res path w1 = (Inr out, w2)"
    and r: "r = case_payload c out"
  have "ca_mode r = oc_mode out" "ca_passed r = oc_passed out" "ca_failures r = oc_failures out" "ca_score r = py_round (oc_score out) 6"
    "ca_id r = gc_id c" "ca_key r = case_key c" "ca_scope r = gc_scope c"
    by (simp_all add: r case_payload_def)
  note fields = this
  note o1 = score_case_outcome [OF out]
  from o1 assms(2) have "0 \<le> ca_score r" "ca_score r \<le> 1"
    by (simp_all add: fields py_round_nonneg py_round_le_1)
  moreover from o1 have "ca_mode r \<noteq> ''llm_judge'' \<longrightarrow> ca_score r = (if ca_passed r then 1 else 0)"
    by (metis fields(1,2,4) py_round_0_1)
  ultimately show ?thesis using o1 by (simp add: sound_entry_def fields)
qed

section \<open>The report\<close>

lemma group_by_scope_map:
  "map_of (group_by_scope rs) s = (if s \<in> ca_scope ` set rs then Some (filter (\<lambda>r. ca_scope r = s) rs) else None)"
  by (simp add: group_by_scope_def map_of_dict_group)

lemma group_by_scope_distinct: "distinct (map fst (group_by_scope rs))"
  using distinct_dict_group by (simp add: group_by_scope_def)

lemma group_by_scope_set: "(s, xs) \<in> set (group_by_scope rs) \<longleftrightarrow> s \<in> ca_scope ` set rs \<and> xs = filter (\<lambda>r. ca_scope r = s) rs"
  by (simp add: group_by_scope_def set_dict_group)

lemma group_by_scope_keys: "set (map fst (group_by_scope rs)) = ca_scope ` set rs"
  using keys_dict_group by (simp add: group_by_scope_def)

lemma sorted_scopes:
  "map fst (sort_key fst (group_by_scope rs)) = sorted_list_of_set (ca_scope ` set rs)"
proof -
  have "mset (map fst (sort_key fst (group_by_scope rs))) = mset (map fst (group_by_scope rs))" by (simp add: mset_map)
  then have "distinct (map fst (sort_key fst (group_by_scope rs)))" "set (map fst (sort_key fst (group_by_scope rs))) = ca_scope ` set rs"
    using group_by_scope_distinct [of rs] mset_eq_imp_distinct_iff mset_eq_setD group_by_scope_keys by blast+
  then show ?thesis using sorted_list_of_set.idem_if_sorted_distinct [of "map fst (sort_key fst (group_by_scope rs))"] by simp
qed

text \<open>The metrics of a list of sound entries.\<close>

lemma sum_list_bounds:
  assumes "\<And>x. x \<in> set xs \<Longrightarrow> 0 \<le> f x \<and> f x \<le> (1 :: rat)"
  shows "0 \<le> sum_list (map f xs) \<and> sum_list (map f xs) \<le> of_nat (length xs)"
  using assms by (induction xs) (force intro: add_mono)+

lemma sum_list_passes:
  assumes "\<And>r. r \<in> set rs \<Longrightarrow> ca_score r = (if ca_passed r then 1 else 0)"
  shows "sum_list (map ca_score rs) = of_nat (length (filter ca_passed rs))"
  using assms by (induction rs) auto

lemma metric_summary_counts: "mt_count (metric_summary rs) = length rs" "mt_passed (metric_summary rs) = length (filter ca_passed rs)"
  "mt_passed (metric_summary rs) + mt_failed (metric_summary rs) = length rs"
  by (simp_all add: metric_summary_def Let_def)

lemma metric_summary_rounded [simp]: "millionths (mt_accuracy (metric_summary rs))"
  by (simp add: metric_summary_def Let_def)

lemma metric_summary_bounds:
  assumes "\<And>r. r \<in> set rs \<Longrightarrow> 0 \<le> ca_score r \<and> ca_score r \<le> 1"
  shows "0 \<le> mt_accuracy (metric_summary rs) \<and> mt_accuracy (metric_summary rs) \<le> 1"
proof (cases "rs = []")
  case False
  have b: "0 \<le> sum_list (map ca_score rs) \<and> sum_list (map ca_score rs) \<le> of_nat (length rs)"
    by (rule sum_list_bounds) (use assms in blast)
  with False have "0 \<le> sum_list (map ca_score rs) / of_nat (length rs)" "sum_list (map ca_score rs) / of_nat (length rs) \<le> 1"
    by simp_all
  with False show ?thesis by (simp add: metric_summary_def Let_def py_round_nonneg py_round_le_1)
qed (simp add: metric_summary_def)

lemma metric_summary_judgeless:
  assumes "\<And>r. r \<in> set rs \<Longrightarrow> ca_score r = (if ca_passed r then 1 else 0)"
  shows "mt_accuracy (metric_summary rs) = mt_pass_rate (metric_summary rs)"
  using sum_list_passes [OF assms] by (simp add: metric_summary_def Let_def)

lemma build_report_run:
  assumes "build_report e a label revision cs w = (Inr rep, w')" "ra_judge a = None"
  shows "list_all2 sound_entry cs (rp_cases rep)" "cs \<noteq> []" "rp_summary rep = metric_summary (rp_cases rep)"
    "rp_scopes rep = map (\<lambda>(s, xs). (s, metric_summary xs)) (sort_key fst (group_by_scope (rp_cases rep)))"
proof -
  from assms(1) obtain rs w1 w2 u now w3 where rs: "io_map (evaluate_case e a) cs w = (Inr rs, w1)"
    and rep: "rep = \<lparr>rp_schema = ''coremesh-model-regression-report-v1'', rp_run_id = u, rp_generated = now, rp_label = label,
          rp_revision = revision, rp_gateway = ra_gateway a, rp_summary = metric_summary rs,
          rp_scopes = map (\<lambda>(s, xs). (s, metric_summary xs)) (sort_key fst (group_by_scope rs)), rp_cases = rs\<rparr>" and ne: "cs \<noteq> []"
    unfolding build_report_def by (auto simp: io_bind_eq_Inr io_return_def io_raise_def split: if_splits)
  from io_map_Inr [OF rs] show "list_all2 sound_entry cs (rp_cases rep)"
    unfolding rep by (auto elim!: list_all2_mono dest: evaluate_case_sound [OF _ assms(2)])
  show "cs \<noteq> []" by (rule ne)
qed (use assms in \<open>auto simp: build_report_def io_bind_eq_Inr split: if_splits\<close>)

lemma entries_filter:
  assumes "list_all2 sound_entry cs rs"
  shows "length (filter (\<lambda>r. ca_scope r = s) rs) = length (filter (\<lambda>c. gc_scope c = s) cs)"
    "map ca_key rs = map case_key cs" "ca_scope ` set rs = gc_scope ` set cs" "length rs = length cs"
  using assms by (induction rule: list_all2_induct) (auto simp: sound_entry_def)

lemma scope_metrics:
  assumes "(s, m) \<in> set (map (\<lambda>(s, xs). (s, metric_summary xs)) (sort_key fst (group_by_scope rs)))"
  shows "m = metric_summary (filter (\<lambda>r. ca_scope r = s) rs)"
  using assms by (auto simp: group_by_scope_set)

lemma scope_metrics_lookup:
  "map_of (map (\<lambda>(s, xs). (s, metric_summary xs)) (sort_key fst (group_by_scope rs))) s =
     (if s \<in> ca_scope ` set rs then Some (metric_summary (filter (\<lambda>r. ca_scope r = s) rs)) else None)"
proof -
  have d: "distinct (map fst (sort_key fst (group_by_scope rs)))"
    using sorted_scopes [of rs] by (metis distinct_sorted_list_of_set)
  have "map_of (sort_key fst (group_by_scope rs)) = map_of (group_by_scope rs)"
    using map_of_eqI [of "sort_key fst (group_by_scope rs)" "group_by_scope rs"] d group_by_scope_distinct [of rs]
    by (intro map_of_inject_set [THEN iffD2]) auto
  then show ?thesis by (simp add: map_of_map group_by_scope_map)
qed

lemma scope_counts:
  "sum_list (map (\<lambda>s. length (filter (\<lambda>r. f r = s) rs)) (sorted_list_of_set (f ` set rs))) = length rs"
proof -
  have fin: "finite (f ` set rs)" by simp
  have "(\<Sum>s\<in>f ` set rs. length (filter (\<lambda>r. f r = s) rs)) = length rs"
  proof (induction rs)
    case (Cons r rs)
    have "(\<Sum>s\<in>f ` set (r # rs). length (filter (\<lambda>r. f r = s) (r # rs))) =
        (\<Sum>s\<in>f ` set (r # rs). (if f r = s then 1 else 0) + length (filter (\<lambda>r. f r = s) rs))"
      by (intro sum.cong) auto
    also have "\<dots> = 1 + (\<Sum>s\<in>f ` set (r # rs). length (filter (\<lambda>r. f r = s) rs))"
      by (simp add: sum.distrib)
    also have "(\<Sum>s\<in>f ` set (r # rs). length (filter (\<lambda>r. f r = s) rs)) = (\<Sum>s\<in>f ` set rs. length (filter (\<lambda>r. f r = s) rs))"
      by (rule sum.mono_neutral_right) (auto simp: filter_empty_conv)
    finally show ?case using Cons.IH by simp
  qed simp
  then show ?thesis by (simp add: sum_list_distinct_conv_sum_set)
qed

section \<open>Seeding\<close>

text \<open>The primary key and the unique index.\<close>

definition table_ok :: "dataset_row list \<Rightarrow> bool" where
  "table_ok t \<longleftrightarrow> distinct (map dr_id t) \<and>
     (\<forall>p \<in> set t. \<forall>q \<in> set t. dr_fingerprint p \<noteq> None \<and> dr_fingerprint p = dr_fingerprint q \<longrightarrow> p = q)"

lemma upsert_row_set:
  assumes "upsert_row r t = Inr t'"
  shows "set t' = insert r {q \<in> set t. dr_id q \<noteq> dr_id r}"
    "filter (\<lambda>q. dr_id q \<noteq> dr_id r) t' = filter (\<lambda>q. dr_id q \<noteq> dr_id r) t"
    "map dr_id t' = (if dr_id r \<in> dr_id ` set t then map dr_id t else map dr_id t @ [dr_id r])"
    "\<And>q. q \<in> set t \<Longrightarrow> dr_id q \<noteq> dr_id r \<Longrightarrow> dr_fingerprint r = None \<or> dr_fingerprint q \<noteq> dr_fingerprint r"
proof -
  have f: "filter (\<lambda>q. dr_id q \<noteq> dr_id r) (map (\<lambda>q. if dr_id q = dr_id r then r else q) xs) = filter (\<lambda>q. dr_id q \<noteq> dr_id r) xs" for xs
    by (induction xs) auto
  show "filter (\<lambda>q. dr_id q \<noteq> dr_id r) t' = filter (\<lambda>q. dr_id q \<noteq> dr_id r) t"
    using assms f [of t] by (auto simp: upsert_row_def split: if_splits)
qed (use assms in \<open>auto simp: upsert_row_def list_ex_iff image_iff comp_def split: if_splits\<close>)

lemma upsert_row_ok:
  assumes "upsert_row r t = Inr t'" "table_ok t" shows "table_ok t'"
  unfolding table_ok_def
proof (intro conjI ballI impI)
  show "distinct (map dr_id t')" using assms(2) by (auto simp: upsert_row_set(3) [OF assms(1)] table_ok_def)
  fix p q assume "p \<in> set t'" "q \<in> set t'" "dr_fingerprint p \<noteq> None \<and> dr_fingerprint p = dr_fingerprint q"
  with assms(2) upsert_row_set(4) [OF assms(1)] show "p = q"
    unfolding upsert_row_set(1) [OF assms(1)] table_ok_def by (metis (mono_tags, lifting) insertE mem_Collect_eq)
qed

lemma upsert_row_present:
  assumes "table_ok t" "r \<in> set t" shows "upsert_row r t = Inr t"
proof -
  have inj: "inj_on dr_id (set t)" using assms(1) by (simp add: table_ok_def distinct_map)
  have m: "map (\<lambda>q. if dr_id q = dr_id r then r else q) t = t"
  proof (rule map_idI)
    fix q assume "q \<in> set t"
    then show "(if dr_id q = dr_id r then r else q) = q" using inj_onD [OF inj, of q r] assms(2) by auto
  qed
  have no: "\<not> list_ex (\<lambda>q. dr_id q \<noteq> dr_id r \<and> dr_fingerprint r \<noteq> None \<and> dr_fingerprint q = dr_fingerprint r) t"
    unfolding list_ex_iff using assms unfolding table_ok_def by metis
  have yes: "list_ex (\<lambda>q. dr_id q = dr_id r) t" unfolding list_ex_iff using assms(2) by blast
  show ?thesis by (simp only: upsert_row_def no yes m if_True if_False)
qed

lemma upsert_rows_ok: "upsert_rows rs t = Inr t' \<Longrightarrow> table_ok t \<Longrightarrow> table_ok t'"
  by (induction rs arbitrary: t) (auto simp: rbind_eq_Inr intro: upsert_row_ok)

lemma upsert_rows_others:
  "upsert_rows rs t = Inr t' \<Longrightarrow> filter (\<lambda>q. dr_id q \<notin> dr_id ` set rs) t' = filter (\<lambda>q. dr_id q \<notin> dr_id ` set rs) t"
proof (induction rs arbitrary: t)
  case (Cons r rs)
  then obtain t1 where t1: "upsert_row r t = Inr t1" "upsert_rows rs t1 = Inr t'" by (auto simp: rbind_eq_Inr)
  have split: "filter (\<lambda>q. dr_id q \<notin> dr_id ` set (r # rs)) xs = filter (\<lambda>q. dr_id q \<noteq> dr_id r) (filter (\<lambda>q. dr_id q \<notin> dr_id ` set rs) xs)"
    "filter (\<lambda>q. dr_id q \<notin> dr_id ` set (r # rs)) xs = filter (\<lambda>q. dr_id q \<notin> dr_id ` set rs) (filter (\<lambda>q. dr_id q \<noteq> dr_id r) xs)" for xs
    by (auto intro!: filter_cong)
  show ?case using Cons.IH [OF t1(2)] upsert_row_set(2) [OF t1(1)] split by metis
qed simp

lemma upsert_rows_present:
  assumes "upsert_rows rs t = Inr t'" "distinct (map dr_id rs)" shows "set rs \<subseteq> set t'"
  using assms
proof (induction rs arbitrary: t)
  case (Cons r rs)
  then obtain t1 where t1: "upsert_row r t = Inr t1" "upsert_rows rs t1 = Inr t'" by (auto simp: rbind_eq_Inr)
  have "r \<in> set (filter (\<lambda>q. dr_id q \<notin> dr_id ` set rs) t1)" using upsert_row_set(1) [OF t1(1)] Cons.prems(2) by auto
  then have "r \<in> set (filter (\<lambda>q. dr_id q \<notin> dr_id ` set rs) t')" by (simp only: upsert_rows_others [OF t1(2)])
  then have "r \<in> set t'" by simp
  moreover have "set rs \<subseteq> set t'" using Cons t1(2) by simp
  ultimately show ?case by simp
qed simp

lemma upsert_rows_again: "table_ok t \<Longrightarrow> set rs \<subseteq> set t \<Longrightarrow> upsert_rows rs t = Inr t"
  by (induction rs) (simp_all add: upsert_row_present)

lemma upsert_rows_fresh:
  assumes "\<forall>r \<in> set rs. \<forall>q \<in> set t. dr_id q \<noteq> dr_id r \<longrightarrow> dr_fingerprint q \<noteq> dr_fingerprint r"
    "distinct (map dr_id rs)" "inj_on dr_fingerprint (set rs)"
  shows "\<exists>t'. upsert_rows rs t = Inr t'"
  using assms
proof (induction rs arbitrary: t)
  case (Cons r rs)
  have "\<exists>t1. upsert_row r t = Inr t1" using Cons.prems(1) by (auto simp: upsert_row_def list_ex_iff)
  then obtain t1 where t1: "upsert_row r t = Inr t1" ..
  have "\<forall>s \<in> set rs. \<forall>q \<in> set t1. dr_id q \<noteq> dr_id s \<longrightarrow> dr_fingerprint q \<noteq> dr_fingerprint s"
    using Cons.prems unfolding upsert_row_set(1) [OF t1] by (auto simp: inj_on_def image_iff)
  with Cons t1 show ?case by simp
qed simp

section \<open>Properties\<close>

lemma seed_cases_distinct:
  assumes "inj uuid5" "inj sha256"
  shows "distinct (map dr_id (seed_cases uuid5 sha256))" "inj_on dr_fingerprint (set (seed_cases uuid5 sha256))"
proof -
  have "map dr_id (seed_cases uuid5 sha256) = map uuid5 [''coremesh:model-regression-ci:simple-routing'',
      ''coremesh:model-regression-ci:complex-routing'', ''coremesh:model-regression-ci:chat-stub-output'']"
    by (simp add: seed_cases_def)
  then show "distinct (map dr_id (seed_cases uuid5 sha256))"
    using inj_on_subset [OF assms(1) subset_UNIV] by (simp only: distinct_map) simp
  have "map dr_fingerprint (seed_cases uuid5 sha256) = map (\<lambda>s. Some (sha256 s)) [''ci:simple-routing:v1'',
      ''ci:complex-routing:v1'', ''ci:chat-stub-output:v1'']"
    by (simp add: seed_cases_def)
  then have "distinct (map dr_fingerprint (seed_cases uuid5 sha256))" using inj_eq [OF assms(2)] by simp
  then show "inj_on dr_fingerprint (set (seed_cases uuid5 sha256))" by (simp only: distinct_map)
qed


text \<open>A case scored by headers passes exactly if the reply's status is one the row allows and every expected header has, under
  its name up to case, the expected value; the score is then 1, otherwise 0, and the failures name what differs.\<close>
theorem score_headers_exact:
  assumes "score_headers fr c config r path = Inr out" "hashable (hr_status r)"
    "py_or (py_or (get_or_none config ''expect'') (get_or_none config ''headers'')) (PDict []) = PDict expected"
  shows "oc_score out = (if status_allowed config (hr_status r) \<and>
      (\<forall>(name, wanted) \<in> set expected. header (hr_headers r) name = py_str fr wanted) then 1 else 0) \<and>
    (oc_score out = 1 \<longleftrightarrow> oc_passed out) \<and> (oc_passed out \<longleftrightarrow> oc_failures out = [])"
  using score_headers_passes [OF assms] by simp

text \<open>C20. A report has one entry per case in their order. Its counts add up, over passed and failed cases and over the feature
  scopes, which are listed once each in order; accuracies lie between 0 and 1 in millionths, and equal the pass rates when no
  case was put to the judge.\<close>
theorem build_report_contract:
  assumes "build_report e a label revision cs w = (Inr rep, w')" "ra_judge a = None"
  shows "map ca_key (rp_cases rep) = map case_key cs \<and>
    (mt_count (rp_summary rep) = length cs \<and> mt_passed (rp_summary rep) + mt_failed (rp_summary rep) = length cs) \<and>
    map fst (rp_scopes rep) = sorted_list_of_set (gc_scope ` set cs) \<and>
    (\<forall>(s, m) \<in> set (rp_scopes rep). mt_count m = length (filter (\<lambda>c. gc_scope c = s) cs)) \<and>
    sum_list (map (\<lambda>(s, m). mt_count m) (rp_scopes rep)) = length cs \<and>
    (\<forall>m \<in> insert (rp_summary rep) (snd ` set (rp_scopes rep)). 0 \<le> mt_accuracy m \<and> mt_accuracy m \<le> 1 \<and> millionths (mt_accuracy m) \<and>
      ((\<forall>r \<in> set (rp_cases rep). ca_mode r \<noteq> ''llm_judge'') \<longrightarrow> mt_accuracy m = mt_pass_rate m))"
proof (intro conjI)
  note run = build_report_run [OF assms]
  note f = entries_filter [OF run(1)]
  let ?rs = "rp_cases rep"
  show "map ca_key ?rs = map case_key cs" by (rule f(2))
  show "mt_count (rp_summary rep) = length cs" by (simp add: run(3) metric_summary_counts(1) f(4))
  show "mt_passed (rp_summary rep) + mt_failed (rp_summary rep) = length cs" by (simp only: run(3) metric_summary_counts(3) f(4))
  have keys: "map fst (rp_scopes rep) = map fst (sort_key fst (group_by_scope ?rs))"
    unfolding run(4) by (simp add: case_prod_beta comp_def)
  then show names: "map fst (rp_scopes rep) = sorted_list_of_set (gc_scope ` set cs)" by (simp add: sorted_scopes f(3))
  have scope: "m = metric_summary (filter (\<lambda>r. ca_scope r = s) ?rs)" if "(s, m) \<in> set (rp_scopes rep)" for s m
    by (rule scope_metrics) (use that in \<open>simp add: run(4)\<close>)
  show counts: "\<forall>(s, m) \<in> set (rp_scopes rep). mt_count m = length (filter (\<lambda>c. gc_scope c = s) cs)"
  proof clarify
    fix s m assume "(s, m) \<in> set (rp_scopes rep)"
    from scope [OF this] show "mt_count m = length (filter (\<lambda>c. gc_scope c = s) cs)" by (simp only: metric_summary_counts(1) f(1))
  qed
  have "map (\<lambda>(s, m). mt_count m) (rp_scopes rep) = map (\<lambda>s. length (filter (\<lambda>c. gc_scope c = s) cs)) (map fst (rp_scopes rep))"
    using counts by (auto simp: comp_def)
  then show "sum_list (map (\<lambda>(s, m). mt_count m) (rp_scopes rep)) = length cs" by (simp only: names scope_counts)
  have entry: "0 \<le> ca_score r \<and> ca_score r \<le> 1 \<and> (ca_mode r \<noteq> ''llm_judge'' \<longrightarrow> ca_score r = (if ca_passed r then 1 else 0))"
    if "r \<in> set ?rs" for r
    using run(1) that by (auto simp: sound_entry_def list_all2_conv_all_nth in_set_conv_nth)
  have part: "0 \<le> mt_accuracy (metric_summary xs) \<and> mt_accuracy (metric_summary xs) \<le> 1 \<and> millionths (mt_accuracy (metric_summary xs)) \<and>
      ((\<forall>r \<in> set ?rs. ca_mode r \<noteq> ''llm_judge'') \<longrightarrow> mt_accuracy (metric_summary xs) = mt_pass_rate (metric_summary xs))"
    if "set xs \<subseteq> set ?rs" for xs
    using metric_summary_bounds [of xs] metric_summary_judgeless [of xs] entry that by (meson metric_summary_rounded subsetD)
  have "m = metric_summary ?rs \<or> (\<exists>s. m = metric_summary (filter (\<lambda>r. ca_scope r = s) ?rs))"
    if "m \<in> insert (rp_summary rep) (snd ` set (rp_scopes rep))" for m
    using that
  proof
    assume "m \<in> snd ` set (rp_scopes rep)"
    then obtain s where "(s, m) \<in> set (rp_scopes rep)" by force
    from scope [OF this] show ?thesis by blast
  qed (simp add: run(3))
  then show "\<forall>m \<in> insert (rp_summary rep) (snd ` set (rp_scopes rep)). 0 \<le> mt_accuracy m \<and> mt_accuracy m \<le> 1 \<and> millionths (mt_accuracy m) \<and>
      ((\<forall>r \<in> set ?rs. ca_mode r \<noteq> ''llm_judge'') \<longrightarrow> mt_accuracy m = mt_pass_rate m)"
    using part by (metis filter_is_subset order_refl)
qed

definition seeded_chat_body :: "str \<Rightarrow> pyval" where
  "seeded_chat_body model = PDict [(''model'', PStr model),
     (''messages'', PSeq [PDict [(''role'', PStr ''user''), (''content'', PStr chat_stub_prompt)]]), (''temperature'', PFloat 0)]"

lemma chat_stub_prompt_strip: "strip chat_stub_prompt = chat_stub_prompt" "chat_stub_prompt \<noteq> []"
  by code_simp+

lemma seeded_chat_parse:
  assumes "lax (PFloat 0) = Some 0"
  shows "parse_chat_request lax [(''model'', PStr model), (''messages'', PSeq [PDict [(''role'', PStr ''user''),
      (''content'', PStr chat_stub_prompt)]]), (''temperature'', PFloat 0)] =
    Some \<lparr>cr_model = model, cr_messages = [\<lparr>cm_role = ''user'', cm_content = PStr chat_stub_prompt\<rparr>], cr_temperature = Some 0\<rparr>"
  by (simp add: parse_chat_request_def required_field_def optional_field_def parse_messages_def parse_message_def text_field_def
      get_or_none_def assms)

lemma stub_body_matches: "py_eq (PDict (stub_response model chat_stub_prompt)) chat_stub_expected_json \<longleftrightarrow> model = ''gpt-4o-mini''"
  by (simp add: stub_response_def chat_stub_expected_json_def)


section \<open>Examples\<close>

text \<open>A gateway that answers one fixed reply; identifiers and hashes that are the names themselves.\<close>

definition ex_runner :: "http_outcome \<Rightarrow> pyval \<Rightarrow> unit runner_env" where
  "ex_runner reply body = \<lparr>rv_urlopen = (\<lambda>call timeout. io_return reply), rv_clock = io_return 0, rv_decode = (\<lambda>b. b),
     rv_loads = (\<lambda>t. Inr body), rv_float_text = (\<lambda>x. ''0.2''), rv_judge = (\<lambda>key model payload. io_return
       \<lparr>jv_passed = True, jv_score = 9 / 10, jv_rationale = ''fine''\<rparr>), rv_uuid = io_return ''u'', rv_now = io_return ''t''\<rparr>"

definition ex_run_args :: "unit run_args" where
  "ex_run_args = \<lparr>ra_gateway = ''http://g'', ra_timeout = 10, ra_api_key = ''k'', ra_judge_model = ''m'', ra_judge = None\<rparr>"

definition ex_scoring :: "pyval dict" where
  "ex_scoring = [(''mode'', PStr ''headers''), (''status'', PInt 200), (''expect'', PDict [(''X-Tier'', PStr ''one'')])]"

definition ex_golden :: golden_case where
  "ex_golden = \<lparr>gc_id = ''c1'', gc_fingerprint = None, gc_scope = ''s'', gc_input = ''hi'',
     gc_expected = [(''scoring'', PDict ex_scoring)], gc_difficulty = ''simple'', gc_origin = ''human_curated''\<rparr>"

definition ex_reply :: http_result where
  "ex_reply = \<lparr>hr_status = PInt 200, hr_headers = [(''x-tier'', ''one'')], hr_body = ''{}'', hr_latency = 0\<rparr>"


theorem score_headers_exact_witness:
  "\<exists>out. score_headers (\<lambda>x. []) ex_golden ex_scoring ex_reply ''/p'' = Inr out \<and> oc_score out = 1 \<and> oc_failures out = []"
proof -
  have low: "lower ''x-tier'' = ''x-tier''" "lower ''X-Tier'' = ''x-tier''" by code_simp+
  obtain out where run: "score_headers (\<lambda>x. []) ex_golden ex_scoring ex_reply ''/p'' = Inr out"
    by (simp add: score_headers_def ex_scoring_def get_or_none_def py_or_def expected_statuses_def Let_def status_failures_def
        member_of_def ex_reply_def)
  have "header (hr_headers ex_reply) ''X-Tier'' = ''one''" by (simp add: header_def ex_reply_def low)
  then have "oc_score out = 1 \<and> (oc_score out = 1 \<longleftrightarrow> oc_passed out) \<and> (oc_passed out \<longleftrightarrow> oc_failures out = [])"
    using score_headers_exact [OF run, of "[(''X-Tier'', PStr ''one'')]"]
    by (auto simp: ex_scoring_def get_or_none_def py_or_def ex_reply_def status_allowed_def)
  then show ?thesis using run by blast
qed

lemma ex_report_runs: "\<exists>rep. build_report (ex_runner (Response 200 [(''x-tier'', ''one'')] ''{}'') PNone) ex_run_args [] [] [ex_golden] () = (Inr rep, ())"
proof -
  have low: "lower ''x-tier'' = ''x-tier''" "lower ''X-Tier'' = ''x-tier''" by code_simp+
  have texts: "strip ''headers'' = ''headers''" "upper ''POST'' = ''POST''" by code_simp+
  show ?thesis
    by (simp add: build_report_def evaluate_case_def ex_golden_def ex_scoring_def scoring_config_def get_or_none_def py_or_def texts
        send_gateway_request_def request_payload_def io_bind_def ex_runner_def ex_run_args_def score_case_def score_headers_def
        expected_statuses_def Let_def status_failures_def member_of_def)
qed

theorem build_report_contract_witness:
  "\<exists>rep. build_report (ex_runner (Response 200 [(''x-tier'', ''one'')] ''{}'') PNone) ex_run_args [] [] [ex_golden] () = (Inr rep, ()) \<and>
     mt_count (rp_summary rep) = 1 \<and> map fst (rp_scopes rep) = [''s'']"
proof -
  from ex_report_runs obtain rep where run:
    "build_report (ex_runner (Response 200 [(''x-tier'', ''one'')] ''{}'') PNone) ex_run_args [] [] [ex_golden] () = (Inr rep, ())" ..
  have "ra_judge ex_run_args = None" by (simp add: ex_run_args_def)
  from build_report_contract [OF run this] run show ?thesis by (simp add: ex_golden_def)
qed


end
