(* ===== verification/RegressionGate.thy ===== *)
theory RegressionGate
  imports Regression
begin

text \<open>
  The other half of \<open>model_regression/runner.py\<close>: the comparison of a baseline with a candidate report, which decides
  whether CI fails, the texts and files that are written, and the commands with their exit codes. Reports that are read from
  files are the records the run command writes; the JSON text of a report, its parser and the argument parser are parameters.
\<close>

section \<open>Texts\<close>

definition nl :: str where
  "nl = [CHR 0x0A]"

definition percent :: "rat \<Rightarrow> str" where
  "percent x = fixed2 (x * 100) @ ''%''"

definition or_text :: "str \<Rightarrow> str \<Rightarrow> str" where
  "or_text s d = (if s = [] then d else s)"

definition scope_line :: "str \<times> metrics \<Rightarrow> str" where
  "scope_line = (\<lambda>(scope, m). ''| `'' @ scope @ ''` | '' @ percent (mt_accuracy m) @ '' | '' @ nat_text (mt_passed m) @ '' | ''
     @ nat_text (mt_count m) @ '' |'')"

definition failed_line :: "case_report \<Rightarrow> str" where
  "failed_line c = ''- `'' @ ca_key c @ ''` `'' @ ca_scope c @ ''`: '' @ or_text (join ''; '' (ca_failures c)) ''score below threshold''"

definition report_markdown :: "report \<Rightarrow> str" where
  "report_markdown r =
     (let failed = filter (\<lambda>c. \<not> ca_passed c) (rp_cases r)
      in join nl ([''# CoreMesh Model Regression Report'', [],
           ''- Run: `'' @ or_text (rp_label r) ''-'' @ ''`'',
           ''- Revision: `'' @ or_text (rp_revision r) ''-'' @ ''`'',
           ''- Generated: `'' @ rp_generated r @ ''`'',
           ''- Accuracy: **'' @ percent (mt_accuracy (rp_summary r)) @ ''**'',
           ''- Cases: '' @ nat_text (mt_passed (rp_summary r)) @ '' passed / '' @ nat_text (mt_count (rp_summary r)) @ '' total'', [],
           ''## Feature Scopes'', [], ''| Scope | Accuracy | Passed | Cases |'', ''| --- | ---: | ---: | ---: |'']
         @ map scope_line (rp_scopes r) @ [[], ''## Failed Cases'', []]
         @ (if failed = [] then [''No failed cases.''] else map failed_line failed)) @ nl)"

text \<open>\<open>html.escape\<close>.\<close>

definition html_char :: "char \<Rightarrow> str" where
  "html_char c = (if c = CHR ''&'' then ''&amp;'' else if c = CHR ''<'' then ''&lt;'' else if c = CHR ''>'' then ''&gt;''
     else if c = CHR 0x22 then ''&quot;'' else if c = CHR 0x27 then ''&#x27;'' else [c])"

definition html_escape :: "str \<Rightarrow> str" where
  "html_escape s = concat (map html_char s)"

definition html_page :: "str \<Rightarrow> str \<Rightarrow> str" where
  "html_page title markdown = ''<!doctype html><html><head><meta charset='' @ [CHR 0x22] @ ''utf-8'' @ [CHR 0x22] @ ''>''
     @ ''<title>'' @ html_escape title @ ''</title>''
     @ ''<style>body{font-family:Arial,sans-serif;max-width:960px;margin:32px auto;''
     @ ''line-height:1.5}pre{white-space:pre-wrap;background:#f6f8fa;padding:16px;''
     @ ''border-radius:6px}</style></head><body>''
     @ ''<h1>'' @ html_escape title @ ''</h1><pre>'' @ html_escape markdown @ ''</pre></body></html>''"

text \<open>The files that are written, in order; their directories are created first.\<close>

record output_paths =
  op_json :: str
  op_markdown :: "str option"
  op_html :: "str option"

definition write_outputs :: "('p \<Rightarrow> str) \<Rightarrow> ('p \<Rightarrow> str) \<Rightarrow> str \<Rightarrow> output_paths \<Rightarrow> 'p \<Rightarrow> (str \<times> str) list" where
  "write_outputs json_file markdown title p x = (op_json p, json_file x @ nl) #
     (case op_markdown p of None \<Rightarrow> []
      | Some m \<Rightarrow> (m, markdown x) # (case op_html p of None \<Rightarrow> [] | Some h \<Rightarrow> [(h, html_page title (markdown x))]))"

section \<open>Comparing two reports\<close>

datatype gate_status = GatePass | GateWarn | GateFail

fun status_text :: "gate_status \<Rightarrow> str" where
  "status_text GatePass = ''pass''"
| "status_text GateWarn = ''warn''"
| "status_text GateFail = ''fail''"

record check =
  ck_scope :: str
  ck_baseline :: "rat option"
  ck_candidate :: rat
  ck_drop :: "rat option"
  ck_max_drop :: "rat option"
  ck_min :: "rat option"
  ck_status :: gate_status

record case_flip =
  cf_key :: str
  cf_scope :: str
  cf_baseline :: rat
  cf_candidate :: rat
  cf_failures :: "str list option"

record run_info =
  ri_label :: str
  ri_revision :: str
  ri_summary :: metrics

record comparison =
  cp_schema :: str
  cp_generated :: str
  cp_status :: gate_status
  cp_max_drop :: rat
  cp_min_accuracy :: rat
  cp_baseline :: run_info
  cp_candidate :: run_info
  cp_checks :: "check list"
  cp_regressions :: "case_flip list"
  cp_improvements :: "case_flip list"
  cp_missing :: "str list"
  cp_added :: "str list"

definition float_epsilon :: rat where
  "float_epsilon = 1 / 10 ^ 12"

definition case_map :: "report \<Rightarrow> (str \<times> case_report) list" where
  "case_map r = dict_update [] (map (\<lambda>c. (ca_key c, c)) (rp_cases r))"

definition drop_check :: "str \<Rightarrow> rat \<Rightarrow> rat \<Rightarrow> rat \<Rightarrow> check" where
  "drop_check scope base cand max_drop =
     (let d = py_round (base - cand) 6;
          st = (if max_drop + float_epsilon < d then GateFail else if float_epsilon < d then GateWarn else GatePass)
      in \<lparr>ck_scope = scope, ck_baseline = Some (py_round base 6), ck_candidate = py_round cand 6, ck_drop = Some d,
          ck_max_drop = Some max_drop, ck_min = None, ck_status = st\<rparr>)"

definition min_accuracy_check :: "rat \<Rightarrow> rat \<Rightarrow> check" where
  "min_accuracy_check cand min_accuracy =
     \<lparr>ck_scope = ''min_accuracy'', ck_baseline = None, ck_candidate = py_round cand 6, ck_drop = None, ck_max_drop = None,
      ck_min = Some min_accuracy, ck_status = (if cand + float_epsilon < min_accuracy then GateFail else GatePass)\<rparr>"

definition scope_accuracy :: "report \<Rightarrow> str \<Rightarrow> rat" where
  "scope_accuracy r s = (case map_of (rp_scopes r) s of None \<Rightarrow> 0 | Some m \<Rightarrow> mt_accuracy m)"

definition comparison_checks :: "report \<Rightarrow> report \<Rightarrow> rat \<Rightarrow> rat \<Rightarrow> check list" where
  "comparison_checks b c max_drop min_accuracy =
     [drop_check ''overall'' (mt_accuracy (rp_summary b)) (mt_accuracy (rp_summary c)) max_drop,
      min_accuracy_check (mt_accuracy (rp_summary c)) min_accuracy]
     @ map (\<lambda>(s, m). drop_check s (mt_accuracy m) (scope_accuracy c s) max_drop) (sort_key fst (rp_scopes b))"

definition common_cases :: "report \<Rightarrow> report \<Rightarrow> (str \<times> case_report \<times> case_report) list" where
  "common_cases b c = map (\<lambda>k. (k, the (map_of (case_map b) k), the (map_of (case_map c) k)))
     (sort (filter (\<lambda>k. k \<in> set (dict_keys (case_map c))) (dict_keys (case_map b))))"

definition regressions_of :: "report \<Rightarrow> report \<Rightarrow> case_flip list" where
  "regressions_of b c = map (\<lambda>(k, x, y). \<lparr>cf_key = k, cf_scope = ca_scope x, cf_baseline = ca_score x,
     cf_candidate = ca_score y, cf_failures = Some (ca_failures y)\<rparr>) (filter (\<lambda>(k, x, y). ca_passed x \<and> \<not> ca_passed y) (common_cases b c))"

definition improvements_of :: "report \<Rightarrow> report \<Rightarrow> case_flip list" where
  "improvements_of b c = map (\<lambda>(k, x, y). \<lparr>cf_key = k, cf_scope = ca_scope y, cf_baseline = ca_score x,
     cf_candidate = ca_score y, cf_failures = None\<rparr>) (filter (\<lambda>(k, x, y). \<not> ca_passed x \<and> ca_passed y) (common_cases b c))"

definition only_in :: "report \<Rightarrow> report \<Rightarrow> str list" where
  "only_in b c = sort (filter (\<lambda>k. k \<notin> set (dict_keys (case_map c))) (dict_keys (case_map b)))"

definition comparison_status :: "check list \<Rightarrow> case_flip list \<Rightarrow> str list \<Rightarrow> gate_status" where
  "comparison_status checks regressions missing =
     (if list_ex (\<lambda>k. ck_status k = GateFail) checks \<or> missing \<noteq> [] then GateFail
      else if list_ex (\<lambda>k. ck_status k = GateWarn) checks \<or> regressions \<noteq> [] then GateWarn else GatePass)"

definition compare_reports :: "str \<Rightarrow> report \<Rightarrow> report \<Rightarrow> rat \<Rightarrow> rat \<Rightarrow> comparison" where
  "compare_reports now b c max_drop min_accuracy =
     (let checks = comparison_checks b c max_drop min_accuracy
      in \<lparr>cp_schema = ''coremesh-model-regression-comparison-v1'', cp_generated = now,
          cp_status = comparison_status checks (regressions_of b c) (only_in b c),
          cp_max_drop = max_drop, cp_min_accuracy = min_accuracy,
          cp_baseline = \<lparr>ri_label = rp_label b, ri_revision = rp_revision b, ri_summary = rp_summary b\<rparr>,
          cp_candidate = \<lparr>ri_label = rp_label c, ri_revision = rp_revision c, ri_summary = rp_summary c\<rparr>,
          cp_checks = checks, cp_regressions = regressions_of b c, cp_improvements = improvements_of b c,
          cp_missing = only_in b c, cp_added = only_in c b\<rparr>)"

definition optional_percent :: "rat option \<Rightarrow> str" where
  "optional_percent x = (case x of None \<Rightarrow> ''-'' | Some v \<Rightarrow> percent v)"

definition check_line :: "check \<Rightarrow> str" where
  "check_line k = ''| `'' @ ck_scope k @ ''` | '' @ optional_percent (ck_baseline k) @ '' | '' @ percent (ck_candidate k) @ '' | ''
     @ optional_percent (ck_drop k) @ '' | '' @ optional_percent (ck_min k) @ '' | '' @ status_text (ck_status k) @ '' |''"

definition run_line :: "str \<Rightarrow> run_info \<Rightarrow> str" where
  "run_line name i = ''| '' @ name @ '' | '' @ percent (mt_accuracy (ri_summary i)) @ '' | '' @ nat_text (mt_passed (ri_summary i))
     @ '' | '' @ nat_text (mt_count (ri_summary i)) @ '' | `'' @ or_text (ri_revision i) ''-'' @ ''` |''"

definition regression_line :: "case_flip \<Rightarrow> str" where
  "regression_line f = ''- `'' @ cf_key f @ ''` `'' @ cf_scope f @ ''`: ''
     @ or_text (join ''; '' (case cf_failures f of None \<Rightarrow> [] | Some fs \<Rightarrow> fs)) ''candidate failed''"

definition comparison_markdown :: "comparison \<Rightarrow> str" where
  "comparison_markdown c = join nl ([''# CoreMesh Model Regression Comparison'', [],
       ''Status: **'' @ upper (status_text (cp_status c)) @ ''**'',
       ''Max allowed drop: **'' @ percent (cp_max_drop c) @ ''**'',
       ''Min candidate accuracy: **'' @ percent (cp_min_accuracy c) @ ''**'', [],
       ''| Run | Accuracy | Passed | Cases | Revision |'', ''| --- | ---: | ---: | ---: | --- |'',
       run_line ''Baseline'' (cp_baseline c), run_line ''Candidate'' (cp_candidate c), [],
       ''## Accuracy Checks'', [], ''| Scope | Baseline | Candidate | Drop | Min | Status |'',
       ''| --- | ---: | ---: | ---: | ---: | --- |'']
     @ map check_line (cp_checks c) @ [[], ''## Case Regressions'', []]
     @ (if cp_regressions c = [] then [''No baseline-passing cases flipped to failing.''] else map regression_line (cp_regressions c))
     @ (if cp_missing c = [] then [] else [[], ''## Missing Candidate Cases'', []] @ map (\<lambda>k. ''- `'' @ k @ ''`'') (cp_missing c))) @ nl"

text \<open>\<open>next\<close> raises \<open>StopIteration\<close> when there is no overall check.\<close>

definition slack_text :: "comparison \<Rightarrow> str \<Rightarrow> str result" where
  "slack_text c run_url = (case find (\<lambda>k. ck_scope k = ''overall'') (cp_checks c) of
     None \<Rightarrow> Inl (OtherException ''StopIteration'', [])
   | Some k \<Rightarrow> (case ck_drop k of
       None \<Rightarrow> Inl (TypeError, ''float() argument must be a string or a real number'')
     | Some d \<Rightarrow> (let s = ''CoreMesh model regression '' @ upper (status_text (cp_status c)) @ '': candidate accuracy ''
           @ percent (ck_candidate k) @ '', drop '' @ percent d @ ''.''
         in Inr (if run_url = [] then s else s @ '' '' @ run_url))))"

section \<open>Commands\<close>

datatype command =
    SeedCommand
  | RunCommand str str output_paths
  | CompareCommand str str rat rat output_paths
  | SlackCommand str str str

text \<open>The database, the files that were written and the printed lines; report files are looked up by path. Posting to the
  webhook is a call of the host.\<close>

record 'h cli_world =
  cw_table :: "dataset_row list"
  cw_files :: "(str \<times> str) list"
  cw_printed :: "str list"
  cw_errors :: "str list"
  cw_host :: 'h

record 'h cli_env =
  ce_runner :: "'h runner_env"
  ce_args :: "'h run_args"
  ce_uuid5 :: "str \<Rightarrow> str"
  ce_sha256 :: "str \<Rightarrow> str"
  ce_json_report :: "report \<Rightarrow> str"
  ce_json_comparison :: "comparison \<Rightarrow> str"
  ce_read_report :: "str \<Rightarrow> report result"
  ce_read_comparison :: "str \<Rightarrow> comparison result"
  ce_post :: "str \<Rightarrow> str \<Rightarrow> ('h, unit) io"

definition on_host :: "('h, 'a) io \<Rightarrow> ('h cli_world, 'a) io" where
  "on_host m w = (case m (cw_host w) of (r, h) \<Rightarrow> (r, w\<lparr>cw_host := h\<rparr>))"

definition on_table :: "(dataset_row list, 'a) io \<Rightarrow> ('h cli_world, 'a) io" where
  "on_table m w = (case m (cw_table w) of (r, t) \<Rightarrow> (r, w\<lparr>cw_table := t\<rparr>))"

definition print_line :: "str \<Rightarrow> ('h cli_world, unit) io" where
  "print_line s w = (Inr (), w\<lparr>cw_printed := cw_printed w @ [s]\<rparr>)"

definition write_files :: "(str \<times> str) list \<Rightarrow> ('h cli_world, unit) io" where
  "write_files fs w = (Inr (), w\<lparr>cw_files := cw_files w @ fs\<rparr>)"

definition cmd_seed :: "'h cli_env \<Rightarrow> ('h cli_world, int) io" where
  "cmd_seed v = io_bind (on_table (seed_golden_cases (ce_uuid5 v) (ce_sha256 v))) (\<lambda>n.
     io_bind (print_line (''seeded '' @ nat_text n @ '' deterministic model-regression golden cases'')) (\<lambda>_. io_return 0))"

definition cmd_run :: "'h cli_env \<Rightarrow> str \<Rightarrow> str \<Rightarrow> output_paths \<Rightarrow> ('h cli_world, int) io" where
  "cmd_run v label revision p =
     io_bind (on_table (\<lambda>t. (load_golden_cases (rv_loads (ce_runner v)) t, t))) (\<lambda>cs.
     io_bind (on_host (build_report (ce_runner v) (ce_args v) label revision cs)) (\<lambda>r.
     io_bind (write_files (write_outputs (ce_json_report v) report_markdown ''CoreMesh Model Regression Report'' p r)) (\<lambda>_.
     io_bind (print_line (''evaluated '' @ nat_text (mt_count (rp_summary r)) @ '' golden cases; accuracy=''
       @ percent (mt_accuracy (rp_summary r)) @ ''; passed='' @ nat_text (mt_passed (rp_summary r)))) (\<lambda>_. io_return 0))))"

definition cmd_compare :: "'h cli_env \<Rightarrow> str \<Rightarrow> str \<Rightarrow> rat \<Rightarrow> rat \<Rightarrow> output_paths \<Rightarrow> ('h cli_world, int) io" where
  "cmd_compare v base cand max_drop min_accuracy p =
     io_bind (io_lift (ce_read_report v base)) (\<lambda>b.
     io_bind (io_lift (ce_read_report v cand)) (\<lambda>c.
     io_bind (on_host (rv_now (ce_runner v))) (\<lambda>now.
     let x = compare_reports now b c max_drop min_accuracy in
     io_bind (write_files (write_outputs (ce_json_comparison v) comparison_markdown ''CoreMesh Model Regression Comparison'' p x)) (\<lambda>_.
     io_bind (print_line (''comparison status='' @ status_text (cp_status x))) (\<lambda>_.
     io_return (if cp_status x = GateFail then 1 else 0))))))"

definition cmd_slack :: "'h cli_env \<Rightarrow> str \<Rightarrow> str \<Rightarrow> str \<Rightarrow> ('h cli_world, int) io" where
  "cmd_slack v path webhook run_url =
     io_bind (io_lift (ce_read_comparison v path)) (\<lambda>c.
     io_bind (io_lift (slack_text c run_url)) (\<lambda>s.
     io_bind (on_host (ce_post v webhook (json_dumps (rv_float_text (ce_runner v)) (PDict [(''text'', PStr s)])))) (\<lambda>_.
     io_bind (print_line ''slack notification sent'') (\<lambda>_. io_return 0))))"

fun dispatch :: "'h cli_env \<Rightarrow> command \<Rightarrow> ('h cli_world, int) io" where
  "dispatch v SeedCommand = cmd_seed v"
| "dispatch v (RunCommand label revision p) = cmd_run v label revision p"
| "dispatch v (CompareCommand b c d m p) = cmd_compare v b c d m p"
| "dispatch v (SlackCommand path webhook run_url) = cmd_slack v path webhook run_url"

definition print_error :: "str \<Rightarrow> ('h cli_world, unit) io" where
  "print_error s w = (Inr (), w\<lparr>cw_errors := cw_errors w @ [s]\<rparr>)"

definition main :: "'h cli_env \<Rightarrow> command \<Rightarrow> ('h cli_world, int) io" where
  "main v cmd = io_catch (dispatch v cmd) (\<lambda>x. if runner_error (fst x)
     then io_bind (print_error (''model-regression: '' @ exn_message x)) (\<lambda>_. io_return 2) else io_raise x)"

section \<open>What the gate decides\<close>

text \<open>The accuracies that are compared: the overall ones, and those of every scope of the baseline.\<close>

definition accuracy_pairs :: "report \<Rightarrow> report \<Rightarrow> (rat \<times> rat) set" where
  "accuracy_pairs b c = insert (mt_accuracy (rp_summary b), mt_accuracy (rp_summary c))
     ((\<lambda>(s, m). (mt_accuracy m, scope_accuracy c s)) ` set (rp_scopes b))"

definition rounded_report :: "report \<Rightarrow> bool" where
  "rounded_report r \<longleftrightarrow> millionths (mt_accuracy (rp_summary r)) \<and> (\<forall>(s, m) \<in> set (rp_scopes r). millionths (mt_accuracy m))"

lemma built_rounded:
  assumes "build_report e a label revision cs w = (Inr rep, w')" "ra_judge a = None"
  shows "rounded_report rep"
  unfolding rounded_report_def build_report_run(3,4) [OF assms] by auto

lemma scope_accuracy_rounded: "rounded_report r \<Longrightarrow> millionths (scope_accuracy r s)"
  by (auto simp: rounded_report_def scope_accuracy_def dest!: map_of_SomeD split: option.splits)

lemma accuracy_pairs_rounded:
  assumes "rounded_report b" "rounded_report c" "(p, q) \<in> accuracy_pairs b c" shows "millionths p \<and> millionths q"
  using assms scope_accuracy_rounded [OF assms(2)] by (auto simp: accuracy_pairs_def rounded_report_def)

lemma drop_check_status:
  assumes "millionths p" "millionths q"
  shows "ck_status (drop_check s p q d) = GateFail \<longleftrightarrow> d + float_epsilon < p - q"
    "ck_status (drop_check s p q d) = GatePass \<longleftrightarrow> \<not> d + float_epsilon < p - q \<and> p \<le> q"
proof -
  have "millionths (p - q)" using assms by simp
  note r = py_round_millionths [OF this] millionths_pos [OF this]
  show "ck_status (drop_check s p q d) = GateFail \<longleftrightarrow> d + float_epsilon < p - q" by (simp add: drop_check_def Let_def r(1))
  have "float_epsilon < p - q \<longleftrightarrow> \<not> p \<le> q" using r(2) unfolding float_epsilon_def by linarith
  then show "ck_status (drop_check s p q d) = GatePass \<longleftrightarrow> \<not> d + float_epsilon < p - q \<and> p \<le> q"
    by (simp add: drop_check_def Let_def r(1))
qed

lemma comparison_checks_status:
  "ck_status ` set (comparison_checks b c d m) =
     insert (ck_status (min_accuracy_check (mt_accuracy (rp_summary c)) m)) ((\<lambda>(p, q). ck_status (drop_check [] p q d)) ` accuracy_pairs b c)"
proof -
  have any: "ck_status (drop_check s p q d) = ck_status (drop_check [] p q d)" for s p q by (simp add: drop_check_def Let_def)
  have "ck_status ` set (map (\<lambda>(s, m). drop_check s (mt_accuracy m) (scope_accuracy c s) d) (sort_key fst (rp_scopes b))) =
      (\<lambda>(p, q). ck_status (drop_check [] p q d)) ` (\<lambda>(s, m). (mt_accuracy m, scope_accuracy c s)) ` set (rp_scopes b)"
    by (simp add: image_image case_prod_beta any [of "fst x" for x])
  then show ?thesis
    by (simp add: comparison_checks_def accuracy_pairs_def image_Un any [of "''overall''"] insert_commute)
qed

lemma case_map_keys [simp]: "fst ` set (case_map r) = ca_key ` set (rp_cases r)"
proof -
  have "fst ` set (dict_update d e) = fst ` set d \<union> fst ` set e" for d :: "(str \<times> case_report) list" and e
  proof (induction e arbitrary: d)
    case (Cons kv e)
    obtain k x where "kv = (k, x)" by fastforce
    then show ?case using Cons.IH [of "dict_set k x d"] by (simp add: dict_update_def)
  qed (simp add: dict_update_def)
  then show ?thesis by (simp add: case_map_def image_image)
qed

lemma common_cases_set: "(k, x, y) \<in> set (common_cases b c) \<longleftrightarrow> map_of (case_map b) k = Some x \<and> map_of (case_map c) k = Some y"
proof -
  have key: "k \<in> set (dict_keys (case_map r)) \<longleftrightarrow> (\<exists>z. map_of (case_map r) k = Some z)" for r
    by (metis map_of_eq_None_iff not_None_eq set_map)
  have "(k, x, y) \<in> set (common_cases b c) \<longleftrightarrow> k \<in> set (dict_keys (case_map b)) \<and> k \<in> set (dict_keys (case_map c)) \<and>
      x = the (map_of (case_map b) k) \<and> y = the (map_of (case_map c) k)"
    unfolding common_cases_def set_map set_sort set_filter by blast
  then show ?thesis unfolding key by auto
qed

lemma regressions_empty: "regressions_of b c = [] \<longleftrightarrow>
    (\<forall>k x y. map_of (case_map b) k = Some x \<and> map_of (case_map c) k = Some y \<and> ca_passed x \<longrightarrow> ca_passed y)"
proof -
  have "regressions_of b c = [] \<longleftrightarrow> (\<forall>k x y. (k, x, y) \<in> set (common_cases b c) \<longrightarrow> \<not> (ca_passed x \<and> \<not> ca_passed y))"
    unfolding regressions_of_def map_is_Nil_conv filter_empty_conv by blast
  then show ?thesis unfolding common_cases_set by blast
qed

lemma missing_empty: "only_in b c = [] \<longleftrightarrow> ca_key ` set (rp_cases b) \<subseteq> ca_key ` set (rp_cases c)"
proof -
  have "only_in b c = [] \<longleftrightarrow> filter (\<lambda>k. k \<notin> set (dict_keys (case_map c))) (dict_keys (case_map b)) = []"
    unfolding only_in_def using length_sort [of "\<lambda>x. x" "filter (\<lambda>k. k \<notin> set (dict_keys (case_map c))) (dict_keys (case_map b))"]
    by (metis length_0_conv)
  also have "\<dots> \<longleftrightarrow> set (dict_keys (case_map b)) \<subseteq> set (dict_keys (case_map c))" unfolding filter_empty_conv by blast
  finally show ?thesis by simp
qed

lemma gate_status_cases:
  assumes "rounded_report b" "rounded_report c"
  shows "cp_status (compare_reports now b c d m) = GateFail \<longleftrightarrow>
      (\<exists>(p, q) \<in> accuracy_pairs b c. d + float_epsilon < p - q) \<or> mt_accuracy (rp_summary c) + float_epsilon < m \<or>
      \<not> ca_key ` set (rp_cases b) \<subseteq> ca_key ` set (rp_cases c)"
    and "cp_status (compare_reports now b c d m) = GatePass \<longleftrightarrow> cp_status (compare_reports now b c d m) \<noteq> GateFail \<and>
      (\<forall>(p, q) \<in> accuracy_pairs b c. p \<le> q) \<and>
      (\<forall>k x y. map_of (case_map b) k = Some x \<and> map_of (case_map c) k = Some y \<and> ca_passed x \<longrightarrow> ca_passed y)"
proof -
  note pr = accuracy_pairs_rounded [OF assms]
  let ?st = "ck_status ` set (comparison_checks b c d m)"
  have min: "ck_status (min_accuracy_check (mt_accuracy (rp_summary c)) m) =
      (if mt_accuracy (rp_summary c) + float_epsilon < m then GateFail else GatePass)" by (simp add: min_accuracy_check_def)
  have fail: "GateFail \<in> ?st \<longleftrightarrow> (\<exists>(p, q) \<in> accuracy_pairs b c. d + float_epsilon < p - q) \<or> mt_accuracy (rp_summary c) + float_epsilon < m"
  proof -
    have "GateFail = ck_status (drop_check [] p q d) \<longleftrightarrow> d + float_epsilon < p - q" if "(p, q) \<in> accuracy_pairs b c" for p q
      using drop_check_status(1) [of p q "[]" d] pr [OF that] by auto
    then show ?thesis unfolding comparison_checks_status insert_iff image_iff min by (auto intro: bexI [rotated])
  qed
  have warn: "GateWarn \<in> ?st \<longleftrightarrow> (\<exists>(p, q) \<in> accuracy_pairs b c. \<not> d + float_epsilon < p - q \<and> q < p)"
  proof -
    have "GateWarn = ck_status (drop_check [] p q d) \<longleftrightarrow> \<not> d + float_epsilon < p - q \<and> q < p" if "(p, q) \<in> accuracy_pairs b c" for p q
      using drop_check_status [of p q "[]" d] pr [OF that] by (cases "ck_status (drop_check [] p q d)") auto
    then show ?thesis unfolding comparison_checks_status insert_iff image_iff min by (auto intro: bexI [rotated])
  qed
  have st: "cp_status (compare_reports now b c d m) = (if GateFail \<in> ?st \<or> only_in b c \<noteq> [] then GateFail
      else if GateWarn \<in> ?st \<or> regressions_of b c \<noteq> [] then GateWarn else GatePass)"
    by (simp add: compare_reports_def comparison_status_def list_ex_iff Let_def image_iff eq_commute [of GateFail] eq_commute [of GateWarn])
  show f: "cp_status (compare_reports now b c d m) = GateFail \<longleftrightarrow>
      (\<exists>(p, q) \<in> accuracy_pairs b c. d + float_epsilon < p - q) \<or> mt_accuracy (rp_summary c) + float_epsilon < m \<or>
      \<not> ca_key ` set (rp_cases b) \<subseteq> ca_key ` set (rp_cases c)"
    unfolding st missing_empty [symmetric] using fail by (simp split: if_splits)
  show "cp_status (compare_reports now b c d m) = GatePass \<longleftrightarrow> cp_status (compare_reports now b c d m) \<noteq> GateFail \<and>
      (\<forall>(p, q) \<in> accuracy_pairs b c. p \<le> q) \<and>
      (\<forall>k x y. map_of (case_map b) k = Some x \<and> map_of (case_map c) k = Some y \<and> ca_passed x \<longrightarrow> ca_passed y)"
  proof (cases "GateFail \<in> ?st \<or> only_in b c \<noteq> []")
    case True
    then show ?thesis unfolding st by simp
  next
    case False
    then have "\<not> d + float_epsilon < p - q" if "(p, q) \<in> accuracy_pairs b c" for p q using that fail by blast
    then have "GateWarn \<notin> ?st \<longleftrightarrow> (\<forall>(p, q) \<in> accuracy_pairs b c. p \<le> q)" unfolding warn by fastforce
    with False show ?thesis unfolding st regressions_empty [symmetric] by auto
  qed
qed

text \<open>C3. The CI gate on two reports of the run command. It fails exactly if the overall accuracy or that of a scope of the baseline
  fell by more than the allowed drop, the candidate is below the minimal accuracy, both up to the tolerance, or the candidate
  lacks a case. It passes, without a warning, exactly if besides no accuracy fell at all and no case that passed now fails.\<close>
theorem gate_decides:
  assumes "build_report e1 a1 l1 r1 bs w1 = (Inr b, w1')" "ra_judge a1 = None"
    and "build_report e2 a2 l2 r2 cs w2 = (Inr c, w2')" "ra_judge a2 = None"
  shows "(cp_status (compare_reports now b c d m) = GateFail \<longleftrightarrow>
      (\<exists>(p, q) \<in> accuracy_pairs b c. d + float_epsilon < p - q) \<or> mt_accuracy (rp_summary c) + float_epsilon < m \<or>
      \<not> case_key ` set bs \<subseteq> case_key ` set cs) \<and>
    (cp_status (compare_reports now b c d m) = GatePass \<longleftrightarrow> cp_status (compare_reports now b c d m) \<noteq> GateFail \<and>
      (\<forall>(p, q) \<in> accuracy_pairs b c. p \<le> q) \<and>
      (\<forall>k x y. map_of (case_map b) k = Some x \<and> map_of (case_map c) k = Some y \<and> ca_passed x \<longrightarrow> ca_passed y))"
proof -
  have keys: "ca_key ` set (rp_cases b) = case_key ` set bs" "ca_key ` set (rp_cases c) = case_key ` set cs"
    using entries_filter(2) [OF build_report_run(1) [OF assms(1,2)]] entries_filter(2) [OF build_report_run(1) [OF assms(3,4)]]
    by (metis set_map)+
  show ?thesis
    using gate_status_cases [OF built_rounded [OF assms(1,2)] built_rounded [OF assms(3,4)], of now d m] unfolding keys by blast
qed

section \<open>Exit codes\<close>

lemma cmd_compare_code:
  "cmd_compare v base cand d m p w = (Inr code, w') \<Longrightarrow>
    \<exists>b c now. ce_read_report v base = Inr b \<and> ce_read_report v cand = Inr c \<and>
      code = (if cp_status (compare_reports now b c d m) = GateFail then 1 else 0)"
  by (auto simp: cmd_compare_def io_bind_eq_Inr Let_def)

lemma dispatch_code:
  assumes "dispatch v cmd w = (Inr code, w')"
  shows "code = (case cmd of CompareCommand base cand d m p \<Rightarrow> code | _ \<Rightarrow> 0)"
  using assms by (cases cmd) (auto simp: cmd_seed_def cmd_run_def cmd_slack_def io_bind_eq_Inr)

text \<open>C29. The exit code is 2 exactly for the runner's own errors, whose text goes to the error stream, 1 exactly if a comparison
  fails the gate, and 0 otherwise; every other exception leaves the program.\<close>
theorem exit_codes:
  assumes "main v cmd w = (res, w')"
  shows "case res of
      Inl x \<Rightarrow> \<not> runner_error (fst x) \<and> dispatch v cmd w = (Inl x, w')
    | Inr code \<Rightarrow> code = 2 \<and> (\<exists>x w1. dispatch v cmd w = (Inl x, w1) \<and> runner_error (fst x) \<and>
          w' = w1\<lparr>cw_errors := cw_errors w1 @ [''model-regression: '' @ exn_message x]\<rparr>) \<or>
        dispatch v cmd w = (Inr code, w') \<and> (case cmd of
          CompareCommand base cand d m p \<Rightarrow> (\<exists>b c now. ce_read_report v base = Inr b \<and> ce_read_report v cand = Inr c \<and>
            code = (if cp_status (compare_reports now b c d m) = GateFail then 1 else 0))
        | _ \<Rightarrow> code = 0)"
proof -
  obtain r w1 where d: "dispatch v cmd w = (r, w1)" by fastforce
  show ?thesis
  proof (cases r)
    case (Inl x)
    with assms d show ?thesis by (auto simp: main_def io_catch_def io_bind_def print_error_def split: if_splits)
  next
    case (Inr code)
    with assms d have res: "res = Inr code" "w' = w1" by (auto simp: main_def io_catch_def)
    show ?thesis
    proof (cases cmd)
      case (CompareCommand base cand dr m p)
      with d Inr have "cmd_compare v base cand dr m p w = (Inr code, w1)" by simp
      from cmd_compare_code [OF this] show ?thesis using d Inr by (simp add: res CompareCommand)
    qed (use dispatch_code [of v cmd w code w1] d Inr in \<open>simp_all add: res\<close>)
  qed
qed

section \<open>Pages\<close>

text \<open>An escaped text holds no character that could end the element or attribute it stands in.\<close>

lemma html_escape_safe: "set (html_escape s) \<inter> {CHR ''<'', CHR ''>'', CHR 0x22, CHR 0x27} = {}"
  by (auto simp: html_escape_def html_char_def split: if_splits)

section \<open>Examples\<close>

definition ex_baseline_runner :: "unit runner_env" where
  "ex_baseline_runner = ex_runner (Response 200 [(''x-tier'', ''one'')] ''{}'') PNone"

text \<open>A report against itself: no accuracy falls, no case is missing, so only the minimal accuracy can fail it.\<close>

theorem gate_decides_witness:
  "\<exists>rep. build_report ex_baseline_runner ex_run_args [] [] [ex_golden] () = (Inr rep, ()) \<and>
     cp_status (compare_reports [] rep rep 0 0) = GatePass"
proof -
  from ex_report_runs obtain rep where run: "build_report ex_baseline_runner ex_run_args [] [] [ex_golden] () = (Inr rep, ())"
    unfolding ex_baseline_runner_def ..
  have j: "ra_judge ex_run_args = None" by (simp add: ex_run_args_def)
  note c = build_report_run [OF run j]
  have acc: "0 \<le> mt_accuracy (rp_summary rep)" unfolding c(3)
    using metric_summary_bounds [of "rp_cases rep"] c(1) by (auto simp: sound_entry_def list_all2_Cons1)
  have scopes: "scope_accuracy rep s = mt_accuracy m" if "(s, m) \<in> set (rp_scopes rep)" for s m
    using that scope_metrics_lookup [of "rp_cases rep" s] scope_metrics [of s m "rp_cases rep"]
    by (auto simp: scope_accuracy_def c(4) group_by_scope_set)
  have pairs: "p = q" if "(p, q) \<in> accuracy_pairs rep rep" for p q using that scopes by (auto simp: accuracy_pairs_def)
  have eps: "0 < float_epsilon" by (simp add: float_epsilon_def)
  from gate_decides [OF run j run j, of "[]" 0 0]
  have "cp_status (compare_reports [] rep rep 0 0) = GatePass" using pairs acc eps by fastforce
  with run show ?thesis by blast
qed

definition ex_cli :: "unit cli_env" where
  "ex_cli = \<lparr>ce_runner = ex_baseline_runner, ce_args = ex_run_args, ce_uuid5 = (\<lambda>s. s), ce_sha256 = (\<lambda>s. s), ce_json_report = (\<lambda>r. []),
     ce_json_comparison = (\<lambda>c. []), ce_read_report = (\<lambda>p. Inl (OSError, p)), ce_read_comparison = (\<lambda>p. Inl (OSError, p)),
     ce_post = (\<lambda>u b. io_return ())\<rparr>"

definition ex_cli_world :: "unit cli_world" where
  "ex_cli_world = \<lparr>cw_table = [], cw_files = [], cw_printed = [], cw_errors = [], cw_host = ()\<rparr>"

text \<open>Running without a golden case is the runner's own error; nothing is written.\<close>

theorem exit_codes_witness:
  "main ex_cli (RunCommand [] [] \<lparr>op_json = ''r.json'', op_markdown = None, op_html = None\<rparr>) ex_cli_world =
     (Inr 2, ex_cli_world\<lparr>cw_errors := [''model-regression: golden_datasets contains no rows'']\<rparr>)"
proof -
  let ?cmd = "RunCommand [] [] \<lparr>op_json = ''r.json'', op_markdown = None, op_html = None\<rparr>"
  have run: "dispatch ex_cli ?cmd ex_cli_world = (Inl (no_golden_cases ''golden_datasets contains no rows''), ex_cli_world)"
    by (simp add: cmd_run_def io_bind_def on_table_def ex_cli_world_def load_golden_cases_def on_host_def build_report_def ex_cli_def)
  obtain res w' where m: "main ex_cli ?cmd ex_cli_world = (res, w')" by fastforce
  have "runner_error (fst (no_golden_cases ''golden_datasets contains no rows''))" by (simp add: runner_error_def no_golden_cases_def)
  with exit_codes [OF m] run show ?thesis unfolding m
    by (cases res) (auto simp: no_golden_cases_def ex_cli_world_def)
qed

end
