(* ===== verification/DocMarkdown.thy ===== *)
theory DocMarkdown
  imports Regex Encoding PyValues
begin

text \<open>
  \<open>.github/scripts/self_healing_docs/markdown.py\<close> and the path checks of \<open>gitops.py\<close>: splitting a Markdown document into
  the blocks below its ATX headings, the mechanical checks of a proposed body, and the replacement of bodies, which either
  passes all its checks for all files or writes nothing. What only the file system knows (symbolic links, resolution) is a
  parameter.
\<close>

section \<open>Errors and paths\<close>

definition safety_error :: "str \<Rightarrow> exn" where
  "safety_error s = (OtherException ''MarkdownSafetyError'', s)"

definition git_error :: "str \<Rightarrow> exn" where
  "git_error s = (OtherException ''GitError'', s)"

text \<open>\<open>PurePosixPath\<close> of a text with its backslashes turned: whether it is absolute, and its parts.\<close>

definition turn_slashes :: "str \<Rightarrow> str" where
  "turn_slashes s = map (\<lambda>c. if c = CHR 0x5C then CHR ''/'' else c) s"

definition path_parts :: "str \<Rightarrow> str list" where
  "path_parts s = filter (\<lambda>p. p \<noteq> [] \<and> p \<noteq> ''.'') (split_on (CHR ''/'') s)"

definition validate_relative_repo_path :: "str \<Rightarrow> str result" where
  "validate_relative_repo_path p =
     (if p = [] \<or> CHR 0x00 \<in> set p then Inl (git_error ''repository path must be non-empty and NUL-free'')
      else let n = turn_slashes p; parts = path_parts n
        in if prefix ''/'' n \<or> ''..'' \<in> set parts then Inl (git_error (''unsafe repository path: '' @ repr_text p))
           else Inr (if parts = [] then ''.'' else join ''/'' parts))"

text \<open>\<open>PurePosixPath(p).name\<close> and \<open>suffix\<close>.\<close>

definition path_name :: "str \<Rightarrow> str" where
  "path_name p = (case rev (path_parts p) of [] \<Rightarrow> [] | n # _ \<Rightarrow> n)"

definition path_suffix :: "str \<Rightarrow> str" where
  "path_suffix p = (let name = path_name p; ext = rev (takeWhile (\<lambda>c. c \<noteq> CHR ''.'') (rev name)); stem = take (length name - length ext - 1) name
     in if length ext < length name \<and> ext \<noteq> [] \<and> stem \<noteq> [] then CHR ''.'' # ext else [])"

definition excluded_parts :: "str list" where
  "excluded_parts = [''.git'', ''__pycache__'', ''artifacts'', ''env'', ''node_modules'', ''vendor'', ''venv'']"

definition r_lower_text :: "str \<Rightarrow> regex" where
  "r_lower_text s = r_itext s"

definition generated_markdown_rx :: regex where
  "generated_markdown_rx = r_seq [r_start, r_lower_text ''analytics-workers/'', r_opt (r_lower_text ''smoke-''),
     r_alt [r_lower_text ''comparison'', r_lower_text ''report''], r_lower_text ''.md'', r_end]"

definition is_generated_markdown :: "str \<Rightarrow> bool" where
  "is_generated_markdown p =
     (let n = turn_slashes p
      in list_ex (\<lambda>q. q \<in> set excluded_parts \<or> prefix ''.venv'' q) (path_parts n) \<or> re_match generated_markdown_rx n \<noteq> None)"

section \<open>Documents\<close>

record markdown_document =
  md_path :: str
  md_text :: str
  md_newline :: str

record doc_section =
  ds_id :: str
  ds_path :: str
  ds_heading :: str
  ds_heading_path :: "str list"
  ds_level :: nat
  ds_body :: str
  ds_start :: nat
  ds_end :: nat
  ds_newline :: str
  ds_ordinal :: nat

definition section_label :: "doc_section \<Rightarrow> str" where
  "section_label s = join '' > '' (ds_heading_path s)"

text \<open>\<open>text.splitlines(keepends=True)\<close>.\<close>

definition line_break :: "char \<Rightarrow> bool" where
  "line_break c \<longleftrightarrow> (let n = (of_char c :: nat) in (10 \<le> n \<and> n \<le> 13) \<or> (28 \<le> n \<and> n \<le> 30) \<or> n = 133)"

fun lines_from :: "str \<Rightarrow> str \<Rightarrow> str list" where
  "lines_from acc [] = (if acc = [] then [] else [rev acc])"
| "lines_from acc (c # s) =
     (if c = CHR 0x0D \<and> prefix [CHR 0x0A] s then rev (CHR 0x0A # c # acc) # lines_from [] (tl s)
      else if line_break c then rev (c # acc) # lines_from [] s
      else lines_from (c # acc) s)"

definition split_lines :: "str \<Rightarrow> str list" where
  "split_lines s = lines_from [] s"

abbreviation line_end_rx :: regex where
  "line_end_rx \<equiv> r_alt [r_text [CHR 0x0D, CHR 0x0A], r_chr (CHR 0x0A), r_chr (CHR 0x0D)]"

abbreviation blank_rx :: regex where
  "blank_rx \<equiv> r_of [CHR 0x20, CHR 0x09]"

definition heading_rx :: regex where
  "heading_rx = r_seq [r_start, r_upto 3 (r_chr (CHR 0x20)), RGroup ''level'' (r_between 1 6 (r_chr (CHR ''#''))),
     r_some blank_rx, RGroup ''title'' (r_some_lazy r_any), r_opt (r_seq [r_some blank_rx, r_some (r_chr (CHR ''#''))]),
     r_many blank_rx, r_opt line_end_rx, r_end]"

definition fence_rx :: regex where
  "fence_rx = r_seq [r_start, r_upto 3 (r_chr (CHR 0x20)),
     RGroup ''marker'' (r_alt [r_least 3 (r_chr (CHR 0x60)), r_least 3 (r_chr (CHR ''~''))])]"

text \<open>The level and the title of a heading line.\<close>

definition heading_of :: "str \<Rightarrow> (nat \<times> str) option" where
  "heading_of line = map_option (\<lambda>g. (length (group ''level'' g), strip (group ''title'' g))) (re_match heading_rx line)"

definition fence_of :: "str \<Rightarrow> str option" where
  "fence_of line = map_option (\<lambda>g. group ''marker'' g) (re_match fence_rx line)"

text \<open>The open fence, its character and length, after a line, and whether the line is outside fences and not one.\<close>

type_synonym fence = "(char \<times> nat) option"

definition fence_step :: "fence \<Rightarrow> str \<Rightarrow> fence \<times> bool" where
  "fence_step f line = (case f of
     Some (c, n) \<Rightarrow> (case fence_of line of
         Some marker \<Rightarrow> (if hd marker = c \<and> n \<le> length marker then None else f, False)
       | None \<Rightarrow> (f, False))
   | None \<Rightarrow> (case fence_of line of
         Some marker \<Rightarrow> (Some (hd marker, length marker), False)
       | None \<Rightarrow> (None, True)))"

record pending_heading =
  ph_heading :: str
  ph_path :: "str list"
  ph_level :: nat
  ph_start :: nat
  ph_ordinal :: nat

definition make_section :: "markdown_document \<Rightarrow> pending_heading \<Rightarrow> nat \<Rightarrow> doc_section" where
  "make_section doc p body_end = \<lparr>
     ds_id = md_path doc @ ''::'' @ join '' > '' (ph_path p) @ ''::section-'' @ nat_text (ph_ordinal p),
     ds_path = md_path doc, ds_heading = ph_heading p, ds_heading_path = ph_path p, ds_level = ph_level p,
     ds_body = take (body_end - ph_start p) (drop (ph_start p) (md_text doc)), ds_start = ph_start p, ds_end = body_end,
     ds_newline = md_newline doc, ds_ordinal = ph_ordinal p\<rparr>"

record scan =
  sn_stack :: "str list"
  sn_sections :: "doc_section list"
  sn_pending :: "pending_heading option"
  sn_offset :: nat
  sn_fence :: fence
  sn_ordinal :: nat

definition scan_start :: scan where
  "scan_start = \<lparr>sn_stack = [], sn_sections = [], sn_pending = None, sn_offset = 0, sn_fence = None, sn_ordinal = 0\<rparr>"

definition flush :: "markdown_document \<Rightarrow> scan \<Rightarrow> nat \<Rightarrow> doc_section list" where
  "flush doc st body_end = (case sn_pending st of None \<Rightarrow> sn_sections st
     | Some p \<Rightarrow> sn_sections st @ [make_section doc p body_end])"

text \<open>The stack of the headings above, filled up where levels are skipped.\<close>

definition heading_stack :: "str list \<Rightarrow> nat \<Rightarrow> str \<Rightarrow> str list" where
  "heading_stack stack level heading = (let above = take (level - 1) stack
     in above @ replicate (level - 1 - length above) ''<untitled>'' @ [heading])"

definition scan_line :: "markdown_document \<Rightarrow> scan \<Rightarrow> str \<Rightarrow> scan" where
  "scan_line doc st line =
     (let (f, plain) = fence_step (sn_fence st) line; next_offset = sn_offset st + length line
      in case (if plain then heading_of line else None) of
           None \<Rightarrow> st\<lparr>sn_fence := f, sn_offset := next_offset\<rparr>
         | Some (level, heading) \<Rightarrow>
             (let stack = heading_stack (sn_stack st) level heading; n = sn_ordinal st + 1
              in st\<lparr>sn_stack := stack, sn_sections := flush doc st (sn_offset st),
                   sn_pending := Some \<lparr>ph_heading = heading, ph_path = stack, ph_level = level, ph_start = next_offset, ph_ordinal = n\<rparr>,
                   sn_offset := next_offset, sn_fence := f, sn_ordinal := n\<rparr>))"

definition split_markdown_document :: "markdown_document \<Rightarrow> doc_section list" where
  "split_markdown_document doc = flush doc (foldl (scan_line doc) scan_start (split_lines (md_text doc))) (length (md_text doc))"

definition heading_signature :: "doc_section list \<Rightarrow> (nat \<times> str list) list" where
  "heading_signature ss = map (\<lambda>s. (ds_level s, ds_heading_path s)) ss"

text \<open>Reading the corpus: the tracked paths that are not generated, their bytes decoded.\<close>

definition read_document :: "(str \<Rightarrow> str result) \<Rightarrow> str \<Rightarrow> str \<Rightarrow> markdown_document result" where
  "read_document decode path raw = (case decode raw of
     Inl e \<Rightarrow> Inl (safety_error (''tracked Markdown is not UTF-8: '' @ path))
   | Inr t \<Rightarrow> Inr \<lparr>md_path = path, md_text = t, md_newline = (if contains [CHR 0x0D, CHR 0x0A] t then [CHR 0x0D, CHR 0x0A] else [CHR 0x0A])\<rparr>)"

section \<open>Proposed bodies\<close>

fun heading_outside_fence :: "fence \<Rightarrow> str list \<Rightarrow> bool" where
  "heading_outside_fence f [] = False"
| "heading_outside_fence f (l # ls) = (case fence_step f l of (f', plain) \<Rightarrow>
     plain \<and> heading_of l \<noteq> None \<or> heading_outside_fence f' ls)"

definition contains_heading :: "str \<Rightarrow> bool" where
  "contains_heading s = heading_outside_fence None (split_lines s)"

definition blank_lines_rx :: regex where
  "blank_lines_rx = r_some (RSeq (r_many blank_rx) line_end_rx)"

text \<open>The match at the start, and the first match that reaches the end.\<close>

definition matched_text :: "regex \<Rightarrow> str \<Rightarrow> str" where
  "matched_text r s = (case re_match (RGroup ''0'' r) s of None \<Rightarrow> [] | Some g \<Rightarrow> group ''0'' g)"

definition searched_text :: "regex \<Rightarrow> str \<Rightarrow> str" where
  "searched_text r s = (case re_search (RGroup ''0'' r) s of None \<Rightarrow> [] | Some g \<Rightarrow> group ''0'' g)"

definition leading_blank_lines :: "str \<Rightarrow> str" where
  "leading_blank_lines s = matched_text blank_lines_rx s"

definition trailing_blank_lines :: "str \<Rightarrow> str" where
  "trailing_blank_lines s = searched_text (RSeq blank_lines_rx r_end) s"

text \<open>\<open>replace("\r\n", "\n").replace("\r", "\n")\<close>.\<close>

fun unix_newlines :: "str \<Rightarrow> str" where
  "unix_newlines [] = []"
| "unix_newlines (c # s) = (if c = CHR 0x0D then CHR 0x0A # (if prefix [CHR 0x0A] s then unix_newlines (tl s) else unix_newlines s)
     else c # unix_newlines s)"

definition with_newline :: "str \<Rightarrow> str \<Rightarrow> str" where
  "with_newline newline s = concat (map (\<lambda>c. if c = CHR 0x0A then newline else [c]) s)"

definition normalize_replacement_body :: "doc_section \<Rightarrow> str \<Rightarrow> nat \<Rightarrow> str result" where
  "normalize_replacement_body sec proposed max_chars =
     (if CHR 0x00 \<in> set proposed then Inl (safety_error ''replacement contains a NUL byte'')
      else if strip proposed = [] then Inl (safety_error ''replacement body must not be empty'')
      else if max_chars < length proposed then Inl (safety_error (''replacement exceeds the '' @ nat_text max_chars @ ''-character section limit''))
      else if contains_heading proposed then Inl (safety_error ''replacement must not add, remove, or reproduce Markdown headings'')
      else let unix = unix_newlines proposed;
               normalized = (if ds_newline sec \<noteq> [CHR 0x0A] then with_newline (ds_newline sec) unix else unix);
               core = strip_by (\<lambda>c. c \<in> {CHR 0x20, CHR 0x09, CHR 0x0D, CHR 0x0A}) normalized
        in if core = [] then Inl (safety_error ''replacement body has no non-whitespace content'')
           else Inr (leading_blank_lines (ds_body sec) @ core @ trailing_blank_lines (ds_body sec)))"

section \<open>Applying replacements\<close>

record replacement =
  pm_section :: doc_section
  pm_body :: str
  pm_changes :: "str list"
  pm_assessment :: rat
  pm_validation :: rat
  pm_diagnosis :: str

fun check_ordered :: "str list \<Rightarrow> int \<Rightarrow> replacement list \<Rightarrow> unit result" where
  "check_ordered seen previous [] = Inr ()"
| "check_ordered seen previous (r # rs) = (let sec = pm_section r in
     if ds_id sec \<in> set seen then Inl (safety_error (''duplicate replacement for section '' @ ds_id sec))
     else if int (ds_start sec) < previous then Inl (safety_error (''overlapping replacement for section '' @ ds_id sec))
     else check_ordered (ds_id sec # seen) (int (ds_end sec)) rs)"

definition validate_non_overlapping :: "replacement list \<Rightarrow> unit result" where
  "validate_non_overlapping rs = check_ordered [] (- 1) (sort_key (\<lambda>r. ds_start (pm_section r)) rs)"

text \<open>Python slices of a text.\<close>

definition slice :: "nat \<Rightarrow> nat \<Rightarrow> str \<Rightarrow> str" where
  "slice a b s = take (b - a) (drop a s)"

definition replace_one :: "str \<Rightarrow> replacement \<Rightarrow> str result" where
  "replace_one t r = (let sec = pm_section r in
     if slice (ds_start sec) (ds_end sec) t \<noteq> ds_body sec
     then Inl (safety_error (''Markdown changed after retrieval: '' @ ds_path sec @ ''#'' @ ds_heading sec))
     else Inr (take (ds_start sec) t @ pm_body r @ drop (ds_end sec) t))"

fun replace_all :: "str \<Rightarrow> replacement list \<Rightarrow> str result" where
  "replace_all t [] = Inr t"
| "replace_all t (r # rs) = rbind (replace_one t r) (\<lambda>t'. replace_all t' rs)"

definition group_replacements :: "replacement list \<Rightarrow> (str \<times> replacement list) list" where
  "group_replacements rs = dict_group (\<lambda>r. ds_path (pm_section r)) rs"

text \<open>One file: its new text, if that differs.\<close>

definition repair_file :: "markdown_document dict \<Rightarrow> str \<Rightarrow> replacement list \<Rightarrow> str option result" where
  "repair_file docs path rs = (case map_of docs path of
     None \<Rightarrow> Inl (safety_error (''replacement targets an unloaded Markdown file: '' @ path))
   | Some doc \<Rightarrow> rbind (validate_non_overlapping rs) (\<lambda>_.
       rbind (replace_all (md_text doc) (sorted_desc (\<lambda>r. ds_start (pm_section r)) rs)) (\<lambda>t.
       if heading_signature (split_markdown_document (doc\<lparr>md_text := t\<rparr>)) \<noteq> heading_signature (split_markdown_document doc)
       then Inl (safety_error (''heading hierarchy changed while repairing '' @ path))
       else Inr (if t = md_text doc then None else Some t))))"

text \<open>What the file system says of a path: whether it is a symbolic link, where it resolves to if that is inside the
  repository, and whether a file is there.\<close>

record file_checks =
  fk_symlink :: "str \<Rightarrow> bool"
  fk_resolve :: "str \<Rightarrow> str option"
  fk_is_file :: "str \<Rightarrow> bool"

definition safe_markdown_path :: "file_checks \<Rightarrow> str \<Rightarrow> str result" where
  "safe_markdown_path fk path = rbind (validate_relative_repo_path path) (\<lambda>n.
     if fk_symlink fk n then Inl (safety_error (''refusing Markdown symlink: '' @ n))
     else case fk_resolve fk n of
         None \<Rightarrow> Inl (safety_error (''Markdown path escapes repository root: '' @ n))
       | Some full \<Rightarrow>
           if lower (path_suffix full) \<noteq> ''.md'' then Inl (safety_error (''replacement target is not Markdown: '' @ n))
           else if \<not> fk_is_file fk full then Inl (git_error (''tracked Markdown file is missing: '' @ n))
           else Inr full)"

text \<open>\<open>git ls-files -z\<close>, sorted, without symbolic links and missing files.\<close>

definition tracked_path :: "file_checks \<Rightarrow> (str \<Rightarrow> str result) \<Rightarrow> str \<Rightarrow> str option result" where
  "tracked_path fk decode raw = (case decode raw of
     Inl e \<Rightarrow> Inl (git_error ''tracked Markdown path is not UTF-8'')
   | Inr p \<Rightarrow> rbind (validate_relative_repo_path p) (\<lambda>n. case fk_resolve fk n of
       None \<Rightarrow> Inl (git_error (''tracked Markdown escapes repository root: '' @ n))
     | Some full \<Rightarrow> Inr (if fk_symlink fk n \<or> \<not> fk_is_file fk full then None else Some n)))"

fun tracked_paths :: "file_checks \<Rightarrow> (str \<Rightarrow> str result) \<Rightarrow> str list \<Rightarrow> str list result" where
  "tracked_paths fk decode [] = Inr []"
| "tracked_paths fk decode (raw # raws) = (if raw = [] then tracked_paths fk decode raws
     else rbind (tracked_path fk decode raw) (\<lambda>p. rbind (tracked_paths fk decode raws) (\<lambda>ps.
       Inr (case p of None \<Rightarrow> ps | Some n \<Rightarrow> n # ps))))"

definition tracked_markdown_paths :: "file_checks \<Rightarrow> (str \<Rightarrow> str result) \<Rightarrow> str \<Rightarrow> str list result" where
  "tracked_markdown_paths fk decode output = map_sum id sort (tracked_paths fk decode (split_on (CHR 0x00) output))"

fun load_documents ::
    "file_checks \<Rightarrow> (str \<Rightarrow> str result) \<Rightarrow> (str \<Rightarrow> ('w, str) io) \<Rightarrow> str list \<Rightarrow> markdown_document dict \<Rightarrow> doc_section list \<Rightarrow>
     ('w, markdown_document dict \<times> doc_section list) io" where
  "load_documents fk decode read [] docs secs = io_return (docs, secs)"
| "load_documents fk decode read (p # ps) docs secs =
     (if is_generated_markdown p then load_documents fk decode read ps docs secs
      else io_bind (io_lift (safe_markdown_path fk p)) (\<lambda>full.
           io_bind (read full) (\<lambda>raw.
           io_bind (io_lift (read_document decode p raw)) (\<lambda>doc.
           load_documents fk decode read ps (dict_set p doc docs) (secs @ split_markdown_document doc)))))"

definition load_markdown_corpus ::
    "file_checks \<Rightarrow> (str \<Rightarrow> str result) \<Rightarrow> (str \<Rightarrow> ('w, str) io) \<Rightarrow> ('w, str) io \<Rightarrow> ('w, markdown_document dict \<times> doc_section list) io" where
  "load_markdown_corpus fk decode read ls_files =
     io_bind ls_files (\<lambda>output. io_bind (io_lift (tracked_markdown_paths fk decode output)) (\<lambda>ps.
       load_documents fk decode read ps [] []))"

fun prepare :: "file_checks \<Rightarrow> markdown_document dict \<Rightarrow> (str \<times> replacement list) list \<Rightarrow> (str \<times> str \<times> str) list result" where
  "prepare fk docs [] = Inr []"
| "prepare fk docs ((path, rs) # gs) = rbind (repair_file docs path rs) (\<lambda>change. case change of
     None \<Rightarrow> prepare fk docs gs
   | Some t \<Rightarrow> rbind (safe_markdown_path fk path) (\<lambda>full. rbind (prepare fk docs gs) (\<lambda>ps. Inr ((path, full, t) # ps))))"

fun write_all :: "(str \<Rightarrow> str \<Rightarrow> ('w, unit) io) \<Rightarrow> (str \<times> str \<times> str) list \<Rightarrow> ('w, unit) io" where
  "write_all put [] = io_return ()"
| "write_all put ((path, full, t) # ps) = io_then (put full (utf8_encode t)) (write_all put ps)"

definition apply_markdown_replacements ::
    "file_checks \<Rightarrow> (str \<Rightarrow> str \<Rightarrow> ('w, unit) io) \<Rightarrow> markdown_document dict \<Rightarrow> replacement list \<Rightarrow> ('w, str list) io" where
  "apply_markdown_replacements fk put docs rs =
     io_bind (io_lift (prepare fk docs (sort_key fst (group_replacements rs)))) (\<lambda>ps.
     io_then (write_all put ps) (io_return (map fst ps)))"

section \<open>Neighbouring sections\<close>

text \<open>The dash in the labels is beyond the characters of the model, so it is an argument.\<close>

definition neighboring_context :: "str \<Rightarrow> doc_section \<Rightarrow> doc_section list \<Rightarrow> nat \<Rightarrow> str" where
  "neighboring_context dash sec all max_chars =
     (let same = filter (\<lambda>s. ds_path s = ds_path sec) all; half = max_chars div 2;
          piece = (\<lambda>name s. name @ dash @ section_label s @ [CHR 0x0A] @ take half (ds_body s))
      in case find (\<lambda>i. ds_id (same ! i) = ds_id sec) [0..<length same] of
           None \<Rightarrow> []
         | Some i \<Rightarrow> take max_chars (join [CHR 0x0A, CHR 0x0A]
             ((if 0 < i then [piece ''Previous'' (same ! (i - 1))] else [])
              @ (if i + 1 < length same then [piece ''Next'' (same ! (i + 1))] else []))))"

section \<open>Lines\<close>

lemma concat_lines_from: "concat (lines_from acc s) = rev acc @ s"
proof (induction acc s rule: lines_from.induct)
  case (2 acc c s)
  show ?case
  proof (cases "c = CHR 0x0D \<and> prefix [CHR 0x0A] s")
    case True
    then have "s = CHR 0x0A # tl s" by (cases s) auto
    with 2(1) [OF True] True show ?thesis by simp
  qed (use 2 in auto)
qed simp

lemma concat_split_lines [simp]: "concat (split_lines s) = s"
  by (simp add: split_lines_def concat_lines_from)

lemma length_lines: "sum_list (map length (split_lines s)) = length s"
  by (metis concat_split_lines length_concat)

lemma lines_not_Nil: "\<forall>l \<in> set (split_lines s). l \<noteq> []"
proof -
  have "l \<in> set (lines_from acc s) \<Longrightarrow> l \<noteq> []" for acc l
    by (induction acc s rule: lines_from.induct) (auto split: if_splits)
  then show ?thesis by (simp add: split_lines_def)
qed

section \<open>Blocks\<close>

text \<open>The blocks of a document lie in order, do not overlap, end by position \<open>e\<close>, and hold the text between their bounds.\<close>

definition block_ok :: "markdown_document \<Rightarrow> doc_section \<Rightarrow> bool" where
  "block_ok doc s \<longleftrightarrow> ds_start s \<le> ds_end s \<and> ds_body s = slice (ds_start s) (ds_end s) (md_text doc) \<and>
     ds_path s = md_path doc \<and> ds_newline s = md_newline doc \<and>
     ds_id s = md_path doc @ ''::'' @ section_label s @ ''::section-'' @ nat_text (ds_ordinal s)"

definition blocks_ok :: "markdown_document \<Rightarrow> doc_section list \<Rightarrow> nat \<Rightarrow> bool" where
  "blocks_ok doc ss e \<longleftrightarrow> sorted_wrt (\<lambda>a b. ds_end a < ds_start b) ss \<and> (\<forall>s \<in> set ss. block_ok doc s \<and> ds_end s \<le> e) \<and>
     map ds_ordinal ss = [1..<Suc (length ss)]"

definition scan_ok :: "markdown_document \<Rightarrow> scan \<Rightarrow> bool" where
  "scan_ok doc st \<longleftrightarrow> (case sn_pending st of
     None \<Rightarrow> sn_sections st = [] \<and> sn_ordinal st = 0
   | Some p \<Rightarrow> blocks_ok doc (sn_sections st) (ph_start p) \<and> (\<forall>s \<in> set (sn_sections st). ds_end s < ph_start p) \<and> ph_start p \<le> sn_offset st \<and>
       ph_ordinal p = Suc (length (sn_sections st)) \<and> sn_ordinal st = ph_ordinal p)"

lemma blocks_ok_mono: "blocks_ok doc ss e \<Longrightarrow> e \<le> e' \<Longrightarrow> blocks_ok doc ss e'"
  by (auto simp: blocks_ok_def)

lemma flush_ok:
  assumes "scan_ok doc st" "sn_offset st \<le> e"
  shows "blocks_ok doc (flush doc st e) e" "length (flush doc st e) = sn_ordinal st"
proof -
  have "blocks_ok doc (flush doc st e) e \<and> length (flush doc st e) = sn_ordinal st"
  proof (cases "sn_pending st")
    case None
    with assms(1) show ?thesis by (simp add: scan_ok_def flush_def blocks_ok_def)
  next
    case (Some p)
    with assms have ok: "blocks_ok doc (sn_sections st) (ph_start p)" "\<forall>s \<in> set (sn_sections st). ds_end s < ph_start p" "ph_start p \<le> e" "ph_ordinal p = Suc (length (sn_sections st))"
      "sn_ordinal st = ph_ordinal p" by (auto simp: scan_ok_def)
    have block: "block_ok doc (make_section doc p e)"
      using ok(3) by (simp add: block_ok_def make_section_def slice_def section_label_def)
    from ok block show ?thesis
      by (auto simp: flush_def Some blocks_ok_def sorted_wrt_append make_section_def)
  qed
  then show "blocks_ok doc (flush doc st e) e" "length (flush doc st e) = sn_ordinal st" by simp_all
qed

lemma scan_line_ok:
  assumes "scan_ok doc st" "line \<noteq> []" shows "scan_ok doc (scan_line doc st line) \<and> sn_offset (scan_line doc st line) = sn_offset st + length line"
proof -
  obtain f plain where f: "fence_step (sn_fence st) line = (f, plain)" by fastforce
  show ?thesis
  proof (cases "if plain then heading_of line else None")
    case None
    with assms(1) f show ?thesis by (auto simp: scan_line_def scan_ok_def Let_def split: option.splits)
  next
    case (Some lh)
    obtain level heading where "lh = (level, heading)" by fastforce
    with Some have lh: "(if plain then heading_of line else None) = Some (level, heading)" by simp
    have fl: "blocks_ok doc (flush doc st (sn_offset st)) (sn_offset st)" "length (flush doc st (sn_offset st)) = sn_ordinal st"
      using flush_ok [OF assms(1) order_refl] by simp_all
    then have "blocks_ok doc (flush doc st (sn_offset st)) (sn_offset st + length line)" by (auto intro: blocks_ok_mono)
    moreover have "\<forall>s \<in> set (flush doc st (sn_offset st)). ds_end s < sn_offset st + length line"
      using fl(1) assms(2) by (auto simp: blocks_ok_def intro: le_less_trans)
    ultimately show ?thesis using fl(2) by (simp add: scan_line_def scan_ok_def Let_def f lh)
  qed
qed

lemma scan_lines_ok:
  "scan_ok doc st \<Longrightarrow> \<forall>l \<in> set ls. l \<noteq> [] \<Longrightarrow> scan_ok doc (foldl (scan_line doc) st ls) \<and> sn_offset (foldl (scan_line doc) st ls) = sn_offset st + sum_list (map length ls)"
proof (induction ls arbitrary: st)
  case (Cons l ls)
  from Cons.prems scan_line_ok [OF Cons.prems(1), of l] Cons.IH [of "scan_line doc st l"] show ?case by simp
qed simp

lemma split_blocks_ok: "blocks_ok doc (split_markdown_document doc) (length (md_text doc))"
proof -
  have "scan_ok doc scan_start" by (simp add: scan_ok_def scan_start_def)
  from scan_lines_ok [OF this, of "split_lines (md_text doc)"] show ?thesis
    unfolding split_markdown_document_def by (intro flush_ok) (simp_all add: length_lines lines_not_Nil scan_start_def)
qed

text \<open>Identifiers end in their ordinal, so no two blocks share one.\<close>

lemma nat_text_digits: "c \<in> set (nat_text n) \<Longrightarrow> is_digit c"
proof (induction n rule: nat_text.induct)
  case (1 n)
  then show ?case by (subst (asm) (2) nat_text.simps) (auto simp: is_digit_def split: if_splits)
qed

lemma ordinal_of_id: "takeWhile is_digit (rev (p @ ''::section-'' @ nat_text n)) = rev (nat_text n)"
proof -
  have "rev (p @ ''::section-'' @ nat_text n) = rev (nat_text n) @ CHR ''-'' # rev (p @ ''::section'')" by simp
  moreover have "takeWhile is_digit (rev (nat_text n) @ CHR ''-'' # rev (p @ ''::section'')) = rev (nat_text n)"
    using nat_text_digits [of _ n] by (subst takeWhile_append2) (auto simp: is_digit_def)
  ultimately show ?thesis by simp
qed

lemma block_ids_inj:
  assumes "block_ok doc s" "block_ok doc t" "ds_id s = ds_id t" shows "ds_ordinal s = ds_ordinal t"
proof -
  have "takeWhile is_digit (rev (ds_id u)) = rev (nat_text (ds_ordinal u))" if "block_ok doc u" for u
    using ordinal_of_id [of "md_path doc @ ''::'' @ section_label u" "ds_ordinal u"] that by (simp add: block_ok_def)
  with assms show ?thesis by (metis rev_is_rev_conv nat_text_inject)
qed

lemma split_ids_distinct: "distinct (map ds_id (split_markdown_document doc))"
proof -
  let ?ss = "split_markdown_document doc"
  have ok: "blocks_ok doc ?ss (length (md_text doc))" by (rule split_blocks_ok)
  then have ord: "distinct (map ds_ordinal ?ss)" by (metis blocks_ok_def distinct_upt)
  have "inj_on ds_id (set ?ss)"
  proof (rule inj_onI)
    fix s t assume st: "s \<in> set ?ss" "t \<in> set ?ss" "ds_id s = ds_id t"
    with ok have "ds_ordinal s = ds_ordinal t" by (intro block_ids_inj) (auto simp: blocks_ok_def)
    with ord st show "s = t" by (simp add: distinct_map inj_on_def)
  qed
  with ord show ?thesis by (simp add: distinct_map)
qed

section \<open>Splicing\<close>

text \<open>The reference: the text from position \<open>pos\<close> on, with the blocks replaced from left to right.\<close>

fun splice :: "nat \<Rightarrow> str \<Rightarrow> replacement list \<Rightarrow> str" where
  "splice pos t [] = t"
| "splice pos t (r # rs) = (let sec = pm_section r in
     take (ds_start sec - pos) t @ pm_body r @ splice (ds_end sec) (drop (ds_end sec - pos) t) rs)"

definition in_text :: "str \<Rightarrow> replacement \<Rightarrow> bool" where
  "in_text t r \<longleftrightarrow> ds_start (pm_section r) \<le> ds_end (pm_section r) \<and> ds_end (pm_section r) \<le> length t \<and>
     slice (ds_start (pm_section r)) (ds_end (pm_section r)) t = ds_body (pm_section r)"

lemma replace_all_append: "replace_all t (xs @ ys) = rbind (replace_all t xs) (\<lambda>t'. replace_all t' ys)"
proof (induction xs arbitrary: t)
  case (Cons x xs)
  then show ?case by (cases "replace_one t x") simp_all
qed simp

lemma slice_append [simp]: "b \<le> length u \<Longrightarrow> slice a b (u @ z) = slice a b u"
  by (simp add: slice_def)

lemma slice_take [simp]: "b \<le> k \<Longrightarrow> slice a b (take k t) = slice a b t"
  by (simp add: slice_def drop_take min_def)

lemma slice_prefix: "b \<le> k \<Longrightarrow> k \<le> length t \<Longrightarrow> slice a b (take k t @ z) = slice a b t"
  by simp

text \<open>Replacing from right to left, as the code does, is splicing from left to right.\<close>

lemma replace_all_splice:
  assumes "sorted_wrt (\<lambda>a b. ds_end (pm_section a) \<le> ds_start (pm_section b)) rs" "\<forall>r \<in> set rs. in_text t r"
    and "\<forall>r \<in> set rs. pos \<le> ds_start (pm_section r)" "pos \<le> length t"
  shows "replace_all t (rev rs) = Inr (take pos t @ splice pos (drop pos t) rs)"
  using assms
proof (induction rs arbitrary: pos)
  case (Cons r rs)
  let ?a = "ds_start (pm_section r)" and ?b = "ds_end (pm_section r)"
  from Cons.prems have r: "pos \<le> ?a" "?a \<le> ?b" "?b \<le> length t" "slice ?a ?b t = ds_body (pm_section r)"
    by (auto simp: in_text_def)
  let ?rest = "splice ?b (drop ?b t) rs"
  have "replace_all t (rev rs) = Inr (take ?b t @ ?rest)"
    using Cons.prems r(3) by (intro Cons.IH) auto
  then have "replace_all t (rev (r # rs)) = replace_one (take ?b t @ ?rest) r" by (cases "replace_one (take ?b t @ ?rest) r") (simp_all add: replace_all_append)
  moreover have "slice ?a ?b (take ?b t @ ?rest) = ds_body (pm_section r)"
    using r by (simp add: slice_prefix)
  ultimately have "replace_all t (rev (r # rs)) = Inr (take ?a t @ pm_body r @ ?rest)"
    using r(2,3) by (simp add: replace_one_def Let_def min_def)
  also have "take ?a t @ pm_body r @ ?rest = take pos t @ splice pos (drop pos t) (r # rs)"
    using take_add [of pos "?a - pos" t] r(1,2) by (simp add: Let_def)
  finally show ?case .
qed simp

lemma replace_all_bad:
  assumes "replace_all t rs = Inr t'" "sorted_wrt (\<lambda>a b. ds_end (pm_section b) \<le> ds_start (pm_section a)) rs"
    "\<forall>r \<in> set rs. ds_start (pm_section r) \<le> ds_end (pm_section r) \<and> ds_end (pm_section r) \<le> length t"
  shows "\<forall>r \<in> set rs. in_text t r"
  using assms
proof (induction rs arbitrary: t)
  case (Cons r rs)
  let ?a = "ds_start (pm_section r)" and ?b = "ds_end (pm_section r)"
  from Cons.prems(1) have r: "slice ?a ?b t = ds_body (pm_section r)" and rest: "replace_all (take ?a t @ pm_body r @ drop ?b t) rs = Inr t'"
    by (auto simp: rbind_eq_Inr replace_one_def Let_def split: if_splits)
  have below: "ds_end (pm_section q) \<le> ?a" "ds_start (pm_section q) \<le> ds_end (pm_section q)" if "q \<in> set rs" for q
    using Cons.prems(2,3) that by auto
  have a: "?a \<le> length t" using Cons.prems(3) by auto
  have all: "\<forall>q \<in> set rs. in_text (take ?a t @ pm_body r @ drop ?b t) q"
    using Cons.prems(2) below a by (intro Cons.IH [OF rest]) (auto intro: trans_le_add1 le_trans)
  have "in_text t q" if q: "q \<in> set rs" for q
  proof -
    have "slice x y (take ?a t @ z) = slice x y t" if "x \<le> y" "y \<le> ?a" for x y z
      using that a by (simp add: slice_prefix)
    with all below [OF q] q a show ?thesis by (auto simp: in_text_def)
  qed
  moreover have "in_text t r" using r Cons.prems(3) by (simp add: in_text_def)
  ultimately show ?case by simp
qed simp

lemma check_ordered_Inr:
  assumes "check_ordered seen previous rs = Inr ()" "\<forall>r \<in> set rs. ds_start (pm_section r) \<le> ds_end (pm_section r)"
  shows "distinct (map (\<lambda>r. ds_id (pm_section r)) rs) \<and> set seen \<inter> (\<lambda>r. ds_id (pm_section r)) ` set rs = {} \<and>
    sorted_wrt (\<lambda>a b. ds_end (pm_section a) \<le> ds_start (pm_section b)) rs \<and> (\<forall>r \<in> set rs. previous \<le> int (ds_start (pm_section r)))"
  using assms
proof (induction seen previous rs rule: check_ordered.induct)
  case (2 seen previous r rs)
  from "2.prems" have r: "ds_id (pm_section r) \<notin> set seen" "previous \<le> int (ds_start (pm_section r))"
    "check_ordered (ds_id (pm_section r) # seen) (int (ds_end (pm_section r))) rs = Inr ()"
    by (auto simp: Let_def split: if_splits)
  have le: "ds_start (pm_section r) \<le> ds_end (pm_section r)" using "2.prems"(2) by simp
  from "2.IH" [OF refl r(1) _ r(3)] r(2) "2.prems"(2)
  have ih: "distinct (map (\<lambda>r. ds_id (pm_section r)) rs)"
    "set (ds_id (pm_section r) # seen) \<inter> (\<lambda>r. ds_id (pm_section r)) ` set rs = {}"
    "sorted_wrt (\<lambda>a b. ds_end (pm_section a) \<le> ds_start (pm_section b)) rs"
    "\<forall>q \<in> set rs. int (ds_end (pm_section r)) \<le> int (ds_start (pm_section q))" by auto
  from ih r(1,2) le show ?case by fastforce
qed simp

lemma sort_key_rev:
  assumes "inj_on f (set xs)" shows "sort_key f (rev xs) = sort_key f xs"
  by (rule sort_key_inj_key_eq) (use assms in \<open>auto simp: inj_on_def\<close>)

section \<open>Repairs\<close>

text \<open>Every replacement is for a block of its document.\<close>

definition blocks_known :: "markdown_document dict \<Rightarrow> replacement list \<Rightarrow> bool" where
  "blocks_known docs rs \<longleftrightarrow> (\<forall>r \<in> set rs. \<exists>doc. map_of docs (ds_path (pm_section r)) = Some doc \<and>
     pm_section r \<in> set (split_markdown_document doc))"

definition ordered_replacements :: "str \<Rightarrow> replacement list \<Rightarrow> replacement list" where
  "ordered_replacements path rs = sort_key (\<lambda>r. ds_start (pm_section r)) (filter (\<lambda>r. ds_path (pm_section r) = path) rs)"

text \<open>What the new text of a file is: every block spliced in, each at most once, and the same headings.\<close>

definition repaired :: "markdown_document dict \<Rightarrow> replacement list \<Rightarrow> str \<Rightarrow> str \<Rightarrow> bool" where
  "repaired docs rs path t \<longleftrightarrow> (\<exists>doc. map_of docs path = Some doc \<and>
     t = splice 0 (md_text doc) (ordered_replacements path rs) \<and> distinct (map (\<lambda>r. ds_id (pm_section r)) (ordered_replacements path rs)) \<and>
     heading_signature (split_markdown_document (doc\<lparr>md_text := t\<rparr>)) = heading_signature (split_markdown_document doc))"

lemma repair_file_spliced:
  assumes run: "repair_file docs path rs = Inr change" and doc: "map_of docs path = Some doc"
    and known: "\<forall>r \<in> set rs. pm_section r \<in> set (split_markdown_document doc)"
  shows "let t = splice 0 (md_text doc) (sort_key (\<lambda>r. ds_start (pm_section r)) rs) in
    change = (if t = md_text doc then None else Some t) \<and> distinct (map (\<lambda>r. ds_id (pm_section r)) (sort_key (\<lambda>r. ds_start (pm_section r)) rs)) \<and>
    heading_signature (split_markdown_document (doc\<lparr>md_text := t\<rparr>)) = heading_signature (split_markdown_document doc)"
proof -
  let ?f = "\<lambda>r. ds_start (pm_section r)"
  let ?asc = "sort_key ?f rs"
  from run doc obtain t where checks: "check_ordered [] (- 1) ?asc = Inr ()" "replace_all (md_text doc) (rev (sort_key ?f (rev rs))) = Inr t"
      "heading_signature (split_markdown_document (doc\<lparr>md_text := t\<rparr>)) = heading_signature (split_markdown_document doc)"
      "change = (if t = md_text doc then None else Some t)"
    by (auto simp: repair_file_def validate_non_overlapping_def rbind_eq_Inr sorted_desc_def split: if_splits)
  have ok: "blocks_ok doc (split_markdown_document doc) (length (md_text doc))" by (rule split_blocks_ok)
  have block: "block_ok doc (pm_section r) \<and> ds_end (pm_section r) \<le> length (md_text doc)" if "r \<in> set ?asc" for r
    using that known ok by (auto simp: blocks_ok_def)
  then have le: "\<forall>r \<in> set ?asc. ?f r \<le> ds_end (pm_section r)" by (auto simp: block_ok_def)
  note ordered = check_ordered_Inr [OF checks(1) le]
  have inside: "\<forall>r \<in> set ?asc. in_text (md_text doc) r" using block by (auto simp: in_text_def block_ok_def)
  have inj: "inj_on ?f (set rs)"
  proof (rule inj_onI)
    fix q r assume qr: "q \<in> set rs" "r \<in> set rs" "?f q = ?f r"
    have same: "pm_section q = pm_section r"
    proof (rule ccontr)
      assume ne: "pm_section q \<noteq> pm_section r"
      from ok have "sorted_wrt (\<lambda>a b. ds_end a < ds_start b) (split_markdown_document doc)" by (simp add: blocks_ok_def)
      then have "ds_end (pm_section q) < ds_start (pm_section r) \<or> ds_end (pm_section r) < ds_start (pm_section q)"
        using known qr ne by (metis in_set_conv_nth linorder_neqE_nat sorted_wrt_nth_less)
      with le qr show False by auto
    qed
    have "inj_on (\<lambda>r. ds_id (pm_section r)) (set rs)" using ordered by (simp add: distinct_map)
    with qr same show "q = r" by (simp add: inj_on_def)
  qed
  have "replace_all (md_text doc) (rev ?asc) = Inr (take 0 (md_text doc) @ splice 0 (drop 0 (md_text doc)) ?asc)"
    using ordered inside by (intro replace_all_splice) auto
  then have "t = splice 0 (md_text doc) ?asc" using checks(2) by (simp add: sort_key_rev [OF inj])
  with checks ordered show ?thesis by (simp add: Let_def)
qed

lemma prepare_repairs:
  assumes "prepare fk docs gs = Inr ps" "distinct (map fst gs)"
    and "\<forall>(path, qs) \<in> set gs. qs = filter (\<lambda>r. ds_path (pm_section r) = path) rs \<and>
      (\<exists>doc. map_of docs path = Some doc \<and> (\<forall>r \<in> set qs. pm_section r \<in> set (split_markdown_document doc)))"
  shows "subseq (map fst ps) (map fst gs) \<and> (\<forall>(path, full, t) \<in> set ps. repaired docs rs path t \<and> safe_markdown_path fk path = Inr full) \<and>
    (\<forall>path \<in> fst ` set gs. path \<notin> fst ` set ps \<longrightarrow> (\<exists>doc. map_of docs path = Some doc \<and> repaired docs rs path (md_text doc)))"
  using assms
proof (induction gs arbitrary: ps)
  case (Cons g gs)
  obtain path qs where g: "g = (path, qs)" by fastforce
  from Cons.prems(3) g obtain doc where doc: "map_of docs path = Some doc" "qs = filter (\<lambda>r. ds_path (pm_section r) = path) rs"
    "\<forall>r \<in> set qs. pm_section r \<in> set (split_markdown_document doc)" by auto
  from Cons.prems(1) g obtain change where change: "repair_file docs path qs = Inr change" by (auto simp: rbind_eq_Inr)
  let ?t = "splice 0 (md_text doc) (ordered_replacements path rs)"
  from repair_file_spliced [OF change doc(1,3)] have t: "change = (if ?t = md_text doc then None else Some ?t)" "repaired docs rs path ?t"
    by (simp_all add: Let_def doc(1,2) ordered_replacements_def repaired_def)
  show ?case
  proof (cases change)
    case None
    with Cons.prems(1) g change have rest: "prepare fk docs gs = Inr ps" by simp
    from None t have "repaired docs rs path (md_text doc)" by (auto split: if_splits)
    with Cons.IH [OF rest] Cons.prems(2,3) doc(1) show ?thesis by (auto simp: g)
  next
    case (Some u)
    with Cons.prems(1) g change obtain full ps' where rest: "prepare fk docs gs = Inr ps'" "safe_markdown_path fk path = Inr full"
      "ps = (path, full, u) # ps'" by (auto simp: rbind_eq_Inr)
    from Some t have "repaired docs rs path u" by (auto split: if_splits)
    with Cons.IH [OF rest(1)] Cons.prems(2,3) rest show ?thesis by (auto simp: g)
  qed
qed simp

lemma group_replacements_facts:
  "distinct (map fst (sort_key fst (group_replacements rs)))" "sorted (map fst (sort_key fst (group_replacements rs)))"
  "fst ` set (sort_key fst (group_replacements rs)) = (\<lambda>r. ds_path (pm_section r)) ` set rs"
  "(path, qs) \<in> set (sort_key fst (group_replacements rs)) \<Longrightarrow> qs = filter (\<lambda>r. ds_path (pm_section r) = path) rs"
proof -
  let ?g = "group_replacements rs"
  have "mset (map fst (sort_key fst ?g)) = mset (map fst ?g)" by (simp add: mset_map)
  then show "distinct (map fst (sort_key fst ?g))"
    using distinct_dict_group mset_eq_imp_distinct_iff unfolding group_replacements_def by blast
  show "fst ` set (sort_key fst ?g) = (\<lambda>r. ds_path (pm_section r)) ` set rs"
    using keys_dict_group [of "\<lambda>r. ds_path (pm_section r)" rs] by (simp add: group_replacements_def)
qed (auto simp: group_replacements_def set_dict_group)

text \<open>The groups of known blocks, ready for \<open>prepare_repairs\<close>.\<close>

lemma known_groups:
  assumes "blocks_known docs rs"
  shows "\<forall>(path, qs) \<in> set (sort_key fst (group_replacements rs)). qs = filter (\<lambda>r. ds_path (pm_section r) = path) rs \<and>
      (\<exists>doc. map_of docs path = Some doc \<and> (\<forall>r \<in> set qs. pm_section r \<in> set (split_markdown_document doc)))"
proof clarify
  note facts = group_replacements_facts [where rs = rs]
  fix path qs assume g: "(path, qs) \<in> set (sort_key fst (group_replacements rs))"
  from facts(3) g obtain r where r: "r \<in> set rs" "path = ds_path (pm_section r)" by force
  with assms obtain doc where doc: "map_of docs path = Some doc" by (auto simp: blocks_known_def)
  with assms facts(4) [OF g]
  show "qs = filter (\<lambda>r. ds_path (pm_section r) = path) rs \<and>
    (\<exists>doc. map_of docs path = Some doc \<and> (\<forall>r \<in> set qs. pm_section r \<in> set (split_markdown_document doc)))"
    by (fastforce simp: blocks_known_def)
qed

lemma prepared_repairs:
  assumes "blocks_known docs rs" "prepare fk docs (sort_key fst (group_replacements rs)) = Inr ps" "(path, full, t) \<in> set ps"
  shows "repaired docs rs path t" "safe_markdown_path fk path = Inr full" "path \<in> (\<lambda>r. ds_path (pm_section r)) ` set rs"
proof -
  note p = prepare_repairs [OF assms(2) group_replacements_facts(1) known_groups [OF assms(1)]]
  then show "repaired docs rs path t" "safe_markdown_path fk path = Inr full" using assms(3) by auto
  have "path \<in> set (map fst ps)" using assms(3) by force
  then have "path \<in> set (map fst (sort_key fst (group_replacements rs)))"
    using list_emb_set [OF conjunct1 [OF p]] by blast
  then show "path \<in> (\<lambda>r. ds_path (pm_section r)) ` set rs" by (simp only: set_map group_replacements_facts(3))
qed

lemma write_all_cong:
  assumes "\<And>path full t w. (path, full, t) \<in> set ps \<Longrightarrow> put full (utf8_encode t) w = put' full (utf8_encode t) w"
  shows "write_all put ps = write_all put' ps"
  using assms
proof (induction ps)
  case (Cons p ps)
  obtain path full t where p: "p = (path, full, t)" by (metis surj_pair)
  have "put full (utf8_encode t) = put' full (utf8_encode t)" by (rule ext, rule Cons.prems [of path]) (simp add: p)
  moreover have "write_all put ps = write_all put' ps" using Cons.prems by (intro Cons.IH) auto
  ultimately show ?case by (simp add: p)
qed simp

text \<open>C10. Applying the replacements of known blocks, each to its document. If a check fails for any file, nothing is written.
  Otherwise the writes are, in the order of the paths, exactly the files that change, at their checked locations, and every new
  text is the old one with the bodies of the blocks replaced, each at most once, everything between them kept, and the same
  hierarchy of headings.\<close>
theorem apply_repairs_contract:
  assumes "blocks_known docs rs" "apply_markdown_replacements fk put docs rs w = (res, w')"
  shows "(\<exists>e. res = Inl e \<and> w' = w \<and> prepare fk docs (sort_key fst (group_replacements rs)) = Inl e) \<or>
    (\<exists>ps. write_all put ps w = (map_sum id (\<lambda>_. ()) res, w') \<and> (\<forall>paths. res = Inr paths \<longrightarrow> paths = map fst ps) \<and>
       sorted (map fst ps) \<and> distinct (map fst ps) \<and>
       (\<forall>(path, full, t) \<in> set ps. repaired docs rs path t \<and> safe_markdown_path fk path = Inr full) \<and>
       (\<forall>r \<in> set rs. ds_path (pm_section r) \<notin> fst ` set ps \<longrightarrow>
          (\<exists>doc. map_of docs (ds_path (pm_section r)) = Some doc \<and> repaired docs rs (ds_path (pm_section r)) (md_text doc))))"
proof (cases "prepare fk docs (sort_key fst (group_replacements rs))")
  case (Inl e)
  with assms(2) show ?thesis by (auto simp: apply_markdown_replacements_def io_bind_def)
next
  case (Inr ps)
  let ?gs = "sort_key fst (group_replacements rs)"
  note facts = group_replacements_facts [where rs = rs]
  note p = prepare_repairs [OF Inr facts(1) known_groups [OF assms(1)]]
  then obtain N where "map fst ps = nths (map fst ?gs) N" by (auto simp: subseq_conv_nths)
  then have order: "sorted (map fst ps)" "distinct (map fst ps)" using facts(1,2) by (simp_all add: sorted_nths distinct_nthsI)
  have unchanged: "\<forall>r \<in> set rs. ds_path (pm_section r) \<notin> fst ` set ps \<longrightarrow>
      (\<exists>doc. map_of docs (ds_path (pm_section r)) = Some doc \<and> repaired docs rs (ds_path (pm_section r)) (md_text doc))"
    using p facts(3) by blast
  obtain out w1 where out: "write_all put ps w = (out, w1)" by fastforce
  with assms(2) Inr have "res = map_sum id (\<lambda>_. map fst ps) out" "w' = w1"
    by (auto simp: apply_markdown_replacements_def io_bind_def split: sum.splits)
  then have "write_all put ps w = (map_sum id (\<lambda>_. ()) res, w') \<and> (\<forall>paths. res = Inr paths \<longrightarrow> paths = map fst ps)"
    using out by (cases out) auto
  with order p unchanged show ?thesis by blast
qed

section \<open>The corpus\<close>

definition corpus_ok :: "markdown_document dict \<Rightarrow> doc_section list \<Rightarrow> bool" where
  "corpus_ok docs ss \<longleftrightarrow> (\<forall>s \<in> set ss. \<exists>doc. map_of docs (ds_path s) = Some doc \<and> s \<in> set (split_markdown_document doc))"

text \<open>If no path is listed twice, every block of the corpus is a block of its document.\<close>

lemma load_documents_ok:
  assumes "load_documents fk decode read ps docs ss w = (Inr (docs', ss'), w')" "distinct ps" "set ps \<inter> set (dict_keys docs) = {}"
    "corpus_ok docs ss"
  shows "corpus_ok docs' ss'"
  using assms
proof (induction ps arbitrary: docs ss w)
  case (Cons p ps)
  show ?case
  proof (cases "is_generated_markdown p")
    case True
    with Cons.prems show ?thesis by (intro Cons.IH [of docs ss w]) auto
  next
    case False
    with Cons.prems(1) obtain full raw w1 doc where step: "read_document decode p raw = Inr doc"
      "load_documents fk decode read ps (dict_set p doc docs) (ss @ split_markdown_document doc) w1 = (Inr (docs', ss'), w')"
      by (auto simp: io_bind_eq_Inr)
    have p: "md_path doc = p" using step(1) by (auto simp: read_document_def split: sum.splits)
    have new: "ds_path s = p" if "s \<in> set (split_markdown_document doc)" for s
      using split_blocks_ok [of doc] that p by (simp add: blocks_ok_def block_ok_def)
    have old: "ds_path s \<noteq> p" if s: "s \<in> set ss" for s
    proof
      assume "ds_path s = p"
      with Cons.prems(4) s have "map_of docs p \<noteq> None" by (auto simp: corpus_ok_def)
      with Cons.prems(3) show False by (auto simp: map_of_eq_None_iff)
    qed
    have "corpus_ok (dict_set p doc docs) (ss @ split_markdown_document doc)"
      using Cons.prems(4) new old by (auto simp: corpus_ok_def)
    moreover have "set ps \<inter> set (dict_keys (dict_set p doc docs)) = {}" using Cons.prems(2,3) by auto
    ultimately show ?thesis using Cons.IH [OF step(2)] Cons.prems(2) by simp
  qed
qed simp

section \<open>Examples\<close>

definition ex_lines :: "str list \<Rightarrow> str" where
  "ex_lines ls = concat (map (\<lambda>l. l @ [CHR 0x0A]) ls)"

definition ex_fence :: str where
  "ex_fence = [CHR 0x60, CHR 0x60, CHR 0x60]"

definition ex_markdown :: markdown_document where
  "ex_markdown = \<lparr>md_path = ''a.md'', md_text = ex_lines [''# A'', ''x'', ''# B'', ex_fence, ''# B'', ex_fence], md_newline = [CHR 0x0A]\<rparr>"

definition ex_repair :: "str \<Rightarrow> replacement" where
  "ex_repair body = \<lparr>pm_section = hd (split_markdown_document ex_markdown), pm_body = body, pm_changes = [], pm_assessment = 1,
     pm_validation = 1, pm_diagnosis = []\<rparr>"

definition ex_files :: file_checks where
  "ex_files = \<lparr>fk_symlink = (\<lambda>p. False), fk_resolve = (\<lambda>p. Some (''/r/'' @ p)), fk_is_file = (\<lambda>p. True)\<rparr>"

definition ex_put :: "str \<Rightarrow> str \<Rightarrow> ((str \<times> str) list, unit) io" where
  "ex_put path bytes w = (Inr (), w @ [(path, bytes)])"

lemma ex_split: "map (\<lambda>s. (ds_level s, ds_heading s, ds_body s)) (split_markdown_document ex_markdown) =
    [(1, ''A'', ex_lines [''x'']), (1, ''B'', ex_lines [ex_fence, ''# B'', ex_fence])]"
  by code_simp

lemma ex_repair_run: "apply_markdown_replacements ex_files ex_put [(''a.md'', ex_markdown)] [ex_repair (ex_lines [''y''])] [] =
    (Inr [''a.md''], [(''/r/a.md'', ex_lines [''# A'', ''y'', ''# B'', ex_fence, ''# B'', ex_fence])])"
  by code_simp

lemma ex_known: "blocks_known [(''a.md'', ex_markdown)] [ex_repair body]"
proof -
  have "split_markdown_document ex_markdown \<noteq> []" using ex_split by force
  moreover have "ds_path (hd (split_markdown_document ex_markdown)) = ''a.md''" by code_simp
  ultimately show ?thesis by (simp add: blocks_known_def ex_repair_def)
qed

theorem apply_repairs_contract_witness:
  "\<exists>t. repaired [(''a.md'', ex_markdown)] [ex_repair (ex_lines [''y''])] ''a.md'' t \<and> safe_markdown_path ex_files ''a.md'' = Inr ''/r/a.md''"
proof -
  have "safe_markdown_path ex_files ''a.md'' = Inr ''/r/a.md''" by code_simp
  with apply_repairs_contract [OF ex_known ex_repair_run] show ?thesis by fastforce
qed

text \<open>The check of the headings does not notice that headings have moved: a body that opens a fence and does not close it is
  accepted, and if the next block quotes its own heading in a fence, the hierarchy stays the same while the next heading is
  inside the fence and its block begins at the quotation.\<close>

lemma open_fence_moves_headings:
  "normalize_replacement_body (hd (split_markdown_document ex_markdown)) ex_fence 1000 = Inr (ex_lines [ex_fence])"
  "apply_markdown_replacements ex_files ex_put [(''a.md'', ex_markdown)] [ex_repair (ex_lines [ex_fence])] [] =
    (Inr [''a.md''], [(''/r/a.md'', ex_lines [''# A'', ex_fence, ''# B'', ex_fence, ''# B'', ex_fence])])"
  "map ds_body (split_markdown_document (ex_markdown\<lparr>md_text := ex_lines [''# A'', ex_fence, ''# B'', ex_fence, ''# B'', ex_fence]\<rparr>)) =
    [ex_lines [ex_fence, ''# B'', ex_fence], ex_lines [ex_fence]]"
  by code_simp+

end
