(* ===== verification/DocRetrieval.thy ===== *)
theory DocRetrieval
  imports DocMarkdown
begin

text \<open>
  The records of \<open>self_healing_docs/models.py\<close>, the batched embedding adapter of \<open>providers.py\<close>, and \<open>retrieval.py\<close>, which
  links structural changes to documentation blocks by exact references and cosine similarity. The embedding service is a
  parameter; a number that is not finite is \<open>None\<close>.
\<close>

section \<open>Changes\<close>

datatype change_type = Added | Removed | Modified

fun change_type_text :: "change_type \<Rightarrow> str" where
  "change_type_text Added = ''added''"
| "change_type_text Removed = ''removed''"
| "change_type_text Modified = ''modified''"

record structural_change =
  sg_id :: str
  sg_path :: str
  sg_language :: str
  sg_kind :: str
  sg_name :: str
  sg_type :: change_type
  sg_old :: "str option"
  sg_new :: "str option"
  sg_context :: str
  sg_terms :: "str list"
  sg_first_line :: nat
  sg_last_line :: nat
  sg_auto_fix :: bool

definition bounded_text_of :: "str option \<Rightarrow> nat \<Rightarrow> str \<Rightarrow> str" where
  "bounded_text_of v max_chars fallback = (case v of
     None \<Rightarrow> fallback
   | Some s \<Rightarrow> if s = [] then fallback else if length s \<le> max_chars then s
       else let half = (max_chars - 32) div 2
         in take half s @ [CHR 0x0A] @ ''...[input truncated]...'' @ [CHR 0x0A] @ drop (length s - half) s)"

definition change_embedding_text :: "structural_change \<Rightarrow> str" where
  "change_embedding_text c = join [CHR 0x0A] [''File: '' @ sg_path c, ''Language: '' @ sg_language c,
     ''Structure: '' @ sg_kind c @ '' '' @ sg_name c, ''Change: '' @ change_type_text (sg_type c),
     ''Before: '' @ bounded_text_of (sg_old c) 4000 ''<absent>'', ''After: '' @ bounded_text_of (sg_new c) 4000 ''<absent>'',
     ''Context: '' @ bounded_text_of (Some (sg_context c)) 1000 ''<none>'']"

definition section_embedding_text :: "doc_section \<Rightarrow> str" where
  "section_embedding_text s = ''Document: '' @ ds_path s @ [CHR 0x0A] @ ''Section: '' @ section_label s @ [CHR 0x0A] @ take 12000 (ds_body s)"

record candidate_match =
  cm_change :: str
  cm_section :: str
  cm_similarity :: real
  cm_reasons :: "str list"

section \<open>Embeddings\<close>

definition provider_error :: "str \<Rightarrow> exn" where
  "provider_error s = (OtherException ''ProviderError'', s)"

definition retrieval_error :: "str \<Rightarrow> exn" where
  "retrieval_error s = (OtherException ''RetrievalError'', s)"

type_synonym vector = "real option list"

text \<open>The service answers a batch with indexed vectors, in any order.\<close>

definition checked_batch :: "str list \<Rightarrow> (int \<times> vector) list \<Rightarrow> vector list result" where
  "checked_batch batch answer = (let ordered = sort_key fst answer in
     if length ordered \<noteq> length batch then Inl (provider_error ''embedding response count did not match request count'')
     else if map fst ordered \<noteq> map int [0..<length batch]
     then Inl (provider_error ''embedding response indexes were missing or duplicated'')
     else Inr (map snd ordered))"

definition wrap_provider :: "exn \<Rightarrow> exn" where
  "wrap_provider x = (if fst x = OtherException ''ProviderError'' then x
     else provider_error (''OpenAI embedding request failed ('' @ exn_type_name (fst x) @ ''): '' @ take 500 (exn_message x)))"

function embed_batches :: "(str list \<Rightarrow> ('w, (int \<times> vector) list) io) \<Rightarrow> nat \<Rightarrow> str list \<Rightarrow> ('w, vector list) io" where
  "embed_batches service bsize texts = (if texts = [] \<or> bsize = 0 then io_return []
     else io_bind (service (take bsize texts)) (\<lambda>answer.
          io_bind (io_lift (checked_batch (take bsize texts) answer)) (\<lambda>vs.
          io_bind (embed_batches service bsize (drop bsize texts)) (\<lambda>rest. io_return (vs @ rest)))))"
  by pat_completeness auto

termination by (relation "measure (\<lambda>(service, bsize, texts). length texts)") auto

declare embed_batches.simps [simp del]

definition openai_embed :: "(str list \<Rightarrow> ('w, (int \<times> vector) list) io) \<Rightarrow> str \<Rightarrow> str list \<Rightarrow> ('w, vector list) io" where
  "openai_embed service api_key texts =
     (if strip api_key = [] then io_raise (provider_error ''OPENAI_API_KEY is required for documentation healing'')
      else io_catch (embed_batches service 64 texts) (\<lambda>x. io_raise (wrap_provider x)))"

definition normalized :: "real list \<Rightarrow> real list" where
  "normalized v = (let n = sqrt (sum_list (map (\<lambda>x. x * x) v)) in map (\<lambda>x. x / n) v)"

text \<open>Every vector has the width of the first, finite entries and a direction.\<close>

fun check_vectors :: "nat \<Rightarrow> nat option \<Rightarrow> vector list \<Rightarrow> real list list result" where
  "check_vectors i width [] = Inr []"
| "check_vectors i width (v # vs) =
     (if v = [] then Inl (retrieval_error (''embedding '' @ nat_text i @ '' is empty''))
      else case those v of
          None \<Rightarrow> Inl (retrieval_error (''embedding '' @ nat_text i @ '' contains non-finite values''))
        | Some xs \<Rightarrow>
            if (case width of None \<Rightarrow> False | Some n \<Rightarrow> length xs \<noteq> n)
            then Inl (retrieval_error ''embedding vectors have inconsistent dimensions'')
            else if sqrt (sum_list (map (\<lambda>x. x * x) xs)) = 0
            then Inl (retrieval_error (''embedding '' @ nat_text i @ '' has zero magnitude''))
            else rbind (check_vectors (Suc i) (Some (length xs)) vs) (\<lambda>rest. Inr (normalized xs # rest)))"

definition validate_vectors :: "vector list \<Rightarrow> nat \<Rightarrow> real list list result" where
  "validate_vectors vs expected = (if length vs \<noteq> expected
     then Inl (retrieval_error (''embedding provider returned '' @ nat_text (length vs) @ '' vectors for '' @ nat_text expected @ '' texts''))
     else check_vectors 0 None vs)"

definition dot :: "real list \<Rightarrow> real list \<Rightarrow> real" where
  "dot xs ys = sum_list (map2 (*) xs ys)"

definition cosine_similarity :: "real list \<Rightarrow> real list \<Rightarrow> real result" where
  "cosine_similarity xs ys = (if length xs \<noteq> length ys
     then Inl (retrieval_error ''cannot compare embeddings with different dimensions'') else Inr (max (- 1) (min 1 (dot xs ys))))"

section \<open>Exact references\<close>

text \<open>\<open>casefold\<close>; the micro sign, whose folding is beyond the characters of the model, stays.\<close>

definition casefold :: "str \<Rightarrow> str" where
  "casefold s = concat (map (\<lambda>c. if c = CHR 0xDF then ''ss'' else [lower_char c]) s)"

definition common_terms :: "str list" where
  "common_terms = [''application'', ''class'', ''config'', ''configuration'', ''context'', ''default'', ''dict'', ''float'', ''field'',
     ''function'', ''handler'', ''int'', ''integer'', ''list'', ''method'', ''module'', ''request'', ''response'', ''route'',
     ''service'', ''settings'', ''string'', ''type'']"

definition name_char :: "char \<Rightarrow> bool" where
  "name_char c \<longleftrightarrow> is_upper_az c \<or> is_lower_az c \<or> is_digit c \<or> c \<in> {CHR ''_'', CHR ''.'', CHR ''-''}"

definition token_rx :: regex where
  "token_rx = RSeq (RSet (\<lambda>c. is_upper_az c \<or> is_lower_az c \<or> c = CHR ''_'')) (r_least 2 (RSet name_char))"

definition route_rx :: regex where
  "route_rx = RSeq (r_chr (CHR ''/'')) (r_some (RSet (\<lambda>c. name_char c \<or> c \<in> {CHR ''/'', CHR ''{'', CHR ''}'', CHR '':''})))"

definition term_texts :: "str \<Rightarrow> str list" where
  "term_texts raw = (let value = strip raw in
     (if 3 \<le> length value \<and> length value \<le> 160 then [value] else [])
     @ filter (\<lambda>t. casefold t \<notin> set common_terms) (map fst (re_finditer token_rx value))
     @ filter (\<lambda>t. 3 \<le> length t) (map fst (re_finditer route_rx value)))"

text \<open>The longest terms first; the order of terms that differ only in case is not fixed by the code.\<close>

definition lexical_terms :: "structural_change \<Rightarrow> str list" where
  "lexical_terms c = sort_key (\<lambda>t. (- int (length t), casefold t))
     (filter (\<lambda>t. 3 \<le> length t \<and> casefold t \<notin> set common_terms) (remdups (sg_name c # concat (map term_texts (sg_terms c)))))"

definition folded_name_char :: "char \<Rightarrow> bool" where
  "folded_name_char c \<longleftrightarrow> is_lower_az c \<or> is_digit c \<or> c \<in> {CHR ''_'', CHR ''.'', CHR ''-''}"

definition word_rx :: "str \<Rightarrow> regex" where
  "word_rx t = RSeq (r_not_after folded_name_char) (RSeq (r_text t) (r_not_before folded_name_char))"

definition term_found :: "str \<Rightarrow> str \<Rightarrow> bool" where
  "term_found haystack t = (let n = casefold t in
     prefix ''/'' n \<and> contains n haystack \<or> re_search (word_rx n) haystack \<noteq> None)"

definition has_exact_reference :: "structural_change \<Rightarrow> doc_section \<Rightarrow> bool" where
  "has_exact_reference c s = list_ex (term_found (casefold (section_label s @ [CHR 0x0A] @ ds_body s))) (lexical_terms c)"

section \<open>Candidates\<close>

definition half_even :: "real \<Rightarrow> int" where
  "half_even x = (let f = \<lfloor>x\<rfloor>; d = x - of_int f in if d < 1 / 2 then f else if 1 / 2 < d then f + 1 else if even f then f else f + 1)"

definition round6 :: "real \<Rightarrow> real" where
  "round6 x = of_int (half_even (x * 10 ^ 6)) / 10 ^ 6"

definition score_sections :: "real list \<Rightarrow> doc_section list \<Rightarrow> real list list \<Rightarrow> (doc_section \<times> real) list result" where
  "score_sections v ss vs = (case those (map (\<lambda>(s, u). case cosine_similarity v u of Inl _ \<Rightarrow> None | Inr x \<Rightarrow> Some (s, x)) (zip ss vs)) of
     None \<Rightarrow> Inl (retrieval_error ''cannot compare embeddings with different dimensions'') | Some xs \<Rightarrow> Inr xs)"

definition semantic_ids :: "real \<Rightarrow> nat \<Rightarrow> (doc_section \<times> real) list \<Rightarrow> str list" where
  "semantic_ids threshold top_k scored = map (\<lambda>(s, x). ds_id s)
     (filter (\<lambda>(s, x). threshold \<le> x) (take top_k (sort_key (\<lambda>(s, x). (- x, ds_id s)) scored)))"

definition propose :: "structural_change \<Rightarrow> str list \<Rightarrow> str list \<Rightarrow> (doc_section \<times> real) list \<Rightarrow> candidate_match list" where
  "propose c semantic lexical scored = concat (map (\<lambda>(s, x).
     let reasons = (if ds_id s \<in> set lexical then [''exact_reference''] else []) @ (if ds_id s \<in> set semantic then [''embedding_similarity''] else [])
     in if reasons = [] then []
        else [\<lparr>cm_change = sg_id c, cm_section = ds_id s, cm_similarity = round6 x, cm_reasons = reasons\<rparr>]) scored)"

definition propose_change :: "doc_section list \<Rightarrow> real list list \<Rightarrow> real \<Rightarrow> nat \<Rightarrow> structural_change \<times> real list \<Rightarrow> candidate_match list result" where
  "propose_change ss vs threshold top_k = (\<lambda>(c, v). rbind (score_sections v ss vs) (\<lambda>scored.
     Inr (propose c (semantic_ids threshold top_k scored) (map ds_id (filter (has_exact_reference c) ss)) scored)))"

fun propose_all :: "(structural_change \<times> real list \<Rightarrow> candidate_match list result) \<Rightarrow> (structural_change \<times> real list) list \<Rightarrow> candidate_match list result" where
  "propose_all f [] = Inr []"
| "propose_all f (x # xs) = rbind (f x) (\<lambda>ms. rbind (propose_all f xs) (\<lambda>rest. Inr (ms @ rest)))"

definition match_order :: "candidate_match \<Rightarrow> nat \<times> real \<times> str \<times> str" where
  "match_order m = (if ''exact_reference'' \<in> set (cm_reasons m) then 0 else 1, - cm_similarity m, cm_change m, cm_section m)"

record retrieval_result =
  rr_matches :: "candidate_match list"
  rr_truncated :: "str list"

definition select_candidates :: "nat \<Rightarrow> candidate_match list \<Rightarrow> retrieval_result" where
  "select_candidates max_candidates proposed =
     (let ordered = sort_key match_order proposed; accepted = take max_candidates ordered
      in \<lparr>rr_matches = accepted,
          rr_truncated = sort (remdups (filter (\<lambda>c. c \<notin> cm_change ` set accepted) (map cm_change ordered)))\<rparr>)"

definition retrieve_candidates ::
    "(str list \<Rightarrow> ('w, vector list) io) \<Rightarrow> real \<Rightarrow> nat \<Rightarrow> nat \<Rightarrow> structural_change list \<Rightarrow> doc_section list \<Rightarrow> ('w, retrieval_result) io" where
  "retrieve_candidates embedder threshold top_k max_candidates cs ss =
     (if cs = [] \<or> ss = [] then io_return \<lparr>rr_matches = [], rr_truncated = []\<rparr>
      else let texts = map change_embedding_text cs @ map section_embedding_text ss in
        io_bind (embedder texts) (\<lambda>raw.
        io_bind (io_lift (validate_vectors raw (length texts))) (\<lambda>vectors.
        io_bind (io_lift (propose_all (propose_change ss (drop (length cs) vectors) threshold top_k) (zip cs (take (length cs) vectors)))) (\<lambda>proposed.
        io_return (select_candidates max_candidates proposed)))))"

section \<open>Batches\<close>

lemma checked_batch_length: "checked_batch batch answer = Inr vs \<Longrightarrow> length vs = length batch"
  by (auto simp: checked_batch_def Let_def split: if_splits)

lemma embed_batches_length: "embed_batches service bsize texts w = (Inr vs, w') \<Longrightarrow> 0 < bsize \<Longrightarrow> length vs = length texts"
proof (induction service bsize texts arbitrary: w vs w' rule: embed_batches.induct)
  case (1 service bsize texts)
  show ?case
  proof (cases "texts = []")
    case True
    with 1(2,3) show ?thesis by (simp add: embed_batches.simps)
  next
    case False
    with 1(2,3) obtain answer w1 xs rest w2 where parts: "service (take bsize texts) w = (Inr answer, w1)"
      "checked_batch (take bsize texts) answer = Inr xs" "embed_batches service bsize (drop bsize texts) w1 = (Inr rest, w2)" "vs = xs @ rest"
      by (subst (asm) embed_batches.simps) (auto simp: io_bind_eq_Inr)
    have "length rest = length (drop bsize texts)"
      using 1(1) [OF _ parts(3) 1(3)] False 1(3) by simp
    then show ?thesis using checked_batch_length [OF parts(2)] parts(4) by simp
  qed
qed

text \<open>The adapter answers one vector per text, whatever the batches, and raises nothing but its own error.\<close>

lemma openai_embed_contract:
  assumes "openai_embed service key texts w = (res, w')"
  shows "case res of Inr vs \<Rightarrow> length vs = length texts \<and> strip key \<noteq> [] | Inl x \<Rightarrow> fst x = OtherException ''ProviderError''"
  using assms embed_batches_length [of service 64 texts w]
  by (auto simp: openai_embed_def io_catch_def wrap_provider_def provider_error_def split: if_splits sum.splits prod.splits)

section \<open>What retrieval finds\<close>

lemma check_vectors_length: "check_vectors i width vs = Inr us \<Longrightarrow> length us = length vs"
  by (induction i width vs arbitrary: us rule: check_vectors.induct) (auto simp: rbind_eq_Inr split: if_splits option.splits)

lemma score_sections_Inr:
  assumes "score_sections v ss vs = Inr scored" "length vs = length ss"
  shows "map fst scored = ss" "\<forall>(s, x) \<in> set scored. - 1 \<le> x \<and> x \<le> 1"
proof -
  define f where "f = (\<lambda>(s :: doc_section, u). case cosine_similarity v u of Inl _ \<Rightarrow> None | Inr x \<Rightarrow> Some (s, x))"
  from assms(1) have m: "map f (zip ss vs) = map Some scored"
    by (auto simp: score_sections_def those_eq_Some f_def split: option.splits)
  have scored: "scored = map (\<lambda>p. the (f p)) (zip ss vs)"
    using arg_cong [OF m, of "map the"] by (simp add: comp_def)
  have one: "fst (the (f p)) = fst p \<and> - 1 \<le> snd (the (f p)) \<and> snd (the (f p)) \<le> 1" if "p \<in> set (zip ss vs)" for p
  proof -
    have "f p \<in> set (map Some scored)" using that unfolding m [symmetric] by simp
    then obtain q where "f p = Some q" by auto
    then show ?thesis by (auto simp: f_def cosine_similarity_def split: prod.splits sum.splits if_splits)
  qed
  have "map fst scored = map fst (zip ss vs)" unfolding scored map_map by (rule map_cong) (simp_all add: one)
  then show "map fst scored = ss" using assms(2) by simp
  show "\<forall>(s, x) \<in> set scored. - 1 \<le> x \<and> x \<le> 1"
  proof clarify
    fix s x assume "(s, x) \<in> set scored"
    then obtain p where "p \<in> set (zip ss vs)" "(s, x) = the (f p)" unfolding scored by auto
    then show "- 1 \<le> x \<and> x \<le> 1" using one [of p] by (metis snd_conv)
  qed
qed

lemma propose_set: "m \<in> set (propose c semantic lexical scored) \<longleftrightarrow> (\<exists>(s, x) \<in> set scored.
    cm_reasons m = (if ds_id s \<in> set lexical then [''exact_reference''] else []) @ (if ds_id s \<in> set semantic then [''embedding_similarity''] else []) \<and>
    cm_reasons m \<noteq> [] \<and> cm_change m = sg_id c \<and> cm_section m = ds_id s \<and> cm_similarity m = round6 x)"
  unfolding propose_def by (cases m) (fastforce simp: Let_def split: if_splits)

lemma propose_keys: "map (\<lambda>m. (cm_change m, cm_section m)) (propose c semantic lexical scored) =
    map (\<lambda>(s, x). (sg_id c, ds_id s)) (filter (\<lambda>(s, x). ds_id s \<in> set lexical \<or> ds_id s \<in> set semantic) scored)"
  by (induction scored) (auto simp: propose_def Let_def split: if_splits)

lemma propose_all_set: "propose_all f xs = Inr ms \<Longrightarrow> set ms = (\<Union>x \<in> set xs. \<Union>ys \<in> {ys. f x = Inr ys}. set ys) \<and> (\<forall>x \<in> set xs. \<exists>ys. f x = Inr ys)"
  by (induction xs arbitrary: ms) (auto simp: rbind_eq_Inr)

text \<open>What a link claims.\<close>

definition justified :: "structural_change list \<Rightarrow> doc_section list \<Rightarrow> candidate_match \<Rightarrow> bool" where
  "justified cs ss m \<longleftrightarrow> cm_reasons m \<noteq> [] \<and> set (cm_reasons m) \<subseteq> {''exact_reference'', ''embedding_similarity''} \<and>
     (\<exists>c \<in> set cs. \<exists>s \<in> set ss. cm_change m = sg_id c \<and> cm_section m = ds_id s \<and>
        (''exact_reference'' \<in> set (cm_reasons m) \<longleftrightarrow> has_exact_reference c s))"

lemma propose_change_Inr:
  assumes "propose_change ss vs threshold top_k (c, v) = Inr ms" "length vs = length ss" "distinct (map ds_id ss)"
  shows "\<forall>m \<in> set ms. justified [c] ss m" "\<forall>s \<in> set ss. has_exact_reference c s \<longrightarrow> (\<exists>m \<in> set ms. cm_change m = sg_id c \<and> cm_section m = ds_id s)"
    "distinct (map (\<lambda>m. (cm_change m, cm_section m)) ms)" "cm_change ` set ms \<subseteq> {sg_id c}"
proof -
  from assms(1) obtain scored where scored: "score_sections v ss vs = Inr scored"
    "ms = propose c (semantic_ids threshold top_k scored) (map ds_id (filter (has_exact_reference c) ss)) scored"
    by (auto simp: propose_change_def rbind_eq_Inr)
  note fst = score_sections_Inr(1) [OF scored(1) assms(2)]
  have lex: "ds_id s \<in> set (map ds_id (filter (has_exact_reference c) ss)) \<longleftrightarrow> has_exact_reference c s" if "s \<in> set ss" for s
    using that assms(3) by (auto simp: distinct_map inj_on_def)
  have mem: "s \<in> set ss" if "(s, x) \<in> set scored" for s x using that fst by force
  show "\<forall>m \<in> set ms. justified [c] ss m"
  proof
    fix m assume "m \<in> set ms"
    then obtain s x where sx: "(s, x) \<in> set scored" "cm_reasons m \<noteq> []" "cm_change m = sg_id c" "cm_section m = ds_id s"
      "cm_reasons m = (if ds_id s \<in> set (map ds_id (filter (has_exact_reference c) ss)) then [''exact_reference''] else [])
         @ (if ds_id s \<in> set (semantic_ids threshold top_k scored) then [''embedding_similarity''] else [])"
      unfolding scored(2) propose_set by blast
    from sx(5) have "''exact_reference'' \<in> set (cm_reasons m) \<longleftrightarrow> has_exact_reference c s" unfolding lex [OF mem [OF sx(1)]] by simp
    moreover from sx(5) have "set (cm_reasons m) \<subseteq> {''exact_reference'', ''embedding_similarity''}" by auto
    ultimately show "justified [c] ss m" using sx mem by (auto simp: justified_def)
  qed
  show "\<forall>s \<in> set ss. has_exact_reference c s \<longrightarrow> (\<exists>m \<in> set ms. cm_change m = sg_id c \<and> cm_section m = ds_id s)"
  proof (intro ballI impI)
    fix s assume s: "s \<in> set ss" "has_exact_reference c s"
    then obtain x where x: "(s, x) \<in> set scored" using fst by force
    have "(sg_id c, ds_id s) \<in> set (map (\<lambda>m. (cm_change m, cm_section m)) ms)"
      unfolding scored(2) propose_keys using x lex [OF s(1)] s(2) by force
    then show "\<exists>m \<in> set ms. cm_change m = sg_id c \<and> cm_section m = ds_id s" by auto
  qed
  have "distinct (map (\<lambda>(s, x). ds_id s) scored)" using assms(3) fst by (metis (no_types, lifting) case_prod_beta' map_map comp_def map_eq_conv)
  then show "distinct (map (\<lambda>m. (cm_change m, cm_section m)) ms)"
  proof -
    have "distinct (map (\<lambda>(s, x). ds_id s) (filter P scored))" for P using \<open>distinct (map (\<lambda>(s, x). ds_id s) scored)\<close> by (rule distinct_map_filter)
    moreover have "map (\<lambda>(s, x). (sg_id c, ds_id s)) xs = map (Pair (sg_id c)) (map (\<lambda>(s, x). ds_id s) xs)" for xs :: "(doc_section \<times> real) list"
      by auto
    ultimately show ?thesis unfolding scored(2) propose_keys by (simp only:) (simp only: distinct_map [of "Pair (sg_id c)"] inj_on_def, simp)
  qed
  show "cm_change ` set ms \<subseteq> {sg_id c}" unfolding scored(2) by (auto simp: propose_set)
qed

lemma propose_all_Inr:
  assumes "propose_all (propose_change ss vs threshold top_k) xs = Inr ms" "length vs = length ss" "distinct (map ds_id ss)"
    "distinct (map (\<lambda>(c, v). sg_id c) xs)"
  shows "(\<forall>m \<in> set ms. justified (map fst xs) ss m) \<and>
    (\<forall>c \<in> set (map fst xs). \<forall>s \<in> set ss. has_exact_reference c s \<longrightarrow> (\<exists>m \<in> set ms. cm_change m = sg_id c \<and> cm_section m = ds_id s)) \<and>
    distinct (map (\<lambda>m. (cm_change m, cm_section m)) ms) \<and> cm_change ` set ms \<subseteq> (\<lambda>(c, v). sg_id c) ` set xs"
  using assms(1,4)
proof (induction xs arbitrary: ms)
  case (Cons x xs)
  obtain c v where x: "x = (c, v)" by fastforce
  with Cons.prems(1) obtain ms1 rest where m: "propose_change ss vs threshold top_k (c, v) = Inr ms1"
    "propose_all (propose_change ss vs threshold top_k) xs = Inr rest" "ms = ms1 @ rest" by (auto simp: rbind_eq_Inr)
  note one = propose_change_Inr [OF m(1) assms(2,3)]
  have rest: "(\<forall>m \<in> set rest. justified (map fst xs) ss m) \<and>
    (\<forall>c \<in> set (map fst xs). \<forall>s \<in> set ss. has_exact_reference c s \<longrightarrow> (\<exists>m \<in> set rest. cm_change m = sg_id c \<and> cm_section m = ds_id s)) \<and>
    distinct (map (\<lambda>m. (cm_change m, cm_section m)) rest) \<and> cm_change ` set rest \<subseteq> (\<lambda>(c, v). sg_id c) ` set xs"
    using Cons.IH [OF m(2)] Cons.prems(2) by simp
  have wide: "justified as ss m \<Longrightarrow> set as \<subseteq> set bs \<Longrightarrow> justified bs ss m" for as bs m
    unfolding justified_def by blast
  have "\<forall>m \<in> set ms. justified (map fst (x # xs)) ss m"
    unfolding m(3) using one(1) rest wide [of "[c]" _ "map fst (x # xs)"] wide [of "map fst xs" _ "map fst (x # xs)"] by (auto simp: x)
  moreover have "\<forall>c \<in> set (map fst (x # xs)). \<forall>s \<in> set ss. has_exact_reference c s \<longrightarrow> (\<exists>m \<in> set ms. cm_change m = sg_id c \<and> cm_section m = ds_id s)"
    unfolding m(3) using one(2) rest by (fastforce simp: x)
  moreover have "distinct (map (\<lambda>m. (cm_change m, cm_section m)) ms)"
  proof -
    have "sg_id c \<notin> cm_change ` set rest" using rest Cons.prems(2) by (auto simp: x)
    then have "set (map (\<lambda>m. (cm_change m, cm_section m)) ms1) \<inter> set (map (\<lambda>m. (cm_change m, cm_section m)) rest) = {}"
      using one(4) by force
    then show ?thesis unfolding m(3) using one(3) rest by simp
  qed
  moreover have "cm_change ` set ms \<subseteq> (\<lambda>(c, v). sg_id c) ` set (x # xs)" unfolding m(3) using one(4) rest by (auto simp: x)
  ultimately show ?case by blast
qed simp


section \<open>Examples\<close>

definition ex_change :: structural_change where
  "ex_change = \<lparr>sg_id = ''c'', sg_path = ''w.py'', sg_language = ''python'', sg_kind = ''function'', sg_name = ''run_it'', sg_type = Modified,
     sg_old = Some ''def run_it(a)'', sg_new = Some ''def run_it(a, b)'', sg_context = [], sg_terms = [], sg_first_line = 1,
     sg_last_line = 2, sg_auto_fix = True\<rparr>"

definition ex_block :: doc_section where
  "ex_block = \<lparr>ds_id = ''a.md::A::section-1'', ds_path = ''a.md'', ds_heading = ''A'', ds_heading_path = [''A''], ds_level = 1,
     ds_body = ''call run_it(a).'', ds_start = 4, ds_end = 19, ds_newline = [CHR 0x0A], ds_ordinal = 1\<rparr>"

lemma ex_reference: "has_exact_reference ex_change ex_block"
  by code_simp


end
