(* ===== verification/DocHealing.thy ===== *)
theory DocHealing
  imports DocRetrieval
begin

text \<open>
  The documentation bot: \<open>config.py\<close>, the Git boundary \<open>gitops.py\<close>, the pipeline \<open>pipeline.py\<close> and what \<open>reporting.py\<close>
  writes. A run changes its report step by step, so the report is part of the state, next to the host. Git, the file system,
  the structural parser, the models, the JSON text and the summary text of a report are parameters.
\<close>

section \<open>Configuration\<close>

record healing_config =
  hf_root :: str
  hf_base :: str
  hf_head :: str
  hf_output :: str
  hf_apply :: bool
  hf_model :: str
  hf_embedding_model :: str
  hf_effort :: str
  hf_similarity :: real
  hf_confidence :: rat
  hf_top_k :: int
  hf_max_candidates :: int
  hf_max_section :: int

definition config_error :: "str \<Rightarrow> exn" where
  "config_error s = (OtherException ''ConfigurationError'', s)"

definition validate_config :: "(str \<Rightarrow> bool) \<Rightarrow> healing_config \<Rightarrow> unit result" where
  "validate_config is_dir c =
     (if \<not> is_dir (hf_root c) then Inl (config_error (''repository root does not exist: '' @ hf_root c))
      else if hf_base c = [] \<or> hf_head c = [] then Inl (config_error ''base_sha and head_sha are required'')
      else if hf_model c = [] \<or> hf_embedding_model c = [] then Inl (config_error ''model and embedding model must be non-empty'')
      else if hf_effort c \<notin> set [''none'', ''low'', ''medium'', ''high'', ''xhigh'', ''max'']
      then Inl (config_error ''DOC_HEALING_REASONING_EFFORT must be one of none, low, medium, high, xhigh, or max'')
      else if \<not> (0 \<le> hf_similarity c \<and> hf_similarity c \<le> 1) then Inl (config_error ''similarity threshold must be in [0, 1]'')
      else if \<not> (0 \<le> hf_confidence c \<and> hf_confidence c \<le> 1) then Inl (config_error ''confidence threshold must be in [0, 1]'')
      else if hf_top_k c < 1 \<or> 20 < hf_top_k c then Inl (config_error ''top_k must be between 1 and 20'')
      else if hf_max_candidates c < hf_top_k c \<or> 100 < hf_max_candidates c
      then Inl (config_error ''max_candidates must be at least top_k and no greater than 100'')
      else if hf_max_section c < 1000 \<or> 100000 < hf_max_section c
      then Inl (config_error ''max_section_chars must be between 1000 and 100000'')
      else if hf_output c = hf_root c then Inl (config_error ''output_dir must not be the repository root'')
      else Inr ())"

text \<open>From the command line and the environment. How a text reads as a finite number is a parameter.\<close>

record healing_args =
  hg_root :: str
  hg_base :: str
  hg_head :: str
  hg_output :: str
  hg_apply :: bool

definition text_env :: "(str \<Rightarrow> str option) \<Rightarrow> str \<Rightarrow> str \<Rightarrow> str" where
  "text_env env name fallback = strip (case env name of None \<Rightarrow> fallback | Some raw \<Rightarrow> raw)"

definition float_env :: "(str \<Rightarrow> str option) \<Rightarrow> (str \<Rightarrow> rat option) \<Rightarrow> str \<Rightarrow> rat \<Rightarrow> rat result" where
  "float_env env number name fallback = (case env name of None \<Rightarrow> Inr fallback
     | Some raw \<Rightarrow> (case number raw of None \<Rightarrow> Inl (config_error (name @ '' must be a number'')) | Some x \<Rightarrow> Inr x))"

definition int_env :: "(str \<Rightarrow> str option) \<Rightarrow> (str \<Rightarrow> int option) \<Rightarrow> str \<Rightarrow> int \<Rightarrow> int result" where
  "int_env env integer name fallback = (case env name of None \<Rightarrow> Inr fallback
     | Some raw \<Rightarrow> (case integer raw of None \<Rightarrow> Inl (config_error (name @ '' must be an integer'')) | Some x \<Rightarrow> Inr x))"

definition config_from_environment ::
    "(str \<Rightarrow> bool) \<Rightarrow> (str \<Rightarrow> str) \<Rightarrow> (str \<Rightarrow> rat option) \<Rightarrow> (str \<Rightarrow> int option) \<Rightarrow> (str \<Rightarrow> str option) \<Rightarrow> healing_args \<Rightarrow>
     healing_config result" where
  "config_from_environment is_dir resolve number integer env a =
     rbind (float_env env number ''DOC_HEALING_SIMILARITY_THRESHOLD'' (45 / 100)) (\<lambda>similarity.
     rbind (float_env env number ''DOC_HEALING_CONFIDENCE_THRESHOLD'' (90 / 100)) (\<lambda>confidence.
     rbind (int_env env integer ''DOC_HEALING_TOP_K'' 5) (\<lambda>top_k.
     rbind (int_env env integer ''DOC_HEALING_MAX_CANDIDATES'' 20) (\<lambda>max_candidates.
     rbind (int_env env integer ''DOC_HEALING_MAX_SECTION_CHARS'' 16000) (\<lambda>max_section.
       let c = \<lparr>hf_root = resolve (hg_root a), hf_base = strip (hg_base a), hf_head = strip (hg_head a), hf_output = resolve (hg_output a),
          hf_apply = hg_apply a, hf_model = text_env env ''DOC_HEALING_MODEL'' ''gpt-5.6-luna'',
          hf_embedding_model = text_env env ''DOC_HEALING_EMBEDDING_MODEL'' ''text-embedding-3-small'',
          hf_effort = text_env env ''DOC_HEALING_REASONING_EFFORT'' ''low'', hf_similarity = of_rat similarity, hf_confidence = confidence,
          hf_top_k = top_k, hf_max_candidates = max_candidates, hf_max_section = max_section\<rparr>
       in rbind (validate_config is_dir c) (\<lambda>_. Inr c))))))"

section \<open>Git\<close>

text \<open>\<open>splitlines()\<close>.\<close>

definition chomp :: "str \<Rightarrow> str" where
  "chomp l = (if suffix [CHR 0x0D, CHR 0x0A] l then take (length l - 2) l
     else if l \<noteq> [] \<and> line_break (last l) then butlast l else l)"

definition text_lines :: "str \<Rightarrow> str list" where
  "text_lines s = map chomp (split_lines s)"

type_synonym 'w git = "str list \<Rightarrow> ('w, str) io"

definition resolve_commit :: "'w git \<Rightarrow> str \<Rightarrow> ('w, str) io" where
  "resolve_commit git revision = io_bind (git [''rev-parse'', ''--verify'', revision @ ''^{commit}'']) (\<lambda>out. io_return (strip out))"

definition require_head_checkout :: "'w git \<Rightarrow> str \<Rightarrow> ('w, str) io" where
  "require_head_checkout git head_sha =
     io_bind (resolve_commit git ''HEAD'') (\<lambda>current. io_bind (resolve_commit git head_sha) (\<lambda>requested.
       if current \<noteq> requested
       then io_raise (git_error (''apply mode requires HEAD '' @ requested @ '', but the worktree is at '' @ current))
       else io_return requested))"

definition require_clean_worktree :: "'w git \<Rightarrow> ('w, unit) io" where
  "require_clean_worktree git = io_bind (git [''status'', ''--porcelain'', ''--untracked-files=all'']) (\<lambda>out.
     if strip out \<noteq> [] then io_raise (git_error ''apply mode requires a clean worktree before documentation generation'')
     else io_return ())"

datatype language = Python | Go | Compose

definition compose_names :: "str list" where
  "compose_names = [''compose.yml'', ''compose.yaml'', ''docker-compose.yml'', ''docker-compose.yaml'']"

definition source_language :: "str \<Rightarrow> language option" where
  "source_language p = (let n = turn_slashes p in
     if path_suffix n = ''.py'' then Some Python else if path_suffix n = ''.go'' then Some Go
     else if path_name n \<in> set compose_names then Some Compose else None)"

definition untracked_parts :: "str list" where
  "untracked_parts = [''.git'', ''.venv'', ''node_modules'', ''vendor'', ''__pycache__'', ''.pytest_cache'', ''artifacts'']"

definition is_test_or_generated_source :: "str \<Rightarrow> bool" where
  "is_test_or_generated_source p = (let n = turn_slashes p; parts = path_parts n; name = path_name n in
     list_ex (\<lambda>q. q \<in> set untracked_parts \<or> prefix ''.venv-'' q) parts \<or> ''tests'' \<in> set parts \<or> prefix ''test_'' name
     \<or> suffix ''_test.go'' name \<or> suffix ''.generated.go'' name)"

record source_delta =
  sd_status :: str
  sd_old_path :: "str option"
  sd_new_path :: "str option"
  sd_old_text :: "str option"
  sd_new_text :: "str option"
  sd_language :: language

definition read_text_at_ref :: "'w git \<Rightarrow> (str \<Rightarrow> str result) \<Rightarrow> str \<Rightarrow> str \<Rightarrow> ('w, str) io" where
  "read_text_at_ref git decode revision p = io_bind (io_lift (validate_relative_repo_path p)) (\<lambda>n.
     io_bind (git [''show'', revision @ '':'' @ n]) (\<lambda>raw. case decode raw of
       Inl x \<Rightarrow> io_raise (git_error (''source file is not UTF-8: '' @ n)) | Inr t \<Rightarrow> io_return t))"

definition optional_text :: "('a \<Rightarrow> ('w, str) io) \<Rightarrow> 'a option \<Rightarrow> ('w, str option) io" where
  "optional_text read p = (case p of None \<Rightarrow> io_return None | Some q \<Rightarrow> io_bind (read q) (\<lambda>t. io_return (Some t)))"

text \<open>One line of \<open>git diff --name-status\<close>: its status and both paths.\<close>

definition parse_status_line :: "str \<Rightarrow> (str \<times> str option \<times> str option) result" where
  "parse_status_line l = (let fields = split_on (CHR 0x09) l; status = hd fields in
     if prefix ''R'' status \<or> prefix ''C'' status
     then (if length fields \<noteq> 3 then Inl (git_error (''unexpected rename/copy record: '' @ repr_text l))
           else Inr (status, Some (fields ! 1), Some (fields ! 2)))
     else if length fields \<noteq> 2 then Inl (git_error (''unexpected name-status record: '' @ repr_text l))
     else Inr (status, (if prefix ''A'' status then None else Some (fields ! 1)), (if prefix ''D'' status then None else Some (fields ! 1))))"

definition selected_path :: "str option \<Rightarrow> str option \<Rightarrow> str option" where
  "selected_path old new = (case new of Some p \<Rightarrow> if p = [] then old else new | None \<Rightarrow> old)"

definition source_delta_of :: "'w git \<Rightarrow> (str \<Rightarrow> str result) \<Rightarrow> str \<Rightarrow> str \<Rightarrow> str \<Rightarrow> ('w, source_delta option) io" where
  "source_delta_of git decode base head l =
     io_bind (io_lift (parse_status_line l)) (\<lambda>(status, old, new). case selected_path old new of
         None \<Rightarrow> io_return None
       | Some p \<Rightarrow> (case source_language p of
           None \<Rightarrow> io_return None
         | Some lang \<Rightarrow> if is_test_or_generated_source p then io_return None
             else io_bind (optional_text (read_text_at_ref git decode base) old) (\<lambda>ot.
                  io_bind (optional_text (read_text_at_ref git decode head) new) (\<lambda>nt.
                  io_return (Some \<lparr>sd_status = status, sd_old_path = old, sd_new_path = new, sd_old_text = ot, sd_new_text = nt, sd_language = lang\<rparr>)))))"

fun source_deltas_of :: "(str \<Rightarrow> ('w, source_delta option) io) \<Rightarrow> str list \<Rightarrow> ('w, source_delta list) io" where
  "source_deltas_of f [] = io_return []"
| "source_deltas_of f (l # ls) = (if l = [] then source_deltas_of f ls
     else io_bind (f l) (\<lambda>d. io_bind (source_deltas_of f ls) (\<lambda>ds. io_return (case d of None \<Rightarrow> ds | Some x \<Rightarrow> x # ds))))"

definition discover_source_deltas :: "'w git \<Rightarrow> (str \<Rightarrow> str result) \<Rightarrow> str \<Rightarrow> str \<Rightarrow> ('w, source_delta list) io" where
  "discover_source_deltas git decode base_sha head_sha =
     io_bind (resolve_commit git base_sha) (\<lambda>base. io_bind (resolve_commit git head_sha) (\<lambda>head.
     io_bind (git [''diff'', ''--name-status'', ''-M'', base, head, ''--'']) (\<lambda>out.
     source_deltas_of (source_delta_of git decode base head) (text_lines out))))"

text \<open>\<open>git status --porcelain\<close> after the repairs: every line has to be an expected, present, tracked Markdown file.\<close>

definition check_status_line :: "str list \<Rightarrow> str \<Rightarrow> str result" where
  "check_status_line expected l =
     (if length l < 4 then Inl (git_error (''unexpected porcelain status line: '' @ repr_text l))
      else let status = take 2 l; p = drop 3 l in
        if contains '' -> '' p \<or> status = ''??'' then Inl (git_error (''unexpected renamed or untracked path after healing: '' @ p))
        else rbind (validate_relative_repo_path p) (\<lambda>n.
          if n \<notin> set expected then Inl (git_error (''unexpected worktree change after healing: '' @ n))
          else if \<not> suffix ''.md'' (lower n) then Inl (git_error (''non-Markdown worktree change after healing: '' @ n))
          else if CHR ''D'' \<in> set status then Inl (git_error (''documentation healing must not delete files: '' @ n))
          else Inr n))"

fun check_status_lines :: "str list \<Rightarrow> str list \<Rightarrow> str list result" where
  "check_status_lines expected [] = Inr []"
| "check_status_lines expected (l # ls) = rbind (check_status_line expected l) (\<lambda>n.
     rbind (check_status_lines expected ls) (\<lambda>ns. Inr (n # ns)))"

fun valid_paths :: "str list \<Rightarrow> str list result" where
  "valid_paths [] = Inr []"
| "valid_paths (p # ps) = rbind (validate_relative_repo_path p) (\<lambda>n. rbind (valid_paths ps) (\<lambda>ns. Inr (n # ns)))"

definition validate_markdown_worktree_changes :: "'w git \<Rightarrow> str list \<Rightarrow> ('w, str list) io" where
  "validate_markdown_worktree_changes git paths =
     io_bind (io_lift (valid_paths paths)) (\<lambda>expected.
     io_bind (git [''status'', ''--porcelain'', ''--untracked-files=all'']) (\<lambda>out.
     io_bind (io_lift (check_status_lines expected (text_lines out))) (\<lambda>actual.
       let missing = filter (\<lambda>p. p \<notin> set actual) (remdups expected) in
       if missing \<noteq> [] then io_raise (git_error (''reported Markdown changes are absent from the worktree: '' @ join '', '' (sort missing)))
       else io_return (sort actual))))"

definition markdown_patch :: "'w git \<Rightarrow> str list \<Rightarrow> ('w, str) io" where
  "markdown_patch git paths = (if paths = [] then io_return [] else git ([''diff'', ''--''] @ paths))"

section \<open>Judgements\<close>

datatype complexity = Bounded | Complex

record assessment =
  as_stale :: bool
  as_confidence :: rat
  as_complexity :: complexity
  as_diagnosis :: str
  as_facts :: "str list"

record proposal =
  po_body :: str
  po_rationale :: str

record validation =
  va_accurate :: bool
  va_preserves :: bool
  va_style :: bool
  va_grounded :: bool
  va_confidence :: rat
  va_issues :: "str list"

definition approved :: "validation \<Rightarrow> bool" where
  "approved v \<longleftrightarrow> va_accurate v \<and> va_preserves v \<and> va_style v \<and> va_grounded v \<and> va_issues v = []"

record 'w repair_provider =
  hp_assess :: "structural_change list \<Rightarrow> doc_section \<Rightarrow> ('w, assessment) io"
  hp_propose :: "structural_change list \<Rightarrow> doc_section \<Rightarrow> assessment \<Rightarrow> str \<Rightarrow> ('w, proposal) io"
  hp_validate :: "structural_change list \<Rightarrow> doc_section \<Rightarrow> assessment \<Rightarrow> proposal \<Rightarrow> str \<Rightarrow> ('w, validation) io"

section \<open>The report\<close>

datatype judgement = Assessed assessment | Proposed proposal | Validated validation

record decision =
  dc_stage :: str
  dc_path :: str
  dc_heading :: str
  dc_section :: str
  dc_changes :: "str list"
  dc_output :: judgement

record verified_section =
  vf_path :: str
  vf_heading :: str
  vf_changes :: "str list"
  vf_confidence :: rat
  vf_diagnosis :: str

datatype disposition = Apply | WouldApply | Review

record repair_record =
  rc_path :: str
  rc_heading :: str
  rc_section :: str
  rc_changes :: "str list"
  rc_assessment :: rat
  rc_validation :: rat
  rc_diagnosis :: str
  rc_rationale :: str
  rc_body :: str
  rc_eligible :: bool
  rc_verdict :: validation
  rc_disposition :: disposition

record applied_repair =
  ap_path :: str
  ap_heading :: str
  ap_section :: str
  ap_changes :: "str list"
  ap_assessment :: rat
  ap_validation :: rat
  ap_diagnosis :: str
  ap_rationale :: str

datatype review_item =
    ChangeReview str str str str
  | SectionReview str str str "str list" str "rat option" "rat option"

text \<open>The changes an item is about.\<close>

fun reviewed_changes :: "review_item \<Rightarrow> str list" where
  "reviewed_changes (ChangeReview cid path symbol reason) = [cid]"
| "reviewed_changes (SectionReview path heading sid cids reason a v) = cids"

record run_report =
  rt_base :: str
  rt_head :: str
  rt_apply :: bool
  rt_config :: healing_config
  rt_changes :: "structural_change list"
  rt_mappings :: "candidate_match list"
  rt_decisions :: "decision list"
  rt_verified :: "verified_section list"
  rt_proposed :: "repair_record list"
  rt_applied :: "applied_repair list"
  rt_reviews :: "review_item list"
  rt_errors :: "(str \<times> str) list"
  rt_paths :: "str list"
  rt_status :: str

definition empty_report :: "healing_config \<Rightarrow> run_report" where
  "empty_report c = \<lparr>rt_base = hf_base c, rt_head = hf_head c, rt_apply = hf_apply c, rt_config = c, rt_changes = [], rt_mappings = [],
     rt_decisions = [], rt_verified = [], rt_proposed = [], rt_applied = [], rt_reviews = [], rt_errors = [], rt_paths = [],
     rt_status = ''running''\<rparr>"

definition success_status :: "run_report \<Rightarrow> bool \<Rightarrow> str" where
  "success_status r apply = (if rt_applied r \<noteq> [] \<and> rt_reviews r \<noteq> [] then ''repaired_with_review''
     else if rt_applied r \<noteq> [] then ''repaired'' else if rt_reviews r \<noteq> [] then ''review_required''
     else if rt_proposed r \<noteq> [] \<and> \<not> apply then ''dry_run'' else if rt_verified r \<noteq> [] then ''accurate''
     else ''no_documentation_impact'')"

record 'w healing_world =
  hw_report :: run_report
  hw_host :: 'w

definition host :: "('w, 'a) io \<Rightarrow> ('w healing_world, 'a) io" where
  "host m w = (case m (hw_host w) of (r, h) \<Rightarrow> (r, w\<lparr>hw_host := h\<rparr>))"

definition note_report :: "(run_report \<Rightarrow> run_report) \<Rightarrow> ('w healing_world, unit) io" where
  "note_report f w = (Inr (), w\<lparr>hw_report := f (hw_report w)\<rparr>)"

definition get_report :: "('w healing_world, run_report) io" where
  "get_report w = (Inr (hw_report w), w)"

definition add_review :: "review_item \<Rightarrow> run_report \<Rightarrow> run_report" where
  "add_review x r = r\<lparr>rt_reviews := rt_reviews r @ [x]\<rparr>"

definition review_for_change :: "structural_change \<Rightarrow> str \<Rightarrow> review_item" where
  "review_for_change c reason = ChangeReview (sg_id c) (sg_path c) (sg_name c) reason"

definition review_for_section :: "doc_section \<Rightarrow> structural_change list \<Rightarrow> str \<Rightarrow> rat option \<Rightarrow> rat option \<Rightarrow> review_item" where
  "review_for_section s cs reason a v = SectionReview (ds_path s) (section_label s) (ds_id s) (map sg_id cs) reason a v"

definition add_decision :: "str \<Rightarrow> doc_section \<Rightarrow> structural_change list \<Rightarrow> judgement \<Rightarrow> run_report \<Rightarrow> run_report" where
  "add_decision stage s cs j r = r\<lparr>rt_decisions := rt_decisions r @ [\<lparr>dc_stage = stage, dc_path = ds_path s, dc_heading = section_label s,
     dc_section = ds_id s, dc_changes = map sg_id cs, dc_output = j\<rparr>]\<rparr>"

section \<open>One section\<close>

record 'w healing_env =
  he_git :: "'w git"
  he_decode :: "str \<Rightarrow> str result"
  he_files :: file_checks
  he_read :: "str \<Rightarrow> ('w, str) io"
  he_put :: "str \<Rightarrow> str \<Rightarrow> ('w, unit) io"
  he_is_dir :: "str \<Rightarrow> bool"
  he_extract :: "source_delta list \<Rightarrow> structural_change list result"
  he_ready :: "('w, unit) io"
  he_embed :: "str list \<Rightarrow> ('w, vector list) io"
  he_provider :: "'w repair_provider"
  he_dash :: str
  he_json :: "run_report \<Rightarrow> str"
  he_summary :: "run_report \<Rightarrow> str"
  he_save :: "str \<Rightarrow> str \<Rightarrow> ('w, unit) io"

definition eligible :: "healing_config \<Rightarrow> structural_change list \<Rightarrow> assessment \<Rightarrow> validation \<Rightarrow> bool" where
  "eligible cfg cs a v \<longleftrightarrow> list_all sg_auto_fix cs \<and> as_complexity a = Bounded \<and> hf_confidence cfg \<le> as_confidence a \<and>
     approved v \<and> hf_confidence cfg \<le> va_confidence v"

definition ineligibility_reason :: "healing_config \<Rightarrow> structural_change list \<Rightarrow> assessment \<Rightarrow> validation \<Rightarrow> str" where
  "ineligibility_reason cfg cs a v =
     (let reasons =
        (if \<not> list_all sg_auto_fix cs then [''one or more changes are added, removed, or structurally complex''] else [])
        @ (if as_complexity a \<noteq> Bounded then [''the staleness assessment classified the repair as complex''] else [])
        @ (if as_confidence a < hf_confidence cfg
           then [''assessment confidence '' @ fixed2 (as_confidence a) @ '' is below '' @ fixed2 (hf_confidence cfg)] else [])
        @ (if \<not> approved v then [''the independent validation dimensions did not all pass''] else [])
        @ (if va_confidence v < hf_confidence cfg
           then [''validation confidence '' @ fixed2 (va_confidence v) @ '' is below '' @ fixed2 (hf_confidence cfg)] else [])
        @ (if va_issues v \<noteq> [] then [''validation issues: '' @ join ''; '' (va_issues v)] else [])
      in if join ''; '' reasons = [] then ''repair did not meet the auto-fix policy'' else join ''; '' reasons)"

definition repair_record_of ::
    "healing_config \<Rightarrow> doc_section \<Rightarrow> structural_change list \<Rightarrow> assessment \<Rightarrow> proposal \<Rightarrow> str \<Rightarrow> validation \<Rightarrow> repair_record" where
  "repair_record_of cfg s cs a p body v =
     \<lparr>rc_path = ds_path s, rc_heading = section_label s, rc_section = ds_id s, rc_changes = map sg_id cs,
      rc_assessment = as_confidence a, rc_validation = va_confidence v, rc_diagnosis = as_diagnosis a, rc_rationale = po_rationale p,
      rc_body = body, rc_eligible = eligible cfg cs a v, rc_verdict = v,
      rc_disposition = (if hf_apply cfg \<and> eligible cfg cs a v then Apply else if eligible cfg cs a v then WouldApply else Review)\<rparr>"

definition replacement_of :: "doc_section \<Rightarrow> structural_change list \<Rightarrow> assessment \<Rightarrow> str \<Rightarrow> validation \<Rightarrow> replacement" where
  "replacement_of s cs a body v = \<lparr>pm_section = s, pm_body = body, pm_changes = map sg_id cs, pm_assessment = as_confidence a,
     pm_validation = va_confidence v, pm_diagnosis = as_diagnosis a\<rparr>"

text \<open>The block is left to a person.\<close>

definition send_to_review ::
    "doc_section \<Rightarrow> structural_change list \<Rightarrow> str \<Rightarrow> rat option \<Rightarrow> rat option \<Rightarrow> ('w healing_world, (replacement \<times> repair_record) option) io" where
  "send_to_review s cs reason x y = io_then (note_report (add_review (review_for_section s cs reason x y))) (io_return None)"

text \<open>After the second opinion: the repair is recorded, and either pending or up for review.\<close>

definition conclude ::
    "healing_config \<Rightarrow> doc_section \<Rightarrow> structural_change list \<Rightarrow> assessment \<Rightarrow> proposal \<Rightarrow> str \<Rightarrow> validation \<Rightarrow>
     ('w healing_world, (replacement \<times> repair_record) option) io" where
  "conclude cfg s cs a p body v =
     (let record = repair_record_of cfg s cs a p body v in
      io_then (note_report (add_decision ''correction_validation'' s cs (Validated v)))
      (io_then (note_report (\<lambda>r. r\<lparr>rt_proposed := rt_proposed r @ [record]\<rparr>))
      (if \<not> rc_eligible record
       then send_to_review s cs (ineligibility_reason cfg cs a v) (Some (as_confidence a)) (Some (va_confidence v))
       else io_return (Some (replacement_of s cs a body v, record)))))"

text \<open>After the rewrite: mechanical checks before the second opinion.\<close>

definition check_proposal ::
    "'w healing_env \<Rightarrow> healing_config \<Rightarrow> doc_section \<Rightarrow> structural_change list \<Rightarrow> assessment \<Rightarrow> str \<Rightarrow> proposal \<Rightarrow>
     ('w healing_world, (replacement \<times> repair_record) option) io" where
  "check_proposal e cfg s cs a style p =
     (case normalize_replacement_body s (po_body p) (nat (hf_max_section cfg)) of
        Inl x \<Rightarrow> send_to_review s cs (''Generated repair failed mechanical validation: '' @ exn_message x) (Some (as_confidence a)) None
      | Inr body \<Rightarrow>
          if body = ds_body s
          then send_to_review s cs ''Staleness was reported but the generated body is unchanged'' (Some (as_confidence a)) None
          else io_bind (host (hp_validate (he_provider e) cs s a (p\<lparr>po_body := body\<rparr>) style)) (\<lambda>v. conclude cfg s cs a p body v))"

text \<open>After the assessment: an accurate block is verified, a stale one rewritten.\<close>

definition verified_of :: "doc_section \<Rightarrow> structural_change list \<Rightarrow> assessment \<Rightarrow> verified_section" where
  "verified_of s cs a = \<lparr>vf_path = ds_path s, vf_heading = section_label s, vf_changes = map sg_id cs,
     vf_confidence = as_confidence a, vf_diagnosis = as_diagnosis a\<rparr>"

definition process_section ::
    "'w healing_env \<Rightarrow> healing_config \<Rightarrow> doc_section list \<Rightarrow> doc_section \<Rightarrow> structural_change list \<Rightarrow>
     ('w healing_world, (replacement \<times> repair_record) option) io" where
  "process_section e cfg all s cs =
     (if hf_max_section cfg < int (length (ds_body s))
      then send_to_review s cs (''Section exceeds the '' @ int_text (hf_max_section cfg) @ ''-character model limit'') None None
      else io_bind (host (hp_assess (he_provider e) cs s)) (\<lambda>a.
        io_then (note_report (add_decision ''staleness_assessment'' s cs (Assessed a)))
        (if \<not> as_stale a
         then io_then (note_report (\<lambda>r. r\<lparr>rt_verified := rt_verified r @ [verified_of s cs a]\<rparr>)) (io_return None)
         else let style = neighboring_context (he_dash e) s all 2000 in
           io_bind (host (hp_propose (he_provider e) cs s a style)) (\<lambda>p.
           io_then (note_report (add_decision ''targeted_rewrite'' s cs (Proposed p)))
           (check_proposal e cfg s cs a style p)))))"

section \<open>A run\<close>

definition lookup_change :: "structural_change list \<Rightarrow> str \<Rightarrow> structural_change result" where
  "lookup_change cs i = (case map_of (rev (map (\<lambda>c. (sg_id c, c)) cs)) i of None \<Rightarrow> Inl (KeyError, i) | Some c \<Rightarrow> Inr c)"

definition unique_changes :: "structural_change list \<Rightarrow> candidate_match list \<Rightarrow> structural_change list result" where
  "unique_changes cs ms = result_map (lookup_change cs) (sort (remdups (map cm_change ms)))"

fun process_matches ::
    "'w healing_env \<Rightarrow> healing_config \<Rightarrow> structural_change list \<Rightarrow> doc_section list \<Rightarrow> (str \<times> candidate_match list) list \<Rightarrow>
     ('w healing_world, (replacement \<times> repair_record) list) io" where
  "process_matches e cfg cs all [] = io_return []"
| "process_matches e cfg cs all ((sid, ms) # gs) =
     (case map_of (rev (map (\<lambda>s. (ds_id s, s)) all)) sid of
        None \<Rightarrow> io_raise (RuntimeError, ''retrieval returned unknown section '' @ sid)
      | Some s \<Rightarrow> io_bind (io_lift (unique_changes cs ms)) (\<lambda>mine.
          io_bind (process_section e cfg all s mine) (\<lambda>p.
          io_bind (process_matches e cfg cs all gs) (\<lambda>ps. io_return (case p of None \<Rightarrow> ps | Some x \<Rightarrow> x # ps)))))"

definition unmatched_reviews :: "structural_change list \<Rightarrow> retrieval_result \<Rightarrow> review_item list" where
  "unmatched_reviews cs r = map (\<lambda>c. review_for_change c ''No Markdown section passed exact-reference or similarity retrieval'')
     (filter (\<lambda>c. sg_id c \<notin> cm_change ` set (rr_matches r) \<and> sg_id c \<notin> set (rr_truncated r)) cs)"

definition truncated_reviews :: "structural_change list \<Rightarrow> retrieval_result \<Rightarrow> review_item list result" where
  "truncated_reviews cs r = result_map (\<lambda>i. rbind (lookup_change cs i) (\<lambda>c.
     Inr (review_for_change c ''Candidate processing was truncated by DOC_HEALING_MAX_CANDIDATES''))) (rr_truncated r)"

definition add_reviews :: "review_item list \<Rightarrow> run_report \<Rightarrow> run_report" where
  "add_reviews xs r = r\<lparr>rt_reviews := rt_reviews r @ xs\<rparr>"

text \<open>From the links to the pending replacements. A missing change raises after the reviews noted before it.\<close>

definition judge_matches ::
    "'w healing_env \<Rightarrow> healing_config \<Rightarrow> structural_change list \<Rightarrow> doc_section list \<Rightarrow> retrieval_result \<Rightarrow>
     ('w healing_world, (replacement \<times> repair_record) list) io" where
  "judge_matches e cfg cs all r =
     io_then (note_report (\<lambda>t. t\<lparr>rt_mappings := rr_matches r\<rparr>))
     (io_then (note_report (add_reviews (unmatched_reviews cs r)))
     (io_bind (io_lift (truncated_reviews cs r)) (\<lambda>xs.
      io_then (note_report (add_reviews xs))
      (process_matches e cfg cs all (sort_key fst (dict_group cm_section (rr_matches r)))))))"

definition applied_of :: "replacement \<times> repair_record \<Rightarrow> applied_repair" where
  "applied_of = (\<lambda>(r, record). \<lparr>ap_path = ds_path (pm_section r), ap_heading = section_label (pm_section r), ap_section = ds_id (pm_section r),
     ap_changes = pm_changes r, ap_assessment = pm_assessment r, ap_validation = pm_validation r, ap_diagnosis = pm_diagnosis r,
     ap_rationale = rc_rationale record\<rparr>)"

definition apply_pending ::
    "'w healing_env \<Rightarrow> healing_config \<Rightarrow> markdown_document dict \<Rightarrow> (replacement \<times> repair_record) list \<Rightarrow> ('w healing_world, str) io" where
  "apply_pending e cfg docs pending =
     (if hf_apply cfg \<and> pending \<noteq> []
      then io_bind (host (apply_markdown_replacements (he_files e) (he_put e) docs (map fst pending))) (\<lambda>paths.
           io_bind (host (validate_markdown_worktree_changes (he_git e) paths)) (\<lambda>changed.
           io_then (note_report (\<lambda>r. r\<lparr>rt_paths := changed\<rparr>))
           (io_bind (host (markdown_patch (he_git e) changed)) (\<lambda>patch.
            io_then (note_report (\<lambda>r. r\<lparr>rt_applied := rt_applied r @
                map applied_of (filter (\<lambda>(q, record). ds_path (pm_section q) \<in> set changed) pending)\<rparr>))
            (io_return patch)))))
      else io_return [])"

text \<open>The changes against the loaded corpus.\<close>

definition repair_corpus ::
    "'w healing_env \<Rightarrow> healing_config \<Rightarrow> structural_change list \<Rightarrow> markdown_document dict \<Rightarrow> doc_section list \<Rightarrow> ('w healing_world, str) io" where
  "repair_corpus e cfg cs docs all =
     (if all = []
      then io_then (note_report (add_reviews (map (\<lambda>c. review_for_change c ''No tracked Markdown sections are available'') cs)))
           (io_then (note_report (\<lambda>r. r\<lparr>rt_status := ''review_required''\<rparr>)) (io_return []))
      else io_then (host (he_ready e))
        (io_bind (host (retrieve_candidates (he_embed e) (hf_similarity cfg) (nat (hf_top_k cfg)) (nat (hf_max_candidates cfg)) cs all)) (\<lambda>found.
         io_bind (judge_matches e cfg cs all found) (\<lambda>pending.
         io_bind (apply_pending e cfg docs pending) (\<lambda>patch.
         io_then (note_report (\<lambda>r. r\<lparr>rt_status := success_status r (hf_apply cfg)\<rparr>)) (io_return patch))))))"

definition execute :: "'w healing_env \<Rightarrow> healing_config \<Rightarrow> ('w healing_world, str) io" where
  "execute e cfg =
     io_bind get_report (\<lambda>r0.
     io_bind (host (discover_source_deltas (he_git e) (he_decode e) (rt_base r0) (rt_head r0))) (\<lambda>deltas.
     io_bind (io_lift (he_extract e deltas)) (\<lambda>cs.
     io_then (note_report (\<lambda>r. r\<lparr>rt_changes := cs\<rparr>))
     (if cs = [] then io_then (note_report (\<lambda>r. r\<lparr>rt_status := ''no_structural_changes''\<rparr>)) (io_return [])
      else io_bind (host (load_markdown_corpus (he_files e) (he_decode e) (he_read e) (he_git e [''ls-files'', ''-z'', ''--'', ''*.md''])))
        (\<lambda>(docs, all). repair_corpus e cfg cs docs all)))))"

section \<open>Always a report\<close>

definition write_run_outputs :: "'w healing_env \<Rightarrow> run_report \<Rightarrow> str \<Rightarrow> ('w, unit) io" where
  "write_run_outputs e r patch =
     io_then (he_save e ''report.json'' (he_json e r @ [CHR 0x0A]))
     (io_then (he_save e ''summary.md'' (he_summary e r))
     (io_then (he_save e ''changes.patch'' patch)
     (he_save e ''applied-paths.txt'' (concat (map (\<lambda>p. p @ [CHR 0x0A]) (sort (rt_paths r)))))))"

definition attempt :: "'w healing_env \<Rightarrow> healing_config \<Rightarrow> ('w healing_world, str) io" where
  "attempt e cfg =
     io_bind (host (resolve_commit (he_git e) (hf_base cfg))) (\<lambda>base. io_then (note_report (\<lambda>r. r\<lparr>rt_base := base\<rparr>))
     (io_bind (host (resolve_commit (he_git e) (hf_head cfg))) (\<lambda>head_sha. io_then (note_report (\<lambda>r. r\<lparr>rt_head := head_sha\<rparr>))
     (io_then (if hf_apply cfg
        then io_bind (host (require_head_checkout (he_git e) head_sha)) (\<lambda>_. host (require_clean_worktree (he_git e)))
        else io_return ())
      (execute e cfg)))))"

definition record_failure :: "exn \<Rightarrow> run_report \<Rightarrow> run_report" where
  "record_failure x r = r\<lparr>rt_status := ''failed'', rt_errors := rt_errors r @ [(exn_type_name (fst x), take 1000 (exn_message x))]\<rparr>"

definition run_healing :: "'w healing_env \<Rightarrow> healing_config \<Rightarrow> ('w, run_report) io" where
  "run_healing e cfg h = (case validate_config (he_is_dir e) cfg of
     Inl x \<Rightarrow> (Inl x, h)
   | Inr _ \<Rightarrow> (case attempt e cfg \<lparr>hw_report = empty_report cfg, hw_host = h\<rparr> of
       (Inr patch, w) \<Rightarrow> io_then (write_run_outputs e (hw_report w) patch) (io_return (hw_report w)) (hw_host w)
     | (Inl x, w) \<Rightarrow> (let r = record_failure x (hw_report w)
         in io_then (write_run_outputs e r []) (io_raise (OtherException ''HealingRunError'', exn_message x)) (hw_host w))))"

text \<open>The command: the output directory is relative to the root, and its exit code.\<close>

definition output_dir :: "healing_args \<Rightarrow> healing_args" where
  "output_dir a = (if prefix ''/'' (hg_output a) then a else a\<lparr>hg_output := hg_root a @ ''/'' @ hg_output a\<rparr>)"

definition healing_main ::
    "'w healing_env \<Rightarrow> (str \<Rightarrow> str) \<Rightarrow> (str \<Rightarrow> rat option) \<Rightarrow> (str \<Rightarrow> int option) \<Rightarrow> (str \<Rightarrow> str option) \<Rightarrow> healing_args \<Rightarrow> ('w, int) io" where
  "healing_main e resolve number integer env a = io_catch
     (io_bind (io_lift (config_from_environment (he_is_dir e) resolve number integer env (output_dir a))) (\<lambda>cfg.
      io_bind (run_healing e cfg) (\<lambda>r. io_return 0)))
     (\<lambda>x. if fst x \<in> {OtherException ''ConfigurationError'', OtherException ''HealingRunError''} then io_return 1 else io_raise x)"

section \<open>Weakest preconditions on reports\<close>

text \<open>From a world with report \<open>r\<close>, whatever the host does: the result and the report satisfy \<open>Q\<close>, or after an exception the report
  satisfies \<open>E\<close>.\<close>

definition settles :: "('a \<Rightarrow> run_report \<Rightarrow> bool) \<Rightarrow> (run_report \<Rightarrow> bool) \<Rightarrow> 'a result \<Rightarrow> run_report \<Rightarrow> bool" where
  "settles Q E res r = (case res of Inr x \<Rightarrow> Q x r | Inl _ \<Rightarrow> E r)"

definition yields :: "run_report \<Rightarrow> ('w healing_world, 'a) io \<Rightarrow> ('a \<Rightarrow> run_report \<Rightarrow> bool) \<Rightarrow> (run_report \<Rightarrow> bool) \<Rightarrow> bool" where
  "yields r m Q E \<longleftrightarrow> (\<forall>w res w'. hw_report w = r \<longrightarrow> m w = (res, w') \<longrightarrow> settles Q E res (hw_report w'))"

named_theorems yields_rules

lemma settles_simps [simp]: "settles Q E (Inr x) r = Q x r" "settles Q E (Inl e) r = E r"
  by (simp_all add: settles_def)

lemma yieldsD: "yields (hw_report w) m Q E \<Longrightarrow> m w = (res, w') \<Longrightarrow> settles Q E res (hw_report w')"
  by (simp add: yields_def)

lemma yields_return [yields_rules]: "Q x r \<Longrightarrow> yields r (io_return x) Q E"
  by (simp add: yields_def)

lemma yields_raise [yields_rules]: "E r \<Longrightarrow> yields r (io_raise x) Q E"
  by (simp add: yields_def)

lemma yields_lift [yields_rules]: "(\<And>x. v = Inr x \<Longrightarrow> Q x r) \<Longrightarrow> (\<And>x. v = Inl x \<Longrightarrow> E r) \<Longrightarrow> yields r (io_lift v) Q E"
  by (cases v) (simp_all add: yields_def)

lemma yields_note [yields_rules]: "Q () (f r) \<Longrightarrow> yields r (note_report f) Q E"
  by (auto simp: yields_def note_report_def)

lemma yields_get [yields_rules]: "Q r r \<Longrightarrow> yields r get_report Q E"
  by (auto simp: yields_def get_report_def)

lemma yields_host [yields_rules]:
  assumes "\<And>x. Q x r" "E r" shows "yields r (host m) Q E"
  unfolding yields_def
proof clarify
  fix w res w' assume "host m w = (res, w')" "r = hw_report w"
  then show "settles Q E res (hw_report w')" using assms by (cases res) (auto simp: host_def split: prod.splits)
qed

lemma yields_bind [yields_rules]:
  assumes "yields r m (\<lambda>x s. yields s (f x) Q E) E" shows "yields r (io_bind m f) Q E"
  unfolding yields_def
proof (intro allI impI)
  fix w res w' assume r: "hw_report w = r" and run: "io_bind m f w = (res, w')"
  obtain v w1 where m: "m w = (v, w1)" by fastforce
  with assms r have s: "settles (\<lambda>x s. yields s (f x) Q E) E v (hw_report w1)" by (simp add: yields_def)
  show "settles Q E res (hw_report w')"
  proof (cases v)
    case (Inl e)
    with run m s show ?thesis by (auto simp: io_bind_def)
  next
    case (Inr x)
    with run m have "f x w1 = (res, w')" by (simp add: io_bind_def)
    with s Inr show ?thesis by (auto intro: yieldsD)
  qed
qed

lemma yields_if [yields_rules]: "(b \<Longrightarrow> yields r m Q E) \<Longrightarrow> (\<not> b \<Longrightarrow> yields r n Q E) \<Longrightarrow> yields r (if b then m else n) Q E"
  by simp

lemma settles_mono: "settles Q E res r \<Longrightarrow> (\<And>x. Q x r \<Longrightarrow> Q' x r) \<Longrightarrow> (E r \<Longrightarrow> E' r) \<Longrightarrow> settles Q' E' res r"
  by (cases res) simp_all

lemma yields_mono:
  assumes "yields r m Q E" "\<And>x s. Q x s \<Longrightarrow> Q' x s" "\<And>s. E s \<Longrightarrow> E' s" shows "yields r m Q' E'"
  using assms settles_mono unfolding yields_def by metis

section \<open>The audit trail\<close>

definition decided :: "run_report \<Rightarrow> str \<Rightarrow> doc_section \<Rightarrow> structural_change list \<Rightarrow> judgement \<Rightarrow> bool" where
  "decided r stage s cs j \<longleftrightarrow> \<lparr>dc_stage = stage, dc_path = ds_path s, dc_heading = section_label s, dc_section = ds_id s,
     dc_changes = map sg_id cs, dc_output = j\<rparr> \<in> set (rt_decisions r)"

text \<open>A proposed repair rests on the three recorded judgements of one block and changes of the run, and its body passed the mechanical
  checks.\<close>

definition audited :: "healing_config \<Rightarrow> run_report \<Rightarrow> doc_section \<Rightarrow> repair_record \<Rightarrow> bool" where
  "audited cfg r s rc \<longleftrightarrow> (\<exists>cs a p. cs \<noteq> [] \<and> set cs \<subseteq> set (rt_changes r) \<and> as_stale a \<and>
     decided r ''staleness_assessment'' s cs (Assessed a) \<and> decided r ''targeted_rewrite'' s cs (Proposed p) \<and>
     decided r ''correction_validation'' s cs (Validated (rc_verdict rc)) \<and>
     normalize_replacement_body s (po_body p) (nat (hf_max_section cfg)) = Inr (rc_body rc) \<and> rc_body rc \<noteq> ds_body s \<and>
     rc = repair_record_of cfg s cs a p (rc_body rc) (rc_verdict rc))"

text \<open>What happens to a report while sections are judged.\<close>

definition judged :: "healing_config \<Rightarrow> run_report \<Rightarrow> run_report \<Rightarrow> bool" where
  "judged cfg r0 r \<longleftrightarrow> rt_config r = rt_config r0 \<and> rt_apply r = rt_apply r0 \<and> rt_base r = rt_base r0 \<and> rt_head r = rt_head r0 \<and>
     rt_changes r = rt_changes r0 \<and> rt_applied r = rt_applied r0 \<and> rt_errors r = rt_errors r0 \<and> rt_paths r = rt_paths r0 \<and>
     set (rt_decisions r0) \<subseteq> set (rt_decisions r) \<and> set (rt_verified r0) \<subseteq> set (rt_verified r) \<and>
     set (rt_proposed r0) \<subseteq> set (rt_proposed r) \<and> set (rt_reviews r0) \<subseteq> set (rt_reviews r) \<and>
     (\<forall>rc \<in> set (rt_proposed r) - set (rt_proposed r0). \<exists>s. audited cfg r s rc)"

definition handled :: "run_report \<Rightarrow> str \<Rightarrow> bool" where
  "handled r i \<longleftrightarrow> (\<exists>x \<in> set (rt_reviews r). i \<in> set (reviewed_changes x)) \<or> (\<exists>v \<in> set (rt_verified r). i \<in> set (vf_changes v)) \<or>
     (\<exists>rc \<in> set (rt_proposed r). i \<in> set (rc_changes rc))"

lemma judged_sets:
  assumes "judged cfg r0 r"
  shows "rt_changes r = rt_changes r0" "set (rt_decisions r0) \<subseteq> set (rt_decisions r)" "set (rt_verified r0) \<subseteq> set (rt_verified r)"
    "set (rt_proposed r0) \<subseteq> set (rt_proposed r)" "set (rt_reviews r0) \<subseteq> set (rt_reviews r)"
  using assms by (simp_all add: judged_def)

lemma decided_mono: "decided r stage s cs j \<Longrightarrow> judged cfg r r' \<Longrightarrow> decided r' stage s cs j"
  unfolding decided_def using judged_sets(2) by blast

lemma audited_mono:
  assumes "audited cfg r s rc" "judged cfg r r'" shows "audited cfg r' s rc"
proof -
  note keep = decided_mono [OF _ assms(2)]
  from assms(1) obtain cs a p where x: "cs \<noteq> []" "set cs \<subseteq> set (rt_changes r)" "as_stale a"
    "decided r ''staleness_assessment'' s cs (Assessed a)" "decided r ''targeted_rewrite'' s cs (Proposed p)"
    "decided r ''correction_validation'' s cs (Validated (rc_verdict rc))"
    "normalize_replacement_body s (po_body p) (nat (hf_max_section cfg)) = Inr (rc_body rc)" "rc_body rc \<noteq> ds_body s"
    "rc = repair_record_of cfg s cs a p (rc_body rc) (rc_verdict rc)"
    unfolding audited_def by metis
  show ?thesis unfolding audited_def judged_sets(1) [OF assms(2)]
    by (intro exI conjI) (rule x(1) x(2) x(3) keep [OF x(4)] keep [OF x(5)] keep [OF x(6)] x(7) x(8) x(9))+
qed

lemma handled_mono: "handled r i \<Longrightarrow> judged cfg r r' \<Longrightarrow> handled r' i"
  unfolding handled_def judged_def by blast

lemma judged_refl [simp]: "judged cfg r r"
  by (simp add: judged_def)

lemma judged_trans:
  assumes "judged cfg a b" "judged cfg b c" shows "judged cfg a c"
proof -
  have "\<exists>s. audited cfg c s rc" if "rc \<in> set (rt_proposed c) - set (rt_proposed a)" for rc
  proof (cases "rc \<in> set (rt_proposed b)")
    case True
    with assms(1) that obtain s where "audited cfg b s rc" unfolding judged_def by blast
    with audited_mono [OF _ assms(2)] show ?thesis by blast
  next
    case False
    with assms(2) that show ?thesis unfolding judged_def by blast
  qed
  with assms show ?thesis unfolding judged_def by (auto dest: subset_trans)
qed

section \<open>Judging\<close>

text \<open>A pending replacement comes from an eligible, audited record of a block of the corpus.\<close>

definition pending_ok :: "healing_config \<Rightarrow> run_report \<Rightarrow> doc_section list \<Rightarrow> replacement \<times> repair_record \<Rightarrow> bool" where
  "pending_ok cfg r all qr \<longleftrightarrow> (let q = fst qr; rc = snd qr in
     pm_section q \<in> set all \<and> rc \<in> set (rt_proposed r) \<and> rc_eligible rc \<and> audited cfg r (pm_section q) rc \<and>
     pm_body q = rc_body rc \<and> pm_changes q = rc_changes rc \<and> pm_assessment q = rc_assessment rc \<and>
     pm_validation q = rc_validation rc \<and> pm_diagnosis q = rc_diagnosis rc)"

lemma pending_ok_mono:
  assumes "pending_ok cfg r all qr" "judged cfg r r'" shows "pending_ok cfg r' all qr"
  using assms(1) judged_sets(4) [OF assms(2)] audited_mono [OF _ assms(2)] unfolding pending_ok_def Let_def by blast

lemmas noted = judged_def audited_def decided_def handled_def add_decision_def add_review_def

lemma judged_decision [simp]: "judged cfg r (add_decision stage s cs j r)"
  by (auto simp: judged_def add_decision_def)

lemma judged_review [simp]: "judged cfg r (add_review x r)"
  by (auto simp: judged_def add_review_def)

lemma judged_verified [simp]: "judged cfg r (r\<lparr>rt_verified := rt_verified r @ xs\<rparr>)"
  by (auto simp: judged_def)

lemma judged_proposed: "audited cfg r s rc \<Longrightarrow> judged cfg r (r\<lparr>rt_proposed := rt_proposed r @ [rc]\<rparr>)"
  by (auto simp: judged_def audited_def decided_def)

lemma decided_now [simp]: "decided (add_decision stage s cs j r) stage s cs j"
  by (simp add: decided_def add_decision_def)

text \<open>What processing a block promises: its changes end up in the report, and a pending replacement is one of this block.\<close>

definition section_done ::
    "healing_config \<Rightarrow> run_report \<Rightarrow> doc_section list \<Rightarrow> doc_section \<Rightarrow> structural_change list \<Rightarrow> (replacement \<times> repair_record) option \<Rightarrow>
     run_report \<Rightarrow> bool" where
  "section_done cfg r0 all s cs x r \<longleftrightarrow> judged cfg r0 r \<and> (\<forall>c \<in> set cs. handled r (sg_id c)) \<and>
     (\<forall>q \<in> set_option x. pending_ok cfg r all q \<and> pm_section (fst q) = s)"

lemma section_done_trans: "judged cfg r0 r1 \<Longrightarrow> section_done cfg r1 all s cs x r \<Longrightarrow> section_done cfg r0 all s cs x r"
  unfolding section_done_def using judged_trans by blast

lemma conclude_yields:
  assumes "cs \<noteq> []" "set cs \<subseteq> set (rt_changes r)" "as_stale a" "decided r ''staleness_assessment'' s cs (Assessed a)"
    "decided r ''targeted_rewrite'' s cs (Proposed p)" "normalize_replacement_body s (po_body p) (nat (hf_max_section cfg)) = Inr body"
    "body \<noteq> ds_body s" "s \<in> set all"
  shows "yields r (conclude cfg s cs a p body v) (section_done cfg r all s cs) (judged cfg r)"
proof -
  let ?rc = "repair_record_of cfg s cs a p body v"
  let ?r1 = "add_decision ''correction_validation'' s cs (Validated v) r"
  let ?r2 = "?r1\<lparr>rt_proposed := rt_proposed ?r1 @ [?rc]\<rparr>"
  note j1 = judged_decision [where r = r and stage = "''correction_validation''" and s = s and cs = cs and j = "Validated v" and cfg = cfg]
  have rc: "rc_body ?rc = body" "rc_verdict ?rc = v" "rc_changes ?rc = map sg_id cs" by (simp_all add: repair_record_of_def)
  have aud: "audited cfg ?r1 s ?rc"
    unfolding audited_def rc judged_sets(1) [OF j1]
    by (intro exI [of _ cs] exI [of _ a] exI [of _ p] conjI)
      (simp_all add: assms decided_mono [OF _ j1])
  note j2 = judged_proposed [OF aud]
  have j: "judged cfg r ?r2" by (rule judged_trans [OF j1 j2])
  have h: "\<forall>c \<in> set cs. handled ?r2 (sg_id c)" by (auto simp: handled_def rc)
  show ?thesis
  proof (cases "rc_eligible ?rc")
    case True
    have "pending_ok cfg ?r2 all (replacement_of s cs a body v, ?rc)"
      using True assms(8) audited_mono [OF aud j2] by (simp add: pending_ok_def replacement_of_def repair_record_of_def)
    with True j j1 h show ?thesis unfolding conclude_def Let_def
      by (intro yields_rules) (simp_all add: section_done_def replacement_of_def)
  next
    case False
    have "judged cfg r (add_review x ?r2)" for x by (rule judged_trans [OF j]) simp
    moreover have "\<forall>c \<in> set cs. handled (add_review x ?r2) (sg_id c)" for x using h by (auto intro: handled_mono [where cfg = cfg])
    ultimately show ?thesis using False unfolding conclude_def Let_def send_to_review_def
      by (intro yields_rules) (simp_all add: section_done_def)
  qed
qed

lemma judged_review_of:
  "judged cfg r (add_review (review_for_section s cs reason x y) r) \<and>
   (\<forall>c \<in> set cs. handled (add_review (review_for_section s cs reason x y) r) (sg_id c))"
  by (auto simp: judged_def add_review_def handled_def review_for_section_def)

lemma send_to_review_yields:
  assumes "judged cfg r0 r" shows "yields r (send_to_review s cs reason x y) (section_done cfg r0 all s cs) E"
  unfolding send_to_review_def
  by (intro yields_rules) (simp add: section_done_def judged_review_of judged_trans [OF assms])

lemma check_proposal_yields:
  assumes "judged cfg r0 r" "cs \<noteq> []" "set cs \<subseteq> set (rt_changes r)" "as_stale a" "decided r ''staleness_assessment'' s cs (Assessed a)"
    "decided r ''targeted_rewrite'' s cs (Proposed p)" "s \<in> set all"
  shows "yields r (check_proposal e cfg s cs a style p) (section_done cfg r0 all s cs) (judged cfg r0)"
proof (cases "normalize_replacement_body s (po_body p) (nat (hf_max_section cfg))")
  case (Inl x)
  then show ?thesis using send_to_review_yields [OF assms(1)] by (simp add: check_proposal_def)
next
  case (Inr body)
  have "yields r (conclude cfg s cs a p body v) (section_done cfg r0 all s cs) (judged cfg r0)" if "body \<noteq> ds_body s" for v
    by (rule yields_mono [OF conclude_yields [OF assms(2-6) Inr that assms(7), where v = v]])
      (auto intro: section_done_trans [OF assms(1)] judged_trans [OF assms(1)])
  then show ?thesis using Inr send_to_review_yields [OF assms(1)] assms(1)
    by (auto simp: check_proposal_def intro!: yields_bind yields_host)
qed

lemma process_section_yields:
  assumes "cs \<noteq> []" "set cs \<subseteq> set (rt_changes r)" "s \<in> set all"
  shows "yields r (process_section e cfg all s cs) (section_done cfg r all s cs) (judged cfg r)"
proof -
  have verified: "section_done cfg r all s cs None (t\<lparr>rt_verified := rt_verified t @ [verified_of s cs a]\<rparr>)" if "judged cfg r t" for t a
    using judged_trans [OF that judged_verified] by (auto simp: section_done_def handled_def verified_of_def)
  have proposed: "yields (add_decision ''targeted_rewrite'' s cs (Proposed p) (add_decision ''staleness_assessment'' s cs (Assessed a) r))
      (check_proposal e cfg s cs a style p) (section_done cfg r all s cs) (judged cfg r)" if "as_stale a" for a p style
  proof (rule check_proposal_yields)
    show "judged cfg r (add_decision ''targeted_rewrite'' s cs (Proposed p) (add_decision ''staleness_assessment'' s cs (Assessed a) r))"
      by (rule judged_trans [OF judged_decision judged_decision])
  qed (use assms that in \<open>simp_all add: decided_mono [OF decided_now judged_decision [where cfg = cfg]]\<close>, simp add: add_decision_def)
  show ?thesis unfolding process_section_def Let_def
    by (intro yields_rules send_to_review_yields proposed verified) (simp_all add: verified)
qed

lemma lookup_change_Inr: "lookup_change cs i = Inr c \<Longrightarrow> c \<in> set cs \<and> sg_id c = i"
  by (auto simp: lookup_change_def split: option.splits dest!: map_of_SomeD)

lemma unique_changes_Inr:
  assumes "unique_changes cs ms = Inr mine"
  shows "set mine \<subseteq> set cs" "sg_id ` set mine = cm_change ` set ms" "ms \<noteq> [] \<Longrightarrow> mine \<noteq> []"
proof -
  have l: "list_all2 (\<lambda>i c. lookup_change cs i = Inr c) (sort (remdups (map cm_change ms))) mine"
    using assms by (simp add: unique_changes_def result_map_Inr)
  then have "list_all2 (\<lambda>i c. c \<in> set cs \<and> sg_id c = i) (sort (remdups (map cm_change ms))) mine"
    by (rule list_all2_mono) (simp add: lookup_change_Inr)
  then have "set mine \<subseteq> set cs \<and> map sg_id mine = sort (remdups (map cm_change ms))"
    by (induction rule: list_all2_induct) auto
  then have m: "set mine \<subseteq> set cs" "map sg_id mine = sort (remdups (map cm_change ms))" by auto
  show "set mine \<subseteq> set cs" by (rule m(1))
  show ids: "sg_id ` set mine = cm_change ` set ms" using arg_cong [OF m(2), of set] by simp
  show "mine \<noteq> []" if "ms \<noteq> []" using ids that by auto
qed

definition groups_done ::
    "healing_config \<Rightarrow> run_report \<Rightarrow> doc_section list \<Rightarrow> (str \<times> candidate_match list) list \<Rightarrow> (replacement \<times> repair_record) list \<Rightarrow>
     run_report \<Rightarrow> bool" where
  "groups_done cfg r0 all gs ps r \<longleftrightarrow> judged cfg r0 r \<and> (\<forall>(sid, ms) \<in> set gs. \<forall>m \<in> set ms. handled r (cm_change m)) \<and>
     (\<forall>q \<in> set ps. pending_ok cfg r all q) \<and> subseq (map (\<lambda>q. ds_id (pm_section (fst q))) ps) (map fst gs)"

lemma groups_done_Cons:
  assumes "section_done cfg r0 all s mine x r1" "groups_done cfg r1 all gs ps r" "ds_id s = sid" "sg_id ` set mine = cm_change ` set ms"
  shows "groups_done cfg r0 all ((sid, ms) # gs) (case x of None \<Rightarrow> ps | Some q \<Rightarrow> q # ps) r"
proof -
  have j: "judged cfg r0 r1" "judged cfg r1 r" using assms(1,2) by (simp_all add: section_done_def groups_done_def)
  have "handled r1 (cm_change m)" if "m \<in> set ms" for m
    using assms(1) assms(4) that unfolding section_done_def by (metis imageE image_eqI)
  then have "\<forall>m \<in> set ms. handled r (cm_change m)" using handled_mono [OF _ j(2)] by blast
  moreover have "\<forall>q \<in> set_option x. pending_ok cfg r all q \<and> ds_id (pm_section (fst q)) = sid"
    using assms(1,3) pending_ok_mono [OF _ j(2)] by (auto simp: section_done_def)
  ultimately show ?thesis using assms(2) judged_trans [OF j] by (auto simp: groups_done_def split: option.split)
qed

lemma process_matches_yields:
  assumes "set cs \<subseteq> set (rt_changes r)" "\<forall>(sid, ms) \<in> set gs. ms \<noteq> []"
  shows "yields r (process_matches e cfg cs all gs) (groups_done cfg r all gs) (judged cfg r)"
  using assms
proof (induction gs arbitrary: r)
  case Nil
  show ?case unfolding process_matches.simps by (rule yields_return) (simp add: groups_done_def)
next
  case (Cons g gs)
  obtain sid ms where g: "g = (sid, ms)" by fastforce
  show ?case
  proof (cases "map_of (rev (map (\<lambda>s. (ds_id s, s)) all)) sid")
    case None
    then show ?thesis unfolding g process_matches.simps by (simp only: option.case) (rule yields_raise, simp)
  next
    case (Some s)
    then have s: "s \<in> set all" "ds_id s = sid" by (auto dest!: map_of_SomeD)
    have rest: "yields r1 (io_bind (process_matches e cfg cs all gs) (\<lambda>ps. io_return (case x of None \<Rightarrow> ps | Some q \<Rightarrow> q # ps)))
        (groups_done cfg r all ((sid, ms) # gs)) (judged cfg r)"
      if "unique_changes cs ms = Inr mine" "section_done cfg r all s mine x r1" for mine x r1
    proof -
      have j: "judged cfg r r1" using that(2) by (simp add: section_done_def)
      have "yields r1 (process_matches e cfg cs all gs) (groups_done cfg r1 all gs) (judged cfg r1)"
        using Cons.prems judged_sets(1) [OF j] by (intro Cons.IH) auto
      then have "yields r1 (process_matches e cfg cs all gs)
          (\<lambda>ps t. yields t (io_return (case x of None \<Rightarrow> ps | Some q \<Rightarrow> q # ps)) (groups_done cfg r all ((sid, ms) # gs)) (judged cfg r)) (judged cfg r)"
        by (rule yields_mono)
          (auto intro!: yields_return intro: judged_trans [OF j] groups_done_Cons [OF that(2) _ s(2) unique_changes_Inr(2) [OF that(1)]])
      then show ?thesis by (rule yields_bind)
    qed
    have "yields r (process_section e cfg all s mine) (\<lambda>x t. yields t (io_bind (process_matches e cfg cs all gs)
        (\<lambda>ps. io_return (case x of None \<Rightarrow> ps | Some q \<Rightarrow> q # ps))) (groups_done cfg r all ((sid, ms) # gs)) (judged cfg r)) (judged cfg r)"
      if u: "unique_changes cs ms = Inr mine" for mine
      using unique_changes_Inr [OF u] Cons.prems rest [OF u]
      by (intro yields_mono [OF process_section_yields [OF _ _ s(1)]]) (auto simp: g)
    then show ?thesis unfolding g process_matches.simps Some
      by (simp only: option.case) (auto intro!: yields_bind yields_lift)
  qed
qed

lemma judged_reviews [simp]: "judged cfg r (add_reviews xs r)"
  by (auto simp: judged_def add_reviews_def)

lemma judged_mappings [simp]: "judged cfg r (r\<lparr>rt_mappings := ms\<rparr>)"
  by (auto simp: judged_def)

lemma reviews_handled: "x \<in> set xs \<Longrightarrow> i \<in> set (reviewed_changes x) \<Longrightarrow> handled (add_reviews xs r) i"
  by (auto simp: handled_def add_reviews_def)

lemma truncated_reviews_Inr:
  assumes "truncated_reviews cs found = Inr xs" "i \<in> set (rr_truncated found)"
  shows "\<exists>x \<in> set xs. i \<in> set (reviewed_changes x)"
proof -
  have "list_all2 (\<lambda>i x. reviewed_changes x = [i]) (rr_truncated found) xs"
    using assms(1) unfolding truncated_reviews_def result_map_Inr
    by (rule list_all2_mono) (auto simp: rbind_eq_Inr review_for_change_def dest: lookup_change_Inr)
  then show ?thesis using assms(2) by (induction rule: list_all2_induct) auto
qed

text \<open>All changes are accounted for, and the pending replacements are for different blocks of the corpus.\<close>

lemma judge_matches_yields:
  assumes "rt_changes r = cs"
  shows "yields r (judge_matches e cfg cs all found)
    (\<lambda>ps t. judged cfg r t \<and> (\<forall>c \<in> set cs. handled t (sg_id c)) \<and> (\<forall>q \<in> set ps. pending_ok cfg t all q) \<and>
       distinct (map (\<lambda>q. ds_id (pm_section (fst q))) ps))
    (judged cfg r)"
proof -
  let ?gs = "sort_key fst (dict_group cm_section (rr_matches found))"
  let ?r2 = "add_reviews (unmatched_reviews cs found) (r\<lparr>rt_mappings := rr_matches found\<rparr>)"
  have j2: "judged cfg r ?r2" by (rule judged_trans [OF judged_mappings judged_reviews])
  have keys: "distinct (map fst ?gs)" using distinct_dict_group [of cm_section "rr_matches found"]
    by (metis mset_eq_imp_distinct_iff mset_map mset_sort)
  have ne: "\<forall>(sid, ms) \<in> set ?gs. ms \<noteq> []" by (auto simp: set_dict_group filter_empty_conv empty_filter_conv)
  have "yields (add_reviews xs ?r2) (process_matches e cfg cs all ?gs)
    (\<lambda>ps t. judged cfg r t \<and> (\<forall>c \<in> set cs. handled t (sg_id c)) \<and> (\<forall>q \<in> set ps. pending_ok cfg t all q) \<and>
       distinct (map (\<lambda>q. ds_id (pm_section (fst q))) ps)) (judged cfg r)" if xs: "truncated_reviews cs found = Inr xs" for xs
  proof (rule yields_mono [OF process_matches_yields [OF _ ne]])
    have j3: "judged cfg r (add_reviews xs ?r2)" by (rule judged_trans [OF j2 judged_reviews])
    show "set cs \<subseteq> set (rt_changes (add_reviews xs ?r2))" using judged_sets(1) [OF j3] assms by simp
    show "judged cfg r t" if "judged cfg (add_reviews xs ?r2) t" for t by (rule judged_trans [OF j3 that])
    fix ps t assume d: "groups_done cfg (add_reviews xs ?r2) all ?gs ps t"
    then have j: "judged cfg (add_reviews xs ?r2) t" by (simp add: groups_done_def)
    have "handled t (sg_id c)" if c: "c \<in> set cs" for c
    proof -
      consider "sg_id c \<in> cm_change ` set (rr_matches found)" | "sg_id c \<in> set (rr_truncated found)"
        | "sg_id c \<notin> cm_change ` set (rr_matches found)" "sg_id c \<notin> set (rr_truncated found)" by blast
      then show ?thesis
      proof cases
        case 1
        then obtain m where m: "m \<in> set (rr_matches found)" "cm_change m = sg_id c" by auto
        then have "(cm_section m, filter (\<lambda>x. cm_section x = cm_section m) (rr_matches found)) \<in> set ?gs" by (simp add: set_dict_group)
        with d m show ?thesis by (fastforce simp: groups_done_def)
      next
        case 2
        then show ?thesis using truncated_reviews_Inr [OF xs] reviews_handled handled_mono [OF _ j] by blast
      next
        case 3
        then have "\<exists>x \<in> set (unmatched_reviews cs found). sg_id c \<in> set (reviewed_changes x)"
          using c by (force simp: unmatched_reviews_def review_for_change_def)
        then show ?thesis using reviews_handled handled_mono [OF _ judged_trans [OF judged_reviews j]] by blast
      qed
    qed
    then show "judged cfg r t \<and> (\<forall>c \<in> set cs. handled t (sg_id c)) \<and> (\<forall>q \<in> set ps. pending_ok cfg t all q) \<and>
       distinct (map (\<lambda>q. ds_id (pm_section (fst q))) ps)"
      using d judged_trans [OF j3 j] keys by (auto simp: groups_done_def subseq_conv_nths distinct_nthsI)
  qed
  then show ?thesis using j2 unfolding judge_matches_def
    by (intro yields_bind [where m = "note_report f" for f] yields_note yields_bind [where m = "io_lift v" for v] yields_lift)
qed

section \<open>Reports of runs\<close>

text \<open>What holds of every report that is written: each proposal is audited, and an applied repair is an eligible proposal whose
  file changed.\<close>

definition applied_from :: "applied_repair \<Rightarrow> repair_record \<Rightarrow> bool" where
  "applied_from a rc \<longleftrightarrow> rc_disposition rc = Apply \<and> ap_path a = rc_path rc \<and> ap_heading a = rc_heading rc \<and> ap_section a = rc_section rc \<and>
     ap_changes a = rc_changes rc \<and> ap_assessment a = rc_assessment rc \<and> ap_validation a = rc_validation rc \<and>
     ap_diagnosis a = rc_diagnosis rc \<and> ap_rationale a = rc_rationale rc"

definition report_sound :: "healing_config \<Rightarrow> run_report \<Rightarrow> bool" where
  "report_sound cfg r \<longleftrightarrow> rt_config r = cfg \<and> rt_apply r = hf_apply cfg \<and> (\<forall>rc \<in> set (rt_proposed r). \<exists>s. audited cfg r s rc) \<and>
     (\<forall>a \<in> set (rt_applied r). ap_path a \<in> set (rt_paths r) \<and> (\<exists>rc \<in> set (rt_proposed r). applied_from a rc))"

text \<open>The policy an audited record that was applied has met.\<close>

lemma applied_policy:
  assumes "audited cfg r s rc" "rc_disposition rc = Apply"
  shows "hf_apply cfg" "hf_confidence cfg \<le> rc_assessment rc" "hf_confidence cfg \<le> rc_validation rc" "approved (rc_verdict rc)"
    "rc_changes rc \<noteq> []" "\<forall>i \<in> set (rc_changes rc). \<exists>c \<in> set (rt_changes r). sg_id c = i \<and> sg_auto_fix c"
proof -
  from assms(1) obtain cs a p where x: "cs \<noteq> []" "set cs \<subseteq> set (rt_changes r)"
    "rc = repair_record_of cfg s cs a p (rc_body rc) (rc_verdict rc)" unfolding audited_def by metis
  have "rc_disposition rc = (if hf_apply cfg \<and> eligible cfg cs a (rc_verdict rc) then Apply
      else if eligible cfg cs a (rc_verdict rc) then WouldApply else Review)"
    by (subst x(3)) (simp add: repair_record_of_def)
  then have e: "hf_apply cfg \<and> eligible cfg cs a (rc_verdict rc)" using assms(2) by (simp split: if_splits)
  have f: "rc_assessment rc = as_confidence a" "rc_validation rc = va_confidence (rc_verdict rc)" "rc_changes rc = map sg_id cs"
    by (subst x(3), simp add: repair_record_of_def)+
  show "hf_apply cfg" "hf_confidence cfg \<le> rc_assessment rc" "hf_confidence cfg \<le> rc_validation rc" "approved (rc_verdict rc)"
    using e by (simp_all add: f eligible_def)
  show "rc_changes rc \<noteq> []" using x(1) by (simp add: f)
  show "\<forall>i \<in> set (rc_changes rc). \<exists>c \<in> set (rt_changes r). sg_id c = i \<and> sg_auto_fix c"
    using e x(2) by (auto simp: f eligible_def list_all_iff)
qed

definition untouched :: "healing_config \<Rightarrow> run_report \<Rightarrow> bool" where
  "untouched cfg r \<longleftrightarrow> rt_config r = cfg \<and> rt_apply r = hf_apply cfg \<and> rt_proposed r = [] \<and> rt_applied r = [] \<and> rt_errors r = []"

definition in_order :: "healing_config \<Rightarrow> run_report \<Rightarrow> bool" where
  "in_order cfg r \<longleftrightarrow> report_sound cfg r \<and> rt_errors r = []"

definition complete :: "healing_config \<Rightarrow> run_report \<Rightarrow> bool" where
  "complete cfg r \<longleftrightarrow> in_order cfg r \<and> (\<forall>c \<in> set (rt_changes r). handled r (sg_id c))"

lemma untouched_in_order: "untouched cfg r \<Longrightarrow> in_order cfg r"
  by (simp add: untouched_def in_order_def report_sound_def)

lemma judged_in_order: "untouched cfg r0 \<Longrightarrow> judged cfg r0 r \<Longrightarrow> in_order cfg r \<and> rt_applied r = []"
  by (auto simp: untouched_def in_order_def report_sound_def judged_def)

lemma applied_of_pending:
  assumes "pending_ok cfg r all qr" "hf_apply cfg" shows "applied_from (applied_of qr) (snd qr) \<and> snd qr \<in> set (rt_proposed r)"
proof -
  obtain q rc where q: "qr = (q, rc)" by fastforce
  from assms(1) have ok: "rc \<in> set (rt_proposed r)" "rc_eligible rc" "audited cfg r (pm_section q) rc" "pm_changes q = rc_changes rc"
    "pm_assessment q = rc_assessment rc" "pm_validation q = rc_validation rc" "pm_diagnosis q = rc_diagnosis rc"
    by (simp_all add: pending_ok_def q Let_def)
  from ok(3) obtain cs a p where rc: "rc = repair_record_of cfg (pm_section q) cs a p (rc_body rc) (rc_verdict rc)"
    unfolding audited_def by metis
  have "rc_path rc = ds_path (pm_section q)" "rc_heading rc = section_label (pm_section q)" "rc_section rc = ds_id (pm_section q)"
    by (subst rc, simp add: repair_record_of_def)+
  moreover have "rc_eligible rc = eligible cfg cs a (rc_verdict rc)" by (subst rc) (simp add: repair_record_of_def)
  moreover have "rc_disposition rc = (if hf_apply cfg \<and> eligible cfg cs a (rc_verdict rc) then Apply
      else if eligible cfg cs a (rc_verdict rc) then WouldApply else Review)"
    by (subst rc) (simp add: repair_record_of_def)
  ultimately show ?thesis using ok assms(2) by (simp add: applied_from_def applied_of_def q)
qed

lemma audited_cong:
  "audited cfg (r\<lparr>rt_paths := ps\<rparr>) s rc = audited cfg r s rc" "audited cfg (r\<lparr>rt_applied := xs\<rparr>) s rc = audited cfg r s rc"
  "audited cfg (r\<lparr>rt_status := st\<rparr>) s rc = audited cfg r s rc" "audited cfg (r\<lparr>rt_errors := es\<rparr>) s rc = audited cfg r s rc"
  by (simp_all add: audited_def decided_def)

lemma handled_cong:
  "handled (r\<lparr>rt_paths := ps\<rparr>) i = handled r i" "handled (r\<lparr>rt_applied := xs\<rparr>) i = handled r i" "handled (r\<lparr>rt_status := st\<rparr>) i = handled r i"
  by (simp_all add: handled_def)

lemma apply_pending_yields:
  assumes "complete cfg r" "rt_applied r = []" "\<forall>q \<in> set pending. pending_ok cfg r all q"
  shows "yields r (apply_pending e cfg docs pending) (\<lambda>_. complete cfg) (in_order cfg)"
proof (cases "hf_apply cfg")
  case False
  then show ?thesis unfolding apply_pending_def by (simp del: io_simps) (rule yields_return, rule assms(1))
next
  case True
  have 1: "in_order cfg (r\<lparr>rt_paths := ps\<rparr>)" for ps
    using assms(1,2) by (simp add: complete_def in_order_def report_sound_def audited_cong)
  have 2: "complete cfg (r\<lparr>rt_paths := ps, rt_applied := map applied_of (filter (\<lambda>(q, record). ds_path (pm_section q) \<in> set ps) pending)\<rparr>)" for ps
  proof -
    have "ap_path (applied_of q) \<in> set ps \<and> (\<exists>rc \<in> set (rt_proposed r). applied_from (applied_of q) rc)"
      if "q \<in> set pending" "ds_path (pm_section (fst q)) \<in> set ps" for q
      using applied_of_pending [OF _ True] assms(3) that by (force simp: applied_of_def split: prod.splits)
    then show ?thesis using assms(1) by (fastforce simp: complete_def in_order_def report_sound_def audited_cong handled_cong)
  qed
  have "in_order cfg r" using assms(1) by (simp add: complete_def)
  then show ?thesis unfolding apply_pending_def
    by (intro yields_rules) (use 1 2 assms(1,2) in \<open>simp_all\<close>)
qed

lemma complete_status: "complete cfg r \<Longrightarrow> complete cfg (r\<lparr>rt_status := st\<rparr>)"
  by (simp add: complete_def in_order_def report_sound_def audited_cong handled_cong)

lemma execute_yields:
  assumes "untouched cfg r" shows "yields r (execute e cfg) (\<lambda>_. complete cfg) (in_order cfg)"
proof -
  let ?r = "\<lambda>cs. r\<lparr>rt_changes := cs\<rparr>"
  have u: "untouched cfg (?r cs)" for cs using assms by (simp add: untouched_def)
  have none: "complete cfg (?r []\<lparr>rt_status := st\<rparr>)" for st
    using untouched_in_order [OF u [of "[]"]] by (intro complete_status) (simp add: complete_def)
  have no_docs: "complete cfg (add_reviews (map (\<lambda>c. review_for_change c s) cs) (?r cs)\<lparr>rt_status := st\<rparr>)" for cs s st
  proof (rule complete_status)
    have "handled (add_reviews (map (\<lambda>c. review_for_change c s) cs) (?r cs)) (sg_id c)" if "c \<in> set cs" for c
      using that by (intro reviews_handled [of "review_for_change c s"]) (auto simp: review_for_change_def)
    then show "complete cfg (add_reviews (map (\<lambda>c. review_for_change c s) cs) (?r cs))"
      using judged_in_order [OF u judged_reviews] by (simp add: complete_def add_reviews_def)
  qed
  have judge: "yields (?r cs) (io_bind (judge_matches e cfg cs all found) (\<lambda>pending.
           io_bind (apply_pending e cfg docs pending) (\<lambda>patch.
           io_then (note_report (\<lambda>r. r\<lparr>rt_status := success_status r (hf_apply cfg)\<rparr>)) (io_return patch)))) (\<lambda>_. complete cfg) (in_order cfg)"
    for cs all found docs
  proof (rule yields_bind, rule yields_mono [OF judge_matches_yields])
    show "in_order cfg t" if "judged cfg (?r cs) t" for t using judged_in_order [OF u that] by simp
    fix ps t
    assume a: "judged cfg (?r cs) t \<and> (\<forall>c \<in> set cs. handled t (sg_id c)) \<and> (\<forall>q \<in> set ps. pending_ok cfg t all q) \<and>
       distinct (map (\<lambda>q. ds_id (pm_section (fst q))) ps)"
    then have "complete cfg t \<and> rt_applied t = []"
      using judged_in_order [OF u, of cs t] judged_sets(1) [of cfg "?r cs" t] by (simp add: complete_def)
    then have "yields t (apply_pending e cfg docs ps) (\<lambda>_. complete cfg) (in_order cfg)"
      using a by (intro apply_pending_yields) auto
    then show "yields t (io_bind (apply_pending e cfg docs ps) (\<lambda>patch.
           io_then (note_report (\<lambda>r. r\<lparr>rt_status := success_status r (hf_apply cfg)\<rparr>)) (io_return patch))) (\<lambda>_. complete cfg) (in_order cfg)"
      by (intro yields_bind, elim yields_mono) (auto intro!: yields_bind yields_note yields_return complete_status)
  qed simp
  note ok = untouched_in_order [OF assms] untouched_in_order [OF u]
  show ?thesis unfolding execute_def repair_corpus_def
    by (intro yields_bind [where m = get_report] yields_get yields_bind [where m = "host m" for m] yields_host yields_bind [where m = "io_lift v" for v]
        yields_lift yields_bind [where m = "note_report f" for f] yields_note yields_if yields_return ok)
      (auto simp: none no_docs ok intro!: yields_if yields_bind [where m = "host m" for m] yields_host
        yields_bind [where m = "note_report f" for f] yields_note yields_return judge)
qed

lemma attempt_yields: "yields (empty_report cfg) (attempt e cfg) (\<lambda>_. complete cfg) (in_order cfg)"
proof -
  have u: "untouched cfg (empty_report cfg\<lparr>rt_base := b, rt_head := d\<rparr>)" "untouched cfg (empty_report cfg\<lparr>rt_base := b\<rparr>)"
    "untouched cfg (empty_report cfg)" for b d
    by (simp_all add: untouched_def empty_report_def)
  show ?thesis unfolding attempt_def
    by (intro yields_bind [where m = "host m" for m] yields_host yields_bind [where m = "note_report f" for f] yields_note
        yields_bind [where m = "if b then m else n" for b m n] yields_if yields_return execute_yields untouched_in_order u)
qed

text \<open>C13. Whatever happens, the artifacts of a run are written from a report in which every proposal is audited and every applied repair
  met the policy. A run that returns has no errors and has accounted for every structural change: in a review item, a verified
  section or a proposal. One that raises has either failed to write its artifacts or reports exactly one error.\<close>
theorem run_healing_reports:
  assumes "run_healing e cfg h = (res, h')"
  shows "(\<exists>x. validate_config (he_is_dir e) cfg = Inl x \<and> res = Inl x \<and> h' = h) \<or>
    (\<exists>r patch h1 saved. write_run_outputs e r patch h1 = (saved, h') \<and> report_sound cfg r \<and>
       (\<forall>a \<in> set (rt_applied r). hf_apply cfg \<and> hf_confidence cfg \<le> ap_assessment a \<and> hf_confidence cfg \<le> ap_validation a \<and>
          ap_changes a \<noteq> [] \<and> (\<forall>i \<in> set (ap_changes a). \<exists>c \<in> set (rt_changes r). sg_id c = i \<and> sg_auto_fix c)) \<and>
       (case res of
          Inr r' \<Rightarrow> r' = r \<and> saved = Inr () \<and> rt_errors r = [] \<and> (\<forall>c \<in> set (rt_changes r). handled r (sg_id c))
        | Inl x \<Rightarrow> saved = Inl x \<or> saved = Inr () \<and> rt_status r = ''failed'' \<and> patch = [] \<and>
            fst x = OtherException ''HealingRunError'' \<and> (\<exists>t. rt_errors r = [(t, take 1000 (snd x))])))"
proof (cases "validate_config (he_is_dir e) cfg")
  case (Inl x)
  then show ?thesis using assms by (simp add: run_healing_def)
next
  case (Inr u)
  obtain out w where run: "attempt e cfg \<lparr>hw_report = empty_report cfg, hw_host = h\<rparr> = (out, w)" by fastforce
  have s: "settles (\<lambda>_. complete cfg) (in_order cfg) out (hw_report w)"
    by (rule yieldsD [where m = "attempt e cfg", OF _ run]) (simp add: attempt_yields)
  have policy: "\<forall>a \<in> set (rt_applied r). hf_apply cfg \<and> hf_confidence cfg \<le> ap_assessment a \<and> hf_confidence cfg \<le> ap_validation a \<and>
      ap_changes a \<noteq> [] \<and> (\<forall>i \<in> set (ap_changes a). \<exists>c \<in> set (rt_changes r). sg_id c = i \<and> sg_auto_fix c)" if r: "report_sound cfg r" for r
  proof
    fix a assume "a \<in> set (rt_applied r)"
    with r obtain rc s where rc: "applied_from a rc" "audited cfg r s rc" unfolding report_sound_def by blast
    then have f: "rc_disposition rc = Apply" "ap_assessment a = rc_assessment rc" "ap_validation a = rc_validation rc" "ap_changes a = rc_changes rc"
      by (simp_all add: applied_from_def)
    show "hf_apply cfg \<and> hf_confidence cfg \<le> ap_assessment a \<and> hf_confidence cfg \<le> ap_validation a \<and>
      ap_changes a \<noteq> [] \<and> (\<forall>i \<in> set (ap_changes a). \<exists>c \<in> set (rt_changes r). sg_id c = i \<and> sg_auto_fix c)"
      unfolding f(2-4) by (intro conjI applied_policy [OF rc(2) f(1)])
  qed
  show ?thesis
  proof (cases out)
    case (Inr patch)
    let ?r = "hw_report w"
    have c: "complete cfg ?r" using s Inr by simp
    then have "report_sound cfg ?r" "rt_errors ?r = []" "\<forall>c \<in> set (rt_changes ?r). handled ?r (sg_id c)"
      by (simp_all add: complete_def in_order_def)
    moreover obtain saved h2 where o: "write_run_outputs e ?r patch (hw_host w) = (saved, h2)" by fastforce
    moreover have "h' = h2 \<and> (case saved of Inl x \<Rightarrow> res = Inl x | Inr _ \<Rightarrow> res = Inr ?r)"
      using assms run Inr o \<open>validate_config (he_is_dir e) cfg = Inr u\<close>
      by (cases saved) (auto simp: run_healing_def io_bind_def)
    ultimately show ?thesis using policy by (intro disjI2 exI [of _ ?r] exI [of _ patch] exI [of _ "hw_host w"] exI [of _ saved]) (cases saved; auto)
  next
    case (Inl x)
    let ?r = "record_failure x (hw_report w)"
    have i: "in_order cfg (hw_report w)" using s Inl by simp
    have "report_sound cfg ?r" "rt_errors ?r = [(exn_type_name (fst x), take 1000 (exn_message x))]" "rt_status ?r = ''failed''"
      using i by (simp_all add: in_order_def report_sound_def record_failure_def audited_def decided_def)
    moreover obtain saved h2 where o: "write_run_outputs e ?r [] (hw_host w) = (saved, h2)" by fastforce
    moreover have "h' = h2 \<and> (case saved of Inl y \<Rightarrow> res = Inl y | Inr _ \<Rightarrow> res = Inl (OtherException ''HealingRunError'', exn_message x))"
      using assms run Inl o \<open>validate_config (he_is_dir e) cfg = Inr u\<close>
      by (cases saved) (auto simp: run_healing_def io_bind_def Let_def)
    ultimately show ?thesis using policy by (intro disjI2 exI [of _ ?r] exI [of _ "[]"] exI [of _ "hw_host w"] exI [of _ saved]) (cases saved; auto)
  qed
qed

text \<open>What a configuration from the environment satisfies, and what the exit codes mean.\<close>

lemma config_bounds:
  assumes "config_from_environment is_dir resolve number integer env a = Inr c"
  shows "1 \<le> hf_top_k c" "hf_top_k c \<le> 20" "hf_top_k c \<le> hf_max_candidates c" "hf_max_candidates c \<le> 100" "1000 \<le> hf_max_section c"
    "hf_max_section c \<le> 100000" "0 \<le> hf_confidence c" "hf_confidence c \<le> 1" "hf_apply c = hg_apply a" "validate_config is_dir c = Inr ()"
proof -
  from assms obtain u where v: "validate_config is_dir c = Inr u" "hf_apply c = hg_apply a"
    unfolding config_from_environment_def rbind_eq_Inr Let_def by auto
  then show "1 \<le> hf_top_k c" "hf_top_k c \<le> 20" "hf_top_k c \<le> hf_max_candidates c" "hf_max_candidates c \<le> 100" "1000 \<le> hf_max_section c"
    "hf_max_section c \<le> 100000" "0 \<le> hf_confidence c" "hf_confidence c \<le> 1" "hf_apply c = hg_apply a" "validate_config is_dir c = Inr ()"
    unfolding validate_config_def by (simp_all split: if_splits)
qed

lemma healing_exit_codes:
  assumes "healing_main e resolve number integer env a h = (Inr k, h')"
  shows "k = 0 \<and> (\<exists>cfg r. config_from_environment (he_is_dir e) resolve number integer env (output_dir a) = Inr cfg \<and>
      run_healing e cfg h = (Inr r, h')) \<or>
    k = 1 \<and> (\<exists>x. config_from_environment (he_is_dir e) resolve number integer env (output_dir a) = Inl x \<and> h' = h \<or>
      (\<exists>cfg. config_from_environment (he_is_dir e) resolve number integer env (output_dir a) = Inr cfg \<and> run_healing e cfg h = (Inl x, h')))"
  using assms
  by (cases "config_from_environment (he_is_dir e) resolve number integer env (output_dir a)")
    (auto simp: healing_main_def io_catch_def io_bind_def split: if_splits prod.splits sum.splits)

section \<open>What a run writes\<close>

text \<open>Git lists no tracked path twice.\<close>

definition lists_once :: "'w healing_env \<Rightarrow> bool" where
  "lists_once e \<longleftrightarrow> (\<forall>w out w' ps. he_git e [''ls-files'', ''-z'', ''--'', ''*.md''] w = (Inr out, w') \<longrightarrow>
     tracked_markdown_paths (he_files e) (he_decode e) out = Inr ps \<longrightarrow> distinct ps)"

text \<open>A replacement that the policy lets through, and the writes that apply such replacements.\<close>

definition may_replace :: "healing_config \<Rightarrow> replacement \<Rightarrow> bool" where
  "may_replace cfg q \<longleftrightarrow> hf_confidence cfg \<le> pm_assessment q \<and> hf_confidence cfg \<le> pm_validation q \<and> pm_changes q \<noteq> [] \<and>
     pm_body q \<noteq> ds_body (pm_section q) \<and>
     (\<exists>p. normalize_replacement_body (pm_section q) p (nat (hf_max_section cfg)) = Inr (pm_body q))"

definition allowed_write :: "'w healing_env \<Rightarrow> healing_config \<Rightarrow> str \<Rightarrow> str \<Rightarrow> bool" where
  "allowed_write e cfg full bytes \<longleftrightarrow> hf_apply cfg \<and> (\<exists>docs rs path t. blocks_known docs rs \<and> (\<forall>q \<in> set rs. may_replace cfg q) \<and>
     path \<in> (\<lambda>q. ds_path (pm_section q)) ` set rs \<and> repaired docs rs path t \<and> safe_markdown_path (he_files e) path = Inr full \<and>
     bytes = utf8_encode t)"

lemma pending_may_replace:
  assumes "pending_ok cfg r all qr" shows "may_replace cfg (fst qr)" "pm_section (fst qr) \<in> set all"
proof -
  let ?q = "fst qr" and ?rc = "snd qr"
  from assms have ok: "rc_eligible ?rc" "audited cfg r (pm_section ?q) ?rc" "pm_body ?q = rc_body ?rc" "pm_changes ?q = rc_changes ?rc"
    "pm_assessment ?q = rc_assessment ?rc" "pm_validation ?q = rc_validation ?rc" "pm_section ?q \<in> set all"
    by (simp_all add: pending_ok_def Let_def)
  from ok(2) obtain cs a p where x: "cs \<noteq> []" "normalize_replacement_body (pm_section ?q) (po_body p) (nat (hf_max_section cfg)) = Inr (rc_body ?rc)"
    "rc_body ?rc \<noteq> ds_body (pm_section ?q)" "?rc = repair_record_of cfg (pm_section ?q) cs a p (rc_body ?rc) (rc_verdict ?rc)"
    unfolding audited_def by metis
  have "rc_assessment ?rc = as_confidence a" "rc_validation ?rc = va_confidence (rc_verdict ?rc)" "rc_changes ?rc = map sg_id cs"
    "rc_eligible ?rc = eligible cfg cs a (rc_verdict ?rc)"
    by (subst x(4), simp add: repair_record_of_def)+
  with ok x(1-3) show "may_replace cfg ?q" by (auto simp: may_replace_def eligible_def)
  show "pm_section ?q \<in> set all" by (rule ok(7))
qed

lemma bind_cong_run:
  assumes "\<And>x w1. m w = (Inr x, w1) \<Longrightarrow> f x w1 = g x w1" shows "io_bind m f w = io_bind m g w"
  using assms by (auto simp: io_bind_def split: prod.splits sum.splits)

lemma host_Inr: "host m w = (Inr x, w1) \<Longrightarrow> m (hw_host w) = (Inr x, hw_host w1) \<and> hw_report w1 = hw_report w"
  by (auto simp: host_def split: prod.splits)

lemma process_section_put [simp]: "process_section (e\<lparr>he_put := put\<rparr>) cfg all s cs = process_section e cfg all s cs"
  by (simp add: process_section_def check_proposal_def Let_def cong: if_cong sum.case_cong)

lemma process_matches_put [simp]: "process_matches (e\<lparr>he_put := put\<rparr>) cfg cs all gs = process_matches e cfg cs all gs"
  by (induction gs) (auto split: option.splits)

lemma judge_matches_put [simp]: "judge_matches (e\<lparr>he_put := put\<rparr>) cfg cs all found = judge_matches e cfg cs all found"
  by (simp add: judge_matches_def)

lemma apply_replacements_put:
  assumes "blocks_known docs rs" "\<forall>q \<in> set rs. may_replace cfg q" "hf_apply cfg"
    "\<And>full bytes w. allowed_write e cfg full bytes \<Longrightarrow> put full bytes w = he_put e full bytes w"
  shows "apply_markdown_replacements (he_files e) put docs rs = apply_markdown_replacements (he_files e) (he_put e) docs rs"
proof (cases "prepare (he_files e) docs (sort_key fst (group_replacements rs))")
  case (Inr ps)
  have "write_all put ps = write_all (he_put e) ps"
  proof (rule write_all_cong, rule assms(4))
    fix path full t assume "(path, full, t) \<in> set ps"
    note p = prepared_repairs [OF assms(1) Inr this]
    show "allowed_write e cfg full (utf8_encode t)"
      unfolding allowed_write_def by (intro conjI exI) (rule assms(3) assms(1) assms(2) p(3) p(1) p(2) refl)+
  qed
  then show ?thesis by (simp add: apply_markdown_replacements_def io_bind_def [abs_def] Inr)
qed (auto simp: apply_markdown_replacements_def io_bind_def)

lemma apply_pending_put:
  assumes "corpus_ok docs all" "\<forall>q \<in> set pending. pending_ok cfg r all q"
    "\<And>full bytes w. allowed_write e cfg full bytes \<Longrightarrow> put full bytes w = he_put e full bytes w"
  shows "apply_pending (e\<lparr>he_put := put\<rparr>) cfg docs pending = apply_pending e cfg docs pending"
proof (cases "hf_apply cfg")
  case True
  have "blocks_known docs (map fst pending)" using assms(1,2) pending_may_replace(2) by (fastforce simp: blocks_known_def corpus_ok_def)
  moreover have "\<forall>q \<in> set (map fst pending). may_replace cfg q" using assms(2) pending_may_replace(1) by auto
  ultimately have "apply_markdown_replacements (he_files e) put docs (map fst pending) =
      apply_markdown_replacements (he_files e) (he_put e) docs (map fst pending)"
    using True assms(3) by (rule apply_replacements_put)
  then show ?thesis by (simp add: apply_pending_def)
qed (simp add: apply_pending_def)

lemma loaded_corpus_ok:
  assumes "lists_once e" "load_markdown_corpus (he_files e) (he_decode e) (he_read e) (he_git e [''ls-files'', ''-z'', ''--'', ''*.md'']) w = (Inr (docs, all), w')"
  shows "corpus_ok docs all"
proof -
  from assms(2) obtain out w1 ps where run: "he_git e [''ls-files'', ''-z'', ''--'', ''*.md''] w = (Inr out, w1)"
    "tracked_markdown_paths (he_files e) (he_decode e) out = Inr ps"
    "load_documents (he_files e) (he_decode e) (he_read e) ps [] [] w1 = (Inr (docs, all), w')"
    by (auto simp: load_markdown_corpus_def io_bind_eq_Inr)
  have "distinct ps" using assms(1) run(1,2) unfolding lists_once_def by blast
  then show ?thesis by (intro load_documents_ok [OF run(3)]) (simp_all add: corpus_ok_def)
qed

lemma repair_corpus_put:
  assumes "corpus_ok docs all" "rt_changes (hw_report w) = cs"
    and "\<And>full bytes w. allowed_write e cfg full bytes \<Longrightarrow> put full bytes w = he_put e full bytes w"
  shows "repair_corpus (e\<lparr>he_put := put\<rparr>) cfg cs docs all w = repair_corpus e cfg cs docs all w"
proof (cases "all = []")
  case False
  have judge: "io_bind (judge_matches e cfg cs all found) (\<lambda>pending. io_bind (apply_pending (e\<lparr>he_put := put\<rparr>) cfg docs pending) f) w2 =
      io_bind (judge_matches e cfg cs all found) (\<lambda>pending. io_bind (apply_pending e cfg docs pending) f) w2"
    if "rt_changes (hw_report w2) = cs" for found f w2
  proof (rule bind_cong_run)
    fix pending w3 assume run: "judge_matches e cfg cs all found w2 = (Inr pending, w3)"
    from yieldsD [where m = "judge_matches e cfg cs all found", OF judge_matches_yields [OF that] run]
    have "\<forall>q \<in> set pending. pending_ok cfg (hw_report w3) all q" by simp
    from apply_pending_put [OF assms(1) this assms(3)]
    show "io_bind (apply_pending (e\<lparr>he_put := put\<rparr>) cfg docs pending) f w3 = io_bind (apply_pending e cfg docs pending) f w3" by simp
  qed
  show ?thesis unfolding repair_corpus_def using False
    by (simp, intro bind_cong_run judge) (auto dest!: host_Inr simp: assms(2))
qed (simp add: repair_corpus_def)

lemma execute_put:
  assumes "lists_once e" "\<And>full bytes w. allowed_write e cfg full bytes \<Longrightarrow> put full bytes w = he_put e full bytes w"
  shows "execute (e\<lparr>he_put := put\<rparr>) cfg w = execute e cfg w"
proof -
  have corpus: "io_bind (host (load_markdown_corpus (he_files e) (he_decode e) (he_read e) (he_git e [''ls-files'', ''-z'', ''--'', ''*.md''])))
        (\<lambda>(docs, all). repair_corpus (e\<lparr>he_put := put\<rparr>) cfg cs docs all) w1 =
      io_bind (host (load_markdown_corpus (he_files e) (he_decode e) (he_read e) (he_git e [''ls-files'', ''-z'', ''--'', ''*.md''])))
        (\<lambda>(docs, all). repair_corpus e cfg cs docs all) w1" if "rt_changes (hw_report w1) = cs" for cs and w1 :: "'a healing_world"
  proof (rule bind_cong_run)
    fix da w2
    assume "host (load_markdown_corpus (he_files e) (he_decode e) (he_read e) (he_git e [''ls-files'', ''-z'', ''--'', ''*.md''])) w1 = (Inr da, w2)"
    from host_Inr [OF this] have "load_markdown_corpus (he_files e) (he_decode e) (he_read e) (he_git e [''ls-files'', ''-z'', ''--'', ''*.md''])
        (hw_host w1) = (Inr (fst da, snd da), hw_host w2)" "rt_changes (hw_report w2) = cs" by (simp_all add: that)
    from repair_corpus_put [OF loaded_corpus_ok [OF assms(1) this(1)] this(2) assms(2)]
    show "(case da of (docs, all) \<Rightarrow> repair_corpus (e\<lparr>he_put := put\<rparr>) cfg cs docs all) w2 = (case da of (docs, all) \<Rightarrow> repair_corpus e cfg cs docs all) w2"
      by (simp add: case_prod_beta)
  qed
  show ?thesis unfolding execute_def
    by simp (intro bind_cong_run, auto simp: note_report_def corpus)
qed

lemma attempt_put:
  assumes "lists_once e" "\<And>full bytes w. allowed_write e cfg full bytes \<Longrightarrow> put full bytes w = he_put e full bytes w"
  shows "attempt (e\<lparr>he_put := put\<rparr>) cfg w = attempt e cfg w"
proof -
  have "execute (e\<lparr>he_put := put\<rparr>) cfg = execute e cfg" by (rule ext, rule execute_put [OF assms])
  then show ?thesis by (simp add: attempt_def cong: if_cong)
qed


section \<open>Examples\<close>

definition ex_healing_git :: "'w git" where
  "ex_healing_git args = (case args of
     cmd # opts \<Rightarrow> if cmd = ''rev-parse'' then io_return ''abc'' else if cmd = ''ls-files'' then io_return (''a.md'' @ [CHR 0x00])
       else if cmd = ''diff'' \<and> opts = [''--'', ''a.md''] then io_return ''+y'' else io_return []
   | [] \<Rightarrow> io_return [])"

definition ex_assessment :: assessment where
  "ex_assessment = \<lparr>as_stale = True, as_confidence = 1, as_complexity = Bounded, as_diagnosis = ''stale'', as_facts = []\<rparr>"

definition ex_verdict :: validation where
  "ex_verdict = \<lparr>va_accurate = True, va_preserves = True, va_style = True, va_grounded = True, va_confidence = 1, va_issues = []\<rparr>"

definition ex_proposal :: proposal where
  "ex_proposal = \<lparr>po_body = ''y'', po_rationale = ''r''\<rparr>"

definition ex_repairer :: "'w repair_provider" where
  "ex_repairer = \<lparr>hp_assess = \<lambda>_ _. io_return ex_assessment, hp_propose = \<lambda>_ _ _ _. io_return ex_proposal,
     hp_validate = \<lambda>_ _ _ _ _. io_return ex_verdict\<rparr>"

definition ex_host :: "structural_change list \<Rightarrow> (str \<times> str) list healing_env" where
  "ex_host cs = \<lparr>he_git = ex_healing_git, he_decode = Inr, he_files = ex_files, he_read = \<lambda>_. io_return (md_text ex_markdown), he_put = ex_put,
     he_is_dir = \<lambda>_. True, he_extract = \<lambda>_. Inr cs, he_ready = io_return (), he_embed = \<lambda>ts. io_return (map (\<lambda>_. [Some 1]) ts),
     he_provider = ex_repairer, he_dash = '' - '', he_json = \<lambda>_. [], he_summary = \<lambda>_. [], he_save = \<lambda>_ _. io_return ()\<rparr>"

definition ex_config :: healing_config where
  "ex_config = \<lparr>hf_root = ''/r'', hf_base = ''b'', hf_head = ''h'', hf_output = ''/o'', hf_apply = True, hf_model = ''m'', hf_embedding_model = ''e'',
     hf_effort = ''low'', hf_similarity = 0, hf_confidence = 9 / 10, hf_top_k = 5, hf_max_candidates = 20, hf_max_section = 16000\<rparr>"

lemma ex_lists_once: "lists_once (ex_host cs)"
proof -
  have "tracked_markdown_paths ex_files Inr (''a.md'' @ [CHR 0x00]) = Inr [''a.md'']" by code_simp
  then show ?thesis by (auto simp: lists_once_def ex_host_def ex_healing_git_def)
qed


lemma ex_quiet_run: "\<exists>r. run_healing (ex_host []) ex_config [] = (Inr r, [])"
proof -
  have git: "resolve_commit ex_healing_git r w = (Inr ''abc'', w)" "discover_source_deltas ex_healing_git Inr b h w = (Inr [], w)"
    "require_clean_worktree ex_healing_git w = (Inr (), w)" for r b h and w :: "(str \<times> str) list"
    by code_simp+
  have env: "he_git (ex_host []) = ex_healing_git" "he_decode (ex_host []) = Inr" "he_extract (ex_host []) ds = Inr []" for ds
    by (simp_all add: ex_host_def)
  obtain w where w: "attempt (ex_host []) ex_config \<lparr>hw_report = empty_report ex_config, hw_host = []\<rparr> = (Inr [], w)" "hw_host w = []"
    by (simp add: attempt_def execute_def env host_def io_bind_def git note_report_def get_report_def require_head_checkout_def)
  have "validate_config (he_is_dir (ex_host [])) ex_config = Inr ()" by (simp add: validate_config_def ex_config_def ex_host_def)
  with w show ?thesis by (simp add: run_healing_def write_run_outputs_def ex_host_def io_bind_def)
qed

theorem run_healing_reports_witness:
  "\<exists>r. run_healing (ex_host []) ex_config [] = (Inr r, []) \<and> rt_errors r = [] \<and> report_sound ex_config r"
proof -
  from ex_quiet_run obtain r where run: "run_healing (ex_host []) ex_config [] = (Inr r, [])" ..
  have "validate_config (he_is_dir (ex_host [])) ex_config = Inr ()" by (simp add: validate_config_def ex_config_def ex_host_def)
  with run_healing_reports [OF run] run show ?thesis by auto
qed

text \<open>The checks after the writes come too late to undo them: when one fails, the files have changed, while the report of the failed run
  names no applied repair and its patch is empty. They do fail for a path with a blank, which \<open>git status\<close> prints in quotes.\<close>

definition ex_pending :: "replacement \<times> repair_record" where
  "ex_pending = (let s = hd (split_markdown_document ex_markdown) in
     (replacement_of s [ex_change] ex_assessment (ex_lines [''y'']) ex_verdict,
      repair_record_of ex_config s [ex_change] ex_assessment ex_proposal (ex_lines [''y'']) ex_verdict))"

lemma late_failure:
  "apply_pending (ex_host [ex_change]) ex_config [(''a.md'', ex_markdown)] [ex_pending] \<lparr>hw_report = empty_report ex_config, hw_host = []\<rparr> =
    (Inl (git_error ''reported Markdown changes are absent from the worktree: a.md''),
     \<lparr>hw_report = empty_report ex_config, hw_host = [(''/r/a.md'', ex_lines [''# A'', ''y'', ''# B'', ex_fence, ''# B'', ex_fence])]\<rparr>)"
proof -
  have "apply_markdown_replacements ex_files ex_put [(''a.md'', ex_markdown)] (map fst [ex_pending]) [] =
     (Inr [''a.md''], [(''/r/a.md'', ex_lines [''# A'', ''y'', ''# B'', ex_fence, ''# B'', ex_fence])])" by code_simp
  moreover have "validate_markdown_worktree_changes ex_healing_git [''a.md''] w =
     (Inl (git_error ''reported Markdown changes are absent from the worktree: a.md''), w)" for w :: "(str \<times> str) list"
    by code_simp
  moreover have "hf_apply ex_config" by (simp add: ex_config_def)
  ultimately show ?thesis by (simp add: apply_pending_def io_bind_def host_def ex_host_def)
qed

lemma quoted_path_rejected:
  "check_status_line [''a b.md''] ('' M '' @ [CHR 0x22] @ ''a b.md'' @ [CHR 0x22]) =
    Inl (git_error (''unexpected worktree change after healing: '' @ [CHR 0x22] @ ''a b.md'' @ [CHR 0x22]))"
  by code_simp

end
